(* ===== verification/Latypus_Prelude.thy ===== *)
theory Latypus_Prelude
  imports Main "HOL-Library.Word"
begin

text \<open>
  Shared vocabulary of the development: the widths of the C++ integers, C strings, the ways a
  C++ operation can leave defined behaviour, and generic facts on lists, options and words that
  several components use. Nothing here is specific to one component.
\<close>

unbundle bit_operations_syntax

type_synonym u8 = "8 word"
type_synonym u16 = "16 word"
type_synonym u32 = "32 word"
type_synonym u64 = "64 word"
type_synonym byte = "8 word"

text \<open>
  A C++ operation that reads or writes outside an object, shifts or overflows in a way the
  language leaves undefined, fails an \<^verbatim>\<open>assert\<close> or follows a null pointer, has no meaningful continuation. The model
  returns one of these values instead of a result.
\<close>

datatype cxx_error = OutOfBounds | Undefined | AssertFailed | NullPointer

type_synonym 'a cxx = "cxx_error + 'a"

definition bind_cxx :: "'a cxx \<Rightarrow> ('a \<Rightarrow> 'b cxx) \<Rightarrow> 'b cxx" where
  "bind_cxx m f = (case m of Inl e \<Rightarrow> Inl e | Inr x \<Rightarrow> f x)"

named_theorems cxx_simps \<open>evaluation of the error-propagating operations\<close>

lemma bind_cxx_simps [simp, cxx_simps]:
  "bind_cxx (Inl e) f = Inl e"
  "bind_cxx (Inr x) f = f x"
  by (simp_all add: bind_cxx_def)

lemma bind_cxx_Inr_iff: "bind_cxx m f = Inr y \<longleftrightarrow> (\<exists>x. m = Inr x \<and> f x = Inr y)"
  by (cases m) auto

lemma bind_cxx_assoc: "bind_cxx (bind_cxx m f) g = bind_cxx m (\<lambda>x. bind_cxx (f x) g)"
  by (auto simp: bind_cxx_def split: sum.splits)

lemma bind_cxx_cong [fundef_cong]:
  assumes "m = m'" "\<And>x. m' = Inr x \<Longrightarrow> f x = g x"
  shows "bind_cxx m f = bind_cxx m' g"
  using assms by (auto simp: bind_cxx_def split: sum.splits)

text \<open>A loop that applies a fallible step to each element.\<close>

fun fold_cxx :: "('s \<Rightarrow> 'e \<Rightarrow> 's cxx) \<Rightarrow> 's \<Rightarrow> 'e list \<Rightarrow> 's cxx" where
  "fold_cxx f s [] = Inr s"
| "fold_cxx f s (e # es) = bind_cxx (f s e) (\<lambda>s. fold_cxx f s es)"

lemma fold_cxx_inv:
  assumes "\<And>s e. P s \<Longrightarrow> Q e \<Longrightarrow> \<exists>s'. f s e = Inr s' \<and> P s'" "P s" "list_all Q es"
  shows "\<exists>s'. fold_cxx f s es = Inr s' \<and> P s'"
  using assms(2,3)
proof (induction es arbitrary: s)
  case (Cons e es)
  then obtain s' where "f s e = Inr s'" "P s'"
    using assms(1) [of s e] by auto
  with Cons show ?case by simp
qed simp

lemma bind_cxx_if: "bind_cxx (if b then m else m') f = (if b then bind_cxx m f else bind_cxx m' f)"
  by simp

text \<open>Array accesses with the bounds check that C++ leaves to the programmer.\<close>

definition index_cxx :: "'a list \<Rightarrow> nat \<Rightarrow> 'a cxx" where
  "index_cxx xs i = (if i < length xs then Inr (xs ! i) else Inl OutOfBounds)"

definition read_range :: "'a list \<Rightarrow> nat \<Rightarrow> nat \<Rightarrow> 'a list cxx" where
  "read_range xs off n = (if off + n \<le> length xs then Inr (take n (drop off xs)) else Inl OutOfBounds)"

definition overwrite :: "'a list \<Rightarrow> nat \<Rightarrow> 'a list \<Rightarrow> 'a list" where
  "overwrite xs off ys = take off xs @ ys @ drop (off + length ys) xs"

definition write_range :: "'a list \<Rightarrow> nat \<Rightarrow> 'a list \<Rightarrow> 'a list cxx" where
  "write_range xs off ys =
     (if off + length ys \<le> length xs then Inr (overwrite xs off ys) else Inl OutOfBounds)"

lemma index_cxx_Inr [simp]: "i < length xs \<Longrightarrow> index_cxx xs i = Inr (xs ! i)"
  by (simp add: index_cxx_def)

lemma index_cxx_Inr_iff: "index_cxx xs i = Inr x \<longleftrightarrow> i < length xs \<and> x = xs ! i"
  by (auto simp: index_cxx_def)

lemma read_range_Inr [simp]: "off + n \<le> length xs \<Longrightarrow> read_range xs off n = Inr (take n (drop off xs))"
  by (simp add: read_range_def)

lemma write_range_Inr [simp]:
  "off + length ys \<le> length xs \<Longrightarrow> write_range xs off ys = Inr (overwrite xs off ys)"
  by (simp add: write_range_def)

lemma length_overwrite [simp]: "off + length ys \<le> length xs \<Longrightarrow> length (overwrite xs off ys) = length xs"
  by (simp add: overwrite_def)

lemma overwrite_Nil [simp]: "overwrite xs off [] = xs"
  by (simp add: overwrite_def)

lemma nth_overwrite:
  assumes "off + length ys \<le> length xs" "i < length xs"
  shows "overwrite xs off ys ! i = (if off \<le> i \<and> i < off + length ys then ys ! (i - off) else xs ! i)"
  using assms by (auto simp: overwrite_def nth_append min_def)

lemma nth_overwrite_single:
  "off < length xs \<Longrightarrow> i < length xs \<Longrightarrow> overwrite xs off [y] ! i = (if i = off then y else xs ! i)"
  by (simp add: nth_overwrite)

lemma take_drop_overwrite_same:
  assumes "off + length ys \<le> length xs"
  shows "take (length ys) (drop off (overwrite xs off ys)) = ys"
  using assms by (simp add: overwrite_def)

lemma take_overwrite:
  assumes "off + length ys \<le> length xs" "n \<le> off"
  shows "take n (overwrite xs off ys) = take n xs"
  using assms by (simp add: overwrite_def min_def)

text \<open>
  A slice that ends before the written range, and one that starts after it, are left alone.
\<close>

lemma slice_overwrite_before:
  assumes "off + length ys \<le> length xs" "o' + n \<le> off"
  shows "take n (drop o' (overwrite xs off ys)) = take n (drop o' xs)"
proof (rule nth_equalityI)
  show "length (take n (drop o' (overwrite xs off ys))) = length (take n (drop o' xs))"
    using assms by simp
  fix i
  assume "i < length (take n (drop o' (overwrite xs off ys)))"
  with assms show "take n (drop o' (overwrite xs off ys)) ! i = take n (drop o' xs) ! i"
    by (simp add: nth_overwrite)
qed

text \<open>Masks of low bits, as the source writes them.\<close>

lemma and_low_mask:
  "x AND 3 = take_bit 2 x" "x AND 15 = take_bit 4 x" "x AND 63 = take_bit 6 x"
  "x AND 255 = take_bit 8 x"
  for x :: "'a::len word"
  by (simp_all add: take_bit_eq_mask mask_eq_exp_minus_1)

lemma unat_take_bit_less: "unat (take_bit n x) < 2 ^ n" for x :: "'a::len word"
  by (simp add: unsigned_take_bit_eq)

lemma ucast_ucast_up:
  assumes "LENGTH('a) \<le> LENGTH('b)"
  shows "ucast (ucast (x :: 'a::len word) :: 'b::len word) = x"
  by (rule bit_word_eqI) (use assms in \<open>auto simp: bit_simps\<close>)

text \<open>C strings: a \<^verbatim>\<open>const char*\<close> is read up to its first NUL.\<close>

abbreviation NUL :: char where
  "NUL \<equiv> CHR 0x00"

definition c_str :: "string \<Rightarrow> string" where
  "c_str s = takeWhile (\<lambda>c. c \<noteq> NUL) s"

lemma c_str_id [simp]: "NUL \<notin> set s \<Longrightarrow> c_str s = s"
  by (auto simp: c_str_def takeWhile_eq_all_conv)

lemma c_str_no_NUL [simp]: "NUL \<notin> set (c_str s)"
  by (auto simp: c_str_def dest: set_takeWhileD)

lemma c_str_c_str [simp]: "c_str (c_str s) = c_str s"
  by simp

text \<open>\<^verbatim>\<open>isspace\<close> in the C locale, which the number parsers of the C library skip.\<close>

definition c_isspace :: "char \<Rightarrow> bool" where
  "c_isspace c \<longleftrightarrow> of_char c = (32::nat) \<or> (9 \<le> (of_char c :: nat) \<and> (of_char c :: nat) \<le> 13)"

text \<open>
  Unsigned subtraction of two \<^verbatim>\<open>size_t\<close> values, and the conversion of a \<^verbatim>\<open>size_t\<close> to \<^verbatim>\<open>ssize_t\<close>.
\<close>

definition size_sub :: "nat \<Rightarrow> nat \<Rightarrow> nat" where
  "size_sub a b = (if b \<le> a then a - b else 2 ^ 64 - (b - a))"

definition to_ssize :: "nat \<Rightarrow> int" where
  "to_ssize n = (if n < 2 ^ 63 then int n else int n - 2 ^ 64)"

lemma size_sub_le [simp]: "b \<le> a \<Longrightarrow> size_sub a b = a - b"
  by (simp add: size_sub_def)

lemma to_ssize_small [simp]: "n < 2 ^ 63 \<Longrightarrow> to_ssize n = int n"
  by (simp add: to_ssize_def)

text \<open>\<^verbatim>\<open>std::vector::resize\<close>: the common prefix is kept and new elements are zero.\<close>

definition vector_resize :: "'a::zero list \<Rightarrow> nat \<Rightarrow> 'a list" where
  "vector_resize xs n = take n xs @ replicate (n - length xs) 0"

lemma length_vector_resize [simp]: "length (vector_resize xs n) = n"
  by (simp add: vector_resize_def)

end
