(* ===== verification/Bits.thy ===== *)
theory Bits
  imports Latypus_Prelude
begin

text \<open>
  The bit-twiddling templates of \<^verbatim>\<open>src/bits.h\<close>. A template parameter \<^verbatim>\<open>T\<close> of
  \<^verbatim>\<open>sizeof(T) << 3\<close> bits is a word type \<open>'a word\<close> with \<open>LENGTH('a)\<close> bits; for the templates that
  exist for signed and unsigned types the signedness of \<^verbatim>\<open>R\<close> is a parameter.
\<close>

section \<open>Limits of an integer type and the overflow checks\<close>

datatype signedness = Signed | Unsigned

text \<open>The value of a word, and the order \<^verbatim>\<open><\<close>, \<^verbatim>\<open><=\<close>, \<^verbatim>\<open>>=\<close> of C++, at a given signedness.\<close>

definition val_of :: "signedness \<Rightarrow> 'a::len word \<Rightarrow> int" where
  "val_of s w = (case s of Signed \<Rightarrow> sint w | Unsigned \<Rightarrow> uint w)"

definition type_half_max_signed :: "'a::len word" where
  "type_half_max_signed = push_bit (LENGTH('a) - 2) 1"

definition type_max_signed :: "'a::len word" where
  "type_max_signed = type_half_max_signed - 1 + type_half_max_signed"

definition type_min_signed :: "'a::len word" where
  "type_min_signed = - 1 - type_max_signed"

definition type_min :: "signedness \<Rightarrow> 'a::len word" where
  "type_min s = (if val_of s (- 1 :: 'a word) < val_of s (1 :: 'a word) then type_min_signed else 0)"

definition type_max :: "signedness \<Rightarrow> 'a::len word" where
  "type_max s = NOT (type_min s)"

definition add_overflow :: "signedness \<Rightarrow> 'a::len word \<Rightarrow> 'a word \<Rightarrow> bool" where
  "add_overflow s a b =
     (if val_of s b < val_of s (1 :: 'a word)
      then (if val_of s (type_min s - b) \<le> val_of s a then False else True)
      else (if val_of s (type_max s - b) \<ge> val_of s a then False else True))"

definition sub_underflow :: "signedness \<Rightarrow> 'a::len word \<Rightarrow> 'a word \<Rightarrow> bool" where
  "sub_underflow s a b =
     (if val_of s b < val_of s (1 :: 'a word)
      then (if val_of s (type_max s + b) \<ge> val_of s a then False else True)
      else (if val_of s (type_min s + b) \<le> val_of s a then False else True))"

section \<open>Counting bits\<close>

definition bit_test :: "'a::len word \<Rightarrow> nat \<Rightarrow> bool" where
  "bit_test val i \<longleftrightarrow> val AND push_bit i 1 \<noteq> 0"

definition to_binary_string :: "'a::len word \<Rightarrow> string" where
  "to_binary_string val =
     fold (\<lambda>i buf. buf[LENGTH('a) - i - 1 := (if bit_test val i then CHR ''1'' else CHR ''0'')])
       [0..<LENGTH('a)] (replicate (LENGTH('a)) NUL)"

definition popcount :: "'a::len word \<Rightarrow> u32" where
  "popcount val = fold (\<lambda>i count. count + (if bit_test val i then 1 else 0)) [0..<LENGTH('a)] 0"

text \<open>
  One round of the loops of \<open>clz\<close> and \<open>ctz\<close>: \<open>found\<close> is sticky, and \<open>count\<close> grows by \<^verbatim>\<open>!found\<close>.
\<close>

definition count_round :: "'a::len word \<Rightarrow> nat \<Rightarrow> u32 \<times> bool \<Rightarrow> u32 \<times> bool" where
  "count_round val i st =
     (let found = snd st \<or> bit_test val i in (fst st + (if found then 0 else 1), found))"

definition clz :: "'a::len word \<Rightarrow> u32" where
  "clz val = fst (fold (count_round val) (rev [0..<LENGTH('a)]) (0, False))"

definition ctz :: "'a::len word \<Rightarrow> u32" where
  "ctz val = fst (fold (count_round val) [0..<LENGTH('a)] (0, False))"

definition ispow2 :: "'a::len word \<Rightarrow> bool" where
  "ispow2 val \<longleftrightarrow> val \<noteq> 0 \<and> val AND (val - 1) = 0"

text \<open>
  \<open>1 << n\<close> is an \<^verbatim>\<open>int\<close> shift: defined for \<open>n < 32\<close> only, and converted from \<^verbatim>\<open>int\<close> to the type
  of the result, with sign extension.
\<close>

definition int_one_shl :: "nat \<Rightarrow> u32 cxx" where
  "int_one_shl n = (if n < 32 then Inr (push_bit n 1) else Inl Undefined)"

definition roundpow2 :: "'a::len word \<Rightarrow> 'a word cxx" where
  "roundpow2 val =
     (if ispow2 val then Inr val
      else bind_cxx (int_one_shl (LENGTH('a) - unat (clz val))) (\<lambda>r. Inr (scast r)))"

section \<open>Population counts without the compiler builtin\<close>

definition popcount_u16 :: "u16 \<Rightarrow> u32" where
  "popcount_u16 v0 =
     (let v1 = (v0 AND 0x5555) + (drop_bit 1 v0 AND 0x5555);
          v2 = (v1 AND 0x3333) + (drop_bit 2 v1 AND 0x3333);
          v3 = (v2 AND 0x0F0F) + (drop_bit 4 v2 AND 0x0F0F);
          v4 = (v3 AND 0x00FF) + (drop_bit 8 v3 AND 0x00FF)
      in ucast v4)"

definition popcount_u32 :: "u32 \<Rightarrow> u32" where
  "popcount_u32 v0 =
     (let v1 = (v0 AND 0x55555555) + (drop_bit 1 v0 AND 0x55555555);
          v2 = (v1 AND 0x33333333) + (drop_bit 2 v1 AND 0x33333333);
          v3 = (v2 AND 0x0F0F0F0F) + (drop_bit 4 v2 AND 0x0F0F0F0F);
          v4 = (v3 AND 0x00FF00FF) + (drop_bit 8 v3 AND 0x00FF00FF)
      in (v4 AND 0x0000FFFF) + (drop_bit 16 v4 AND 0x0000FFFF))"

definition popcount_u64 :: "u64 \<Rightarrow> u32" where
  "popcount_u64 v0 =
     (let v1 = (v0 AND 0x5555555555555555) + (drop_bit 1 v0 AND 0x5555555555555555);
          v2 = (v1 AND 0x3333333333333333) + (drop_bit 2 v1 AND 0x3333333333333333);
          v3 = (v2 AND 0x0F0F0F0F0F0F0F0F) + (drop_bit 4 v2 AND 0x0F0F0F0F0F0F0F0F);
          v4 = (v3 AND 0x00FF00FF00FF00FF) + (drop_bit 8 v3 AND 0x00FF00FF00FF00FF);
          v5 = (v4 AND 0x0000FFFF0000FFFF) + (drop_bit 16 v4 AND 0x0000FFFF0000FFFF)
      in ucast v5 + ucast (drop_bit 32 v5))"

section \<open>Specialisations through the compiler builtins\<close>

text \<open>
  Under GCC and Clang the templates are specialised to the compiler's builtins, which are
  parameters here. The builtin is called before the zero test, and its value ignored when the
  argument is zero.
\<close>

definition popcount_u16_gcc :: "(u32 \<Rightarrow> int) \<Rightarrow> u16 \<Rightarrow> u32" where
  "popcount_u16_gcc builtin_popcount val = of_int (builtin_popcount (ucast val))"

definition popcount_u32_gcc :: "(u32 \<Rightarrow> int) \<Rightarrow> u32 \<Rightarrow> u32" where
  "popcount_u32_gcc builtin_popcount val = of_int (builtin_popcount val)"

definition popcount_u64_gcc :: "(u64 \<Rightarrow> int) \<Rightarrow> u64 \<Rightarrow> u32" where
  "popcount_u64_gcc builtin_popcountll val = of_int (builtin_popcountll val)"

definition clz_u16_gcc :: "(u32 \<Rightarrow> int) \<Rightarrow> u16 \<Rightarrow> u32" where
  "clz_u16_gcc builtin_clz val =
     (let count = builtin_clz (ucast val) in of_int (if val = 0 then 16 else count - 16))"

definition clz_u32_gcc :: "(u32 \<Rightarrow> int) \<Rightarrow> u32 \<Rightarrow> u32" where
  "clz_u32_gcc builtin_clz val = (let count = builtin_clz val in of_int (if val = 0 then 32 else count))"

definition clz_u64_gcc :: "(u64 \<Rightarrow> int) \<Rightarrow> u64 \<Rightarrow> u32" where
  "clz_u64_gcc builtin_clzll val = (let count = builtin_clzll val in of_int (if val = 0 then 64 else count))"

definition ctz_u16_gcc :: "(u32 \<Rightarrow> int) \<Rightarrow> u16 \<Rightarrow> u32" where
  "ctz_u16_gcc builtin_ctz val =
     (let count = builtin_ctz (ucast val) in of_int (if val = 0 then 16 else count))"

definition ctz_u32_gcc :: "(u32 \<Rightarrow> int) \<Rightarrow> u32 \<Rightarrow> u32" where
  "ctz_u32_gcc builtin_ctz val = (let count = builtin_ctz val in of_int (if val = 0 then 32 else count))"

definition ctz_u64_gcc :: "(u64 \<Rightarrow> int) \<Rightarrow> u64 \<Rightarrow> u32" where
  "ctz_u64_gcc builtin_ctzll val = (let count = builtin_ctzll val in of_int (if val = 0 then 64 else count))"

section \<open>The overflow checks are exact\<close>

lemma bit_test_bit [simp]: "bit_test val i = bit val i"
  for val :: "'a::len word"
  by (simp add: bit_test_def bit_iff_and_push_bit_not_eq_0)

lemma sint_word_of_int_in_range:
  assumes "- (2 ^ (LENGTH('a) - 1)) \<le> k" "k < 2 ^ (LENGTH('a) - 1)"
  shows "sint (word_of_int k :: 'a::len word) = k"
  using assms by (simp add: signed_of_int signed_take_bit_int_eq_self)

lemma sint_range: "- (2 ^ (LENGTH('a) - 1)) \<le> sint w \<and> sint w < 2 ^ (LENGTH('a) - 1)"
  for w :: "'a::len word"
  using sint_greater_eq [of w] sint_less [of w] by simp

lemma sint_add_in_range:
  fixes a b :: "'a::len word"
  assumes "- (2 ^ (LENGTH('a) - 1)) \<le> sint a + sint b" "sint a + sint b < 2 ^ (LENGTH('a) - 1)"
  shows "sint (a + b) = sint a + sint b"
proof -
  have "a + b = word_of_int (sint a + sint b)" by simp
  then show ?thesis using assms by (simp only: sint_word_of_int_in_range)
qed

lemma sint_sub_in_range:
  fixes a b :: "'a::len word"
  assumes "- (2 ^ (LENGTH('a) - 1)) \<le> sint a - sint b" "sint a - sint b < 2 ^ (LENGTH('a) - 1)"
  shows "sint (a - b) = sint a - sint b"
proof -
  have "a - b = word_of_int (sint a - sint b)" by simp
  then show ?thesis using assms by (simp only: sint_word_of_int_in_range)
qed

lemma type_max_signed_word:
  assumes "2 \<le> LENGTH('a)"
  shows "(type_max_signed :: 'a::len word) = word_of_int (2 ^ (LENGTH('a) - 1) - 1)"
proof -
  obtain n where n: "LENGTH('a) = Suc (Suc n)"
    using assms le_Suc_ex [of 2 "LENGTH('a)"] by auto
  have h: "(type_half_max_signed :: 'a word) = word_of_int (2 ^ n)"
    unfolding type_half_max_signed_def by (simp add: n push_bit_eq_mult)
  have e: "(2::int) ^ (LENGTH('a) - 1) - 1 = 2 ^ n - 1 + 2 ^ n"
    by (simp add: n)
  show ?thesis
    unfolding type_max_signed_def h e by simp
qed

lemma sint_type_max_signed:
  assumes "2 \<le> LENGTH('a)"
  shows "sint (type_max_signed :: 'a::len word) = 2 ^ (LENGTH('a) - 1) - 1"
proof -
  have "(0::int) < 2 ^ (LENGTH('a) - 1)" by simp
  then show ?thesis
    unfolding type_max_signed_word [OF assms] by (intro sint_word_of_int_in_range) linarith+
qed

lemma type_min_signed_not: "(type_min_signed :: 'a::len word) = NOT type_max_signed"
  by (simp add: type_min_signed_def not_eq_complement)

lemma sint_not: "sint (NOT w) = - sint w - 1" for w :: "'a::len word"
proof -
  have "NOT w = word_of_int (- sint w - 1)" by (simp add: not_eq_complement)
  moreover have "sint (word_of_int (- sint w - 1) :: 'a word) = - sint w - 1"
    using sint_range [of w] by (intro sint_word_of_int_in_range) linarith+
  ultimately show ?thesis by simp
qed

lemma one_less_exp: "2 \<le> n \<Longrightarrow> (1::int) < 2 ^ (n - 1)"
  by (rule one_less_power) simp_all

lemma val_type_limits:
  assumes "2 \<le> LENGTH('a)"
  shows "val_of Signed (type_min Signed :: 'a::len word) = - (2 ^ (LENGTH('a) - 1))"
    and "val_of Signed (type_max Signed :: 'a word) = 2 ^ (LENGTH('a) - 1) - 1"
    and "val_of Unsigned (type_min Unsigned :: 'a word) = 0"
    and "val_of Unsigned (type_max Unsigned :: 'a word) = 2 ^ LENGTH('a) - 1"
    and "val_of s (1 :: 'a word) = 1"
proof -
  have one: "sint (1 :: 'a word) = 1"
    using one_less_exp [OF assms] sint_word_of_int_in_range [where 'a = 'a and k = 1] by simp
  have "sint (- 1 :: 'a word) = - 1" by simp
  with one have signed: "type_min Signed = (type_min_signed :: 'a word)"
    by (simp add: type_min_def val_of_def)
  have "(1::int) < 2 ^ LENGTH('a)"
    by (rule one_less_power) simp_all
  then have "uint (- 1 :: 'a word) \<ge> 1"
    unfolding unsigned_minus_1_eq_mask mask_eq_exp_minus_1 by linarith
  then have unsigned: "type_min Unsigned = (0 :: 'a word)"
    by (simp add: type_min_def val_of_def)
  show "val_of Signed (type_min Signed :: 'a word) = - (2 ^ (LENGTH('a) - 1))"
    using assms by (simp add: val_of_def signed type_min_signed_not sint_not sint_type_max_signed)
  show "val_of Signed (type_max Signed :: 'a word) = 2 ^ (LENGTH('a) - 1) - 1"
    using assms by (simp add: val_of_def type_max_def signed type_min_signed_not sint_type_max_signed)
  show "val_of Unsigned (type_min Unsigned :: 'a word) = 0"
    by (simp add: val_of_def unsigned)
  show "val_of Unsigned (type_max Unsigned :: 'a word) = 2 ^ LENGTH('a) - 1"
    by (simp add: val_of_def type_max_def unsigned unsigned_minus_1_eq_mask mask_eq_exp_minus_1)
  show "val_of s (1 :: 'a word) = 1"
    using one by (cases s) (simp_all add: val_of_def)
qed

text \<open>
  A mathematical integer is representable at a signedness when it lies between the two limits;
  word arithmetic is exact on representable results.
\<close>

definition representable :: "signedness \<Rightarrow> 'a::len itself \<Rightarrow> int \<Rightarrow> bool" where
  "representable s T k \<longleftrightarrow>
     val_of s (type_min s :: 'a word) \<le> k \<and> k \<le> val_of s (type_max s :: 'a word)"

lemma representable_iff:
  assumes "2 \<le> LENGTH('a)"
  shows "representable Signed TYPE('a::len) k \<longleftrightarrow> - (2 ^ (LENGTH('a) - 1)) \<le> k \<and> k < 2 ^ (LENGTH('a) - 1)"
    and "representable Unsigned TYPE('a) k \<longleftrightarrow> 0 \<le> k \<and> k < 2 ^ LENGTH('a)"
  by (auto simp: representable_def val_type_limits [OF assms])

lemma representable_val:
  assumes "2 \<le> LENGTH('a)"
  shows "representable s TYPE('a::len) (val_of s (w :: 'a word))"
  using sint_range [of w] uint_lt2p [of w]
  by (cases s) (simp_all add: representable_iff [OF assms], simp_all add: val_of_def)

lemma val_of_add:
  fixes a b :: "'a::len word"
  assumes "2 \<le> LENGTH('a)" "representable s TYPE('a) (val_of s a + val_of s b)"
  shows "val_of s (a + b) = val_of s a + val_of s b"
  using assms(2)
  by (cases s)
    (simp_all add: representable_iff [OF assms(1)] val_of_def sint_add_in_range uint_word_ariths)

lemma val_of_sub:
  fixes a b :: "'a::len word"
  assumes "2 \<le> LENGTH('a)" "representable s TYPE('a) (val_of s a - val_of s b)"
  shows "val_of s (a - b) = val_of s a - val_of s b"
  using assms(2)
  by (cases s)
    (simp_all add: representable_iff [OF assms(1)] val_of_def sint_sub_in_range uint_word_ariths)

lemma type_limits_around_0:
  assumes "2 \<le> LENGTH('a)"
  shows "val_of s (type_min s :: 'a::len word) \<le> 0" "0 < val_of s (type_max s :: 'a word)"
    "- val_of s (type_min s :: 'a word) \<le> val_of s (type_max s :: 'a word) + 1"
  using one_less_exp [OF assms] one_less_exp [of "Suc (LENGTH('a))"]
  by (cases s; simp add: val_type_limits [OF assms])+

text \<open>
  The check decides exactly whether the mathematical sum is outside the range of the type, for
  every width of at least two bits and both signednesses.
\<close>

lemma add_overflow_iff:
  fixes a b :: "'a::len word"
  assumes len: "2 \<le> LENGTH('a)"
  shows "add_overflow s a b \<longleftrightarrow> \<not> representable s TYPE('a) (val_of s a + val_of s b)"
proof -
  note lim = type_limits_around_0 [OF len, where s = s]
  note rep = representable_val [OF len, where s = s, unfolded representable_def]
  show ?thesis
  proof (cases "val_of s b < 1")
    case True
    then have "val_of s (type_min s - b) = val_of s (type_min s :: 'a word) - val_of s b"
      using lim rep [of b] by (intro val_of_sub [OF len]) (auto simp: representable_def)
    with True lim rep [of a] rep [of b] show ?thesis
      by (auto simp: add_overflow_def val_type_limits(5) [OF len] representable_def)
  next
    case False
    then have "val_of s (type_max s - b) = val_of s (type_max s :: 'a word) - val_of s b"
      using lim rep [of b] by (intro val_of_sub [OF len]) (auto simp: representable_def)
    with False lim rep [of a] rep [of b] show ?thesis
      by (auto simp: add_overflow_def val_type_limits(5) [OF len] representable_def)
  qed
qed

lemma sub_underflow_iff:
  fixes a b :: "'a::len word"
  assumes len: "2 \<le> LENGTH('a)"
  shows "sub_underflow s a b \<longleftrightarrow> \<not> representable s TYPE('a) (val_of s a - val_of s b)"
proof -
  note lim = type_limits_around_0 [OF len, where s = s]
  note rep = representable_val [OF len, where s = s, unfolded representable_def]
  show ?thesis
  proof (cases "val_of s b < 1")
    case True
    then have "val_of s (type_max s + b) = val_of s (type_max s :: 'a word) + val_of s b"
      using lim rep [of b] by (intro val_of_add [OF len]) (auto simp: representable_def)
    with True lim rep [of a] rep [of b] show ?thesis
      by (auto simp: sub_underflow_def val_type_limits(5) [OF len] representable_def)
  next
    case False
    then have "val_of s (type_min s + b) = val_of s (type_min s :: 'a word) + val_of s b"
      using lim rep [of b] by (intro val_of_add [OF len]) (auto simp: representable_def)
    with False lim rep [of a] rep [of b] show ?thesis
      by (auto simp: sub_underflow_def val_type_limits(5) [OF len] representable_def)
  qed
qed

section \<open>The counts\<close>

lemma fold_add_if:
  "fold (\<lambda>i c. c + (if P i then 1 else 0)) xs c = c + of_nat (length (filter P xs))"
  for c :: "'a::len word"
  by (induction xs arbitrary: c) simp_all

lemma popcount_card: "popcount val = of_nat (card {i. bit val i})"
  for val :: "'a::len word"
proof -
  have "{i. bit val i} = set (filter (bit val) [0..<LENGTH('a)])"
    by (auto dest: bit_imp_le_length)
  then have "card {i. bit val i} = length (filter (bit val) [0..<LENGTH('a)])"
    by (simp only: distinct_card distinct_filter distinct_upt)
  then show ?thesis
    by (simp add: popcount_def fold_add_if)
qed

lemma fold_count_round_found: "fold (count_round val) xs (c, True) = (c, True)"
  by (induction xs) (simp_all add: count_round_def)

lemma fold_count_round:
  "fst (fold (count_round val) xs (c, False)) = c + of_nat (length (takeWhile (\<lambda>i. \<not> bit val i) xs))"
  by (induction xs arbitrary: c)
    (auto simp: count_round_def fold_count_round_found Let_def)

text \<open>The number of zero bits above the highest, and below the lowest, set bit.\<close>

definition leading_zeros :: "'a::len word \<Rightarrow> nat" where
  "leading_zeros val = length (takeWhile (\<lambda>i. \<not> bit val i) (rev [0..<LENGTH('a)]))"

definition trailing_zeros :: "'a::len word \<Rightarrow> nat" where
  "trailing_zeros val = length (takeWhile (\<lambda>i. \<not> bit val i) [0..<LENGTH('a)])"

lemma clz_leading_zeros: "clz val = of_nat (leading_zeros val)"
  by (simp add: clz_def leading_zeros_def fold_count_round)

lemma ctz_trailing_zeros: "ctz val = of_nat (trailing_zeros val)"
  by (simp add: ctz_def trailing_zeros_def fold_count_round)

lemma leading_zeros_le: "leading_zeros val \<le> LENGTH('a)" for val :: "'a::len word"
  unfolding leading_zeros_def
  by (metis diff_zero length_rev length_takeWhile_le length_upt)

text \<open>The place of the highest set bit, and that nothing is set above it.\<close>

lemma leading_zeros_above:
  fixes val :: "'a::len word"
  assumes "LENGTH('a) - leading_zeros val \<le> i"
  shows "\<not> bit val i"
proof (cases "i < LENGTH('a)")
  case True
  let ?xs = "rev [0..<LENGTH('a)]"
  have "?xs ! (LENGTH('a) - 1 - i) = i" using True by (simp add: rev_nth)
  moreover have "LENGTH('a) - 1 - i < length (takeWhile (\<lambda>i. \<not> bit val i) ?xs)"
    using assms True by (simp add: leading_zeros_def)
  ultimately show ?thesis
    using nth_mem takeWhile_nth set_takeWhileD by metis
next
  case False
  then show ?thesis by (simp add: bit_imp_le_length not_less) (meson bit_imp_le_length not_less)
qed

lemma leading_zeros_top:
  fixes val :: "'a::len word"
  assumes "val \<noteq> 0"
  shows "leading_zeros val < LENGTH('a)" "bit val (LENGTH('a) - 1 - leading_zeros val)"
proof -
  let ?xs = "rev [0..<LENGTH('a)]"
  obtain i where i: "bit val i" using assms by (auto simp: bit_eq_iff)
  show lt: "leading_zeros val < LENGTH('a)"
  proof (rule ccontr)
    assume "\<not> leading_zeros val < LENGTH('a)"
    then have "LENGTH('a) - leading_zeros val \<le> i" by simp
    with i show False using leading_zeros_above by blast
  qed
  have "\<not> \<not> bit val (?xs ! leading_zeros val)"
    using lt nth_length_takeWhile [of "\<lambda>i. \<not> bit val i" ?xs] by (simp add: leading_zeros_def)
  with lt show "bit val (LENGTH('a) - 1 - leading_zeros val)" by (simp add: rev_nth)
qed

lemma unat_leading_zeros_bounds:
  fixes val :: "'a::len word"
  assumes "val \<noteq> 0"
  shows "2 ^ (LENGTH('a) - 1 - leading_zeros val) \<le> unat val"
    "unat val < 2 ^ (LENGTH('a) - leading_zeros val)"
proof -
  let ?k = "LENGTH('a) - 1 - leading_zeros val"
  have "bit (unat val) ?k"
    using leading_zeros_top [OF assms] by (simp add: bit_unsigned_iff bit_imp_le_length)
  then show "2 ^ ?k \<le> unat val"
    by (rule contrapos_pp) (simp add: not_le bit_iff_odd)
  have "take_bit (LENGTH('a) - leading_zeros val) val = val"
    using leading_zeros_above [of val]
    by (auto simp: bit_eq_iff bit_simps) (meson leD le_less_linear)
  then have "take_bit (LENGTH('a) - leading_zeros val) (unat val) = unat val"
    by (metis unsigned_take_bit_eq)
  then show "unat val < 2 ^ (LENGTH('a) - leading_zeros val)"
    by (metis take_bit_nat_less_exp)
qed

lemma unat_clz_u64: "unat (clz (val :: u64)) = leading_zeros val"
proof -
  have "leading_zeros val < 2 ^ 32" using leading_zeros_le [of val] by simp
  then show ?thesis by (simp add: clz_leading_zeros unat_of_nat take_bit_nat_eq_self)
qed

lemma leading_zeros_0 [simp]: "leading_zeros (0 :: 'a::len word) = LENGTH('a)"
  by (simp add: leading_zeros_def takeWhile_eq_all_conv [THEN iffD2])

text \<open>\<open>ispow2\<close> recognises the powers of two.\<close>

lemma ispow2_exp:
  fixes val :: "'a::len word"
  assumes "ispow2 val"
  shows "unat val = 2 ^ (LENGTH('a) - 1 - leading_zeros val)"
proof (rule ccontr)
  let ?k = "LENGTH('a) - 1 - leading_zeros val"
  have nz: "val \<noteq> 0" and z: "val AND (val - 1) = 0" using assms by (simp_all add: ispow2_def)
  assume "unat val \<noteq> 2 ^ ?k"
  then have gt: "2 ^ ?k < unat val" using unat_leading_zeros_bounds(1) [OF nz] by simp
  have u: "unat (val - 1) = unat val - 1"
    using nz by (simp add: unat_minus_one)
  have "2 ^ ?k \<le> unat val - 1" "unat val - 1 < 2 ^ Suc ?k"
    using gt unat_leading_zeros_bounds(2) [OF nz] leading_zeros_top(1) [OF nz]
    by (auto simp: Suc_diff_Suc)
  then have "(unat val - 1) div 2 ^ ?k = 1"
    by (intro div_nat_eqI) simp_all
  then have "bit (unat (val - 1)) ?k"
    by (simp add: u bit_iff_odd)
  then have "bit (val - 1) ?k"
    by (simp add: bit_unsigned_iff)
  then have "bit (val AND (val - 1)) ?k"
    using leading_zeros_top(2) [OF nz] by (simp add: bit_and_iff)
  with z show False by simp
qed

text \<open>
  Where the shift is an \<^verbatim>\<open>int\<close> shift of fewer than 31 places, a size that is not a power of two
  is replaced by two to its number of significant bits.
\<close>

lemma roundpow2_not_pow2:
  fixes val :: u64
  assumes "\<not> ispow2 val" "64 - leading_zeros val < 31"
  shows "roundpow2 val = Inr (2 ^ (64 - leading_zeros val))"
proof -
  let ?n = "64 - leading_zeros val"
  have "(2::int) ^ ?n < 2 ^ 31"
    using assms(2) by (intro power_strict_increasing) simp_all
  then have s: "sint (word_of_int (2 ^ ?n) :: u32) = 2 ^ ?n"
    by (intro sint_word_of_int_in_range) (simp_all add: order_trans [of _ "0::int"])
  have e: "(push_bit ?n 1 :: u32) = word_of_int (2 ^ ?n)"
    by (simp add: push_bit_eq_mult)
  have "(scast (push_bit ?n 1 :: u32) :: u64) = word_of_int (2 ^ ?n)"
    unfolding e scast_eq s ..
  then have "(scast (push_bit ?n 1 :: u32) :: u64) = 2 ^ ?n"
    by simp
  moreover have "?n < 32" using assms(2) by simp
  ultimately show ?thesis
    using assms(1) by (simp add: roundpow2_def int_one_shl_def unat_clz_u64)
qed

lemma leading_zeros_ge:
  fixes val :: "'a::len word"
  assumes "unat val < 2 ^ k"
  shows "LENGTH('a) - leading_zeros val \<le> k"
proof (cases "val = 0")
  case False
  have "(2::nat) ^ (LENGTH('a) - 1 - leading_zeros val) < 2 ^ k"
    using unat_leading_zeros_bounds(1) [OF False] assms by linarith
  then have "LENGTH('a) - 1 - leading_zeros val < k" by simp
  then show ?thesis by simp
qed simp

lemma leading_zeros_le_exp:
  fixes val :: "'a::len word"
  assumes "2 ^ k < unat val"
  shows "k < LENGTH('a) - leading_zeros val"
proof -
  have "val \<noteq> 0" using assms by auto
  then have "(2::nat) ^ k < 2 ^ (LENGTH('a) - leading_zeros val)"
    using unat_leading_zeros_bounds(2) [of val] assms by linarith
  then show ?thesis by simp
qed

lemma word_exp_of_unat: "unat v = 2 ^ k \<Longrightarrow> v = 2 ^ k" for v :: "'a::len word"
proof -
  assume "unat v = 2 ^ k"
  then have "(of_nat (unat v) :: 'a word) = of_nat (2 ^ k)" by simp
  then show ?thesis by simp
qed

lemma ispow2_of_exp: "k < LENGTH('a) \<Longrightarrow> ispow2 (2 ^ k :: 'a::len word)"
proof -
  assume k: "k < LENGTH('a)"
  have "(2 ^ k :: 'a word) AND (2 ^ k - 1) = take_bit k (2 ^ k)"
    by (simp add: mask_eq_exp_minus_1 [symmetric] take_bit_eq_mask)
  also have "\<dots> = 0" by (rule bit_word_eqI) (simp add: bit_simps)
  finally show ?thesis using k by (simp add: ispow2_def)
qed

section \<open>Correctness of the rounding and of the counts\<close>

text \<open>
  \<^bold>\<open>C36.\<close> \<^verbatim>\<open>add_overflow\<close> and \<^verbatim>\<open>sub_underflow\<close> of \<^verbatim>\<open>bits.h\<close> answer true exactly when the
  mathematical sum, respectively difference, of the operands lies outside the range between
  \<^verbatim>\<open>type_min\<close> and \<^verbatim>\<open>type_max\<close>, for signed and unsigned types of every width of at least two bits,
  although every intermediate value is computed in the same wrapping arithmetic.
\<close>

theorem overflow_checks_exact:
  fixes a b :: "'a::len word"
  assumes "2 \<le> LENGTH('a)"
  shows "(add_overflow s a b \<longleftrightarrow> \<not> representable s TYPE('a) (val_of s a + val_of s b)) \<and>
         (sub_underflow s a b \<longleftrightarrow> \<not> representable s TYPE('a) (val_of s a - val_of s b))"
  using assms add_overflow_iff sub_underflow_iff by blast

theorem overflow_checks_exact_witness:
  "2 \<le> LENGTH(8) \<and> add_overflow Signed (100 :: u8) 28 \<and> \<not> add_overflow Unsigned (100 :: u8) 28"
proof -
  have len: "2 \<le> LENGTH(8)" by simp
  have "add_overflow Signed (100 :: u8) 28"
    using overflow_checks_exact [OF len, of Signed 100 28]
    by (simp add: representable_iff [OF len] val_of_def)
  moreover have "\<not> add_overflow Unsigned (100 :: u8) 28"
    using overflow_checks_exact [OF len, of Unsigned 100 28]
    by (simp add: representable_iff [OF len] val_of_def)
  ultimately show ?thesis using len by simp
qed

lemma roundpow2_rounds:
  fixes val :: u64
  assumes "unat val \<le> 2 ^ 30"
  shows "\<exists>k. roundpow2 val = Inr (2 ^ k) \<and> k \<le> 30 \<and> unat val \<le> 2 ^ k \<and>
             (\<forall>j. unat val \<le> 2 ^ j \<longrightarrow> k \<le> j)"
proof (cases "ispow2 val")
  case True
  let ?k = "LENGTH(64) - 1 - leading_zeros val"
  have u: "unat val = 2 ^ ?k" using ispow2_exp [OF True] by simp
  then have v: "val = 2 ^ ?k" by (rule word_exp_of_unat)
  have "?k \<le> 30" using assms u power_le_imp_le_exp [of "2::nat" ?k 30] by simp
  moreover have "roundpow2 val = Inr (2 ^ ?k)" using True v by (simp add: roundpow2_def)
  ultimately show ?thesis using u by (intro exI [of _ ?k]) simp
next
  case False
  let ?n = "LENGTH(64) - leading_zeros val"
  have "unat val \<noteq> 2 ^ 30"
  proof
    assume "unat val = 2 ^ 30"
    then have "val = 2 ^ 30" by (rule word_exp_of_unat)
    then have "ispow2 val" using ispow2_of_exp [of 30, where 'a = 64] by simp
    with False show False by simp
  qed
  with assms have n: "?n \<le> 30" by (intro leading_zeros_ge) simp
  then have "roundpow2 val = Inr (2 ^ ?n)" using roundpow2_not_pow2 [OF False] by simp
  moreover have "unat val \<le> 2 ^ ?n"
    using unat_leading_zeros_bounds(2) [of val] by (cases "val = 0") simp_all
  moreover have "?n \<le> j" if "unat val \<le> 2 ^ j" for j
  proof (cases "unat val = 2 ^ j")
    case True
    have j: "j < 64" using True unsigned_less [of val, where 'a = nat] power_less_imp_less_exp [of "2::nat" j 64] by simp
    then have "ispow2 val" using word_exp_of_unat [OF True] ispow2_of_exp [of j, where 'a = 64] by simp
    with False show ?thesis by simp
  qed (use that in \<open>intro leading_zeros_ge, simp\<close>)
  ultimately show ?thesis using n by (intro exI [of _ ?n]) simp
qed

text \<open>
  \<^bold>\<open>C37.\<close> For sizes up to \<open>2 ^ 30\<close> \<^verbatim>\<open>roundpow2\<close> returns the least power of two that is not
  below its argument: the buffers resized through it hold what was asked for, and their mask
  arithmetic is sound.
\<close>

theorem roundpow2_least:
  fixes val :: u64
  assumes "unat val \<le> 2 ^ 30"
  shows "\<exists>k. roundpow2 val = Inr (2 ^ k) \<and> k \<le> 30 \<and> unat val \<le> 2 ^ k \<and>
             (\<forall>j. unat val \<le> 2 ^ j \<longrightarrow> k \<le> j)"
  using assms by (rule roundpow2_rounds)

theorem roundpow2_least_witness:
  "unat (1000 :: u64) \<le> 2 ^ 30 \<and> (\<exists>k. roundpow2 (1000 :: u64) = Inr (2 ^ k) \<and> 1000 \<le> (2::nat) ^ k \<and> k \<le> 10)"
proof -
  have h: "unat (1000 :: u64) \<le> 2 ^ 30" by simp
  obtain k where k: "roundpow2 (1000 :: u64) = Inr (2 ^ k)" "unat (1000 :: u64) \<le> 2 ^ k"
    and least: "\<And>j. unat (1000 :: u64) \<le> 2 ^ j \<Longrightarrow> k \<le> j"
    using roundpow2_least [OF h] by blast
  have "k \<le> 10" by (rule least) simp
  then show ?thesis using h k by auto
qed

section \<open>The builtins and the templates agree\<close>

lemma upt_32: "[0..<32] = [0..<16] @ [16..<32::nat]"
  using upt_add_eq_append [of 0 16 16] by simp

lemma bit_ucast_u16: "bit (ucast (val :: u16) :: u32) i = bit val i"
  using bit_imp_le_length [of val i] by (auto simp: bit_simps)

lemma leading_zeros_ucast: "leading_zeros (ucast (val :: u16) :: u32) = 16 + leading_zeros val"
proof -
  have above: "\<not> bit val i" if "i \<in> set (rev [16..<32])" for i
    using that bit_imp_le_length [of val i] by auto
  have "leading_zeros (ucast val :: u32) = length (takeWhile (\<lambda>i. \<not> bit val i) (rev [16..<32] @ rev [0..<16]))"
    by (simp add: leading_zeros_def bit_ucast_u16 upt_32 del: upt_conv_Cons)
  also have "\<dots> = length (rev [16..<32::nat]) + leading_zeros val"
    using above by (subst takeWhile_append2) (simp_all add: leading_zeros_def)
  finally show ?thesis by simp
qed

lemma trailing_zeros_ucast:
  assumes "(val :: u16) \<noteq> 0"
  shows "trailing_zeros (ucast val :: u32) = trailing_zeros val"
proof -
  obtain i where i: "bit val i" using assms by (auto simp: bit_eq_iff)
  then have "i \<in> set [0..<16]" using bit_imp_le_length [of val i] by simp
  then have "takeWhile (\<lambda>i. \<not> bit val i) ([0..<16] @ [16..<32]) = takeWhile (\<lambda>i. \<not> bit val i) [0..<16]"
    using i by (intro takeWhile_append1) auto
  then show ?thesis
    by (simp add: trailing_zeros_def bit_ucast_u16 upt_32 del: upt_conv_Cons)
qed

lemma trailing_zeros_0 [simp]: "trailing_zeros (0 :: 'a::len word) = LENGTH('a)"
  by (simp add: trailing_zeros_def takeWhile_eq_all_conv [THEN iffD2])

text \<open>
  Given what the compiler documents of its builtins (the number of set bits; the
  number of leading, respectively trailing, zero bits of a nonzero argument), every GCC
  specialisation of \<^verbatim>\<open>popcount\<close>, \<^verbatim>\<open>clz\<close> and \<^verbatim>\<open>ctz\<close> returns what the portable template returns, on
  every argument including zero and after the widening of the 16-bit versions.
\<close>

theorem gcc_specialisations_agree:
  assumes "\<And>v. bpop v = int (card {i. bit v i})" "\<And>v. bpopll v = int (card {i. bit v i})"
    and "\<And>v. v \<noteq> 0 \<Longrightarrow> bclz v = int (leading_zeros v)"
    and "\<And>v. v \<noteq> 0 \<Longrightarrow> bclzll v = int (leading_zeros v)"
    and "\<And>v. v \<noteq> 0 \<Longrightarrow> bctz v = int (trailing_zeros v)"
    and "\<And>v. v \<noteq> 0 \<Longrightarrow> bctzll v = int (trailing_zeros v)"
  shows "popcount_u16_gcc bpop a = popcount a \<and> popcount_u32_gcc bpop b = popcount b \<and>
         popcount_u64_gcc bpopll c = popcount c \<and>
         clz_u16_gcc bclz a = clz a \<and> clz_u32_gcc bclz b = clz b \<and> clz_u64_gcc bclzll c = clz c \<and>
         ctz_u16_gcc bctz a = ctz a \<and> ctz_u32_gcc bctz b = ctz b \<and> ctz_u64_gcc bctzll c = ctz c"
proof -
  have nz: "(ucast a :: u32) = 0 \<longleftrightarrow> a = 0"
    by (metis bit_ucast_u16 bit_word_eqI bit_0_eq bot_apply bot_bool_def)
  have "popcount_u16_gcc bpop a = popcount a \<and> popcount_u32_gcc bpop b = popcount b \<and>
        popcount_u64_gcc bpopll c = popcount c"
    by (simp add: popcount_u16_gcc_def popcount_u32_gcc_def popcount_u64_gcc_def popcount_card
      assms(1,2) bit_ucast_u16)
  moreover have "clz_u16_gcc bclz a = clz a \<and> clz_u32_gcc bclz b = clz b \<and> clz_u64_gcc bclzll c = clz c"
    using assms(3) [of "ucast a"]
    by (auto simp: clz_u16_gcc_def clz_u32_gcc_def clz_u64_gcc_def clz_leading_zeros
      assms(3,4) nz leading_zeros_ucast Let_def)
  moreover have "ctz_u16_gcc bctz a = ctz a \<and> ctz_u32_gcc bctz b = ctz b \<and> ctz_u64_gcc bctzll c = ctz c"
    using assms(5) [of "ucast a"]
    by (auto simp: ctz_u16_gcc_def ctz_u32_gcc_def ctz_u64_gcc_def ctz_trailing_zeros
      assms(5,6) nz trailing_zeros_ucast Let_def)
  ultimately show ?thesis by blast
qed

theorem gcc_specialisations_agree_witness:
  "clz_u64_gcc (\<lambda>v. int (leading_zeros v)) (0x1000 :: u64) = clz (0x1000 :: u64) \<and>
   ctz_u16_gcc (\<lambda>v. int (trailing_zeros v)) (0x30 :: u16) = ctz (0x30 :: u16)"
  using gcc_specialisations_agree [of "\<lambda>v. int (card {i. bit v i})" "\<lambda>v. int (card {i. bit v i})"
      "\<lambda>v. int (leading_zeros v)" "\<lambda>v. int (leading_zeros v)"
      "\<lambda>v. int (trailing_zeros v)" "\<lambda>v. int (trailing_zeros v)" "0x30" 0 "0x1000"]
  by blast

end
