(* ===== verification/Hex.thy ===== *)
theory Hex
  imports Latypus_Prelude
begin

text \<open>
  \<^verbatim>\<open>src/hex.cc\<close>: hexadecimal encoding and decoding of byte arrays. A byte array is a list of
  \<open>u8\<close>, a \<^verbatim>\<open>std::string\<close> a list of characters; the destination array of \<^verbatim>\<open>decode\<close> is passed in and
  returned updated.
\<close>

section \<open>The part of strtoul the decoder uses\<close>

text \<open>
  \<^verbatim>\<open>strtoul(s, NULL, 16)\<close> on a C string: leading white space, an optional sign, an optional
  \<^verbatim>\<open>0x\<close> that is consumed only before a hexadecimal digit, then the longest run of digits.
  The decoder calls it on at most two characters, so the value never leaves the range of
  \<^verbatim>\<open>unsigned long\<close>; a minus sign negates it there.
\<close>

definition hex_digit_value :: "char \<Rightarrow> nat option" where
  "hex_digit_value c =
     (let n = of_char c :: nat in
      if 48 \<le> n \<and> n \<le> 57 then Some (n - 48)
      else if 65 \<le> n \<and> n \<le> 70 then Some (n - 55)
      else if 97 \<le> n \<and> n \<le> 102 then Some (n - 87)
      else None)"

fun hex_digits :: "nat \<Rightarrow> string \<Rightarrow> nat" where
  "hex_digits acc [] = acc"
| "hex_digits acc (c # cs) =
     (case hex_digit_value c of None \<Rightarrow> acc | Some d \<Rightarrow> hex_digits (16 * acc + d) cs)"

fun strip_0x :: "string \<Rightarrow> string" where
  "strip_0x (z # x # d # cs) =
     (if z = CHR ''0'' \<and> (x = CHR ''x'' \<or> x = CHR ''X'') \<and> hex_digit_value d \<noteq> None
      then d # cs else z # x # d # cs)"
| "strip_0x cs = cs"

definition strtoul16 :: "string \<Rightarrow> u64" where
  "strtoul16 s =
     (let t = dropWhile c_isspace (c_str s) in
      case t of
        [] \<Rightarrow> 0
      | c # cs \<Rightarrow>
          if c = CHR ''-'' then - of_nat (hex_digits 0 (strip_0x cs))
          else if c = CHR ''+'' then of_nat (hex_digits 0 (strip_0x cs))
          else of_nat (hex_digits 0 (strip_0x t)))"

section \<open>hex::encode and hex::decode\<close>

definition HEX_DIGITS :: string where
  "HEX_DIGITS = ''0123456789ABCDEF''"

fun encode_loop :: "byte list \<Rightarrow> string \<Rightarrow> string" where
  "encode_loop [] hex = hex"
| "encode_loop (b # bs) hex =
     encode_loop bs (hex @ [HEX_DIGITS ! unat (drop_bit 4 b AND 0x0F)] @ [HEX_DIGITS ! unat (b AND 0x0F)])"

definition hex_encode :: "byte list \<Rightarrow> string" where
  "hex_encode buf = encode_loop buf ''''"

text \<open>
  The loop index runs while \<^verbatim>\<open>i < hex.length()/2 && i < len\<close>; writing through \<^verbatim>\<open>*buf++\<close> past the
  caller's array is out of bounds.
\<close>

function decode_loop :: "nat \<Rightarrow> string \<Rightarrow> nat \<Rightarrow> byte list \<Rightarrow> byte list cxx" where
  "decode_loop i hex len buf =
     (if i < length hex div 2 \<and> i < len
      then (if i < length buf
            then decode_loop (Suc i) hex len
                   (buf[i := ucast (strtoul16 [hex ! (i * 2), hex ! (i * 2 + 1), NUL])])
            else Inl OutOfBounds)
      else Inr buf)"
  by pat_completeness auto
termination
  by (relation "measure (\<lambda>(i, hex, len, buf). len - i)") auto

declare decode_loop.simps [simp del]

definition hex_decode :: "string \<Rightarrow> nat \<Rightarrow> byte list \<Rightarrow> byte list cxx" where
  "hex_decode hex len buf = decode_loop 0 hex len buf"

section \<open>Round trip\<close>

lemma encode_loop_append: "encode_loop bs hex = hex @ encode_loop bs ''''"
proof (induction bs arbitrary: hex)
  case (Cons b bs)
  have "encode_loop (b # bs) hex = (hex @ p) @ encode_loop bs ''''"
    if "p = [HEX_DIGITS ! unat (drop_bit 4 b AND 0x0F)] @ [HEX_DIGITS ! unat (b AND 0x0F)]" for p
    unfolding encode_loop.simps that by (rule Cons.IH)
  moreover have "encode_loop (b # bs) '''' = p @ encode_loop bs ''''"
    if "p = [HEX_DIGITS ! unat (drop_bit 4 b AND 0x0F)] @ [HEX_DIGITS ! unat (b AND 0x0F)]" for p
    unfolding encode_loop.simps that append_Nil by (rule Cons.IH)
  ultimately show ?case by simp
qed simp

definition hex_pair :: "byte \<Rightarrow> string" where
  "hex_pair b = [HEX_DIGITS ! unat (drop_bit 4 b AND 0x0F), HEX_DIGITS ! unat (b AND 0x0F)]"

lemma hex_encode_Nil [simp]: "hex_encode [] = ''''"
  by (simp add: hex_encode_def)

lemma hex_encode_Cons [simp]: "hex_encode (b # bs) = hex_pair b @ hex_encode bs"
  using encode_loop_append [of bs "hex_pair b"] by (simp add: hex_encode_def hex_pair_def)

lemma length_hex_encode [simp]: "length (hex_encode bs) = 2 * length bs"
  by (induction bs) (simp_all add: hex_pair_def)

lemma hex_encode_nth:
  "i < length bs \<Longrightarrow> hex_encode bs ! (i * 2) = hex_pair (bs ! i) ! 0 \<and>
     hex_encode bs ! (i * 2 + 1) = hex_pair (bs ! i) ! 1"
proof (induction bs arbitrary: i)
  case (Cons b bs)
  then show ?case by (cases i) (simp_all add: hex_pair_def)
qed simp

text \<open>The sixteen digits print and read back as the same value.\<close>

lemma hex_digit_table:
  assumes "n < 16"
  shows "hex_digit_value (HEX_DIGITS ! n) = Some n" "HEX_DIGITS ! n \<noteq> NUL"
    "\<not> c_isspace (HEX_DIGITS ! n)" "HEX_DIGITS ! n \<noteq> CHR ''-''" "HEX_DIGITS ! n \<noteq> CHR ''+''"
    "HEX_DIGITS ! n \<noteq> CHR ''x''" "HEX_DIGITS ! n \<noteq> CHR ''X''"
proof -
  have "\<forall>n \<in> set [0..<16]. hex_digit_value (HEX_DIGITS ! n) = Some n \<and> HEX_DIGITS ! n \<noteq> NUL \<and>
     \<not> c_isspace (HEX_DIGITS ! n) \<and> HEX_DIGITS ! n \<noteq> CHR ''-'' \<and> HEX_DIGITS ! n \<noteq> CHR ''+'' \<and>
     HEX_DIGITS ! n \<noteq> CHR ''x'' \<and> HEX_DIGITS ! n \<noteq> CHR ''X''"
    by code_simp
  then have "hex_digit_value (HEX_DIGITS ! n) = Some n \<and> HEX_DIGITS ! n \<noteq> NUL \<and>
     \<not> c_isspace (HEX_DIGITS ! n) \<and> HEX_DIGITS ! n \<noteq> CHR ''-'' \<and> HEX_DIGITS ! n \<noteq> CHR ''+'' \<and>
     HEX_DIGITS ! n \<noteq> CHR ''x'' \<and> HEX_DIGITS ! n \<noteq> CHR ''X''"
    using assms by simp
  then show "hex_digit_value (HEX_DIGITS ! n) = Some n" "HEX_DIGITS ! n \<noteq> NUL"
    "\<not> c_isspace (HEX_DIGITS ! n)" "HEX_DIGITS ! n \<noteq> CHR ''-''" "HEX_DIGITS ! n \<noteq> CHR ''+''"
    "HEX_DIGITS ! n \<noteq> CHR ''x''" "HEX_DIGITS ! n \<noteq> CHR ''X''"
    by blast+
qed

lemma strtoul16_two_digits:
  assumes "h < 16" "l < 16"
  shows "strtoul16 [HEX_DIGITS ! h, HEX_DIGITS ! l, NUL] = of_nat (16 * h + l)"
  using assms by (simp add: strtoul16_def c_str_def hex_digit_table)

lemma unat_nibbles: "16 * unat (drop_bit 4 b AND 0x0F) + unat (b AND 0x0F) = unat b" for b :: byte
proof -
  have "drop_bit 4 b AND 0x0F = drop_bit 4 b"
    unfolding and_low_mask by (rule bit_word_eqI) (auto simp: bit_simps dest: bit_imp_le_length)
  moreover have "b AND 0x0F = take_bit 4 b" by (rule and_low_mask)
  ultimately show ?thesis
    by (simp add: drop_bit_eq_div take_bit_eq_mod unat_div_distrib unat_mod_distrib)
qed

lemma strtoul16_hex_pair: "ucast (strtoul16 (hex_pair b @ [NUL])) = b"
proof -
  have lt: "unat (x AND 0x0F) < 16" for x :: byte
    using unat_take_bit_less [of 4 x] by (simp add: and_low_mask)
  have "strtoul16 (hex_pair b @ [NUL]) = of_nat (unat b)"
    using strtoul16_two_digits [OF lt lt, of "drop_bit 4 b" b] by (simp add: hex_pair_def unat_nibbles)
  then show ?thesis by (simp add: ucast_ucast_up)
qed

lemma decode_loop_encode:
  assumes "length bs \<le> len" "length bs \<le> length buf" "i \<le> length bs" "take i buf = take i bs"
  shows "decode_loop i (hex_encode bs) len buf = Inr (bs @ drop (length bs) buf)"
  using assms
proof (induction "length bs - i" arbitrary: i buf)
  case 0
  then show ?case
    by (simp add: decode_loop.simps) (metis append_take_drop_id)
next
  case (Suc n)
  then have i: "i < length bs" by simp
  have w: "ucast (strtoul16 [hex_encode bs ! (i * 2), hex_encode bs ! (i * 2 + 1), NUL]) = bs ! i"
    using hex_encode_nth [OF i] strtoul16_hex_pair [of "bs ! i"] by (simp add: hex_pair_def)
  have "decode_loop i (hex_encode bs) len buf = decode_loop (Suc i) (hex_encode bs) len (buf[i := bs ! i])"
    using i Suc.prems w by (subst decode_loop.simps) simp
  also have "\<dots> = Inr (bs @ drop (length bs) (buf[i := bs ! i]))"
    using Suc i by (intro Suc.hyps(1)) (simp_all add: take_Suc_conv_app_nth)
  finally show ?case using i by simp
qed

text \<open>
  Decoding what \<^verbatim>\<open>hex::encode\<close> printed writes the original bytes at the start of the
  destination and leaves the rest of it alone, for every destination large enough; no write is
  out of bounds.
\<close>

theorem hex_roundtrip:
  assumes "length bs \<le> len" "length bs \<le> length buf"
  shows "hex_decode (hex_encode bs) len buf = Inr (bs @ drop (length bs) buf)"
  using assms decode_loop_encode [of bs len buf 0] by (simp add: hex_decode_def)

theorem hex_roundtrip_witness:
  "hex_decode (hex_encode [0xDE, 0xAD]) 4 [0, 0, 7, 9] = Inr [0xDE, 0xAD, 7, 9]"
  using hex_roundtrip [of "[0xDE, 0xAD]" 4 "[0, 0, 7, 9]"] by simp

end
