(* ===== verification/Base64.thy ===== *)
theory Base64
  imports Latypus_Prelude
begin

text \<open>
  \<^verbatim>\<open>src/base64.cc\<close>: the base-64 tables, the one-group functions \<^verbatim>\<open>base64encode\<close> and
  \<^verbatim>\<open>base64decode\<close>, and the buffer functions \<^verbatim>\<open>base64_encode\<close> and \<^verbatim>\<open>base64_decode\<close>. Bytes and
  \<^verbatim>\<open>char\<close>s are \<open>u8\<close>. The accumulator \<open>v\<close> is a 32-bit word whose old bits shift out at the top, as in
  the source; the counters \<open>ii\<close>, \<open>io\<close>, \<open>rem\<close> (\<^verbatim>\<open>unsigned\<close>) are 32-bit words, which wrap, and the lengths
  (\<^verbatim>\<open>size_t\<close>) are natural numbers.
\<close>

section \<open>Tables\<close>

definition base64enc_tab :: "u8 list" where
  "base64enc_tab = map of_char ''ABCDEFGHIJKLMNOPQRSTUVWXYZabcdefghijklmnopqrstuvwxyz0123456789+/'' @ [0]"

definition base64dec_tab :: "u8 list" where
  "base64dec_tab = [
    255,255,255,255,255,255,255,255,255,255,255,255,255,255,255,255,
    255,255,255,255,255,255,255,255,255,255,255,255,255,255,255,255,
    255,255,255,255,255,255,255,255,255,255,255, 62,255,255,255, 63,
     52, 53, 54, 55, 56, 57, 58, 59, 60, 61,255,255,255,  0,255,255,
    255,  0,  1,  2,  3,  4,  5,  6,  7,  8,  9, 10, 11, 12, 13, 14,
     15, 16, 17, 18, 19, 20, 21, 22, 23, 24, 25,255,255,255,255,255,
    255, 26, 27, 28, 29, 30, 31, 32, 33, 34, 35, 36, 37, 38, 39, 40,
     41, 42, 43, 44, 45, 46, 47, 48, 49, 50, 51,255,255,255,255,255,
    255,255,255,255,255,255,255,255,255,255,255,255,255,255,255,255,
    255,255,255,255,255,255,255,255,255,255,255,255,255,255,255,255,
    255,255,255,255,255,255,255,255,255,255,255,255,255,255,255,255,
    255,255,255,255,255,255,255,255,255,255,255,255,255,255,255,255,
    255,255,255,255,255,255,255,255,255,255,255,255,255,255,255,255,
    255,255,255,255,255,255,255,255,255,255,255,255,255,255,255,255,
    255,255,255,255,255,255,255,255,255,255,255,255,255,255,255,255,
    255,255,255,255,255,255,255,255,255,255,255,255,255,255,255,255]"

definition enc_at :: "'a::len word \<Rightarrow> u8" where
  "enc_at k = base64enc_tab ! unat k"

text \<open>
  \<^verbatim>\<open>base64dec_tab[(unsigned)in[ii]]\<close>: the \<^verbatim>\<open>char\<close> is signed, so its conversion to \<^verbatim>\<open>unsigned\<close> sign
  extends, and a byte above 127 indexes far outside the table.
\<close>

definition dec_at :: "u8 \<Rightarrow> u8 cxx" where
  "dec_at ch = index_cxx base64dec_tab (unat (scast ch :: u32))"

definition ch_eq :: u8 where
  "ch_eq = 61"

section \<open>One group\<close>

definition base64encode :: "u8 \<Rightarrow> u8 \<Rightarrow> u8 \<Rightarrow> int \<Rightarrow> u8 list" where
  "base64encode in0 in1 in2 count =
     [enc_at (drop_bit 2 in0),
      enc_at (push_bit 4 (in0 AND 3) OR drop_bit 4 in1),
      (if count < 2 then ch_eq else enc_at (push_bit 2 (in1 AND 15) OR drop_bit 6 in2)),
      (if count < 3 then ch_eq else enc_at (in2 AND 63))]"

definition base64decode :: "u8 \<Rightarrow> u8 \<Rightarrow> u8 \<Rightarrow> u8 \<Rightarrow> (int \<times> u8 list) cxx" where
  "base64decode in0 in1 in2 in3 =
     bind_cxx (dec_at in0) (\<lambda>v0. bind_cxx (dec_at in1) (\<lambda>v1.
     bind_cxx (dec_at in2) (\<lambda>v2. bind_cxx (dec_at in3) (\<lambda>v3.
       Inr ((if v0 OR v1 OR v2 OR v3 \<noteq> 255
             then if in3 = ch_eq then if in2 = ch_eq then 1 else 2 else 3
             else 0),
            [push_bit 2 v0 OR drop_bit 4 v1,
             push_bit 4 v1 OR drop_bit 2 v2,
             push_bit 6 v2 OR v3])))))"

section \<open>Buffers\<close>

text \<open>
  What a loop leaves behind: the function returned from inside it, it goes on with the loop's variables, or
  it is still running when the fuel is used up. An output array shorter than the length claimed for it is out
  of bounds. The position is compared with the length as a \<^verbatim>\<open>size_t\<close> and incremented as an \<^verbatim>\<open>unsigned\<close>.
\<close>

datatype 'a flow = Returned int "u8 list" | Continue 'a | Running

fun bind_flow :: "'a flow cxx \<Rightarrow> ('a \<Rightarrow> 'b flow cxx) \<Rightarrow> 'b flow cxx" where
  "bind_flow (Inl e) f = Inl e"
| "bind_flow (Inr (Returned r out)) f = Inr (Returned r out)"
| "bind_flow (Inr Running) f = Inr Running"
| "bind_flow (Inr (Continue a)) f = f a"

lemma bind_flow_cong [fundef_cong]:
  assumes "m = m'" "\<And>a. m' = Inr (Continue a) \<Longrightarrow> f a = g a"
  shows "bind_flow m f = bind_flow m' g"
  using assms by (cases "(m, f)" rule: bind_flow.cases) auto

definition emit :: "u8 \<Rightarrow> u32 \<Rightarrow> nat \<Rightarrow> u8 list \<Rightarrow> (u32 \<times> u8 list) flow cxx" where
  "emit ch io out_len out =
     (if unat io \<ge> out_len then Inr (Returned (- 1) out)
      else if unat io < length out then Inr (Continue (io + 1, out[unat io := ch]))
      else Inl OutOfBounds)"

text \<open>The result of both functions: \<^verbatim>\<open>return io\<close> converts to \<^verbatim>\<open>int\<close>, and \<open>None\<close> is a call that does not return.\<close>

definition finish :: "(u32 \<times> u8 list) flow cxx \<Rightarrow> (int \<times> u8 list) option cxx" where
  "finish m = bind_cxx m (\<lambda>fl. case fl of Returned r out \<Rightarrow> Inr (Some (r, out)) | Continue (io, out) \<Rightarrow> Inr (Some (sint io, out)) | Running \<Rightarrow> Inr None)"

definition c_isspace_u8 :: "u8 \<Rightarrow> bool cxx" where
  "c_isspace_u8 ch = (if ch < 128 then Inr (ch = 32 \<or> 9 \<le> ch \<and> ch \<le> 13) else Inl Undefined)"

text \<open>
  The index \<^verbatim>\<open>ii\<close> is an \<^verbatim>\<open>unsigned\<close>, so that it never reaches a length of \<open>2 ^ 32\<close> or more. One more than
  the length of the input is enough fuel for every loop that ends.
\<close>

fun base64_decode_loop ::
  "nat \<Rightarrow> u8 list \<Rightarrow> u32 \<Rightarrow> u32 \<Rightarrow> u32 \<Rightarrow> u32 \<Rightarrow> nat \<Rightarrow> u8 list \<Rightarrow> (u32 \<times> u32 \<times> u32 \<times> u8 list) flow cxx" where
  "base64_decode_loop 0 inp ii io v rem out_len out = Inr Running"
| "base64_decode_loop (Suc fuel) inp ii io v rem out_len out =
     (if unat ii < length inp
      then let c = inp ! unat ii in
        bind_cxx (c_isspace_u8 c) (\<lambda>space.
          if space then base64_decode_loop fuel inp (ii + 1) io v rem out_len out
          else if c = ch_eq then Inr (Continue (io, v, rem, out))
          else bind_cxx (dec_at c) (\<lambda>ch.
            if ch = 255 then Inr (Continue (io, v, rem, out))
            else let v = push_bit 6 v OR ucast ch; rem = rem + 6 in
              if rem \<ge> 8
              then bind_flow (emit (ucast (drop_bit (unat (rem - 8)) v AND 255)) io out_len out)
                     (\<lambda>(io, out). base64_decode_loop fuel inp (ii + 1) io v (rem - 8) out_len out)
              else base64_decode_loop fuel inp (ii + 1) io v rem out_len out))
      else Inr (Continue (io, v, rem, out)))"

definition base64_decode :: "u8 list \<Rightarrow> nat \<Rightarrow> u8 list \<Rightarrow> (int \<times> u8 list) option cxx" where
  "base64_decode inp out_len out =
     finish
       (bind_flow (base64_decode_loop (length inp + 1) inp 0 0 0 0 out_len out)
         (\<lambda>(io, v, rem, out).
            if rem \<ge> 8
            then bind_flow (emit (ucast (drop_bit (unat (rem - 8)) v AND 255)) io out_len out)
                   (\<lambda>(io, out). Inr (Continue (io, out)))
            else Inr (Continue (io, out))))"

function base64_encode_inner ::
  "u32 \<Rightarrow> u32 \<Rightarrow> u32 \<Rightarrow> nat \<Rightarrow> u8 list \<Rightarrow> (u32 \<times> u32 \<times> u8 list) flow cxx" where
  "base64_encode_inner v rem io out_len out =
     (if rem \<ge> 6
      then bind_flow (emit (enc_at (drop_bit (unat (rem - 6)) v AND 63)) io out_len out)
             (\<lambda>(io, out). base64_encode_inner v (rem - 6) io out_len out)
      else Inr (Continue (rem, io, out)))"
  by pat_completeness auto
termination
  by (relation "measure (\<lambda>(v, rem, io, out_len, out). unat rem)") (auto simp: unat_sub word_le_nat_alt)

declare base64_encode_inner.simps [simp del]

fun base64_encode_loop ::
  "nat \<Rightarrow> u8 list \<Rightarrow> u32 \<Rightarrow> u32 \<Rightarrow> u32 \<Rightarrow> u32 \<Rightarrow> nat \<Rightarrow> u8 list \<Rightarrow> (u32 \<times> u32 \<times> u32 \<times> u8 list) flow cxx" where
  "base64_encode_loop 0 inp ii io v rem out_len out = Inr Running"
| "base64_encode_loop (Suc fuel) inp ii io v rem out_len out =
     (if unat ii < length inp
      then let v = push_bit 8 v OR ucast (inp ! unat ii) in
        bind_flow (base64_encode_inner v (rem + 8) io out_len out)
          (\<lambda>(rem, io, out). base64_encode_loop fuel inp (ii + 1) io v rem out_len out)
      else Inr (Continue (io, v, rem, out)))"

text \<open>\<^verbatim>\<open>while(io&3)\<close> pads with at most three equal signs.\<close>

lemma and_3_mod: "unat (io AND 3) = unat io mod 4" for io :: u32
proof -
  have "io AND 3 = take_bit 2 io"
    using take_bit_eq_mask [of 2 io] by (simp add: mask_eq_exp_minus_1)
  then show ?thesis
    by (simp only: unsigned_take_bit_eq) (simp add: take_bit_eq_mod)
qed

lemma unat_inc_mod_4: "unat (io + 1) mod 4 = Suc (unat io) mod 4" for io :: u32
  by (simp add: unat_word_ariths mod_mod_cancel)

function base64_pad :: "u32 \<Rightarrow> nat \<Rightarrow> u8 list \<Rightarrow> (u32 \<times> u8 list) flow cxx" where
  "base64_pad io out_len out =
     (if io AND 3 \<noteq> 0
      then bind_flow (emit ch_eq io out_len out) (\<lambda>(io, out). base64_pad io out_len out)
      else Inr (Continue (io, out)))"
  by pat_completeness auto
termination
proof (relation "measure (\<lambda>(io, out_len, out). (4 - unat io mod 4) mod 4)", goal_cases)
  case (2 io out_len out a io' out')
  then have "io' = io + 1" "unat io mod 4 \<noteq> 0"
    using and_3_mod [of io] by (auto simp: emit_def simp flip: unat_eq_0 split: if_splits)
  then show ?case
    using unat_inc_mod_4 [of io] by (simp add: mod_Suc) linarith
qed simp

declare base64_pad.simps [simp del]

definition base64_encode :: "u8 list \<Rightarrow> nat \<Rightarrow> u8 list \<Rightarrow> (int \<times> u8 list) option cxx" where
  "base64_encode inp out_len out =
     finish
       (bind_flow (base64_encode_loop (length inp + 1) inp 0 0 0 0 out_len out)
         (\<lambda>(io, v, rem, out).
            bind_flow
              (if rem \<noteq> 0
               then emit (enc_at (push_bit (unat (6 - rem)) v AND 63)) io out_len out
               else Inr (Continue (io, out)))
              (\<lambda>(io, out).
                 bind_flow (base64_pad io out_len out)
                   (\<lambda>(io, out). bind_flow (emit 0 io out_len out) (\<lambda>(_, out). Inr (Continue (io, out)))))))"

section \<open>Tables are inverse on the alphabet\<close>

lemma table_inverse_nat:
  "\<forall>k \<in> set [0..<64]. (let c = base64enc_tab ! k in c < 128 \<and> c \<noteq> ch_eq \<and>
     c_isspace_u8 c = Inr False \<and> dec_at c = Inr (of_nat k))"
  by code_simp

lemma table_inverse:
  fixes k :: "'a::len word"
  assumes "unat k < 64"
  shows "enc_at k < 128" "enc_at k \<noteq> ch_eq" "c_isspace_u8 (enc_at k) = Inr False"
    "dec_at (enc_at k) = Inr (ucast k)"
  using bspec [OF table_inverse_nat, of "unat k"] assms
  by (simp_all add: enc_at_def Let_def)

lemma ch_eq_not_space: "c_isspace_u8 ch_eq = Inr False"
  by (simp add: c_isspace_u8_def ch_eq_def)

lemma dec_table_ascii: "\<forall>k \<in> set [0..<128]. (let t = base64dec_tab ! k in t = 255 \<or> \<not> bit t 7)"
  by code_simp

lemma bit_7_iff: "bit x 7 \<longleftrightarrow> \<not> x < 128" for x :: u8
proof -
  have "unat x < 256" using unsigned_less [of x, where 'a = nat] by simp
  then have "odd (unat x div 2 ^ 7) \<longleftrightarrow> 128 \<le> unat x"
  proof (cases "128 \<le> unat x")
    case True
    with \<open>unat x < 256\<close> have "unat x div 2 ^ 7 = 1" by simp
    with True show ?thesis by simp
  qed simp
  moreover have "bit x 7 = bit (unat x) 7" by (simp add: bit_unsigned_iff)
  ultimately show ?thesis
    by (simp add: bit_iff_odd [of "unat x"] word_less_nat_alt not_less)
qed

lemma dec_at_ascii: "x < 128 \<Longrightarrow> \<exists>t. dec_at x = Inr t \<and> (t = 255 \<or> \<not> bit t 7)"
proof -
  assume x: "x < 128"
  have "(scast x :: u32) = ucast x"
  proof (rule bit_word_eqI)
    fix n
    assume "n < LENGTH(32)"
    then show "bit (scast x :: u32) n = bit (ucast x :: u32) n"
      using x bit_7_iff [of x] bit_imp_le_length [of x n] by (cases "n \<le> 7") (auto simp: bit_simps min_def)
  qed
  moreover have "unat (ucast x :: u32) = unat x" "unat x < 128"
    using x by (simp_all add: word_less_nat_alt unsigned_ucast_eq take_bit_nat_eq_self)
  ultimately show ?thesis using bspec [OF dec_table_ascii, of "unat x"]
    by (simp add: dec_at_def index_cxx_def Let_def base64dec_tab_def)
qed

lemma dec_at_high: "\<not> x < 128 \<Longrightarrow> dec_at x = Inl OutOfBounds"
proof -
  assume "\<not> x < 128"
  then have "bit (scast x :: u32) 31" using bit_7_iff [of x] by (simp add: bit_simps)
  then have "bit (unat (scast x :: u32)) 31" by (simp add: bit_unsigned_iff)
  then have "2 ^ 31 \<le> unat (scast x :: u32)"
    by (rule contrapos_pp) (simp add: not_le bit_iff_odd)
  then show ?thesis by (simp add: dec_at_def index_cxx_def base64dec_tab_def)
qed

lemma or_255: "x OR 255 = 255" "255 OR x = 255" for x :: u8
proof -
  have "(255 :: u8) = - 1" by simp
  then show "x OR 255 = 255" "255 OR x = 255"
    by (simp_all only: bit.disj_one_right bit.disj_one_left)
qed

lemma bit_255_7: "bit (255 :: u8) 7"
  by (simp add: bit_7_iff)

section \<open>Bit strings\<close>

text \<open>The \<open>n\<close> low bits of a word, most significant first.\<close>

definition bits_msb :: "nat \<Rightarrow> 'a::len word \<Rightarrow> bool list" where
  "bits_msb n w = map (bit w) (rev [0..<n])"

lemma length_bits_msb [simp]: "length (bits_msb n w) = n"
  by (simp add: bits_msb_def)

lemma bits_msb_cong: "(\<And>i. i < n \<Longrightarrow> bit v i = bit w i) \<Longrightarrow> bits_msb n v = bits_msb n w"
  by (simp add: bits_msb_def)

lemma nth_bits_msb: "i < n \<Longrightarrow> bits_msb n w ! i = bit w (n - Suc i)"
  by (simp add: bits_msb_def rev_nth)

lemma bits_msb_split: "bits_msb (m + n) w = bits_msb m (drop_bit n w) @ bits_msb n w"
proof (rule nth_equalityI)
  fix i
  assume "i < length (bits_msb (m + n) w)"
  then show "bits_msb (m + n) w ! i = (bits_msb m (drop_bit n w) @ bits_msb n w) ! i"
    by (auto simp: nth_append nth_bits_msb bit_drop_bit_eq add.commute)
qed simp

lemma bits_msb_shift_in:
  fixes v :: u32 and ch :: u8
  assumes "m + n \<le> 32" "\<And>i. n \<le> i \<Longrightarrow> \<not> bit ch i"
  shows "bits_msb (m + n) (push_bit n v OR ucast ch) = bits_msb m v @ bits_msb n ch"
proof -
  have "bits_msb m (drop_bit n (push_bit n v OR ucast ch)) = bits_msb m v"
    using assms by (intro bits_msb_cong) (auto simp: bit_simps)
  moreover have "bits_msb n (push_bit n v OR ucast ch) = bits_msb n ch"
    using assms by (intro bits_msb_cong) (auto simp: bit_simps)
  ultimately show ?thesis by (simp add: bits_msb_split)
qed

lemma bits_msb_8_inj: "bits_msb 8 a = bits_msb 8 b \<Longrightarrow> a = b" for a b :: u8
  by (rule bit_word_eqI) (auto simp: bits_msb_def)

lemma concat_bits_msb_8_inj:
  fixes as bs :: "u8 list"
  assumes "concat (map (bits_msb 8) as) @ xs = concat (map (bits_msb 8) bs) @ ys" "length as = length bs"
  shows "as = bs"
  using assms(2,1)
  by (induction as bs rule: list_induct2) (auto dest: bits_msb_8_inj)

lemma length_concat_bits [simp]: "length (concat (map (bits_msb n) ws)) = n * length ws"
  by (induction ws) simp_all

section \<open>The loops as emission of a list\<close>

fun emit_list :: "u8 list \<Rightarrow> u32 \<Rightarrow> nat \<Rightarrow> u8 list \<Rightarrow> (u32 \<times> u8 list) flow cxx" where
  "emit_list [] io out_len out = Inr (Continue (io, out))"
| "emit_list (c # cs) io out_len out =
     bind_flow (emit c io out_len out) (\<lambda>(io, out). emit_list cs io out_len out)"

lemma bind_flow_assoc: "bind_flow (bind_flow m f) g = bind_flow m (\<lambda>a. bind_flow (f a) g)"
  by (cases "(m, f)" rule: bind_flow.cases) simp_all

lemma bind_flow_Continue [simp]: "bind_flow m (\<lambda>a. Inr (Continue a)) = m" for m :: "'a flow cxx"
  by (cases "(m, \<lambda>a. Inr (Continue a) :: 'a flow cxx)" rule: bind_flow.cases) simp_all

lemma emit_list_append:
  "emit_list (xs @ ys) io n out = bind_flow (emit_list xs io n out) (\<lambda>(io, out). emit_list ys io n out)"
  by (induction xs arbitrary: io out) (simp_all add: bind_flow_assoc split_def)

lemma unat_inc: "unat io + k < 2 ^ 32 \<Longrightarrow> 0 < k \<Longrightarrow> unat (io + 1) = Suc (unat io)" for io :: u32
  by (simp add: unat_word_ariths)

lemma emit_list_fits:
  "unat io + length cs \<le> n \<Longrightarrow> n \<le> length out \<Longrightarrow> unat io + length cs < 2 ^ 32 \<Longrightarrow>
   emit_list cs io n out = Inr (Continue (io + of_nat (length cs), overwrite out (unat io) cs))"
proof (induction cs arbitrary: io out)
  case (Cons c cs)
  have io: "unat (io + 1) = Suc (unat io)"
    using unat_inc [OF Cons.prems(3)] by simp
  have "overwrite (out[unat io := c]) (Suc (unat io)) cs = overwrite out (unat io) (c # cs)"
    using Cons.prems by (simp add: overwrite_def take_Suc_conv_app_nth)
  with Cons.IH [of "io + 1" "out[unat io := c]"] Cons.prems show ?case
    by (simp add: emit_def io add.assoc)
qed (simp add: overwrite_def)

lemma emit_list_truncated:
  "unat io \<le> n \<Longrightarrow> n < unat io + length cs \<Longrightarrow> n \<le> length out \<Longrightarrow> n < 2 ^ 32 \<Longrightarrow>
   \<exists>out'. emit_list cs io n out = Inr (Returned (- 1) out')"
proof (induction cs arbitrary: io out)
  case (Cons c cs)
  show ?case
  proof (cases "unat io = n")
    case False
    then have "unat (io + 1) = Suc (unat io)"
      using unat_inc [of io 1] Cons.prems by simp
    with Cons.IH [of "io + 1" "out[unat io := c]"] Cons.prems False show ?thesis
      by (simp add: emit_def)
  qed (simp add: emit_def)
qed simp

section \<open>The encoder\<close>

function sextets :: "u32 \<Rightarrow> nat \<Rightarrow> u32 list" where
  "sextets v rem = (if rem \<ge> 6 then (drop_bit (rem - 6) v AND 63) # sextets v (rem - 6) else [])"
  by pat_completeness auto
termination
  by (relation "measure snd") auto

declare sextets.simps [simp del]

fun enc_run :: "u8 list \<Rightarrow> u32 \<Rightarrow> nat \<Rightarrow> u32 list \<times> u32 \<times> nat" where
  "enc_run [] v rem = ([], v, rem)"
| "enc_run (ch # cs) v rem =
     (let v = push_bit 8 v OR ucast ch; (ss, r) = enc_run cs v ((rem + 8) mod 6)
      in (sextets v (rem + 8) @ ss, r))"

lemma base64_encode_inner_emit:
  "base64_encode_inner v rem io n out =
     bind_flow (emit_list (map enc_at (sextets v (unat rem))) io n out)
       (\<lambda>(io, out). Inr (Continue (of_nat (unat rem mod 6), io, out)))"
proof (induction v rem io n out rule: base64_encode_inner.induct)
  case (1 v rem io n out)
  show ?case
  proof (cases "rem \<ge> 6")
    case True
    then have u: "unat (rem - 6) = unat rem - 6" "6 \<le> unat rem"
      by (simp_all add: unat_sub word_le_nat_alt)
    have m: "(unat rem - 6) mod 6 = unat rem mod 6" using u(2) by (simp add: le_mod_geq)
    have "base64_encode_inner v rem io n out =
      bind_flow (emit (enc_at (drop_bit (unat rem - 6) v AND 63)) io n out)
        (\<lambda>(io, out). base64_encode_inner v (rem - 6) io n out)"
      using True by (subst base64_encode_inner.simps) (simp add: u)
    also have "\<dots> = bind_flow (emit (enc_at (drop_bit (unat rem - 6) v AND 63)) io n out)
        (\<lambda>(io, out). bind_flow (emit_list (map enc_at (sextets v (unat rem - 6))) io n out)
          (\<lambda>(io, out). Inr (Continue (of_nat (unat rem mod 6), io, out))))"
      using "1.IH" [OF True] by (intro bind_flow_cong) (auto simp: m u split_def)
    finally show ?thesis
      using u(2) by (subst sextets.simps) (simp add: bind_flow_assoc split_def)
  next
    case False
    then have "unat rem < 6" by (simp add: word_le_nat_alt)
    with False show ?thesis by (subst base64_encode_inner.simps, subst sextets.simps) simp
  qed
qed

lemma unat_small: "k < 2 ^ 32 \<Longrightarrow> unat (of_nat k :: u32) = k"
  by (simp add: unsigned_of_nat take_bit_nat_eq_self)

lemma enc_run_rem: "r < 6 \<Longrightarrow> snd (snd (enc_run cs v r)) < 6"
  by (induction cs arbitrary: v r) (simp_all add: Let_def split_def)

lemma base64_encode_loop_emit:
  assumes "length inp < 2 ^ 32" "unat ii \<le> length inp" "length inp < unat ii + fuel" "r < 6"
  shows "base64_encode_loop fuel inp ii io v (of_nat r) n out =
     (case enc_run (drop (unat ii) inp) v r of (ss, v', r') \<Rightarrow>
        bind_flow (emit_list (map enc_at ss) io n out) (\<lambda>(io, out). Inr (Continue (io, v', of_nat r', out))))"
  using assms(2-4)
proof (induction fuel arbitrary: ii io v r out)
  case (Suc fuel)
  show ?case
  proof (cases "unat ii < length inp")
    case True
    have ii: "unat (ii + 1) = Suc (unat ii)"
      using unat_inc [of ii 1] True assms(1) by simp
    have "(of_nat r + 8 :: u32) = of_nat (r + 8)" by simp
    then have rem: "unat (of_nat r + 8 :: u32) = r + 8"
      using unat_small [of "r + 8"] Suc.prems(3) by (simp del: of_nat_add)
    have run: "drop (unat ii) inp = inp ! unat ii # drop (Suc (unat ii)) inp"
      using True by (simp add: Cons_nth_drop_Suc)
    have "(r + 8) mod 6 < 6" by simp
    note IH = Suc.IH [OF _ _ this, of "ii + 1", unfolded ii]
    show ?thesis
      using True Suc.prems IH
      by (simp add: Let_def base64_encode_inner_emit rem run bind_flow_assoc emit_list_append split_def)
  next
    case False
    then show ?thesis using Suc.prems by simp
  qed
qed simp

lemma base64_pad_emit:
  "base64_pad io n out = emit_list (replicate ((4 - unat io mod 4) mod 4) ch_eq) io n out"
proof (induction io n out rule: base64_pad.induct)
  case (1 io n out)
  have z: "io AND 3 = 0 \<longleftrightarrow> unat io mod 4 = 0"
    using and_3_mod [of io] by (simp flip: unat_eq_0)
  show ?case
  proof (cases "unat io mod 4 = 0")
    case True
    then show ?thesis using z by (subst base64_pad.simps) simp
  next
    case False
    let ?k = "(4 - Suc (unat io) mod 4) mod 4"
    have k: "(4 - unat io mod 4) mod 4 = Suc ?k"
      using False mod_less_divisor [of 4 "unat io"] by (simp add: mod_Suc) linarith
    have "base64_pad io n out = bind_flow (emit ch_eq io n out) (\<lambda>(io, out). base64_pad io n out)"
      using False z by (subst base64_pad.simps) simp
    also have "\<dots> = bind_flow (emit ch_eq io n out) (\<lambda>(io, out). emit_list (replicate ?k ch_eq) io n out)"
    proof (rule bind_flow_cong [OF refl])
      fix a
      assume e: "emit ch_eq io n out = Inr (Continue a)"
      then have "fst a = io + 1" by (auto simp: emit_def split: if_splits)
      with "1.IH" [OF _ e] False z unat_inc_mod_4 [of io]
      show "(case a of (io, out) \<Rightarrow> base64_pad io n out) =
        (case a of (io, out) \<Rightarrow> emit_list (replicate ?k ch_eq) io n out)"
        by (cases a) simp
    qed
    finally show ?thesis unfolding k by simp
  qed
qed

text \<open>The bits that go in come out in groups of six.\<close>

lemma concat_sextets:
  "bits_msb rem v = concat (map (bits_msb 6) (sextets v rem)) @ bits_msb (rem mod 6) v"
proof (induction v rem rule: sextets.induct)
  case (1 v rem)
  show ?case
  proof (cases "rem \<ge> 6")
    case True
    have m: "(rem - 6) mod 6 = rem mod 6" using True by (simp add: le_mod_geq)
    have "bits_msb 6 (drop_bit (rem - 6) v AND 63) = bits_msb 6 (drop_bit (rem - 6) v)"
      unfolding and_low_mask by (intro bits_msb_cong) (simp add: bit_take_bit_iff)
    moreover have "bits_msb rem v = bits_msb 6 (drop_bit (rem - 6) v) @ bits_msb (rem - 6) v"
      using bits_msb_split [of 6 "rem - 6" v] True by simp
    ultimately show ?thesis
      using "1.IH" [OF True] True m by (subst sextets.simps) simp
  next
    case False
    then show ?thesis by (simp add: sextets.simps)
  qed
qed

lemma sextets_small: "s \<in> set (sextets v rem) \<Longrightarrow> unat s < 64"
proof (induction v rem rule: sextets.induct)
  case (1 v rem)
  then show ?case
    using unat_take_bit_less [of 6] by (subst (asm) sextets.simps) (auto simp: and_low_mask split: if_splits)
qed

lemma enc_run_bits:
  assumes "rem < 6" "enc_run cs v rem = (ss, v', r)"
  shows "bits_msb rem v @ concat (map (bits_msb 8) cs) = concat (map (bits_msb 6) ss) @ bits_msb r v' \<and>
         r < 6 \<and> (\<forall>s \<in> set ss. unat s < 64)"
  using assms
proof (induction cs arbitrary: v rem ss)
  case (Cons ch cs)
  let ?v = "push_bit 8 v OR ucast ch :: u32"
  obtain ss' where run: "enc_run cs ?v ((rem + 8) mod 6) = (ss', v', r)"
    and ss: "ss = sextets ?v (rem + 8) @ ss'"
    using Cons.prems(2) by (auto simp: Let_def split: prod.splits)
  have "\<not> bit ch i" if "8 \<le> i" for i using that bit_imp_le_length [of ch i] by auto
  then have "bits_msb rem v @ bits_msb 8 ch = bits_msb (rem + 8) ?v"
    using Cons.prems(1) by (intro bits_msb_shift_in [symmetric]) simp_all
  also have "\<dots> = concat (map (bits_msb 6) (sextets ?v (rem + 8))) @ bits_msb ((rem + 8) mod 6) ?v"
    by (rule concat_sextets)
  finally have step: "bits_msb rem v @ bits_msb 8 ch =
    concat (map (bits_msb 6) (sextets ?v (rem + 8))) @ bits_msb ((rem + 8) mod 6) ?v" .
  have "(rem + 8) mod 6 < 6" by simp
  note IH = Cons.IH [OF this run]
  have "bits_msb rem v @ concat (map (bits_msb 8) (ch # cs)) =
    concat (map (bits_msb 6) (sextets ?v (rem + 8))) @ bits_msb ((rem + 8) mod 6) ?v @ concat (map (bits_msb 8) cs)"
    by (simp only: list.map concat.simps append.assoc [symmetric] step)
  then have "bits_msb rem v @ concat (map (bits_msb 8) (ch # cs)) =
    concat (map (bits_msb 6) ss) @ bits_msb r v'"
    by (simp only: conjunct1 [OF IH] ss map_append concat_append append.assoc)
  moreover have "\<forall>s \<in> set ss. unat s < 64"
    unfolding ss set_append using sextets_small IH by blast
  ultimately show ?case using IH by blast
qed simp

text \<open>Everything the encoder prints, before the padding.\<close>

definition all_sextets :: "u8 list \<Rightarrow> u32 list" where
  "all_sextets inp =
     (case enc_run inp 0 0 of (ss, v, r) \<Rightarrow> if r \<noteq> 0 then ss @ [push_bit (6 - r) v AND 63] else ss)"

definition encoded :: "u8 list \<Rightarrow> u8 list" where
  "encoded inp = (let ss = all_sextets inp in
     map enc_at ss @ replicate ((4 - length ss mod 4) mod 4) ch_eq)"

lemma all_sextets_bits:
  "\<exists>p < 6. concat (map (bits_msb 6) (all_sextets inp)) =
      concat (map (bits_msb 8) inp) @ replicate p False \<and> (\<forall>s \<in> set (all_sextets inp). unat s < 64)"
proof -
  obtain ss v r where run: "enc_run inp 0 0 = (ss, v, r)" by (metis prod_cases3)
  from enc_run_bits [OF _ run]
  have bits: "concat (map (bits_msb 8) inp) = concat (map (bits_msb 6) ss) @ bits_msb r v"
    and r: "r < 6" and small: "\<forall>s \<in> set ss. unat s < 64"
    by (simp_all add: bits_msb_def)
  show ?thesis
  proof (cases "r = 0")
    case True
    then show ?thesis using bits small run
      by (intro exI [of _ 0]) (simp add: all_sextets_def bits_msb_def)
  next
    case False
    have "bits_msb 6 (push_bit (6 - r) v AND 63) = bits_msb (r + (6 - r)) (push_bit (6 - r) v OR ucast (0::u8))"
      using r unfolding and_low_mask by (simp, intro bits_msb_cong) (simp add: bit_take_bit_iff)
    also have "\<dots> = bits_msb r v @ bits_msb (6 - r) (0 :: u8)"
      using r by (intro bits_msb_shift_in) simp_all
    also have "bits_msb (6 - r) (0 :: u8) = replicate (6 - r) False"
      by (rule nth_equalityI) (simp_all add: nth_bits_msb)
    finally show ?thesis using bits small run False r unat_take_bit_less [of 6 "push_bit (6 - r) v"]
      by (intro exI [of _ "6 - r"]) (auto simp: all_sextets_def and_low_mask)
  qed
qed

lemma emit_list_io:
  "emit_list xs io n out = Inr (Continue (io', out')) \<Longrightarrow> io' = io + of_nat (length xs)"
proof (induction xs arbitrary: io out)
  case (Cons x xs)
  then show ?case by (auto simp: emit_def add.assoc split: if_splits dest!: Cons.IH)
qed simp

lemma of_nat_mod_4: "unat (of_nat k :: u32) mod 4 = k mod 4"
  by (simp add: unat_of_nat mod_mod_cancel)

lemma base64_encode_emit:
  assumes "length inp < 2 ^ 32"
  shows "base64_encode inp n out =
     finish (bind_flow (emit_list (encoded inp @ [0]) 0 n out) (\<lambda>(io, out). Inr (Continue (io - 1, out))))"
proof -
  obtain ss v r where run: "enc_run inp 0 0 = (ss, v, r)" by (metis prod_cases3)
  have r: "r < 6" using enc_run_rem [of 0 inp 0] run by simp
  then have rem: "(of_nat r :: u32) = 0 \<longleftrightarrow> r = 0" "unat (6 - of_nat r :: u32) = 6 - r"
    using unat_small [of r] by (simp_all flip: unat_eq_0 add: unat_sub word_le_nat_alt)
  let ?S = "map enc_at (all_sextets inp)"
  let ?P = "replicate ((4 - length ?S mod 4) mod 4) ch_eq"
  let ?finish = "\<lambda>(io, out). bind_flow (base64_pad io n out)
     (\<lambda>(io, out). bind_flow (emit 0 io n out) (\<lambda>(_, out). Inr (Continue (io, out))))"
  let ?all = "bind_flow (base64_encode_loop (length inp + 1) inp 0 0 0 0 n out)
     (\<lambda>(io, v, rem, out). bind_flow
        (if rem \<noteq> 0 then emit (enc_at (push_bit (unat (6 - rem)) v AND 63)) io n out else Inr (Continue (io, out))) ?finish)"
  have "?all = bind_flow (emit_list ?S 0 n out) ?finish"
    using base64_encode_loop_emit [of inp 0 "length inp + 1" 0 0 0 n out] assms
    by (simp add: run rem all_sextets_def bind_flow_assoc emit_list_append split_def)
  also have "\<dots> = bind_flow (emit_list ?S 0 n out) (\<lambda>(io, out). bind_flow (emit_list ?P io n out)
     (\<lambda>(io, out). bind_flow (emit 0 io n out) (\<lambda>(_, out). Inr (Continue (io, out)))))"
    by (intro bind_flow_cong [OF refl]) (auto simp: base64_pad_emit of_nat_mod_4 dest!: emit_list_io)
  also have "\<dots> = bind_flow (emit_list (encoded inp) 0 n out)
     (\<lambda>(io, out). bind_flow (emit 0 io n out) (\<lambda>(_, out). Inr (Continue (io, out))))"
    by (simp add: encoded_def Let_def emit_list_append bind_flow_assoc split_def)
  also have "\<dots> = bind_flow (emit_list (encoded inp @ [0]) 0 n out) (\<lambda>(io, out). Inr (Continue (io - 1, out)))"
    by (auto simp: emit_list_append bind_flow_assoc emit_def split_def split: if_splits intro!: bind_flow_cong)
  finally show ?thesis
    unfolding base64_encode_def by simp
qed

lemma length_encoded: "length (encoded inp) = 4 * ((length inp + 2) div 3)"
proof -
  obtain p where p: "p < 6" and
    b: "concat (map (bits_msb 6) (all_sextets inp)) = concat (map (bits_msb 8) inp) @ replicate p False"
    using all_sextets_bits by blast
  have "6 * length (all_sextets inp) = 8 * length inp + p"
    using arg_cong [OF b, of length] by simp
  then have len: "length (all_sextets inp) = (8 * length inp + 5) div 6" using p by linarith
  let ?q = "length inp div 3"
  consider "length inp = 3 * ?q" | "length inp = 3 * ?q + 1" | "length inp = 3 * ?q + 2"
    by linarith
  then show ?thesis
  proof cases
    case 1
    then have "length (all_sextets inp) = 4 * ?q" unfolding len by linarith
    moreover have "(length inp + 2) div 3 = ?q" using 1 by linarith
    ultimately show ?thesis by (simp add: encoded_def Let_def)
  next
    case 2
    then have "length (all_sextets inp) = 4 * ?q + 2" unfolding len by linarith
    moreover have "(length inp + 2) div 3 = ?q + 1" using 2 by linarith
    moreover have "(4 * ?q + 2) mod 4 = 2" by presburger
    ultimately show ?thesis by (simp add: encoded_def Let_def del: add_2_eq_Suc')
  next
    case 3
    then have "length (all_sextets inp) = 4 * ?q + 3" unfolding len by linarith
    moreover have "(length inp + 2) div 3 = ?q + 1" using 3 by linarith
    ultimately show ?thesis by (simp add: encoded_def Let_def)
  qed
qed

section \<open>The decoder\<close>

fun dec_run :: "u32 list \<Rightarrow> u32 \<Rightarrow> nat \<Rightarrow> u8 list \<times> u32 \<times> nat" where
  "dec_run [] v rem = ([], v, rem)"
| "dec_run (s # ss) v rem =
     (let v = push_bit 6 v OR ucast (ucast s :: u8) in
      if rem + 6 \<ge> 8
      then let (bs, r) = dec_run ss v (rem + 6 - 8) in (ucast (drop_bit (rem + 6 - 8) v AND 255) # bs, r)
      else dec_run ss v (rem + 6))"

lemma base64_decode_loop_emit:
  assumes "\<forall>s \<in> set ss. unat s < 64" "rest = [] \<or> hd rest = ch_eq" "length inp < 2 ^ 32"
    "drop (unat ii) inp = map enc_at ss @ rest" "unat ii \<le> length inp" "length inp < unat ii + fuel" "r < 8"
  shows "base64_decode_loop fuel inp ii io v (of_nat r) n out =
     bind_flow (emit_list (fst (dec_run ss v r)) io n out)
       (\<lambda>(io, out). Inr (Continue (io, fst (snd (dec_run ss v r)), of_nat (snd (snd (dec_run ss v r))), out)))"
  using assms(1,4-7)
proof (induction ss arbitrary: fuel ii io v r out)
  case Nil
  then obtain fuel' where fuel: "fuel = Suc fuel'" by (cases fuel) auto
  show ?case
  proof (cases "unat ii < length inp")
    case True
    then have "inp ! unat ii = ch_eq"
      using Nil.prems(2) assms(2) by (auto simp flip: hd_drop_conv_nth)
    then show ?thesis using True by (simp add: fuel ch_eq_not_space Let_def)
  qed (simp add: fuel)
next
  case (Cons s ss)
  obtain fuel' where fuel: "fuel = Suc fuel'"
    using Cons.prems(3,4) by (cases fuel) auto
  have s: "unat s < 64" using Cons.prems(1) by simp
  have "unat (ucast s :: u8) = unat s"
    using s by (simp add: unsigned_ucast_eq take_bit_nat_eq_self)
  then have n255: "(ucast s :: u8) \<noteq> 255" using s by auto
  have lt: "unat ii < length inp"
    using Cons.prems(2,3) by (cases "unat ii = length inp") auto
  have ii: "unat (ii + 1) = Suc (unat ii)"
    using unat_inc [of ii 1] lt assms(3) by simp
  have c: "inp ! unat ii = enc_at s" "drop (Suc (unat ii)) inp = map enc_at ss @ rest"
    using Cons.prems(2) by (simp_all add: Cons_nth_drop_Suc [OF lt, symmetric])
  have rem: "unat (of_nat r + 6 :: u32) = r + 6"
    using unat_small [of "r + 6"] Cons.prems(5) by simp
  then have sub: "8 \<le> (of_nat r + 6 :: u32) \<longleftrightarrow> 8 \<le> r + 6" "8 \<le> r + 6 \<Longrightarrow> (of_nat r + 6 - 8 :: u32) = of_nat (r + 6 - 8)"
      "8 \<le> r + 6 \<Longrightarrow> unat (of_nat r + 6 - 8 :: u32) = r + 6 - 8"
    using unat_small [of "r - 2"] Cons.prems(5) by (simp_all add: word_le_nat_alt of_nat_diff)
  note IH = Cons.IH [of "ii + 1" fuel', unfolded ii, OF _ c(2)]
  show ?case
  proof (cases "8 \<le> r + 6")
    case True
    then show ?thesis
      using Cons.prems IH [of "r + 6 - 8"] lt sub(2,3) [OF True]
      by (simp add: fuel c(1) table_inverse [OF s] n255 Let_def sub(1) bind_flow_assoc split_def)
  next
    case False
    then show ?thesis
      using Cons.prems IH [of "r + 6"] lt
      by (simp add: fuel c(1) table_inverse [OF s] n255 Let_def sub(1))
  qed
qed

lemma dec_run_bits:
  assumes "rem < 8" "dec_run ss v rem = (bs, v', r)" "\<forall>s \<in> set ss. unat s < 64"
  shows "bits_msb rem v @ concat (map (bits_msb 6) ss) = concat (map (bits_msb 8) bs) @ bits_msb r v' \<and> r < 8"
  using assms
proof (induction ss arbitrary: v rem bs)
  case (Cons s ss)
  let ?c = "ucast s :: u8"
  let ?v = "push_bit 6 v OR ucast ?c :: u32"
  have s: "unat s < 2 ^ 6" using Cons.prems(3) by simp
  then have "take_bit 6 s = s" by (metis take_bit_nat_eq_self unsigned_take_bit_eq word_unat_eq_iff)
  then have "\<not> bit s i" if "6 \<le> i" for i using that by (metis bit_take_bit_iff not_less)
  then have "\<not> bit ?c i" if "6 \<le> i" for i using that by (simp add: bit_simps)
  then have shift: "bits_msb (rem + 6) ?v = bits_msb rem v @ bits_msb 6 ?c"
    using Cons.prems(1) by (intro bits_msb_shift_in) simp_all
  have c: "bits_msb 6 ?c = bits_msb 6 s"
    by (rule bits_msb_cong) (simp add: bit_simps)
  show ?case
  proof (cases "rem + 6 \<ge> 8")
    case True
    let ?r = "rem + 6 - 8"
    obtain bs' where run: "dec_run ss ?v ?r = (bs', v', r)"
      and bs: "bs = ucast (drop_bit ?r ?v AND 255) # bs'"
      using Cons.prems(2) True by (auto simp: Let_def split: prod.splits)
    have "bits_msb 8 (ucast (drop_bit ?r ?v AND 255) :: u8) = bits_msb 8 (drop_bit ?r ?v)"
      unfolding and_low_mask by (rule bits_msb_cong) (simp add: bit_simps)
    then have step: "bits_msb rem v @ bits_msb 6 s = bits_msb 8 (ucast (drop_bit ?r ?v AND 255) :: u8) @ bits_msb ?r ?v"
      using shift bits_msb_split [of 8 ?r ?v] True by (simp add: c add.commute [of 6])
    have "?r < 8" using Cons.prems(1) True by simp
    note IH = Cons.IH [OF this run]
    have "bits_msb rem v @ concat (map (bits_msb 6) (s # ss)) =
      bits_msb 8 (ucast (drop_bit ?r ?v AND 255) :: u8) @ bits_msb ?r ?v @ concat (map (bits_msb 6) ss)"
      by (simp only: list.map concat.simps append.assoc [symmetric] step)
    then show ?thesis using Cons.prems(3) IH by (simp only: bs list.map concat.simps append.assoc) simp
  next
    case False
    then have run: "dec_run ss ?v (rem + 6) = (bs, v', r)" using Cons.prems(2) by (simp add: Let_def)
    have "rem + 6 < 8" using False by simp
    note Cons.IH [OF this run]
    then show ?thesis using Cons.prems(3) shift by (simp add: c)
  qed
qed simp

lemma sint_small: "k < 2 ^ 31 \<Longrightarrow> sint (of_nat k :: u32) = int k"
  by (simp add: sint_uint uint_nat unat_of_nat signed_take_bit_eq_if_positive bit_iff_odd take_bit_eq_mod)

lemma base64_decode_encoded:
  assumes "length bs \<le> n" "n \<le> length out" "length (encoded bs) < 2 ^ 31"
  shows "base64_decode (encoded bs) n out = Inr (Some (int (length bs), overwrite out 0 bs))"
proof -
  let ?S = "all_sextets bs"
  let ?rest = "replicate ((4 - length ?S mod 4) mod 4) ch_eq"
  obtain p where p: "p < 6"
    and b: "concat (map (bits_msb 6) ?S) = concat (map (bits_msb 8) bs) @ replicate p False"
    and small: "\<forall>s \<in> set ?S. unat s < 64"
    using all_sextets_bits by blast
  obtain os v r where run: "dec_run ?S 0 0 = (os, v, r)" by (metis prod_cases3)
  have d: "concat (map (bits_msb 8) bs) @ replicate p False = concat (map (bits_msb 8) os) @ bits_msb r v"
    and r: "r < 8"
    using dec_run_bits [OF _ run small] b by (simp_all add: bits_msb_def)
  have "8 * length bs + p = 8 * length os + r"
    using arg_cong [OF d, of length] by simp
  with p r have "length bs = length os" by linarith
  with d have os: "os = bs" using concat_bits_msb_8_inj by blast
  have rest: "?rest = [] \<or> hd ?rest = ch_eq"
    by (cases "(4 - length ?S mod 4) mod 4") simp_all
  have len: "length bs < 2 ^ 31"
    using assms(3) unfolding length_encoded by linarith
  have "base64_decode_loop (length (encoded bs) + 1) (encoded bs) 0 0 0 0 n out =
      Inr (Continue (of_nat (length bs), v, of_nat r, overwrite out 0 bs))"
    using base64_decode_loop_emit [OF small rest, of "encoded bs" 0 "length (encoded bs) + 1" 0 0 0 n out]
      emit_list_fits [of 0 bs n out] assms len
    by (simp add: encoded_def Let_def run os)
  moreover have "\<not> 8 \<le> (of_nat r :: u32)"
    using r unat_small [of r] by (simp add: word_le_nat_alt)
  ultimately show ?thesis using sint_small [OF len] by (simp add: base64_decode_def finish_def)
qed

lemma length_less_encoded: "length bs \<le> length (encoded bs)"
  unfolding length_encoded by linarith

lemma base64_encode_fits:
  assumes "length (encoded bs) < n" "n \<le> length out" "length (encoded bs) < 2 ^ 31"
  shows "base64_encode bs n out = Inr (Some (int (length (encoded bs)), overwrite out 0 (encoded bs @ [0])))"
  using emit_list_fits [of 0 "encoded bs @ [0]" n out] assms length_less_encoded [of bs] sint_small [OF assms(3)]
  by (simp add: base64_encode_emit finish_def)

lemma base64_encode_truncated:
  assumes "n \<le> length (encoded bs)" "n \<le> length out" "length (encoded bs) < 2 ^ 31"
  shows "\<exists>out'. base64_encode bs n out = Inr (Some (- 1, out'))"
  using emit_list_truncated [of 0 n "encoded bs @ [0]" out] assms length_less_encoded [of bs]
  by (auto simp: base64_encode_emit finish_def)

section \<open>Properties\<close>

text \<open>
  C34. Encoding a byte string into a large enough buffer and decoding the characters
  it produced gives the original bytes back, with both functions returning the number of bytes
  they wrote and the encoder terminating its text with NUL. The encoded text has fewer than \<open>2 ^ 31\<close>
  characters, so that its length is an \<^verbatim>\<open>int\<close> and the counters of both loops do not wrap.
\<close>

theorem base64_roundtrip:
  assumes "4 * ((length bs + 2) div 3) < n" "n \<le> length out" "4 * ((length bs + 2) div 3) < 2 ^ 31"
    and "length bs \<le> m" "m \<le> length dst"
  shows "\<exists>len out'. base64_encode bs n out = Inr (Some (int len, out')) \<and> out' ! len = 0 \<and>
           base64_decode (take len out') m dst = Inr (Some (int (length bs), bs @ drop (length bs) dst))"
proof -
  have fit: "length (encoded bs) < n" "length (encoded bs) < 2 ^ 31" using assms(1,3) by (simp_all add: length_encoded)
  let ?out = "overwrite out 0 (encoded bs @ [0])"
  have "take (length (encoded bs)) ?out = encoded bs" "?out ! length (encoded bs) = 0"
    using fit assms(2) by (simp_all add: overwrite_def nth_append)
  then show ?thesis
    using base64_encode_fits [OF fit(1) assms(2) fit(2)] base64_decode_encoded [OF assms(4,5) fit(2)]
    by (intro exI [of _ "length (encoded bs)"] exI [of _ ?out]) (simp add: overwrite_def)
qed

theorem base64_roundtrip_witness:
  "\<exists>len out'. base64_encode [0x6C, 0x61, 0x74, 0x79] 16 (replicate 16 0) = Inr (Some (int len, out')) \<and>
     out' ! len = 0 \<and> base64_decode (take len out') 4 [0, 0, 0, 0, 9] = Inr (Some (4, [0x6C, 0x61, 0x74, 0x79, 9]))"
  using base64_roundtrip [of "[0x6C, 0x61, 0x74, 0x79]" 16 "replicate 16 0" 4 "[0, 0, 0, 0, 9]"] by simp

text \<open>
  \<^verbatim>\<open>base64_encode\<close> returns four characters per started group of three bytes when they and
  the terminator fit, and \<open>- 1\<close> otherwise; whatever \<^verbatim>\<open>out_len\<close> the caller gives, nothing is
  written outside an array of that length.
\<close>

theorem base64_encode_length:
  assumes "n \<le> length out" "4 * ((length bs + 2) div 3) < 2 ^ 31"
  shows "\<exists>out'. base64_encode bs n out =
           Inr (Some (if 4 * ((length bs + 2) div 3) < n then int (4 * ((length bs + 2) div 3)) else - 1, out'))"
  using base64_encode_fits [of bs n out] base64_encode_truncated [of n bs out] assms
  by (auto simp: length_encoded)

theorem base64_encode_length_witness:
  "(\<exists>out'. base64_encode [1, 2] 5 (replicate 5 0) = Inr (Some (4, out'))) \<and>
   (\<exists>out'. base64_encode [1, 2] 4 (replicate 5 0) = Inr (Some (- 1, out')))"
  using base64_encode_length [of 5 "replicate 5 0" "[1, 2]"] base64_encode_length [of 4 "replicate 5 0" "[1, 2]"]
  by simp

text \<open>
  With \<open>2 ^ 32\<close> bytes or more of input and as much room the encoder does not end: both counters wrap, and it
  encodes the first \<open>2 ^ 32\<close> bytes again and again.
\<close>

lemma emit_list_room:
  assumes "2 ^ 32 \<le> n" "n \<le> length out"
  shows "\<exists>io' out'. emit_list cs io n out = Inr (Continue (io', out')) \<and> length out' = length out"
  using assms
proof (induction cs arbitrary: io out)
  case (Cons c cs)
  have "unat io < 2 ^ 32" using unsigned_less [of io, where 'a = nat] by simp
  with Cons.IH [of "out[unat io := c]" "io + 1"] Cons.prems show ?case by (simp add: emit_def)
qed simp

lemma base64_encode_never_ends:
  assumes "2 ^ 32 \<le> length inp" "2 ^ 32 \<le> n" "n \<le> length out"
  shows "base64_encode inp n out = Inr None"
proof -
  have "base64_encode_loop fuel inp ii io v rem n out = Inr Running" if "n \<le> length out" for fuel ii io v rem out
    using that
  proof (induction fuel arbitrary: ii io v rem out)
    case (Suc fuel)
    have "unat ii < 2 ^ 32" using unsigned_less [of ii, where 'a = nat] by simp
    then have lt: "unat ii < length inp" using assms(1) by simp
    let ?v = "push_bit 8 v OR ucast (inp ! unat ii) :: u32"
    obtain io' out' where "emit_list (map enc_at (sextets ?v (unat (rem + 8)))) io n out = Inr (Continue (io', out'))" "length out' = length out"
      using emit_list_room [OF assms(2) Suc.prems] by blast
    with Suc lt show ?case by (simp add: Let_def base64_encode_inner_emit)
  qed simp
  then show ?thesis using assms(3) by (simp add: base64_encode_def finish_def del: base64_encode_loop.simps)
qed

text \<open>
  The decoders index their table with a sign-extended \<^verbatim>\<open>char\<close>: a group whose first
  byte is above 127 reads outside \<^verbatim>\<open>base64dec_tab\<close>, while an ASCII group is always decoded, with
  result 0 exactly when one of its characters is not in the alphabet (the padding sign counting
  as zero).
\<close>

theorem base64decode_ascii:
  "(\<not> a < 128 \<longrightarrow> base64decode a b c d = Inl OutOfBounds) \<and>
   (a < 128 \<and> b < 128 \<and> c < 128 \<and> d < 128 \<longrightarrow>
      (\<exists>r out. base64decode a b c d = Inr (r, out) \<and>
         (r = 0 \<longleftrightarrow> (\<exists>x \<in> {a, b, c, d}. dec_at x = Inr 255))))"
proof (intro conjI impI)
  assume "\<not> a < 128"
  then show "base64decode a b c d = Inl OutOfBounds"
    using dec_at_high [of a] by (simp add: base64decode_def)
next
  assume asc: "a < 128 \<and> b < 128 \<and> c < 128 \<and> d < 128"
  then obtain va vb vc vd where
    v: "dec_at a = Inr va" "dec_at b = Inr vb" "dec_at c = Inr vc" "dec_at d = Inr vd"
    and cls: "va = 255 \<or> \<not> bit va 7" "vb = 255 \<or> \<not> bit vb 7" "vc = 255 \<or> \<not> bit vc 7" "vd = 255 \<or> \<not> bit vd 7"
    using dec_at_ascii by metis
  have "va OR vb OR vc OR vd \<noteq> 255 \<longleftrightarrow> va \<noteq> 255 \<and> vb \<noteq> 255 \<and> vc \<noteq> 255 \<and> vd \<noteq> 255"
    using cls bit_255_7 by (metis bit_or_iff or_255)
  then show "\<exists>r out. base64decode a b c d = Inr (r, out) \<and>
         (r = 0 \<longleftrightarrow> (\<exists>x \<in> {a, b, c, d}. dec_at x = Inr 255))"
    by (auto simp: base64decode_def v)
qed

theorem base64decode_ascii_witness:
  "base64decode 0xC3 0x41 0x41 0x41 = Inl OutOfBounds \<and>
   (\<exists>out. base64decode 0x41 0x2A 0x41 0x41 = Inr (0, out))"
proof -
  have "dec_at 0x2A = Inr 255" by code_simp
  then show ?thesis
    using base64decode_ascii [of "0xC3" "0x41" "0x41" "0x41"] base64decode_ascii [of "0x41" "0x2A" "0x41" "0x41"] by auto
qed

section \<open>One group there and back\<close>

lemma less_64_bits: "(\<And>i. 6 \<le> i \<Longrightarrow> \<not> bit k i) \<Longrightarrow> unat k < 64" for k :: u8
proof -
  assume "\<And>i. 6 \<le> i \<Longrightarrow> \<not> bit k i"
  then have "take_bit 6 k = k" by (intro bit_word_eqI) (auto simp: bit_simps not_less [symmetric])
  then show ?thesis using unat_take_bit_less [of 6 k] by simp
qed

lemma not_bit_ge_8: "8 \<le> i \<Longrightarrow> \<not> bit k i" for k :: u8
  using bit_imp_le_length [of k i] by auto

lemma group_sextets:
  "unat (drop_bit 2 a) < 64" "unat (push_bit 4 (a AND 3) OR drop_bit 4 b) < 64"
  "unat (push_bit 2 (b AND 15) OR drop_bit 6 c) < 64" "unat (c AND 63) < 64"
  for a b c :: u8
  by (rule less_64_bits; auto simp: and_low_mask bit_simps not_bit_ge_8)+

lemma less_8_cases: "n < 8 \<Longrightarrow> n = 0 \<or> n = 1 \<or> n = 2 \<or> n = 3 \<or> n = 4 \<or> n = 5 \<or> n = 6 \<or> n = (7::nat)"
  by linarith

lemma group_bytes:
  fixes a b c :: u8
  shows "push_bit 2 (drop_bit 2 a) OR drop_bit 4 (push_bit 4 (a AND 3) OR drop_bit 4 b) = a"
    and "push_bit 4 (push_bit 4 (a AND 3) OR drop_bit 4 b) OR drop_bit 2 (push_bit 2 (b AND 15) OR drop_bit 6 c) = b"
    and "push_bit 6 (push_bit 2 (b AND 15) OR drop_bit 6 c) OR (c AND 63) = c"
  unfolding and_low_mask
  by (rule bit_word_eqI, simp add: bit_simps, drule less_8_cases, elim disjE; simp add: not_bit_ge_8 eval_nat_numeral)+

lemma dec_at_eq: "dec_at ch_eq = Inr 0"
  by code_simp

lemma or_not_255:
  assumes "unat a < 64" "unat b < 64" "unat c < 64" "unat d < 64"
  shows "a OR b OR c OR d \<noteq> (255 :: u8)"
proof -
  have "\<not> bit k 7" if "unat k < 64" for k :: u8
    using that bit_7_iff [of k] by (simp add: word_less_nat_alt)
  then show ?thesis using assms bit_255_7 by (metis bit_or_iff)
qed

text \<open>Decoding four, three and two alphabet characters, the rest being padding.\<close>

lemma base64decode_alphabet:
  fixes k0 k1 k2 k3 :: u8
  assumes "unat k0 < 64" "unat k1 < 64" "unat k2 < 64" "unat k3 < 64"
  shows "base64decode (enc_at k0) (enc_at k1) (enc_at k2) (enc_at k3) =
     Inr (3, [push_bit 2 k0 OR drop_bit 4 k1, push_bit 4 k1 OR drop_bit 2 k2, push_bit 6 k2 OR k3])"
    and "base64decode (enc_at k0) (enc_at k1) (enc_at k2) ch_eq =
     Inr (2, [push_bit 2 k0 OR drop_bit 4 k1, push_bit 4 k1 OR drop_bit 2 k2, push_bit 6 k2])"
    and "base64decode (enc_at k0) (enc_at k1) ch_eq ch_eq =
     Inr (1, [push_bit 2 k0 OR drop_bit 4 k1, push_bit 4 k1, 0])"
  using assms or_not_255 [of k0 k1 k2 k3] or_not_255 [of k0 k1 k2 0] or_not_255 [of k0 k1 0 0]
  by (simp_all add: base64decode_def table_inverse(2,4) dec_at_eq)

text \<open>
  A group of one, two or three bytes encoded by \<^verbatim>\<open>base64encode\<close> is decoded by
  \<^verbatim>\<open>base64decode\<close> to the same number of bytes with the same values.
\<close>

theorem base64_group_roundtrip:
  assumes "count \<in> {1, 2, 3}"
  shows "\<exists>out. (case base64encode a b c count of [e0, e1, e2, e3] \<Rightarrow> base64decode e0 e1 e2 e3 | _ \<Rightarrow> Inl Undefined)
            = Inr (count, out) \<and> take (nat count) out = take (nat count) [a, b, c]"
proof -
  note dec = base64decode_alphabet [OF group_sextets(1) [of a] group_sextets(2) [of a b]
    group_sextets(3) [of b c] group_sextets(4) [of c]]
  from assms consider "count = 1" | "count = 2" | "count = 3" by auto
  then show ?thesis
  proof cases
    case 1
    then have "base64encode a b c count =
      [enc_at (drop_bit 2 a), enc_at (push_bit 4 (a AND 3) OR drop_bit 4 b), ch_eq, ch_eq]"
      by (simp add: base64encode_def)
    with 1 show ?thesis by (simp only: list.case dec(3) group_bytes) auto
  next
    case 2
    then have "base64encode a b c count =
      [enc_at (drop_bit 2 a), enc_at (push_bit 4 (a AND 3) OR drop_bit 4 b),
       enc_at (push_bit 2 (b AND 15) OR drop_bit 6 c), ch_eq]"
      by (simp add: base64encode_def)
    with 2 show ?thesis by (simp only: list.case dec(2) group_bytes) auto
  next
    case 3
    then have "base64encode a b c count =
      [enc_at (drop_bit 2 a), enc_at (push_bit 4 (a AND 3) OR drop_bit 4 b),
       enc_at (push_bit 2 (b AND 15) OR drop_bit 6 c), enc_at (c AND 63)]"
      by (simp add: base64encode_def)
    with 3 show ?thesis by (simp only: list.case dec(1) group_bytes) auto
  qed
qed

theorem base64_group_roundtrip_witness:
  "\<exists>out. (case base64encode 77 97 0 2 of [e0, e1, e2, e3] \<Rightarrow> base64decode e0 e1 e2 e3 | _ \<Rightarrow> Inl Undefined)
      = Inr (2, out) \<and> take 2 out = [77, 97]"
  using base64_group_roundtrip [of 2 77 97 0] by simp

end
