(* ===== verification/Trie.thy ===== *)
theory Trie
  imports Latypus_Prelude "HOL-Library.Sublist"
begin

text \<open>
  \<^verbatim>\<open>src/trie.h\<close>: the byte trie that maps location prefixes to locations. The value type \<^verbatim>\<open>T\<close> of
  the template is a pointer, so a val is an option whose \<open>None\<close> is the null pointer (and
  \<^verbatim>\<open>T()\<close>). Keys are read as C strings. A child array is indexed by the val of a \<^verbatim>\<open>char\<close>, which
  is signed: a byte above 127 gives a negative index.
\<close>

section \<open>Nodes and operations\<close>

type_synonym 'a trie_entry = "string \<times> 'a option"

datatype 'a trie_node = Node "'a trie_entry" "nat \<Rightarrow> 'a trie_node option"

definition new_node :: "'a trie_node" where
  "new_node = Node ('''', None) (\<lambda>_. None)"

definition child_index :: "char \<Rightarrow> nat cxx" where
  "child_index c = (if (of_char c :: nat) < 128 then Inr (of_char c) else Inl OutOfBounds)"

fun insert_walk :: "string \<Rightarrow> 'a trie_entry \<Rightarrow> 'a trie_node \<Rightarrow> 'a trie_node cxx" where
  "insert_walk [] val (Node v chars) = Inr (Node val chars)"
| "insert_walk (c # p) val (Node v chars) =
     bind_cxx (child_index c) (\<lambda>i.
       bind_cxx (insert_walk p val (case chars i of None \<Rightarrow> new_node | Some t \<Rightarrow> t)) (\<lambda>t.
         Inr (Node v (chars(i := Some t)))))"

fun find_walk :: "string \<Rightarrow> 'a trie_node \<Rightarrow> 'a option cxx" where
  "find_walk [] (Node v chars) = Inr (snd v)"
| "find_walk (c # p) (Node v chars) =
     bind_cxx (child_index c) (\<lambda>i. case chars i of None \<Rightarrow> Inr None | Some t \<Rightarrow> find_walk p t)"

definition entry_of :: "'a trie_node \<Rightarrow> 'a trie_entry" where
  "entry_of t = (case t of Node v _ \<Rightarrow> v)"

fun find_nearest_walk :: "string \<Rightarrow> 'a trie_node \<Rightarrow> 'a trie_entry \<Rightarrow> 'a trie_entry cxx" where
  "find_nearest_walk [] t nearest = Inr nearest"
| "find_nearest_walk (c # p) (Node v chars) nearest =
     bind_cxx (child_index c) (\<lambda>i.
       case chars i of
         None \<Rightarrow> Inr nearest
       | Some t \<Rightarrow> find_nearest_walk p t (if snd (entry_of t) \<noteq> None then entry_of t else nearest))"

definition trie_insert :: "'a trie_node \<Rightarrow> string \<Rightarrow> 'a option \<Rightarrow> 'a trie_node cxx" where
  "trie_insert root key val = insert_walk (c_str key) (key, val) root"

definition trie_find :: "'a trie_node \<Rightarrow> string \<Rightarrow> 'a option cxx" where
  "trie_find root key = find_walk (c_str key) root"

definition trie_find_nearest :: "'a trie_node \<Rightarrow> string \<Rightarrow> 'a trie_entry cxx" where
  "trie_find_nearest root key = find_nearest_walk (c_str key) root ('''', None)"

section \<open>The contract of a longest-prefix map\<close>

text \<open>
  What the HTTP server relies on when it looks up the location of a request path: inserts behave
  like a map on proper keys, and the nearest entry is the one with the longest non-empty stored
  prefix.
\<close>

definition plain_key :: "string \<Rightarrow> bool" where
  "plain_key k \<longleftrightarrow> (\<forall>c \<in> set k. c \<noteq> NUL \<and> (of_char c :: nat) < 128)"

locale prefix_map =
  fixes empty :: 't
    and insert :: "'t \<Rightarrow> string \<Rightarrow> 'a option \<Rightarrow> 't cxx"
    and find :: "'t \<Rightarrow> string \<Rightarrow> 'a option cxx"
    and nearest :: "'t \<Rightarrow> string \<Rightarrow> (string \<times> 'a option) cxx"
    and invar :: "'t \<Rightarrow> bool"
  assumes invar_empty: "invar empty"
    and insert_total: "invar t \<Longrightarrow> plain_key k \<Longrightarrow> \<exists>t'. insert t k v = Inr t'"
    and invar_insert: "invar t \<Longrightarrow> plain_key k \<Longrightarrow> insert t k v = Inr t' \<Longrightarrow> invar t'"
    and find_empty: "plain_key k \<Longrightarrow> find empty k = Inr None"
    and find_insert: "invar t \<Longrightarrow> plain_key k \<Longrightarrow> plain_key k' \<Longrightarrow> insert t k v = Inr t' \<Longrightarrow>
           find t' k' = (if k' = k then Inr v else find t k')"
    and nearest_total: "invar t \<Longrightarrow> plain_key k \<Longrightarrow> \<exists>u r. nearest t k = Inr (u, r)"
    and nearest_hit: "invar t \<Longrightarrow> plain_key k \<Longrightarrow> nearest t k = Inr (u, Some x) \<Longrightarrow>
           u \<noteq> [] \<and> prefix u k \<and> find t u = Inr (Some x)"
    and nearest_longest: "invar t \<Longrightarrow> plain_key k \<Longrightarrow> nearest t k = Inr (u, Some x) \<Longrightarrow>
           prefix u' k \<Longrightarrow> find t u' = Inr (Some x') \<Longrightarrow> length u' \<le> length u"
    and nearest_miss: "invar t \<Longrightarrow> plain_key k \<Longrightarrow> nearest t k = Inr (u, None) \<Longrightarrow>
           u = [] \<and> (\<forall>u' x'. prefix u' k \<longrightarrow> u' \<noteq> [] \<longrightarrow> find t u' \<noteq> Inr (Some x'))"
begin

fun build :: "(string \<times> 'a) list \<Rightarrow> 't \<Rightarrow> 't cxx" where
  "build [] t = Inr t"
| "build ((k, v) # kvs) t = bind_cxx (insert t k (Some v)) (build kvs)"

lemma build_find:
  assumes "invar t" "\<forall>kv \<in> set kvs. plain_key (fst kv)"
  shows "\<exists>t'. build kvs t = Inr t' \<and> invar t' \<and>
           (\<forall>k. plain_key k \<longrightarrow> find t' k = (case map_of (rev kvs) k of None \<Rightarrow> find t k | Some v \<Rightarrow> Inr (Some v)))"
  using assms
proof (induction kvs arbitrary: t)
  case (Cons kv kvs)
  obtain k v where kv: "kv = (k, v)" by (cases kv)
  then have k: "plain_key k" using Cons.prems by simp
  obtain t1 where t1: "insert t k (Some v) = Inr t1" using insert_total Cons.prems(1) k by blast
  have i1: "invar t1" using invar_insert Cons.prems(1) k t1 by blast
  obtain t' where "build kvs t1 = Inr t'" "invar t'"
    "\<forall>k. plain_key k \<longrightarrow> find t' k = (case map_of (rev kvs) k of None \<Rightarrow> find t1 k | Some v \<Rightarrow> Inr (Some v))"
    using Cons.IH [OF i1] Cons.prems(2) by auto
  then show ?case
    using t1 find_insert [OF Cons.prems(1) k _ t1] by (auto simp: kv map_add_def split: option.splits)
qed simp

lemma build_nearest:
  assumes "\<forall>kv \<in> set kvs. plain_key (fst kv)" "plain_key path"
  shows "\<exists>t u r. build kvs empty = Inr t \<and> nearest t path = Inr (u, r) \<and>
     (case r of
        Some x \<Rightarrow> u \<noteq> [] \<and> prefix u path \<and> map_of (rev kvs) u = Some x \<and>
          (\<forall>kv \<in> set kvs. prefix (fst kv) path \<longrightarrow> length (fst kv) \<le> length u)
      | None \<Rightarrow> u = [] \<and> (\<forall>kv \<in> set kvs. fst kv \<noteq> [] \<longrightarrow> \<not> prefix (fst kv) path))"
proof -
  obtain t where t: "build kvs empty = Inr t" "invar t"
    and f: "\<And>k. plain_key k \<Longrightarrow>
        find t k = (case map_of (rev kvs) k of None \<Rightarrow> find empty k | Some v \<Rightarrow> Inr (Some v))"
    using build_find [OF invar_empty assms(1)] by blast
  obtain u r where n: "nearest t path = Inr (u, r)" using nearest_total t(2) assms(2) by blast
  have stored: "\<exists>x. find t (fst kv) = Inr (Some x)" if "kv \<in> set kvs" for kv
  proof -
    have "map_of (rev kvs) (fst kv) \<noteq> None"
      using that by (auto simp: map_of_eq_None_iff)
    then show ?thesis using f [of "fst kv"] assms(1) that by auto
  qed
  show ?thesis
  proof (cases r)
    case None
    then show ?thesis using t n nearest_miss [OF t(2) assms(2), of u] stored
      by (intro exI [of _ t] exI [of _ u] exI [of _ r]) fastforce
  next
    case (Some x)
    then have hit: "u \<noteq> []" "prefix u path" "find t u = Inr (Some x)"
      using nearest_hit [OF t(2) assms(2), of u x] n by auto
    have "plain_key u" using hit(2) assms(2) set_mono_prefix [of u path] by (auto simp: plain_key_def)
    then have "map_of (rev kvs) u = Some x"
      using f [of u] hit(3) find_empty [of u] by (auto split: option.splits)
    moreover have "length (fst kv) \<le> length u" if "kv \<in> set kvs" "prefix (fst kv) path" for kv
      using nearest_longest [OF t(2) assms(2), of u x] n Some that stored by blast
    ultimately show ?thesis using t n Some hit by auto
  qed
qed

end

section \<open>The trie keeps the contract\<close>

fun entry_at :: "'a trie_node \<Rightarrow> string \<Rightarrow> 'a trie_entry option" where
  "entry_at (Node v chars) [] = Some v"
| "entry_at (Node v chars) (c # cs) =
     (case chars (of_char c) of None \<Rightarrow> None | Some t \<Rightarrow> entry_at t cs)"

text \<open>An entry with a val is stored under the key it carries.\<close>

definition trie_ok :: "'a trie_node \<Rightarrow> bool" where
  "trie_ok t \<longleftrightarrow> (\<forall>ks k x. entry_at t ks = Some (k, Some x) \<longrightarrow> k = ks)"

abbreviation stored_at :: "'a trie_node \<Rightarrow> string \<Rightarrow> 'a option" where
  "stored_at t ks \<equiv> Option.bind (entry_at t ks) snd"

lemma plain_key_simps [simp]:
  "plain_key []" "plain_key (c # cs) \<longleftrightarrow> c \<noteq> NUL \<and> (of_char c :: nat) < 128 \<and> plain_key cs"
  by (auto simp: plain_key_def)

lemma plain_key_c_str: "plain_key k \<Longrightarrow> c_str k = k"
  by (rule c_str_id) (auto simp: plain_key_def)

lemma entry_at_new_node: "entry_at new_node ks = (if ks = [] then Some ('''', None) else None)"
  by (cases ks) (simp_all add: new_node_def)

lemma insert_walk_entry_at:
  assumes "plain_key p"
  shows "\<exists>t'. insert_walk p val t = Inr t' \<and>
     (\<forall>ks. stored_at t' ks = (if ks = p then snd val else stored_at t ks) \<and>
        (entry_at t' p = Some val) \<and> (ks \<noteq> p \<longrightarrow> stored_at t ks \<noteq> None \<longrightarrow> entry_at t' ks = entry_at t ks))"
  using assms
proof (induction p val t rule: insert_walk.induct)
  case (1 val v chars)
  show ?case by (auto simp: neq_Nil_conv)
next
  case (2 c p val v chars)
  let ?i = "of_char c :: nat"
  let ?t = "case chars ?i of None \<Rightarrow> new_node | Some t \<Rightarrow> t"
  have ci: "child_index c = Inr ?i" using "2.prems" by (simp add: child_index_def)
  obtain t' where t': "insert_walk p val ?t = Inr t'"
    and e: "\<And>ks. stored_at t' ks = (if ks = p then snd val else stored_at ?t ks) \<and>
        (entry_at t' p = Some val) \<and> (ks \<noteq> p \<longrightarrow> stored_at ?t ks \<noteq> None \<longrightarrow> entry_at t' ks = entry_at ?t ks)"
    using "2.IH" [OF ci] "2.prems" by auto
  have old: "stored_at ?t ks = stored_at (Node v chars) (c # ks)" for ks
    by (cases "chars ?i") (simp_all add: entry_at_new_node)
  have oldentry: "entry_at ?t ks = entry_at (Node v chars) (c # ks)" if "stored_at ?t ks \<noteq> None" for ks
    using that by (cases "chars ?i") (auto simp: entry_at_new_node split: if_splits)
  let ?n = "Node v (chars(?i := Some t'))"
  have "stored_at ?n ks = (if ks = c # p then snd val else stored_at (Node v chars) ks) \<and>
      entry_at ?n (c # p) = Some val \<and>
      (ks \<noteq> c # p \<longrightarrow> stored_at (Node v chars) ks \<noteq> None \<longrightarrow> entry_at ?n ks = entry_at (Node v chars) ks)" for ks
  proof (cases ks)
    case Nil
    then show ?thesis using e [of p] by simp
  next
    case (Cons d ds)
    show ?thesis
    proof (cases "d = c")
      case True
      then show ?thesis using e [of ds] e [of p] old [of ds] oldentry [of ds] Cons by auto
    next
      case False
      then have "(of_char d :: nat) \<noteq> ?i" by (simp add: of_char_eq_iff)
      then show ?thesis using e [of p] Cons False by simp
    qed
  qed
  then show ?case using ci t' by (intro exI [of _ ?n]) simp
qed

lemma find_walk_stored: "plain_key p \<Longrightarrow> find_walk p t = Inr (stored_at t p)"
  by (induction p t rule: find_walk.induct)
    (auto simp: child_index_def split: option.splits)

text \<open>
  The nearest walk returns the last entry with a value met on the way down, or the one it started with.
\<close>

lemma entry_at_Nil: "entry_at t [] = Some (entry_of t)"
  by (cases t) (simp add: entry_of_def)

lemma find_nearest_walk_spec:
  assumes "plain_key p"
  shows "\<exists>r. find_nearest_walk p t near = Inr r \<and>
     ((r = near \<and> (\<forall>q. prefix q p \<longrightarrow> q \<noteq> [] \<longrightarrow> stored_at t q = None)) \<or>
      (\<exists>q. prefix q p \<and> q \<noteq> [] \<and> entry_at t q = Some r \<and> snd r \<noteq> None \<and>
         (\<forall>q'. prefix q' p \<longrightarrow> stored_at t q' \<noteq> None \<longrightarrow> length q' \<le> length q)))"
  using assms
proof (induction p t near rule: find_nearest_walk.induct)
  case (1 t near)
  then show ?case by auto
next
  case (2 c p v chars near)
  have ci: "child_index c = Inr (of_char c)" using "2.prems" by (simp add: child_index_def)
  show ?case
  proof (cases "chars (of_char c)")
    case None
    then show ?thesis using ci by (auto simp: prefix_Cons)
  next
    case (Some t)
    let ?near = "if snd (entry_of t) \<noteq> None then entry_of t else near"
    obtain r where r: "find_nearest_walk p t ?near = Inr r"
      and cases: "(r = ?near \<and> (\<forall>q. prefix q p \<longrightarrow> q \<noteq> [] \<longrightarrow> stored_at t q = None)) \<or>
        (\<exists>q. prefix q p \<and> q \<noteq> [] \<and> entry_at t q = Some r \<and> snd r \<noteq> None \<and>
           (\<forall>q'. prefix q' p \<longrightarrow> stored_at t q' \<noteq> None \<longrightarrow> length q' \<le> length q))"
      using "2.IH" [OF ci Some] "2.prems" unfolding plain_key_simps by blast
    have walk: "find_nearest_walk (c # p) (Node v chars) near = Inr r" using r ci Some by simp
    from cases consider
        (own) "r = entry_of t" "snd (entry_of t) \<noteq> None" "\<forall>q. prefix q p \<longrightarrow> q \<noteq> [] \<longrightarrow> stored_at t q = None"
      | (none) "r = near" "snd (entry_of t) = None" "\<forall>q. prefix q p \<longrightarrow> q \<noteq> [] \<longrightarrow> stored_at t q = None"
      | (below) q where "prefix q p" "q \<noteq> []" "entry_at t q = Some r" "snd r \<noteq> None"
          "\<forall>q'. prefix q' p \<longrightarrow> stored_at t q' \<noteq> None \<longrightarrow> length q' \<le> length q"
      by (auto split: if_splits)
    then show ?thesis
    proof cases
      case own
      have "\<forall>q'. prefix q' (c # p) \<longrightarrow> stored_at (Node v chars) q' \<noteq> None \<longrightarrow> length q' \<le> length [c]"
        using own(3) Some by (auto simp: prefix_Cons)
      then show ?thesis using walk own Some
        by (intro exI [of _ r] conjI disjI2 exI [of _ "[c]"]) (auto simp: entry_at_Nil)
    next
      case none
      have "stored_at t q = None" if "prefix q p" for q
        using that none(2,3) by (cases "q = []") (auto simp: entry_at_Nil)
      then have "stored_at (Node v chars) q = None" if "prefix q (c # p)" "q \<noteq> []" for q
        using that Some by (auto simp: prefix_Cons)
      then show ?thesis using walk none(1) by auto
    next
      case below
      have "\<forall>q'. prefix q' (c # p) \<longrightarrow> stored_at (Node v chars) q' \<noteq> None \<longrightarrow> length q' \<le> length (c # q)"
        using below(5) Some by (auto simp: prefix_Cons)
      then show ?thesis using walk below Some
        by (intro exI [of _ r] conjI disjI2 exI [of _ "c # q"]) auto
    qed
  qed
qed

lemma plain_key_prefix: "prefix q p \<Longrightarrow> plain_key p \<Longrightarrow> plain_key q"
  using set_mono_prefix [of q p] by (auto simp: plain_key_def)

lemma trie_find_plain: "plain_key k \<Longrightarrow> trie_find t k = Inr (stored_at t k)"
  by (simp add: trie_find_def plain_key_c_str find_walk_stored)

lemma trie_ok_insert:
  assumes "trie_ok t" "plain_key k" "trie_insert t k v = Inr t'"
  shows "trie_ok t'"
  unfolding trie_ok_def
proof (intro allI impI)
  fix ks k' x
  assume e: "entry_at t' ks = Some (k', Some x)"
  from insert_walk_entry_at [OF assms(2), of "(k, v)" t] assms(2,3)
  have s: "stored_at t' ks = (if ks = k then v else stored_at t ks)" "entry_at t' k = Some (k, v)"
    "ks \<noteq> k \<Longrightarrow> stored_at t ks \<noteq> None \<Longrightarrow> entry_at t' ks = entry_at t ks"
    by (auto simp: trie_insert_def plain_key_c_str)
  show "k' = ks"
  proof (cases "ks = k")
    case True
    then show ?thesis using e s(2) by simp
  next
    case False
    then have "stored_at t ks = Some x" using s(1) e by simp
    then have "entry_at t' ks = entry_at t ks" using s(3) False by simp
    then have "entry_at t ks = Some (k', Some x)" using e by simp
    then show ?thesis using assms(1) unfolding trie_ok_def by blast
  qed
qed

interpretation location_trie: prefix_map new_node trie_insert trie_find trie_find_nearest trie_ok
proof unfold_locales
  show "trie_ok new_node" by (auto simp: trie_ok_def entry_at_new_node)
next
  fix t :: "'a trie_node" and k v t'
  show "\<exists>t'. trie_insert t k v = Inr t'" if "plain_key k"
    using insert_walk_entry_at [OF that, of "(k, v)" t] by (auto simp: trie_insert_def plain_key_c_str [OF that])
  show "trie_ok t'" if "trie_ok t" "plain_key k" "trie_insert t k v = Inr t'"
    using that by (rule trie_ok_insert)
next
  fix k
  show "trie_find new_node k = Inr (None :: 'a option)" if "plain_key k"
    using that by (simp add: trie_find_plain entry_at_new_node)
next
  fix t :: "'a trie_node" and k k' v t'
  assume "plain_key k" "plain_key k'" "trie_insert t k v = Inr t'"
  then show "trie_find t' k' = (if k' = k then Inr v else trie_find t k')"
    using insert_walk_entry_at [of k "(k, v)" t] by (auto simp: trie_insert_def trie_find_plain plain_key_c_str)
next
  fix t :: "'a trie_node" and k u x u' x'
  assume ok: "trie_ok t" and k: "plain_key k"
  note spec = find_nearest_walk_spec [OF k, of t "('''', None)"]
  show "\<exists>u r. trie_find_nearest t k = Inr (u, r)"
    using spec by (auto simp: trie_find_nearest_def plain_key_c_str [OF k])
  have hit: "u \<noteq> [] \<and> prefix u k \<and> entry_at t u = Some (u, Some x) \<and>
      (\<forall>q'. prefix q' k \<longrightarrow> stored_at t q' \<noteq> None \<longrightarrow> length q' \<le> length u)"
    if "trie_find_nearest t k = Inr (u, Some x)" for u x
    using spec that ok by (auto simp: trie_find_nearest_def plain_key_c_str [OF k] trie_ok_def)
  show "u \<noteq> [] \<and> prefix u k \<and> trie_find t u = Inr (Some x)" if "trie_find_nearest t k = Inr (u, Some x)"
    using hit [OF that] plain_key_prefix [OF _ k, of u] by (auto simp: trie_find_plain)
  show "length u' \<le> length u" if "trie_find_nearest t k = Inr (u, Some x)" "prefix u' k"
    "trie_find t u' = Inr (Some x')"
    using hit [OF that(1)] plain_key_prefix [OF that(2) k] that by (auto simp: trie_find_plain)
  show "u = [] \<and> (\<forall>u' x'. prefix u' k \<longrightarrow> u' \<noteq> [] \<longrightarrow> trie_find t u' \<noteq> Inr (Some x'))"
    if "trie_find_nearest t k = Inr (u, None)"
    using spec that plain_key_prefix [OF _ k] by (auto simp: trie_find_nearest_def plain_key_c_str [OF k] trie_find_plain)
qed

section \<open>Properties\<close>

text \<open>The locations of a virtual host, inserted in the order of its list.\<close>

fun insert_all :: "(string \<times> 'a) list \<Rightarrow> 'a trie_node \<Rightarrow> 'a trie_node cxx" where
  "insert_all [] t = Inr t"
| "insert_all ((k, v) # kvs) t = bind_cxx (trie_insert t k (Some v)) (insert_all kvs)"

lemma insert_all_build: "insert_all kvs t = location_trie.build kvs t"
  by (induction kvs arbitrary: t) (auto simp: bind_cxx_def split: sum.splits)

text \<open>
  \<^bold>\<open>C10.\<close> Longest prefix match. After the locations of a list have been inserted, looking up
  a path returns the entry of the longest non-empty location URI that is a prefix of the path,
  with the value inserted last under that URI; if no URI is a prefix of the path it returns the
  null entry. (For URIs and paths of ASCII characters.)
\<close>

theorem trie_longest_prefix:
  assumes "\<forall>kv \<in> set kvs. plain_key (fst kv)" "plain_key path"
  shows "\<exists>t u r. insert_all kvs new_node = Inr t \<and> trie_find_nearest t path = Inr (u, r) \<and>
     (case r of
        Some x \<Rightarrow> u \<noteq> [] \<and> prefix u path \<and> map_of (rev kvs) u = Some x \<and>
          (\<forall>kv \<in> set kvs. prefix (fst kv) path \<longrightarrow> length (fst kv) \<le> length u)
      | None \<Rightarrow> u = [] \<and> (\<forall>kv \<in> set kvs. fst kv \<noteq> [] \<longrightarrow> \<not> prefix (fst kv) path))"
  unfolding insert_all_build using assms by (rule location_trie.build_nearest)

theorem trie_longest_prefix_witness:
  "\<exists>t. insert_all [(''/'', 1), (''/stats/'', 2)] new_node = Inr t \<and>
     trie_find_nearest t ''/stats/x'' = Inr (''/stats/'', Some (2::nat))"
proof -
  let ?kvs = "[(''/'', 1), (''/stats/'', 2::nat)]"
  have "\<forall>kv \<in> set ?kvs. plain_key (fst kv)" "plain_key ''/stats/x''" by simp_all
  from trie_longest_prefix [OF this]
  obtain t u r where t: "insert_all ?kvs new_node = Inr t" "trie_find_nearest t ''/stats/x'' = Inr (u, r)"
    and c: "case r of Some x \<Rightarrow> u \<noteq> [] \<and> prefix u ''/stats/x'' \<and> map_of (rev ?kvs) u = Some x \<and>
          (\<forall>kv \<in> set ?kvs. prefix (fst kv) ''/stats/x'' \<longrightarrow> length (fst kv) \<le> length u)
      | None \<Rightarrow> u = [] \<and> (\<forall>kv \<in> set ?kvs. fst kv \<noteq> [] \<longrightarrow> \<not> prefix (fst kv) ''/stats/x'')" by blast
  have "u = ''/stats/'' \<and> r = Some 2"
    using c by (cases r) (auto split: if_splits)
  with t show ?thesis by blast
qed

text \<open>
  The trie is a map: a value inserted under a key is what a lookup of that key returns,
  other keys keep their values, and a key that starts with a byte above 127 leaves the child
  array of the root, on insertion and on lookup alike.
\<close>

theorem trie_insert_find:
  "(plain_key k \<and> plain_key k' \<and> trie_ok t \<longrightarrow>
     (\<exists>t'. trie_insert t k v = Inr t' \<and> trie_ok t' \<and> trie_find t' k' = (if k' = k then Inr v else trie_find t k'))) \<and>
   ((of_char c :: nat) \<ge> 128 \<longrightarrow>
     trie_insert t (c # k) v = Inl OutOfBounds \<and> trie_find t (c # k) = Inl OutOfBounds)"
proof (intro conjI impI)
  assume h: "plain_key k \<and> plain_key k' \<and> trie_ok t"
  then obtain t' where "trie_insert t k v = Inr t'" using location_trie.insert_total by blast
  then show "\<exists>t'. trie_insert t k v = Inr t' \<and> trie_ok t' \<and> trie_find t' k' = (if k' = k then Inr v else trie_find t k')"
    using h location_trie.invar_insert location_trie.find_insert by blast
next
  assume "(of_char c :: nat) \<ge> 128"
  then have "c \<noteq> NUL" "child_index c = Inl OutOfBounds" by (auto simp: child_index_def)
  then show "trie_insert t (c # k) v = Inl OutOfBounds" "trie_find t (c # k) = Inl OutOfBounds"
    by (cases t; simp add: trie_insert_def trie_find_def c_str_def)+
qed

theorem trie_insert_find_witness:
  "(\<exists>t'. trie_insert new_node ''a'' (Some 7) = Inr t' \<and> trie_find t' ''a'' = Inr (Some (7::nat))) \<and>
   trie_find (new_node :: nat trie_node) [CHR 0xE9] = Inl OutOfBounds"
  using trie_insert_find [of "''a''" "''a''" "new_node :: nat trie_node" "Some 7" "CHR 0xE9"]
    trie_insert_find [of "[]" "[]" "new_node :: nat trie_node" None "CHR 0xE9"] location_trie.invar_empty
  by auto

end
