(* ===== verification/Http_Common.thy ===== *)
theory Http_Common
  imports Latypus_Prelude
begin

text \<open>
  \<^verbatim>\<open>src/http_common.h\<close> and \<^verbatim>\<open>src/http_common.cc\<close>: the ordering of header strings that
  \<^verbatim>\<open>http_header_map\<close> is keyed by, and the in-place sanitisation of a request path. The path buffer
  is a list of characters with a terminating NUL; the read and write pointers are indices into
  it, and reading before its start or past its end is out of bounds.
\<close>

section \<open>http_header_string::compare\<close>

text \<open>The value of a \<^verbatim>\<open>char\<close>, which is signed on the platforms the program supports.\<close>

definition schar :: "char \<Rightarrow> int" where
  "schar c = (if (of_char c :: int) < 128 then of_char c else of_char c - 256)"

datatype header_string = HStr (hstr: string)

text \<open>
  The loop over the common length and the comparison of the lengths after it.
\<close>

fun compare_chars :: "string \<Rightarrow> string \<Rightarrow> int" where
  "compare_chars (c # cs) (oc # ocs) =
     (if schar c < schar oc then - 1 else if schar c > schar oc then 1 else compare_chars cs ocs)"
| "compare_chars cs ocs = (if length cs < length ocs then - 1 else if length cs > length ocs then 1 else 0)"

definition compare :: "header_string \<Rightarrow> header_string \<Rightarrow> int" where
  "compare s o' = compare_chars (hstr s) (hstr o')"

section \<open>http_common::sanitize_path\<close>

text \<open>\<^verbatim>\<open>while(*(w-1) != '/') { w--; }\<close>\<close>

function rewind :: "string \<Rightarrow> nat \<Rightarrow> nat cxx" where
  "rewind s w =
     (if w = 0 then Inl OutOfBounds
      else bind_cxx (index_cxx s (w - 1)) (\<lambda>c. if c \<noteq> CHR ''/'' then rewind s (w - 1) else Inr w))"
  by pat_completeness auto
termination
  by (relation "measure snd") auto

declare rewind.simps [simp del]

lemma rewind_le: "rewind s w = Inr w' \<Longrightarrow> w' \<le> w"
proof (induction s w rule: rewind.induct)
  case (1 s w)
  then show ?case
    by (subst (asm) rewind.simps) (fastforce simp: bind_cxx_Inr_iff split: if_splits)
qed

function sanitize_loop :: "string \<Rightarrow> nat \<Rightarrow> nat \<Rightarrow> bool \<Rightarrow> (int \<times> string) cxx" where
  "sanitize_loop s r w last_was_slash =
     bind_cxx (index_cxx s r) (\<lambda>c.
       if c = NUL
       then bind_cxx (write_range s w [NUL]) (\<lambda>s. Inr (0, s))
       else if c = CHR ''/'' \<and> last_was_slash
       then sanitize_loop s (r + 1) w last_was_slash
       else bind_cxx
         (if last_was_slash \<and> c = CHR ''.'' then index_cxx s (r + 1) else Inr NUL) (\<lambda>c1.
         if last_was_slash \<and> c = CHR ''.'' \<and> c1 = CHR ''.''
         then bind_cxx (index_cxx s (r + 2)) (\<lambda>c2.
           if w > 1
           then bind_cxx (rewind s (w - 1)) (\<lambda>w'.
             sanitize_loop s (if c2 = CHR ''/'' then r + 3 else if c2 = NUL then r + 2 else r) w' last_was_slash)
           else Inr (- 1, s))
         else if last_was_slash \<and> c = CHR ''.'' \<and> c1 = CHR ''/''
         then sanitize_loop s (r + 2) w last_was_slash
         else bind_cxx (write_range s w [c]) (\<lambda>s.
           sanitize_loop s (r + 1) (w + 1) (c = CHR ''/''))))"
  by pat_completeness auto
termination
  by (relation "measures [\<lambda>(s, r, w, l). length s - r, \<lambda>(s, r, w, l). w]")
    (auto simp: index_cxx_Inr_iff write_range_def split: if_splits dest!: rewind_le)

declare sanitize_loop.simps [simp del]

definition sanitize_path :: "string \<Rightarrow> (int \<times> string) cxx" where
  "sanitize_path s = sanitize_loop s 0 0 False"

section \<open>Clean paths\<close>

text \<open>
  A clean string has no empty component, no component that starts with two dots and no \<^verbatim>\<open>.\<close>
  component before a slash; a \<^verbatim>\<open>.\<close> as the last component, which the code leaves, is allowed. The first \<^term>\<open>n\<close> characters are what the loop has written.
\<close>

definition clean_at :: "string \<Rightarrow> nat \<Rightarrow> nat \<Rightarrow> bool" where
  "clean_at s n i \<longleftrightarrow>
     (i + 1 < n \<and> s ! i = CHR ''/'' \<longrightarrow>
        s ! (i + 1) \<noteq> CHR ''/'' \<and>
        (i + 2 < n \<and> s ! (i + 1) = CHR ''.'' \<longrightarrow> s ! (i + 2) \<noteq> CHR ''.'' \<and> s ! (i + 2) \<noteq> CHR ''/''))"

definition clean_upto :: "string \<Rightarrow> nat \<Rightarrow> bool" where
  "clean_upto s n \<longleftrightarrow> (\<forall>i<n. clean_at s n i)"

definition clean_path :: "string \<Rightarrow> bool" where
  "clean_path s \<longleftrightarrow> s \<noteq> [] \<and> hd s = CHR ''/'' \<and> clean_upto s (length s)"

lemma clean_upto_mono: "clean_upto s n \<Longrightarrow> m \<le> n \<Longrightarrow> clean_upto s m"
  by (auto simp: clean_upto_def clean_at_def)

lemma clean_upto_cong: "(\<And>i. i < n \<Longrightarrow> s ! i = t ! i) \<Longrightarrow> clean_upto s n = clean_upto t n"
  by (auto simp: clean_upto_def clean_at_def)

lemma clean_upto_0 [simp]: "clean_upto s 0"
  by (simp add: clean_upto_def)

lemma clean_upto_Suc:
  "clean_upto s (Suc n) \<longleftrightarrow>
     clean_upto s n \<and>
     (n \<ge> 1 \<and> s ! (n - 1) = CHR ''/'' \<longrightarrow> s ! n \<noteq> CHR ''/'') \<and>
     (n \<ge> 2 \<and> s ! (n - 2) = CHR ''/'' \<and> s ! (n - 1) = CHR ''.'' \<longrightarrow>
        s ! n \<noteq> CHR ''.'' \<and> s ! n \<noteq> CHR ''/'')"
  (is "?l \<longleftrightarrow> ?r")
proof
  assume l: ?l
  show ?r
  proof (intro conjI impI)
    show "clean_upto s n"
      using clean_upto_mono [OF l] by simp
    assume "n \<ge> 1 \<and> s ! (n - 1) = CHR ''/''"
    then show "s ! n \<noteq> CHR ''/''"
      using l [unfolded clean_upto_def, rule_format, of "n - 1"] by (simp add: clean_at_def)
  next
    assume n: "n \<ge> 2 \<and> s ! (n - 2) = CHR ''/'' \<and> s ! (n - 1) = CHR ''.''"
    then have "Suc (n - 2) = n - 1" "Suc (Suc (n - 2)) = n"
      by auto
    then show "s ! n \<noteq> CHR ''.''" "s ! n \<noteq> CHR ''/''"
      using n l [unfolded clean_upto_def, rule_format, of "n - 2"] by (simp_all add: clean_at_def)
  qed
next
  assume r: ?r
  show ?l
    unfolding clean_upto_def
  proof (intro allI impI)
    fix i
    assume "i < Suc n"
    then consider "i = n" | "Suc i = n" | "Suc (Suc i) = n" | "Suc (Suc i) < n"
      by linarith
    then show "clean_at s (Suc n) i"
      using r by cases (auto simp: clean_upto_def clean_at_def)
  qed
qed

lemma rewind_ok:
  assumes "0 < w" "w \<le> length s" "s ! 0 = CHR ''/''"
  shows "\<exists>w'. rewind s w = Inr w' \<and> 0 < w' \<and> w' \<le> w \<and> s ! (w' - 1) = CHR ''/''"
  using assms
proof (induction s w rule: rewind.induct)
  case (1 s w)
  show ?case
  proof (cases "s ! (w - 1) = CHR ''/''")
    case True
    then show ?thesis
      using 1 by (subst rewind.simps) auto
  next
    case False
    with 1 have "w - 1 > 0"
      by (cases "w - 1 = 0") auto
    with 1 False show ?thesis
      by (subst rewind.simps) fastforce
  qed
qed

text \<open>What the loop keeps: the path ends at index \<^term>\<open>n\<close>.\<close>

definition sanitize_inv :: "nat \<Rightarrow> string \<Rightarrow> nat \<Rightarrow> nat \<Rightarrow> bool \<Rightarrow> bool" where
  "sanitize_inv n s r w l \<longleftrightarrow>
     w \<le> r \<and> r \<le> n \<and> n < length s \<and> s ! n = NUL \<and> (\<forall>i. r \<le> i \<and> i < n \<longrightarrow> s ! i \<noteq> NUL) \<and>
     (\<forall>i<w. s ! i \<noteq> NUL) \<and> clean_upto s w \<and> (l \<longleftrightarrow> w > 0 \<and> s ! (w - 1) = CHR ''/'') \<and>
     (w \<ge> 2 \<and> s ! (w - 2) = CHR ''/'' \<and> s ! (w - 1) = CHR ''.'' \<longrightarrow>
        s ! r \<noteq> CHR ''.'' \<and> s ! r \<noteq> CHR ''/'') \<and>
     s ! 0 = CHR ''/'' \<and> (w = 0 \<longrightarrow> r = 0)"

definition sanitize_post :: "nat \<Rightarrow> (int \<times> string) cxx \<Rightarrow> bool" where
  "sanitize_post n res \<longleftrightarrow>
     (\<exists>s'. n < length s' \<and> (res = Inr (- 1, s') \<or>
        res = Inr (0, s') \<and> clean_path (c_str s') \<and> length (c_str s') \<le> n))"

lemma sanitize_inv_write:
  assumes "sanitize_inv n s r w l" "r < n" "c = s ! r" "\<not> (c = CHR ''/'' \<and> l)"
    "l \<and> c = CHR ''.'' \<Longrightarrow> s ! (r + 1) \<noteq> CHR ''.'' \<and> s ! (r + 1) \<noteq> CHR ''/''"
  shows "sanitize_inv n (overwrite s w [c]) (r + 1) (w + 1) (c = CHR ''/'')"
proof -
  let ?s = "overwrite s w [c]"
  have inv: "w \<le> r" "n < length s" "c \<noteq> NUL" "s ! 0 = CHR ''/''"
    using assms(1-3) by (auto simp: sanitize_inv_def)
  have nth: "?s ! i = (if i = w then c else s ! i)" if "i < length s" for i
    using inv that assms(2) by (subst nth_overwrite) auto
  have len: "0 < length s"
    using inv(2) by linarith
  have eq: "clean_upto ?s w = clean_upto s w"
    using inv assms(2) by (intro clean_upto_cong) (simp add: nth)
  have prev: "clean_upto s w" "w \<ge> 1 \<and> s ! (w - 1) = CHR ''/'' \<longrightarrow> c \<noteq> CHR ''/''"
      "w \<ge> 2 \<and> s ! (w - 2) = CHR ''/'' \<and> s ! (w - 1) = CHR ''.'' \<longrightarrow> c \<noteq> CHR ''.'' \<and> c \<noteq> CHR ''/''"
    using assms(1,3,4) unfolding sanitize_inv_def by auto
  have l: "l \<longleftrightarrow> w > 0 \<and> s ! (w - 1) = CHR ''/''"
    using assms(1) unfolding sanitize_inv_def by auto
  have idx: "?s ! w = c" "w \<ge> 1 \<longrightarrow> ?s ! (w - 1) = s ! (w - 1)" "w \<ge> 2 \<longrightarrow> ?s ! (w - 2) = s ! (w - 2)"
    using inv assms(2) by (auto simp: nth)
  have "clean_upto ?s (Suc w)"
    unfolding clean_upto_Suc eq idx(1) using prev idx by auto
  moreover have "w = 0 \<longrightarrow> c = CHR ''/''"
    using assms(1,3) inv unfolding sanitize_inv_def by auto
  then have "?s ! 0 = CHR ''/''"
    using nth [of 0] inv(4) len by auto
  moreover have "\<forall>i<w + 1. ?s ! i \<noteq> NUL"
    using assms(1,2) inv by (simp add: nth sanitize_inv_def less_Suc_eq)
  moreover have "length ?s = length s"
    using inv assms(2) by simp
  moreover have "\<forall>i. r + 1 \<le> i \<and> i < n \<longrightarrow> ?s ! i \<noteq> NUL"
    using assms(1) inv by (auto simp: nth sanitize_inv_def)
  moreover have "?s ! n = NUL"
    using assms(1,2) inv by (auto simp: nth sanitize_inv_def)
  moreover have "w + 1 \<ge> 2 \<and> ?s ! (w + 1 - 2) = CHR ''/'' \<and> ?s ! (w + 1 - 1) = CHR ''.'' \<longrightarrow>
      ?s ! (r + 1) \<noteq> CHR ''.'' \<and> ?s ! (r + 1) \<noteq> CHR ''/''"
    using l assms(5) idx nth [of "r + 1"] inv assms(2) by auto
  moreover have "(c = CHR ''/'') = (w + 1 > 0 \<and> ?s ! (w + 1 - 1) = CHR ''/'')"
    using inv assms(2) by (simp add: nth)
  ultimately show ?thesis
    using inv assms(2) unfolding sanitize_inv_def by simp
qed

lemma sanitize_inv_skip:
  assumes "sanitize_inv n s r w True" "r \<le> r'" "r' \<le> n"
  shows "sanitize_inv n s r' w True"
  using assms by (auto simp: sanitize_inv_def)

lemma sanitize_inv_rewind:
  assumes "sanitize_inv n s r w True" "0 < w'" "w' \<le> w" "s ! (w' - 1) = CHR ''/''"
  shows "sanitize_inv n s r w' True"
  using assms clean_upto_mono [of s w w'] by (auto simp: sanitize_inv_def)

lemma c_str_overwrite_NUL:
  assumes "w < length s" "\<forall>i<w. s ! i \<noteq> NUL"
  shows "c_str (overwrite s w [NUL]) = take w s"
proof -
  have "\<forall>c\<in>set (take w s). c \<noteq> NUL"
    using assms by (auto simp: in_set_conv_nth)
  then show ?thesis
    using assms by (simp add: c_str_def overwrite_def takeWhile_append2)
qed

lemma sanitize_post_end:
  assumes "sanitize_inv n s r w l" "r = n"
  shows "sanitize_post n (Inr (0, overwrite s w [NUL]))"
proof -
  have w: "w < length s" "0 < w" "s ! 0 = CHR ''/''" "clean_upto s w"
    using assms by (auto simp: sanitize_inv_def intro: gr0I)
  have "c_str (overwrite s w [NUL]) = take w s"
    using assms w by (intro c_str_overwrite_NUL) (auto simp: sanitize_inv_def)
  moreover have "clean_path (take w s)"
    using w clean_upto_cong [of w "take w s" s] by (cases s) (auto simp: clean_path_def)
  ultimately show ?thesis
    using assms w by (auto simp: sanitize_post_def sanitize_inv_def intro!: exI [of _ "overwrite s w [NUL]"])
qed

lemma sanitize_loop_post:
  "sanitize_inv n s r w l \<Longrightarrow> sanitize_post n (sanitize_loop s r w l)"
proof (induction s r w l rule: sanitize_loop.induct)
  case (1 s r w l)
  note inv = \<open>sanitize_inv n s r w l\<close>
  then have r: "r < length s" "r \<le> n" "w \<le> r" "w < length s" "n < length s" "s ! n = NUL"
    by (auto simp: sanitize_inv_def)
  have idx: "index_cxx s r = Inr (s ! r)" "write_range s w [s ! r] = Inr (overwrite s w [s ! r])"
    "write_range s w [NUL] = Inr (overwrite s w [NUL])"
    using r by simp_all
  consider (nul) "s ! r = NUL" | (dup) "s ! r = CHR ''/''" "l"
    | (dotdot) "l" "s ! r = CHR ''.''" "s ! (r + 1) = CHR ''.''"
    | (dot) "l" "s ! r = CHR ''.''" "s ! (r + 1) = CHR ''/''"
    | (copy) "s ! r \<noteq> NUL" "\<not> (s ! r = CHR ''/'' \<and> l)"
        "l \<and> s ! r = CHR ''.'' \<longrightarrow> s ! (r + 1) \<noteq> CHR ''.'' \<and> s ! (r + 1) \<noteq> CHR ''/''"
    by blast
  then show ?case
  proof cases
    case nul
    then have "r = n"
      using inv by (auto simp: sanitize_inv_def le_less)
    with inv have "sanitize_post n (Inr (0, overwrite s w [NUL]))"
      by (rule sanitize_post_end)
    then show ?thesis
      by (subst sanitize_loop.simps) (simp add: idx nul)
  next
    case dup
    then have "r + 1 \<le> n"
      using r by (cases "r = n") auto
    with dup have "sanitize_inv n s (r + 1) w l"
      using inv by (simp add: sanitize_inv_skip)
    then show ?thesis
      using dup 1 by (subst sanitize_loop.simps) (simp add: idx)
  next
    case dotdot
    then have "r + 1 < n"
      using r by (cases "r + 1 = n"; cases "r = n") auto
    then have r2: "r + 2 < length s" "r + 1 < length s"
      using r by auto
    show ?thesis
    proof (cases "w > 1")
      case True
      obtain w' where w': "rewind s (w - 1) = Inr w'" "0 < w'" "w' \<le> w - 1" "s ! (w' - 1) = CHR ''/''"
        using rewind_ok [of "w - 1" s] True r inv [unfolded sanitize_inv_def] by fastforce
      define c2 where "c2 = s ! (r + 2)"
      have c2: "index_cxx s (r + 2) = Inr c2"
        using r2 by (simp add: c2_def)
      let ?r = "if c2 = CHR ''/'' then r + 3 else if c2 = NUL then r + 2 else r"
      have "?r \<le> n"
        using \<open>r + 1 < n\<close> r by (cases "r + 2 = n") (auto simp: c2_def)
      moreover have "sanitize_inv n s r w' True"
        using inv dotdot w' by (intro sanitize_inv_rewind [of n s r w w']) auto
      ultimately have "sanitize_inv n s ?r w' True"
        by (intro sanitize_inv_skip [of n s r w' ?r]) auto
      then have "sanitize_post n (sanitize_loop s ?r w' l)"
        by (intro "1.IH"(2) [OF idx(1)]) (use dotdot True w' r2 c2 in simp_all)
      then show ?thesis
        using dotdot True w' r2 c2 by (subst sanitize_loop.simps) (simp add: idx split del: if_split)
    next
      case False
      then show ?thesis
        using dotdot r2 r by (subst sanitize_loop.simps) (auto simp: idx sanitize_post_def)
    qed
  next
    case dot
    then have "r + 1 < n"
      using r by (cases "r + 1 = n"; cases "r = n") auto
    then have "sanitize_inv n s (r + 2) w l"
      using inv dot by (simp add: sanitize_inv_skip)
    then show ?thesis
      using dot 1 r \<open>r + 1 < n\<close> by (subst sanitize_loop.simps) (simp add: idx)
  next
    case copy
    then have "r < n"
      using r by (cases "r = n") auto
    then have "sanitize_inv n (overwrite s w [s ! r]) (r + 1) (w + 1) (s ! r = CHR ''/'')"
      using inv copy by (intro sanitize_inv_write) auto
    moreover define c1 where "c1 = (if l \<and> s ! r = CHR ''.'' then s ! (r + 1) else NUL)"
    moreover have c1: "(if l \<and> s ! r = CHR ''.'' then index_cxx s (r + 1) else Inr NUL) = Inr c1"
      using \<open>r < n\<close> r by (simp add: c1_def)
    ultimately have "sanitize_post n (sanitize_loop (overwrite s w [s ! r]) (r + 1) (w + 1) (s ! r = CHR ''/''))"
      by (intro "1.IH"(4) [OF idx(1)]) (use copy idx in auto)
    then show ?thesis
      using copy by (subst sanitize_loop.simps) (auto simp: idx c1 c1_def)
  qed
qed

text \<open>On a clean path the loop copies every character onto itself.\<close>

lemma overwrite_self: "w < length s \<Longrightarrow> overwrite s w [s ! w] = s"
  by (simp add: overwrite_def id_take_nth_drop [symmetric])

lemma sanitize_loop_clean:
  assumes "clean_upto s n" "n < length s" "s ! n = NUL" "\<forall>i<n. s ! i \<noteq> NUL" "r \<le> n"
    "l \<longleftrightarrow> r > 0 \<and> s ! (r - 1) = CHR ''/''"
  shows "sanitize_loop s r r l = Inr (0, s)"
  using assms(5,6)
proof (induction "n - r" arbitrary: r l)
  case 0
  then show ?case
    using assms(2,3) overwrite_self [of n s] by (subst sanitize_loop.simps) simp
next
  case (Suc k)
  then have r: "r < n" "s ! r \<noteq> NUL"
    using assms(4) by auto
  have IH: "sanitize_loop s (r + 1) (r + 1) (s ! r = CHR ''/'') = Inr (0, s)"
    using Suc(2) r by (intro Suc(1)) auto
  have ok: "l \<Longrightarrow> s ! r \<noteq> CHR ''/''"
    using assms(1) r Suc(4) by (auto simp: clean_upto_def clean_at_def dest: spec [of _ "r - 1"])
  have dot: "s ! Suc r \<noteq> CHR ''.'' \<and> s ! Suc r \<noteq> CHR ''/''" if "l" "s ! r = CHR ''.''"
  proof (cases "Suc r = n")
    case True
    then show ?thesis
      using assms(3) by auto
  next
    case False
    then show ?thesis
      using assms(1) r Suc(4) that by (auto simp: clean_upto_def clean_at_def dest: spec [of _ "r - 1"])
  qed
  show ?case
    using r assms(2) ok dot IH overwrite_self [of r s] by (subst sanitize_loop.simps) auto
qed

lemma clean_upto_append: "clean_upto (s @ t) (length s) = clean_upto s (length s)"
  by (rule clean_upto_cong) (simp add: nth_append)

lemma sanitize_path_absolute:
  assumes "path \<noteq> []" "hd path = CHR ''/''" "NUL \<notin> set path"
  shows "\<exists>s'. sanitize_path (path @ NUL # rest) = Inr (- 1, s') \<or>
           sanitize_path (path @ NUL # rest) = Inr (0, s') \<and> clean_path (c_str s') \<and>
             length (c_str s') \<le> length path"
proof -
  have "sanitize_inv (length path) (path @ NUL # rest) 0 0 False"
    using assms by (auto simp: sanitize_inv_def nth_append hd_conv_nth in_set_conv_nth)
  from sanitize_loop_post [OF this] show ?thesis
    by (auto simp: sanitize_path_def sanitize_post_def)
qed

text \<open>A clean absolute path passes \<^verbatim>\<open>sanitize_path\<close> unchanged.\<close>

lemma sanitize_path_clean_id:
  assumes "clean_path path" "NUL \<notin> set path"
  shows "sanitize_path (path @ NUL # rest) = Inr (0, path @ NUL # rest)"
  unfolding sanitize_path_def
  by (rule sanitize_loop_clean [of _ "length path"])
    (use assms in \<open>auto simp: clean_path_def clean_upto_append nth_append in_set_conv_nth\<close>)

text \<open>
  C8. \<^verbatim>\<open>sanitize_path\<close> on an absolute path stays inside the buffer and returns 0 or -1. When it returns 0,
  the path left in the buffer is absolute, no longer than the one given, and has no empty component, no
  component that starts with two dots, and no component \<^verbatim>\<open>.\<close> except perhaps as the last one. A path that
  has none of these already is left as it is, so that sanitising twice is sanitising once.
\<close>

theorem sanitize_path_safe:
  assumes "path \<noteq> []" "hd path = CHR ''/''" "NUL \<notin> set path"
  shows "\<exists>s'. sanitize_path (path @ NUL # rest) = Inr (- 1, s') \<and> \<not> clean_path path \<or>
           sanitize_path (path @ NUL # rest) = Inr (0, s') \<and> clean_path (c_str s') \<and>
             length (c_str s') \<le> length path \<and> (clean_path path \<longrightarrow> s' = path @ NUL # rest)"
  using sanitize_path_absolute [OF assms, of rest] sanitize_path_clean_id [OF _ assms(3), of rest] by fastforce

theorem sanitize_path_safe_witness:
  "\<exists>s'. sanitize_path (''/a//./b/../c'' @ NUL # '''') = Inr (0, s') \<and> c_str s' = ''/a/c'' \<and> clean_path (c_str s')"
proof -
  have "case sanitize_path (''/a//./b/../c'' @ NUL # '''') of Inl e \<Rightarrow> False | Inr (r, s) \<Rightarrow> r = 0 \<and> c_str s = ''/a/c''"
    by code_simp
  then show ?thesis
    using sanitize_path_safe [of "''/a//./b/../c''" "''''"] by auto
qed

text \<open>A dot at the end is such a last component: the code tests only for a dot before a slash.\<close>

lemma sanitize_path_trailing_dot:
  "sanitize_path (''/a/.'' @ NUL # rest) = Inr (0, ''/a/.'' @ NUL # rest)"
  by (rule sanitize_path_clean_id) (simp_all add: clean_path_def clean_upto_Suc numeral_nat)

section \<open>The order of header strings\<close>

lemma schar_inj: "schar c = schar d \<longleftrightarrow> c = d"
proof -
  have range: "0 \<le> (of_char c :: int) \<and> (of_char c :: int) < 256" for c
    using pos_mod_bound [of 256 "of_char c :: int"] pos_mod_sign [of 256 "of_char c :: int"]
    unfolding of_char_mod_256 by simp
  from range [of c] range [of d] show ?thesis
    by (auto simp: schar_def split: if_splits)
qed

lemma compare_chars_0_iff: "compare_chars s t = 0 \<longleftrightarrow> s = t"
  by (induction s t rule: compare_chars.induct) (auto simp: schar_inj)

lemma compare_chars_antisym: "compare_chars t s = - compare_chars s t"
  by (induction s t rule: compare_chars.induct) auto

lemma compare_chars_range: "compare_chars s t \<in> {- 1, 0, 1}"
  by (induction s t rule: compare_chars.induct) auto

text \<open>The comparison is the lexicographic order of the signed characters.\<close>

lemma compare_chars_less_iff:
  "compare_chars s t < 0 \<longleftrightarrow> (map schar s, map schar t) \<in> lexord {(a, b). a < b}"
  by (induction s t rule: compare_chars.induct)
    (auto simp: schar_inj neq_Nil_conv split: list.splits)

lemma eq_iff_hstr: "hstr x = hstr y \<longleftrightarrow> x = y"
  by (cases x; cases y) simp

instantiation header_string :: linorder
begin

definition less_eq_header_string_def: "s \<le> t \<longleftrightarrow> compare s t \<le> 0"

definition less_header_string_def: "s < t \<longleftrightarrow> compare s t < 0"

instance
proof
  fix x y z :: header_string
  have less: "compare x y < 0 \<longleftrightarrow> (map schar (hstr x), map schar (hstr y)) \<in> lexord {(a, b). a < b}" for x y
    by (simp add: compare_def compare_chars_less_iff)
  have eq: "compare x y = 0 \<longleftrightarrow> x = y" for x y
    by (simp add: compare_def compare_chars_0_iff eq_iff_hstr)
  have anti: "compare y x = - compare x y" for x y
    by (simp add: compare_def compare_chars_antisym [of "hstr y"])
  have trans: "compare x z < 0" if "compare x y < 0" "compare y z < 0" for x y z
    using that unfolding less by (rule lexord_trans) (auto intro: transI)
  show "x < y \<longleftrightarrow> x \<le> y \<and> \<not> y \<le> x"
    using anti [of x y] by (auto simp: less_eq_header_string_def less_header_string_def)
  show "x \<le> x"
    using eq [of x x] by (simp add: less_eq_header_string_def)
  show "x \<le> y \<Longrightarrow> y \<le> z \<Longrightarrow> x \<le> z"
    using eq [of x y] eq [of y z] trans [of x y z]
    by (auto simp: less_eq_header_string_def le_less)
  show "x \<le> y \<Longrightarrow> y \<le> x \<Longrightarrow> x = y"
    using anti [of x y] eq [of x y] by (auto simp: less_eq_header_string_def)
  show "x \<le> y \<or> y \<le> x"
    using anti [of x y] by (auto simp: less_eq_header_string_def)
qed

end

text \<open>
  \<^verbatim>\<open>http_header_string::compare\<close> is zero exactly on equal strings, swaps sign with its
  arguments and is transitive, so \<^verbatim>\<open>http_header_map\<close> is keyed by a total order.
\<close>

theorem compare_total_order:
  "(compare s t = 0 \<longleftrightarrow> s = t) \<and> compare t s = - compare s t \<and> compare s t \<in> {- 1, 0, 1} \<and>
   (compare s t < 0 \<and> compare t u < 0 \<longrightarrow> compare s u < 0)"
  using order.strict_trans [of s t u] compare_chars_range [of "hstr s" "hstr t"]
    compare_chars_antisym [of "hstr t" "hstr s"]
  by (simp add: less_header_string_def compare_def compare_chars_0_iff eq_iff_hstr)

theorem compare_total_order_witness:
  "compare (HStr ''Accept'') (HStr ''Connection'') < 0 \<and> compare (HStr ''Connection'') (HStr ''Host'') < 0 \<and>
   compare (HStr ''Accept'') (HStr ''Host'') < 0"
proof -
  have "compare (HStr ''Accept'') (HStr ''Connection'') < 0" "compare (HStr ''Connection'') (HStr ''Host'') < 0"
    by (simp_all add: compare_def schar_def)
  with compare_total_order [of "HStr ''Accept''" "HStr ''Connection''" "HStr ''Host''"] show ?thesis
    by blast
qed

text \<open>
  A path that does not start with a slash is not safe to sanitise: the scan back for the last
  slash leaves the buffer.
\<close>

lemma sanitize_path_relative_out_of_bounds:
  "sanitize_path (''a/..'' @ [NUL]) = Inl OutOfBounds"
  unfolding sanitize_path_def
  by (simp add: sanitize_loop.simps rewind.simps index_cxx_def write_range_def overwrite_def)

end
