(* ===== verification/Cxx_Text.thy ===== *)
theory Cxx_Text
  imports Latypus_Prelude
begin

text \<open>
  The text conversions of the C and C++ libraries that the program calls: \<^verbatim>\<open>atoi\<close>, the decimal
  output of integers by \<^verbatim>\<open>operator<<\<close> and \<^verbatim>\<open>%d\<close>, and the searches of \<^verbatim>\<open>std::string\<close>.
\<close>

section \<open>Decimal output and atoi\<close>

definition digit_char :: "nat \<Rightarrow> char" where
  "digit_char d = char_of (48 + d)"

fun show_nat :: "nat \<Rightarrow> string" where
  "show_nat n = (if n < 10 then [digit_char n] else show_nat (n div 10) @ [digit_char (n mod 10)])"

declare show_nat.simps [simp del]

definition show_int :: "int \<Rightarrow> string" where
  "show_int i = (if i < 0 then CHR ''-'' # show_nat (nat (- i)) else show_nat (nat i))"

definition c_isdigit :: "char \<Rightarrow> bool" where
  "c_isdigit c \<longleftrightarrow> 48 \<le> (of_char c :: nat) \<and> (of_char c :: nat) \<le> 57"

definition digits_value :: "string \<Rightarrow> nat" where
  "digits_value ds = foldl (\<lambda>acc c. 10 * acc + (of_char c - 48)) 0 ds"

definition int_range :: "int \<Rightarrow> bool" where
  "int_range i \<longleftrightarrow> - (2 ^ 31) \<le> i \<and> i < 2 ^ 31"

text \<open>The conversion of a value outside the range of \<^verbatim>\<open>int\<close> is undefined.\<close>

definition atoi :: "string \<Rightarrow> int cxx" where
  "atoi s =
     (let t = dropWhile c_isspace (c_str s);
          neg = (t \<noteq> [] \<and> hd t = CHR ''-'');
          ds = (if t \<noteq> [] \<and> (hd t = CHR ''-'' \<or> hd t = CHR ''+'') then tl t else t);
          v = int (digits_value (takeWhile c_isdigit ds));
          i = (if neg then - v else v)
      in if int_range i then Inr i else Inl Undefined)"

lemma of_char_digit_char [simp]: "d < 10 \<Longrightarrow> (of_char (digit_char d) :: nat) = 48 + d"
  by (simp add: digit_char_def)

lemma c_isdigit_digit_char [simp]: "d < 10 \<Longrightarrow> c_isdigit (digit_char d)"
  by (simp add: c_isdigit_def)

lemma show_nat_digits: "\<forall>c \<in> set (show_nat n). c_isdigit c"
  by (induction n rule: show_nat.induct) (subst show_nat.simps, auto)

lemma show_nat_not_Nil [simp]: "show_nat n \<noteq> []"
  by (subst show_nat.simps) simp

lemma digits_value_append: "digits_value (ds @ [c]) = 10 * digits_value ds + (of_char c - 48)"
  by (simp add: digits_value_def)

lemma digits_value_show_nat [simp]: "digits_value (show_nat n) = n"
proof (induction n rule: show_nat.induct)
  case (1 n)
  show ?case
  proof (cases "n < 10")
    case True
    then show ?thesis
      by (subst show_nat.simps) (simp add: digits_value_def)
  next
    case False
    with 1 show ?thesis
      by (subst show_nat.simps) (simp add: digits_value_append)
  qed
qed

lemma takeWhile_digits_show_nat [simp]: "takeWhile c_isdigit (show_nat n) = show_nat n"
  using show_nat_digits by (auto simp: takeWhile_eq_all_conv)

lemma digit_facts: "c_isdigit c \<Longrightarrow> c \<noteq> NUL \<and> c \<noteq> CHR ''-'' \<and> c \<noteq> CHR ''+'' \<and> \<not> c_isspace c \<and> c \<noteq> CHR '':'' \<and> c \<noteq> CHR ''/''"
  by (auto simp: c_isdigit_def c_isspace_def)

lemma show_nat_plain:
  "NUL \<notin> set (show_nat n)" "CHR '':'' \<notin> set (show_nat n)" "CHR ''/'' \<notin> set (show_nat n)"
  "\<not> c_isspace (hd (show_nat n))" "hd (show_nat n) \<noteq> CHR ''-''" "hd (show_nat n) \<noteq> CHR ''+''"
  using show_nat_digits [of n] digit_facts hd_in_set [OF show_nat_not_Nil [of n]] by blast+

lemma dropWhile_show_nat [simp]: "dropWhile c_isspace (show_nat n) = show_nat n"
  using show_nat_plain(4) [of n] by (cases "show_nat n") auto

lemma show_int_plain:
  "NUL \<notin> set (show_int i)" "CHR '':'' \<notin> set (show_int i)" "CHR ''/'' \<notin> set (show_int i)"
  by (auto simp: show_int_def show_nat_plain)

lemma atoi_show_int: "int_range i \<Longrightarrow> atoi (show_int i) = Inr i"
  using show_nat_plain [of "nat (- i)"] show_nat_plain [of "nat i"]
  by (simp add: atoi_def show_int_def c_isspace_def)

section \<open>std::string::find and find_last_of\<close>

text \<open>Nine digits always fit.\<close>

lemma digits_value_bound:
  assumes "\<forall>c \<in> set ds. c_isdigit c"
  shows "digits_value ds < 10 ^ length ds"
  using assms
proof (induction ds rule: rev_induct)
  case (snoc c ds)
  then have "(of_char c :: nat) - 48 < 10" "digits_value ds < 10 ^ length ds"
    by (auto simp: c_isdigit_def)
  then show ?case
    by (simp add: digits_value_append)
qed (simp add: digits_value_def)

lemma atoi_short:
  assumes "length s \<le> 9"
  shows "\<exists>i. atoi s = Inr i"
proof -
  have small: "digits_value (takeWhile c_isdigit ds) < 2 ^ 31" if "length ds \<le> 9" for ds
  proof -
    have "digits_value (takeWhile c_isdigit ds) < 10 ^ length (takeWhile c_isdigit ds)"
      by (rule digits_value_bound) (auto dest: set_takeWhileD)
    also have "\<dots> \<le> 10 ^ 9"
      using that length_takeWhile_le [of c_isdigit ds] by (intro power_increasing) auto
    finally show ?thesis by simp
  qed
  define u where "u = dropWhile c_isspace (c_str s)"
  define ds where "ds = (if u \<noteq> [] \<and> (hd u = CHR ''-'' \<or> hd u = CHR ''+'') then tl u else u)"
  have "length u \<le> 9"
    using assms length_dropWhile_le [of c_isspace "c_str s"] length_takeWhile_le [of "\<lambda>c. c \<noteq> NUL" s]
    by (simp add: u_def c_str_def)
  then have "length ds \<le> 9"
    unfolding ds_def by (cases u) auto
  then have "digits_value (takeWhile c_isdigit ds) < 2 ^ 31"
    by (rule small)
  then show ?thesis
    unfolding atoi_def Let_def u_def [symmetric] ds_def [symmetric] by (auto simp: int_range_def)
qed

fun find_sub :: "string \<Rightarrow> string \<Rightarrow> nat option" where
  "find_sub p s =
     (if take (length p) s = p then Some 0
      else case s of [] \<Rightarrow> None | _ # t \<Rightarrow> map_option Suc (find_sub p t))"

declare find_sub.simps [simp del]

fun find_last_of :: "char \<Rightarrow> string \<Rightarrow> nat option" where
  "find_last_of c [] = None"
| "find_last_of c (x # xs) =
     (case find_last_of c xs of Some i \<Rightarrow> Some (Suc i) | None \<Rightarrow> if x = c then Some 0 else None)"

lemma find_sub_SomeD:
  "find_sub p s = Some i \<Longrightarrow> take (length p) (drop i s) = p \<and> (\<forall>j<i. take (length p) (drop j s) \<noteq> p)"
proof (induction p s arbitrary: i rule: find_sub.induct)
  case (1 p s)
  show ?case
  proof (cases "take (length p) s = p")
    case True
    with 1(2) show ?thesis by (subst (asm) find_sub.simps) simp
  next
    case False
    with 1(2) obtain x t k where s: "s = x # t" "find_sub p t = Some k" "i = Suc k"
      by (subst (asm) find_sub.simps) (auto split: list.splits)
    with 1(1) [OF False s(1), of k] False show ?thesis
      by (auto simp: less_Suc_eq_0_disj)
  qed
qed

lemma find_sub_intro:
  assumes "take (length p) (drop i s) = p" "\<And>j. j < i \<Longrightarrow> take (length p) (drop j s) \<noteq> p" "i \<le> length s"
  shows "find_sub p s = Some i"
  using assms
proof (induction i arbitrary: s)
  case 0
  then show ?case by (subst find_sub.simps) simp
next
  case (Suc i)
  then obtain x t where s: "s = x # t" by (cases s) auto
  have "find_sub p t = Some i"
    using Suc(2,4) Suc(3) [of "Suc _"] by (intro Suc(1)) (auto simp: s)
  then show ?case
    using Suc(3) [of 0] by (subst find_sub.simps) (simp add: s)
qed

lemma find_sub_split:
  assumes "find_sub p s = Some i"
  shows "s = take i s @ p @ drop (i + length p) s"
proof -
  have "take (length p) (drop i s) = p"
    using find_sub_SomeD [OF assms] by simp
  then have "drop i s = p @ drop (i + length p) s"
    by (metis append_take_drop_id add.commute drop_drop)
  then show ?thesis
    by (metis append_take_drop_id)
qed

lemma find_sub_le: "find_sub p s = Some i \<Longrightarrow> i \<le> length s"
proof (induction p s arbitrary: i rule: find_sub.induct)
  case (1 p s)
  then show ?case
    by (subst (asm) find_sub.simps) (auto split: if_splits list.splits)
qed

text \<open>The first occurrence does not depend on what follows it.\<close>

lemma find_sub_first:
  assumes "find_sub p s = Some i" "p \<noteq> []"
  shows "find_sub p (take i s @ p @ x) = Some i"
proof (rule find_sub_intro)
  have i: "i \<le> length s" using assms(1) by (rule find_sub_le)
  then show "take (length p) (drop i (take i s @ p @ x)) = p" "i \<le> length (take i s @ p @ x)"
    by simp_all
  fix j
  assume "j < i"
  then have ne: "take (length p) (drop j s) \<noteq> p"
    using find_sub_SomeD [OF assms(1)] by simp
  have s: "s = take i s @ p @ drop (i + length p) s"
    using assms(1) by (rule find_sub_split)
  have "take (length p) (drop j (take i s @ p @ y)) = take (length p) (drop j (take i s) @ p)" for y
    using \<open>j < i\<close> i assms(2) by (simp add: take_append)
  then show "take (length p) (drop j (take i s @ p @ x)) \<noteq> p"
    using ne s by metis
qed

lemma find_char:
  assumes "c \<notin> set a"
  shows "find_sub [c] (a @ c # b) = Some (length a)"
proof (rule find_sub_intro)
  fix j
  assume "j < length a"
  moreover from this have "a ! j \<noteq> c" using assms by (auto simp: in_set_conv_nth)
  ultimately show "take (length [c]) (drop j (a @ c # b)) \<noteq> [c]"
    by (simp add: take_Suc_conv_app_nth Cons_nth_drop_Suc [symmetric])
qed simp_all

lemma find_char_SomeD:
  assumes "find_sub [c] s = Some i"
  shows "c \<notin> set (take i s) \<and> drop i s \<noteq> [] \<and> hd (drop i s) = c"
proof -
  note s = find_sub_split [OF assms]
  have "s ! j \<noteq> c" if "j < i" "j < length s" for j
    using find_sub_SomeD [OF assms] that by (auto simp: take_Suc_conv_app_nth Cons_nth_drop_Suc [symmetric])
  moreover have "take (length [c]) (drop i s) = [c]"
    using find_sub_SomeD [OF assms] by simp
  ultimately show ?thesis
    by (cases "drop i s") (auto simp: in_set_conv_nth)
qed

lemma find_last_of_None: "find_last_of c s = None \<longleftrightarrow> c \<notin> set s"
  by (induction s) (auto split: option.splits)

lemma find_last_of_append [simp]:
  "c \<notin> set b \<Longrightarrow> find_last_of c (a @ c # b) = Some (length a)"
  by (induction a) (auto simp: find_last_of_None split: option.splits)

end
