(* ===== verification/Url.thy ===== *)
theory Url
  imports Cxx_Text
begin

text \<open>
  \<^verbatim>\<open>src/url.h\<close> and \<^verbatim>\<open>src/url.cc\<close>: the URL that the client's requests carry. The constructor is
  \<open>url_parse\<close>; each early return leaves the fields set so far and \<open>valid\<close> false.
\<close>

record url =
  scheme :: string
  host :: string
  path :: string
  port :: int
  valid :: bool

definition url_parse :: "string \<Rightarrow> url cxx" where
  "url_parse url_string =
     (let u = \<lparr> scheme = '''', host = '''', path = '''', port = 0, valid = False \<rparr> in
      case find_sub ''://'' url_string of
        None \<Rightarrow> Inr u
      | Some scheme_pos \<Rightarrow>
          let u = u\<lparr> scheme := take scheme_pos url_string \<rparr>;
              host_port_path = drop (scheme_pos + 3) url_string in
          case find_sub ''/'' host_port_path of
            None \<Rightarrow> Inr u
          | Some host_port_pos \<Rightarrow>
              let host_port = take host_port_pos host_port_path;
                  u = u\<lparr> path := drop host_port_pos host_port_path \<rparr> in
              case find_last_of CHR '':'' host_port of
                None \<Rightarrow> Inr (u\<lparr> host := host_port,
                               port := (if scheme u = ''http'' then 80 else if scheme u = ''https'' then 443 else 0),
                               valid := True \<rparr>)
              | Some host_colon_pos \<Rightarrow>
                  bind_cxx (atoi (drop (host_colon_pos + 1) host_port)) (\<lambda>p.
                    Inr (u\<lparr> host := take host_colon_pos host_port, port := p, valid := True \<rparr>)))"

definition is_valid :: "url \<Rightarrow> bool" where
  "is_valid u = valid u"

definition default_port :: "url \<Rightarrow> bool" where
  "default_port u \<longleftrightarrow> (scheme u = ''http'' \<and> port u = 80) \<or> (scheme u = ''https'' \<and> port u = 443)"

definition url_to_string :: "url \<Rightarrow> string" where
  "url_to_string u =
     (if valid u
      then scheme u @ ''://'' @ host u @ (if \<not> default_port u then '':'' @ show_int (port u) else '''') @ path u
      else '''')"

section \<open>Printing and parsing\<close>

text \<open>What every parsed URL satisfies, and what printing needs in addition.\<close>

definition url_parts :: "url \<Rightarrow> bool" where
  "url_parts u \<longleftrightarrow>
     find_sub ''://'' (scheme u @ ''://'') = Some (length (scheme u)) \<and> CHR ''/'' \<notin> set (host u) \<and>
     path u \<noteq> [] \<and> hd (path u) = CHR ''/'' \<and> int_range (port u)"

definition url_wf :: "url \<Rightarrow> bool" where
  "url_wf u \<longleftrightarrow> valid u \<and> url_parts u \<and> (default_port u \<longrightarrow> CHR '':'' \<notin> set (host u))"

lemma atoi_range: "atoi s = Inr i \<Longrightarrow> int_range i"
  by (auto simp: atoi_def Let_def split: if_splits)

lemma url_parse_parts:
  assumes "url_parse s = Inr u" "valid u"
  shows "url_parts u"
proof -
  obtain i where i: "find_sub ''://'' s = Some i"
    using assms by (cases "find_sub ''://'' s") (auto simp: url_parse_def)
  define t where "t = drop (i + 3) s"
  obtain j where j: "find_sub ''/'' t = Some j"
    using assms i by (cases "find_sub ''/'' t") (auto simp: url_parse_def t_def)
  have u: "scheme u = take i s" "path u = drop j t" "set (host u) \<subseteq> set (take j t)" "int_range (port u)"
    using assms i j
    by (auto simp: url_parse_def t_def [symmetric] Let_def bind_cxx_Inr_iff int_range_def
        split: option.splits if_splits dest: atoi_range subsetD [OF set_take_subset_set_take [OF min.cobounded2]])
  have "find_sub ''://'' (take i s @ ''://'') = Some i"
    using find_sub_first [OF i, of "[]"] by simp
  moreover have "i \<le> length s"
    using i by (rule find_sub_le)
  ultimately show ?thesis
    using find_char_SomeD [OF j] u by (auto simp: url_parts_def)
qed

lemma url_parse_composed:
  assumes "find_sub ''://'' (sch @ ''://'') = Some (length sch)" "CHR ''/'' \<notin> set hp"
  shows "url_parse (sch @ ''://'' @ hp @ CHR ''/'' # p) =
    (case find_last_of CHR '':'' hp of
       None \<Rightarrow> Inr \<lparr> scheme = sch, host = hp, path = CHR ''/'' # p,
                    port = (if sch = ''http'' then 80 else if sch = ''https'' then 443 else 0), valid = True \<rparr>
     | Some k \<Rightarrow> bind_cxx (atoi (drop (k + 1) hp)) (\<lambda>n.
         Inr \<lparr> scheme = sch, host = take k hp, path = CHR ''/'' # p, port = n, valid = True \<rparr>))"
proof -
  let ?s = "sch @ ''://'' @ hp @ CHR ''/'' # p"
  have 1: "find_sub ''://'' ?s = Some (length sch)"
    using find_sub_first [of "''://''" "sch @ ''://''" "length sch" "hp @ CHR ''/'' # p"] assms(1) by simp
  have drop: "drop (length sch + 3) ?s = hp @ CHR ''/'' # p" and take: "take (length sch) ?s = sch"
    by simp_all
  have 2: "find_sub ''/'' (hp @ CHR ''/'' # p) = Some (length hp)"
    using assms(2) by (rule find_char)
  show ?thesis
    unfolding url_parse_def Let_def 1 option.case drop take 2 by (simp split: option.split)
qed

text \<open>
  C33. A well-formed URL is printed to a string that parses back to it. Every string that
  parses to a valid URL gives a well-formed one, unless its host contains a colon and its port
  is the default of the scheme.
\<close>

theorem url_roundtrip:
  "(url_wf u \<longrightarrow> url_parse (url_to_string u) = Inr u) \<and>
   (url_parse s = Inr v \<and> is_valid v \<and> (CHR '':'' \<notin> set (host v) \<or> \<not> default_port v) \<longrightarrow> url_wf v)"
proof (intro conjI impI)
  assume wf: "url_wf u"
  let ?port = "if \<not> default_port u then '':'' @ show_int (port u) else ''''"
  define hp where "hp = host u @ ?port"
  have hp: "CHR ''/'' \<notin> set hp"
    using wf by (auto simp: hp_def url_wf_def url_parts_def show_int_plain)
  obtain p where p: "path u = CHR ''/'' # p"
    using wf by (cases "path u") (auto simp: url_wf_def url_parts_def)
  have str: "url_to_string u = scheme u @ ''://'' @ hp @ CHR ''/'' # p"
    using wf by (simp add: url_to_string_def url_wf_def hp_def p)
  have parse: "url_parse (url_to_string u) = (case find_last_of CHR '':'' hp of
       None \<Rightarrow> Inr \<lparr> scheme = scheme u, host = hp, path = path u,
                    port = (if scheme u = ''http'' then 80 else if scheme u = ''https'' then 443 else 0), valid = True \<rparr>
     | Some k \<Rightarrow> bind_cxx (atoi (drop (k + 1) hp)) (\<lambda>n.
         Inr \<lparr> scheme = scheme u, host = take k hp, path = path u, port = n, valid = True \<rparr>))"
    unfolding str p using wf hp by (intro url_parse_composed) (auto simp: url_wf_def url_parts_def)
  show "url_parse (url_to_string u) = Inr u"
  proof (cases "default_port u")
    case True
    then have "hp = host u" "find_last_of CHR '':'' hp = None"
      using wf by (simp_all add: hp_def url_wf_def find_last_of_None)
    then have "url_parse (url_to_string u) =
        Inr \<lparr> scheme = scheme u, host = host u, path = path u,
              port = (if scheme u = ''http'' then 80 else if scheme u = ''https'' then 443 else 0), valid = True \<rparr>"
      unfolding parse by simp
    with True wf show ?thesis
      by (auto simp: default_port_def url_wf_def)
  next
    case False
    then have hp: "hp = host u @ CHR '':'' # show_int (port u)"
      by (simp add: hp_def)
    have "find_last_of CHR '':'' hp = Some (length (host u))"
      unfolding hp by (rule find_last_of_append) (rule show_int_plain)
    moreover have "take (length (host u)) hp = host u" "drop (length (host u) + 1) hp = show_int (port u)"
      by (simp_all add: hp)
    moreover have "int_range (port u)" "valid u"
      using wf by (auto simp: url_wf_def url_parts_def)
    ultimately show ?thesis
      unfolding parse by (simp add: atoi_show_int)
  qed
next
  assume "url_parse s = Inr v \<and> is_valid v \<and> (CHR '':'' \<notin> set (host v) \<or> \<not> default_port v)"
  then show "url_wf v"
    using url_parse_parts by (auto simp: url_wf_def is_valid_def)
qed

definition url_example :: url where
  "url_example = \<lparr> scheme = ''https'', host = ''192.168.0.1'', path = ''/bar'', port = 444, valid = True \<rparr>"

theorem url_roundtrip_witness:
  "url_wf url_example \<and> url_parse (url_to_string url_example) = Inr url_example"
proof -
  have "url_wf url_example"
    by (simp add: url_wf_def url_parts_def url_example_def int_range_def default_port_def
        find_sub.simps)
  with url_roundtrip [of url_example] show ?thesis
    by blast
qed

text \<open>
  The excluded case does not round trip: a bracketed host with an explicit default port loses
  the port when printed, and the last colon inside the brackets is then taken for the one
  before the port.
\<close>

lemma url_colon_host_not_roundtrip:
  "url_parse ''http://[::1]:80/x'' =
     Inr \<lparr> scheme = ''http'', host = ''[::1]'', path = ''/x'', port = 80, valid = True \<rparr>"
  "url_parse (url_to_string \<lparr> scheme = ''http'', host = ''[::1]'', path = ''/x'', port = 80, valid = True \<rparr>) =
     Inr \<lparr> scheme = ''http'', host = ''[:'', path = ''/x'', port = 1, valid = True \<rparr>"
  by (simp_all add: url_parse_def find_sub.simps url_to_string_def default_port_def atoi_def c_isspace_def
      c_str_def c_isdigit_def digits_value_def int_range_def)

end
