(* ===== verification/Queue_Atomic.thy ===== *)
theory Queue_Atomic
  imports Bits
begin

text \<open>
  \<^verbatim>\<open>src/queue_atomic.h\<close> with its default parameters: a 64-bit atomic integer that packs a 16-bit
  version above a 48-bit offset. The operations are given twice: as a function of the queue,
  for a thread that is alone, and as a transition of one thread between its accesses to the
  atomic variables, for interleavings. Accesses are sequentially consistent; a
  \<^verbatim>\<open>compare_exchange_weak\<close> may fail spuriously.
\<close>

section \<open>Constants and the queue\<close>

definition spin_limit :: nat where
  "spin_limit = 2 ^ 24"

definition version_shift :: nat where
  "version_shift = 48"

definition size_max :: u64 where
  "size_max = push_bit 47 1"

definition offset_limit :: u64 where
  "offset_limit = push_bit 48 1"

definition version_limit :: u64 where
  "version_limit = push_bit 16 1"

definition offset_mask :: u64 where
  "offset_mask = push_bit 48 1 - 1"

definition version_mask :: u64 where
  "version_mask = push_bit 16 1 - 1"

record 'a queue_atomic =
  vec :: "'a list"
  size_limit :: u64
  counter_back :: u64
  version_back :: u64
  counter_front :: u64
  version_front :: u64

definition pack_offset :: "u64 \<Rightarrow> u64 \<Rightarrow> u64 cxx" where
  "pack_offset version offset =
     (if \<not> version < version_limit then Inl AssertFailed
      else if \<not> offset < offset_limit then Inl AssertFailed
      else Inr (push_bit version_shift version OR offset))"

text \<open>The offset, when the version in the packed value matches the counter.\<close>

definition unpack_offsets :: "u64 \<Rightarrow> u64 \<Rightarrow> u64 option" where
  "unpack_offsets counter pack =
     (if drop_bit version_shift pack AND version_mask = counter AND version_mask
      then Some (pack AND offset_mask) else None)"

definition back_offset :: "'a queue_atomic \<Rightarrow> u64" where
  "back_offset q = version_back q AND offset_mask"

definition front_offset :: "'a queue_atomic \<Rightarrow> u64" where
  "front_offset q = version_front q AND offset_mask"

definition new_queue :: "u64 \<Rightarrow> 'a::zero queue_atomic cxx" where
  "new_queue limit =
     bind_cxx (pack_offset 0 0) (\<lambda>vb. bind_cxx (pack_offset 0 limit) (\<lambda>vf.
       if \<not> limit > 0 then Inl AssertFailed
       else if \<not> limit \<le> size_max then Inl AssertFailed
       else if \<not> ispow2 limit then Inl AssertFailed
       else Inr \<lparr> vec = replicate (unat limit) 0, size_limit = limit,
                  counter_back = 0, version_back = vb, counter_front = 0, version_front = vf \<rparr>))"

definition queue_empty :: "'a queue_atomic \<Rightarrow> bool" where
  "queue_empty q \<longleftrightarrow> front_offset q - back_offset q = size_limit q"

definition queue_full :: "'a queue_atomic \<Rightarrow> bool" where
  "queue_full q \<longleftrightarrow> front_offset q = back_offset q"

definition queue_size :: "'a queue_atomic \<Rightarrow> u64" where
  "queue_size q =
     (if front_offset q < back_offset q then back_offset q - front_offset q
      else size_limit q - front_offset q + back_offset q)"

section \<open>A thread that is alone\<close>

text \<open>
  The operations as one thread sees them when no other thread uses the queue: each atomic operation then
  finds what was read before, so an exchange does not fail. The exchanges that fail because of another thread,
  or without a reason, are transitions of \<open>thread_step\<close> below.
\<close>

function push_loop :: "'a queue_atomic \<Rightarrow> 'a \<Rightarrow> u64 \<Rightarrow> nat \<Rightarrow> (bool \<times> 'a queue_atomic) cxx" where
  "push_loop q elem front spin_count =
     (case unpack_offsets (counter_back q) (version_back q) of
        Some back \<Rightarrow>
          if front = back then Inr (False, q)
          else
            let new_back_version = (counter_back q + 1) AND version_mask;
                offset = unat (back AND (size_limit q - 1));
                back = back + 1 in
            bind_cxx (pack_offset new_back_version (back AND (offset_limit - 1))) (\<lambda>pack.
              bind_cxx (write_range (vec q) offset [elem]) (\<lambda>vec'.
                Inr (True, q\<lparr> counter_back := new_back_version, vec := vec', version_back := pack \<rparr>)))
      | None \<Rightarrow>
          if spin_count + 1 < spin_limit then push_loop q elem front (spin_count + 1) else Inr (False, q))"
  by pat_completeness auto
termination
  by (relation "measure (\<lambda>(q, e, f, n). spin_limit - n)") auto

definition push_back :: "'a queue_atomic \<Rightarrow> 'a \<Rightarrow> (bool \<times> 'a queue_atomic) cxx" where
  "push_back q elem = push_loop q elem (front_offset q) 0"

function pop_loop :: "'a::zero queue_atomic \<Rightarrow> u64 \<Rightarrow> nat \<Rightarrow> ('a \<times> 'a queue_atomic) cxx" where
  "pop_loop q back spin_count =
     (case unpack_offsets (counter_front q) (version_front q) of
        Some front \<Rightarrow>
          if front - back = size_limit q then Inr (0, q)
          else
            let new_front_version = (counter_front q + 1) AND version_mask;
                offset = unat (front AND (size_limit q - 1));
                front = front + 1 in
            bind_cxx (pack_offset new_front_version (front AND (offset_limit - 1))) (\<lambda>pack.
              bind_cxx (index_cxx (vec q) offset) (\<lambda>val.
                Inr (val, q\<lparr> counter_front := new_front_version, version_front := pack \<rparr>)))
      | None \<Rightarrow>
          if spin_count + 1 < spin_limit then pop_loop q back (spin_count + 1) else Inr (0, q))"
  by pat_completeness auto
termination
  by (relation "measure (\<lambda>(q, b, n). spin_limit - n)") auto

declare push_loop.simps [simp del] pop_loop.simps [simp del]

definition pop_front :: "'a::zero queue_atomic \<Rightarrow> ('a \<times> 'a queue_atomic) cxx" where
  "pop_front q = pop_loop q (back_offset q) 0"

section \<open>One thread between its atomic accesses\<close>

text \<open>
  The constructors are the points of \<^verbatim>\<open>push_back\<close> and \<^verbatim>\<open>pop_front\<close> before each access to shared
  memory, with the local variables that are still needed.
\<close>

datatype 'a thread =
    PushReadFront 'a
  | PushLoadCounter 'a u64 nat
  | PushLoadVersion 'a u64 nat u64
  | PushExchange 'a u64 nat u64 u64 nat u64
  | PushStore 'a nat u64
  | PushPublish u64
  | PushDone bool
  | PopReadBack
  | PopLoadCounter u64 nat
  | PopLoadVersion u64 nat u64
  | PopExchange u64 nat u64 u64 nat u64
  | PopLoad nat u64
  | PopPublish 'a u64
  | PopDone 'a

definition push_retry :: "'a \<Rightarrow> u64 \<Rightarrow> nat \<Rightarrow> 'a thread" where
  "push_retry elem front spin_count =
     (if spin_count + 1 < spin_limit then PushLoadCounter elem front (spin_count + 1) else PushDone False)"

definition pop_retry :: "u64 \<Rightarrow> nat \<Rightarrow> 'a::zero thread" where
  "pop_retry back spin_count =
     (if spin_count + 1 < spin_limit then PopLoadCounter back (spin_count + 1) else PopDone 0)"

text \<open>The flag is true when a \<^verbatim>\<open>compare_exchange_weak\<close> of this step fails spuriously.\<close>

fun thread_step :: "bool \<Rightarrow> 'a::zero queue_atomic \<Rightarrow> 'a thread \<Rightarrow> ('a queue_atomic \<times> 'a thread) cxx" where
  "thread_step sp q (PushReadFront elem) = Inr (q, PushLoadCounter elem (front_offset q) 0)"
| "thread_step sp q (PushLoadCounter elem front n) = Inr (q, PushLoadVersion elem front n (counter_back q))"
| "thread_step sp q (PushLoadVersion elem front n cb) =
     (case unpack_offsets cb (version_back q) of
        None \<Rightarrow> Inr (q, push_retry elem front n)
      | Some back \<Rightarrow>
          if front = back then Inr (q, PushDone False)
          else
            let new_back_version = (cb + 1) AND version_mask;
                offset = unat (back AND (size_limit q - 1));
                back = back + 1 in
            bind_cxx (pack_offset new_back_version (back AND (offset_limit - 1))) (\<lambda>pack.
              Inr (q, PushExchange elem front n cb new_back_version offset pack)))"
| "thread_step sp q (PushExchange elem front n cb new_back_version offset pack) =
     (if counter_back q = cb \<and> \<not> sp
      then Inr (q\<lparr> counter_back := new_back_version \<rparr>, PushStore elem offset pack)
      else Inr (q, push_retry elem front n))"
| "thread_step sp q (PushStore elem offset pack) =
     bind_cxx (write_range (vec q) offset [elem]) (\<lambda>vec'. Inr (q\<lparr> vec := vec' \<rparr>, PushPublish pack))"
| "thread_step sp q (PushPublish pack) = Inr (q\<lparr> version_back := pack \<rparr>, PushDone True)"
| "thread_step sp q (PushDone r) = Inr (q, PushDone r)"
| "thread_step sp q PopReadBack = Inr (q, PopLoadCounter (back_offset q) 0)"
| "thread_step sp q (PopLoadCounter back n) = Inr (q, PopLoadVersion back n (counter_front q))"
| "thread_step sp q (PopLoadVersion back n cf) =
     (case unpack_offsets cf (version_front q) of
        None \<Rightarrow> Inr (q, pop_retry back n)
      | Some front \<Rightarrow>
          if front - back = size_limit q then Inr (q, PopDone 0)
          else
            let new_front_version = (cf + 1) AND version_mask;
                offset = unat (front AND (size_limit q - 1));
                front = front + 1 in
            bind_cxx (pack_offset new_front_version (front AND (offset_limit - 1))) (\<lambda>pack.
              Inr (q, PopExchange back n cf new_front_version offset pack)))"
| "thread_step sp q (PopExchange back n cf new_front_version offset pack) =
     (if counter_front q = cf \<and> \<not> sp
      then Inr (q\<lparr> counter_front := new_front_version \<rparr>, PopLoad offset pack)
      else Inr (q, pop_retry back n))"
| "thread_step sp q (PopLoad offset pack) =
     bind_cxx (index_cxx (vec q) offset) (\<lambda>val. Inr (q, PopPublish val pack))"
| "thread_step sp q (PopPublish val pack) = Inr (q\<lparr> version_front := pack \<rparr>, PopDone val)"
| "thread_step sp q (PopDone v) = Inr (q, PopDone v)"

section \<open>Packed words\<close>

definition packw :: "nat \<Rightarrow> nat \<Rightarrow> u64" where
  "packw v off = push_bit 48 (of_nat (v mod 2 ^ 16)) OR of_nat off"

lemma mask_constants:
  "offset_mask = mask 48" "version_mask = mask 16" "offset_limit - 1 = mask 48"
  by (simp_all add: offset_mask_def version_mask_def offset_limit_def mask_eq_exp_minus_1)

lemma limit_less_iff:
  "(w :: u64) < offset_limit \<longleftrightarrow> unat w < 2 ^ 48" "(w :: u64) < version_limit \<longleftrightarrow> unat w < 2 ^ 16"
  by (simp_all add: offset_limit_def version_limit_def word_less_nat_alt)

lemma unat_of_nat_u64: "n < 2 ^ 64 \<Longrightarrow> unat (of_nat n :: u64) = n"
  by (simp add: unat_of_nat take_bit_nat_eq_self)

lemma take_bit_of_nat_u64: "m \<le> 64 \<Longrightarrow> take_bit m (of_nat n :: u64) = of_nat (n mod 2 ^ m)"
  by (metis take_bit_eq_mod take_bit_of_nat)

lemma bit_nat_less:
  fixes off :: nat
  assumes "off < 2 ^ m" "bit off i"
  shows "i < m"
  using assms take_bit_nat_eq_self [of off m] by (metis bit_take_bit_iff)

lemma packw_offset:
  assumes "off < 2 ^ 48"
  shows "packw v off AND mask 48 = of_nat off"
  unfolding packw_def
  by (rule bit_word_eqI) (use bit_nat_less [OF assms] in \<open>auto simp: bit_simps\<close>)

lemma packw_version:
  assumes "off < 2 ^ 48"
  shows "drop_bit 48 (packw v off) AND mask 16 = of_nat (v mod 2 ^ 16)"
proof -
  have "v mod 2 ^ 16 < 2 ^ 16" by simp
  note bit_nat_less [OF this] bit_nat_less [OF assms]
  then show ?thesis
    unfolding packw_def by (intro bit_word_eqI) (fastforce simp: bit_simps)
qed

lemma pack_offset_packw:
  assumes "off < 2 ^ 48"
  shows "pack_offset (of_nat v AND mask 16) (of_nat off AND mask 48) = Inr (packw v off)"
proof -
  have "of_nat v AND mask 16 = (of_nat (v mod 2 ^ 16) :: u64)" "of_nat off AND mask 48 = (of_nat off :: u64)"
    using assms by (simp_all add: take_bit_eq_mask [symmetric] take_bit_of_nat_u64)
  moreover have "unat (of_nat (v mod 2 ^ 16) :: u64) < 2 ^ 16" "unat (of_nat off :: u64) < 2 ^ 48"
    using assms less_trans [OF mod_less_divisor [of "2 ^ 16" v], of "2 ^ 64"]
    by (simp_all add: unat_of_nat_u64)
  ultimately show ?thesis
    by (simp add: pack_offset_def limit_less_iff version_shift_def packw_def)
qed

lemma unpack_packw:
  assumes "off < 2 ^ 48"
  shows "unpack_offsets (of_nat (c mod 2 ^ 16)) (packw v off) =
           (if v mod 2 ^ 16 = c mod 2 ^ 16 then Some (of_nat off) else None)"
proof -
  have "of_nat (c mod 2 ^ 16) AND mask 16 = (of_nat (c mod 2 ^ 16) :: u64)"
    by (simp add: take_bit_eq_mask [symmetric] take_bit_of_nat_u64)
  moreover have "(of_nat (v mod 2 ^ 16) :: u64) = of_nat (c mod 2 ^ 16) \<longleftrightarrow> v mod 2 ^ 16 = c mod 2 ^ 16"
  proof
    assume "(of_nat (v mod 2 ^ 16) :: u64) = of_nat (c mod 2 ^ 16)"
    then have "unat (of_nat (v mod 2 ^ 16) :: u64) = unat (of_nat (c mod 2 ^ 16) :: u64)" by simp
    moreover have "n mod 2 ^ 16 < 2 ^ 64" for n :: nat
      using less_trans [OF mod_less_divisor [of "2 ^ 16" n], of "2 ^ 64"] by simp
    ultimately show "v mod 2 ^ 16 = c mod 2 ^ 16" by (simp add: unat_of_nat_u64)
  qed simp
  ultimately show ?thesis
    using assms by (simp add: unpack_offsets_def mask_constants version_shift_def packw_offset packw_version)
qed

lemma next_version: "(of_nat (c mod 2 ^ 16) + 1) AND mask 16 = (of_nat (c + 1) AND mask 16 :: u64)"
proof -
  have "take_bit 16 (of_nat (c mod 2 ^ 16 + 1) :: u64) = take_bit 16 (of_nat (c + 1))"
    by (subst (1 2) take_bit_of_nat_u64) (simp_all add: mod_simps)
  then show ?thesis
    by (simp add: take_bit_eq_mask add.commute)
qed

lemma of_nat_u64_eq_iff: "m < 2 ^ 64 \<Longrightarrow> n < 2 ^ 64 \<Longrightarrow> (of_nat m :: u64) = of_nat n \<longleftrightarrow> m = n"
  by (metis unat_of_nat_u64)

lemma slot_index:
  assumes "n = 2 ^ k" "k \<le> 47" "off < 2 ^ 48"
  shows "unat (of_nat off AND (of_nat n - 1) :: u64) = off mod n"
proof -
  have "(of_nat n - 1 :: u64) = mask k"
    by (simp add: assms(1) mask_eq_exp_minus_1)
  then have "(of_nat off AND (of_nat n - 1) :: u64) = of_nat (off mod n)"
    using assms by (simp add: take_bit_eq_mask [symmetric] take_bit_of_nat_u64)
  moreover have "off mod n < 2 ^ 64"
    using assms(3) mod_less_eq_dividend [of off n] by (simp del: mod_less_eq_dividend)
  ultimately show ?thesis by (simp only: unat_of_nat_u64)
qed

section \<open>The shape of a queue\<close>

text \<open>
  \<open>b\<close> elements have been published by producers and \<open>f\<close> released by consumers; \<open>b'\<close> and \<open>f'\<close>
  count the critical sections entered. Offsets have not wrapped at \<open>2 ^ 48\<close>.
\<close>

definition queue_shape :: "nat \<Rightarrow> nat \<Rightarrow> nat \<Rightarrow> nat \<Rightarrow> 'a queue_atomic \<Rightarrow> bool" where
  "queue_shape b b' f f' q \<longleftrightarrow>
     (\<exists>k\<le>47. length (vec q) = 2 ^ k) \<and> size_limit q = of_nat (length (vec q)) \<and>
     b + length (vec q) < 2 ^ 48 \<and> f \<le> b \<and> b \<le> f + length (vec q) \<and>
     version_back q = packw b b \<and> counter_back q = of_nat (b' mod 2 ^ 16) \<and>
     version_front q = packw f (f + length (vec q)) \<and> counter_front q = of_nat (f' mod 2 ^ 16)"

lemma queue_shapeD:
  assumes "queue_shape b b' f f' q"
  shows "back_offset q = of_nat b" "front_offset q = of_nat (f + length (vec q))"
    "size_limit q = of_nat (length (vec q))" "0 < length (vec q)" "length (vec q) \<le> 2 ^ 47"
    "f \<le> b" "b \<le> f + length (vec q)" "b + length (vec q) < 2 ^ 48"
proof -
  obtain k where k: "k \<le> 47" "length (vec q) = 2 ^ k"
    using assms by (auto simp: queue_shape_def)
  then show "0 < length (vec q)" "length (vec q) \<le> 2 ^ 47"
    using power_increasing [of k 47 "2::nat"] by simp_all
  show "back_offset q = of_nat b" "front_offset q = of_nat (f + length (vec q))"
    using assms by (simp_all add: queue_shape_def back_offset_def front_offset_def mask_constants packw_offset)
  show "size_limit q = of_nat (length (vec q))" "f \<le> b" "b \<le> f + length (vec q)" "b + length (vec q) < 2 ^ 48"
    using assms by (simp_all add: queue_shape_def)
qed

lemma queue_shape_slot:
  assumes "queue_shape b b' f f' q" "off < 2 ^ 48"
  shows "unat (of_nat off AND (size_limit q - 1)) = off mod length (vec q)" "off mod length (vec q) < length (vec q)"
  using assms queue_shapeD(3,4) [OF assms(1)] slot_index [of "length (vec q)" _ off]
  by (auto simp: queue_shape_def)

text \<open>The tests for a full and an empty queue, from offsets read at an earlier moment.\<close>

lemma full_test:
  assumes "queue_shape b b' f f' q" "g \<le> f"
  shows "(of_nat (g + length (vec q)) :: u64) = of_nat b \<longleftrightarrow> b = g + length (vec q)"
  using queue_shapeD [OF assms(1)] assms(2) by (subst of_nat_u64_eq_iff) auto

lemma empty_test:
  assumes "queue_shape b b' f f' q" "c \<le> b" "f \<le> c"
  shows "of_nat (f + length (vec q)) - of_nat c = size_limit q \<longleftrightarrow> f = c"
proof -
  note q = queue_shapeD [OF assms(1)]
  have "(of_nat (f + length (vec q)) - of_nat c :: u64) = of_nat (f + length (vec q) - c)"
    using q assms by (subst of_nat_diff) auto
  also have "\<dots> = of_nat (length (vec q)) \<longleftrightarrow> f = c"
    using q assms by (subst of_nat_u64_eq_iff) auto
  finally show ?thesis
    by (simp only: q(3))
qed

lemma of_nat_plus_1: "(of_nat n + 1 :: u64) = of_nat (n + 1)"
  by simp

lemma queue_shape_pack_back:
  assumes "queue_shape b b' f f' q" "b + 1 + length (vec q) < 2 ^ 48"
  shows "pack_offset ((of_nat (b mod 2 ^ 16) + 1) AND version_mask) ((of_nat b + 1) AND (offset_limit - 1)) =
           Inr (packw (b + 1) (b + 1))"
proof -
  have "b + 1 < 2 ^ 48"
    using assms(2) by simp
  from pack_offset_packw [OF this, of "b + 1"] show ?thesis
    unfolding mask_constants next_version by (simp only: of_nat_plus_1)
qed

lemma queue_shape_pack_front:
  assumes "queue_shape b b' f f' q" "f < b"
  shows "pack_offset ((of_nat (f mod 2 ^ 16) + 1) AND version_mask)
             ((of_nat (f + length (vec q)) + 1) AND (offset_limit - 1)) =
           Inr (packw (f + 1) (f + 1 + length (vec q)))"
proof -
  have "f + 1 + length (vec q) < 2 ^ 48"
    using assms queue_shapeD(8) [OF assms(1)] by simp
  from pack_offset_packw [OF this, of "f + 1"] show ?thesis
    unfolding mask_constants next_version
    by (simp only: of_nat_plus_1 add.assoc add.commute [of _ "1::nat"])
qed

lemma of_nat_next_version: "(of_nat (c mod 2 ^ 16) + 1) AND version_mask = (of_nat (Suc c mod 2 ^ 16) :: u64)"
  unfolding mask_constants next_version
  using take_bit_of_nat_u64 [of 16 "c + 1"] by (simp add: take_bit_eq_mask [symmetric])

section \<open>The sequential refinement\<close>

definition contents :: "'a queue_atomic \<Rightarrow> 'a list" where
  "contents q =
     map (\<lambda>i. vec q ! (i mod length (vec q)))
       [unat (front_offset q) - length (vec q)..<unat (back_offset q)]"

definition capacity :: "'a queue_atomic \<Rightarrow> nat" where
  "capacity q = unat (size_limit q)"

text \<open>At least \<open>n\<close> more elements can be pushed before an offset wraps.\<close>

definition queue_ok :: "nat \<Rightarrow> 'a queue_atomic \<Rightarrow> bool" where
  "queue_ok n q \<longleftrightarrow>
     (let b = unat (back_offset q); f = unat (front_offset q) - length (vec q) in
      queue_shape b b f f q \<and> b + n + length (vec q) < 2 ^ 48)"

lemma queue_shape_offsets:
  assumes "queue_shape b b' f f' q"
  shows "unat (back_offset q) = b" "unat (front_offset q) = f + length (vec q)" "capacity q = length (vec q)"
proof -
  note q = queue_shapeD [OF assms]
  have "unat (of_nat n :: u64) = n" if "n \<le> b + length (vec q)" for n
    using that q(8) by (intro unat_of_nat_u64) simp
  with q show "unat (back_offset q) = b" "unat (front_offset q) = f + length (vec q)" "capacity q = length (vec q)"
    by (simp_all add: capacity_def del: of_nat_add)
qed

lemma queue_ok_iff: "queue_ok n q \<longleftrightarrow> (\<exists>b f. queue_shape b b f f q \<and> b + n + length (vec q) < 2 ^ 48)"
  by (auto simp: queue_ok_def Let_def queue_shape_offsets)

lemma queue_okI: "queue_shape b b f f q \<Longrightarrow> b + n + length (vec q) < 2 ^ 48 \<Longrightarrow> queue_ok n q"
  unfolding queue_ok_iff by blast

lemma contents_shape:
  "queue_shape b b' f f' q \<Longrightarrow> contents q = map (\<lambda>i. vec q ! (i mod length (vec q))) [f..<b]"
  by (simp add: contents_def queue_shape_offsets)

text \<open>Distinct positions of the window occupy distinct slots.\<close>

lemma window_slots:
  assumes "f \<le> i" "i < b" "b < f + n"
  shows "i mod n \<noteq> b mod (n::nat)"
proof
  assume eq: "i mod n = b mod n"
  have "n dvd b - i"
    using eq assms by (metis mod_eq_dvd_iff_nat less_imp_le)
  then show False
    using assms by (auto dest: dvd_imp_le)
qed

lemma unpack_back:
  assumes "queue_shape b b f f' q"
  shows "unpack_offsets (counter_back q) (version_back q) = Some (of_nat b)"
  using assms unpack_packw [of b b b] by (simp add: queue_shape_def)

lemma unpack_front:
  assumes "queue_shape b b' f f q"
  shows "unpack_offsets (counter_front q) (version_front q) = Some (of_nat (f + length (vec q)))"
  using assms unpack_packw [of "f + length (vec q)" f f] by (simp add: queue_shape_def)

lemma push_back_full:
  assumes "queue_shape b b f f q" "b = f + length (vec q)"
  shows "push_back q x = Inr (False, q)"
  using assms unpack_back [OF assms(1)] queue_shapeD(2) [OF assms(1)]
  by (simp add: push_back_def push_loop.simps)

lemma push_back_room:
  fixes q :: "'a queue_atomic" and x :: 'a
  assumes q: "queue_shape b b f f q" and "b < f + length (vec q)" "b + 1 + length (vec q) < 2 ^ 48"
  defines "q' \<equiv> q\<lparr> counter_back := of_nat (Suc b mod 2 ^ 16),
    vec := overwrite (vec q) (b mod length (vec q)) [x], version_back := packw (b + 1) (b + 1) \<rparr>"
  shows "push_back q x = Inr (True, q')" "queue_shape (b + 1) (b + 1) f f q'" "contents q' = contents q @ [x]"
proof -
  note d = queue_shapeD [OF q]
  have slot: "unat (of_nat b AND (size_limit q - 1)) = b mod length (vec q)" "b mod length (vec q) < length (vec q)"
    using queue_shape_slot [OF q, of b] d(8) by simp_all
  have cb: "counter_back q = of_nat (b mod 2 ^ 16)"
    using q by (simp add: queue_shape_def)
  have ne: "front_offset q \<noteq> of_nat b"
    using full_test [OF q order_refl] d(2) assms(2) by auto
  show "push_back q x = Inr (True, q')"
    using unpack_back [OF q] ne slot queue_shape_pack_back [OF q assms(3)] of_nat_next_version [of b]
    unfolding push_back_def by (subst push_loop.simps) (simp add: Let_def cb q'_def)
  have len: "length (vec q') = length (vec q)"
    using slot(2) by (simp add: q'_def)
  show q': "queue_shape (b + 1) (b + 1) f f q'"
    using q assms(2,3) slot(2) unfolding queue_shape_def len by (simp add: q'_def)
  have "vec q' ! (i mod length (vec q)) = vec q ! (i mod length (vec q))" if "f \<le> i" "i < b" for i
    using window_slots [OF that assms(2)] slot(2) mod_less_divisor [OF d(4), of i]
    by (simp add: q'_def nth_overwrite_single)
  moreover have "vec q' ! (b mod length (vec q)) = x"
    using slot(2) by (simp add: q'_def nth_overwrite)
  ultimately show "contents q' = contents q @ [x]"
    using d(6) by (simp add: contents_shape [OF q] contents_shape [OF q'] len)
qed

lemma pop_front_empty:
  assumes "queue_shape b b f f q" "b = f"
  shows "pop_front q = Inr (0, q)"
  using assms unpack_front [OF assms(1)] empty_test [OF assms(1), of f] queue_shapeD(1) [OF assms(1)]
  by (simp add: pop_front_def pop_loop.simps)

lemma pop_front_element:
  assumes q: "queue_shape b b f f q" and "f < b"
  defines "q' \<equiv> q\<lparr> counter_front := of_nat (Suc f mod 2 ^ 16), version_front := packw (f + 1) (f + 1 + length (vec q)) \<rparr>"
  shows "pop_front q = Inr (vec q ! (f mod length (vec q)), q')" "queue_shape b b (f + 1) (f + 1) q'"
    "contents q = vec q ! (f mod length (vec q)) # contents q'"
proof -
  note d = queue_shapeD [OF q]
  have "f + length (vec q) < 2 ^ 48"
    using d(8) assms(2) by simp
  then have slot: "unat (of_nat (f + length (vec q)) AND (size_limit q - 1)) = f mod length (vec q)"
      "f mod length (vec q) < length (vec q)"
    using queue_shape_slot [OF q, of "f + length (vec q)"] by simp_all
  have cf: "counter_front q = of_nat (f mod 2 ^ 16)"
    using q by (simp add: queue_shape_def)
  have ne: "of_nat (f + length (vec q)) - back_offset q \<noteq> size_limit q"
    using empty_test [OF q, of b] d(1,6) assms(2) by simp
  show "pop_front q = Inr (vec q ! (f mod length (vec q)), q')"
    using unpack_front [OF q] ne slot queue_shape_pack_front [OF q assms(2)] of_nat_next_version [of f]
    unfolding pop_front_def by (subst pop_loop.simps) (simp add: Let_def cf q'_def del: of_nat_add)
  show q': "queue_shape b b (f + 1) (f + 1) q'"
    using q assms(2) d(7) unfolding queue_shape_def by (simp add: q'_def)
  show "contents q = vec q ! (f mod length (vec q)) # contents q'"
    unfolding contents_shape [OF q] contents_shape [OF q'] using assms(2)
    by (simp add: upt_conv_Cons q'_def)
qed

subsection \<open>The contract of a bounded queue\<close>

text \<open>Operations of a client, their results, and what a list does under them.\<close>

datatype 'a queue_op = Push 'a | Pop

datatype 'a queue_result = Pushed bool | Popped 'a

fun run_queue ::
  "('q \<Rightarrow> 'a \<Rightarrow> (bool \<times> 'q) cxx) \<Rightarrow> ('q \<Rightarrow> ('a \<times> 'q) cxx) \<Rightarrow> 'a queue_op list \<Rightarrow> 'q \<Rightarrow>
   ('a queue_result list \<times> 'q) cxx" where
  "run_queue push pop [] q = Inr ([], q)"
| "run_queue push pop (Push x # ops) q =
     bind_cxx (push q x) (\<lambda>(r, q). bind_cxx (run_queue push pop ops q) (\<lambda>(rs, q). Inr (Pushed r # rs, q)))"
| "run_queue push pop (Pop # ops) q =
     bind_cxx (pop q) (\<lambda>(x, q). bind_cxx (run_queue push pop ops q) (\<lambda>(rs, q). Inr (Popped x # rs, q)))"

fun run_fifo :: "nat \<Rightarrow> 'a \<Rightarrow> 'a queue_op list \<Rightarrow> 'a list \<Rightarrow> 'a queue_result list \<times> 'a list" where
  "run_fifo cap null [] xs = ([], xs)"
| "run_fifo cap null (Push x # ops) xs =
     (let ok = length xs < cap; (rs, ys) = run_fifo cap null ops (if ok then xs @ [x] else xs) in (Pushed ok # rs, ys))"
| "run_fifo cap null (Pop # ops) xs =
     (let (rs, ys) = run_fifo cap null ops (tl xs) in (Popped (if xs = [] then null else hd xs) # rs, ys))"

locale bounded_fifo =
  fixes ok :: "nat \<Rightarrow> 'q \<Rightarrow> bool"
    and elems :: "'q \<Rightarrow> 'a list"
    and cap :: "'q \<Rightarrow> nat"
    and push :: "'q \<Rightarrow> 'a \<Rightarrow> (bool \<times> 'q) cxx"
    and pop :: "'q \<Rightarrow> ('a \<times> 'q) cxx"
    and null :: 'a
  assumes ok_mono: "ok (Suc n) q \<Longrightarrow> ok n q"
    and elems_le: "ok n q \<Longrightarrow> length (elems q) \<le> cap q"
    and push_room: "ok (Suc n) q \<Longrightarrow> length (elems q) < cap q \<Longrightarrow>
      \<exists>q'. push q x = Inr (True, q') \<and> ok n q' \<and> elems q' = elems q @ [x] \<and> cap q' = cap q"
    and push_full: "ok n q \<Longrightarrow> length (elems q) = cap q \<Longrightarrow> push q x = Inr (False, q)"
    and pop_empty: "ok n q \<Longrightarrow> elems q = [] \<Longrightarrow> pop q = Inr (null, q)"
    and pop_elem: "ok n q \<Longrightarrow> elems q = x # xs \<Longrightarrow>
      \<exists>q'. pop q = Inr (x, q') \<and> ok n q' \<and> elems q' = xs \<and> cap q' = cap q"
begin

lemma run_refines:
  "ok (length ops) q \<Longrightarrow>
     \<exists>q'. run_queue push pop ops q = Inr (fst (run_fifo (cap q) null ops (elems q)), q') \<and>
       ok 0 q' \<and> elems q' = snd (run_fifo (cap q) null ops (elems q)) \<and> cap q' = cap q"
proof (induction ops arbitrary: q)
  case Nil
  then show ?case by simp
next
  case (Cons op ops)
  then have ok: "ok (length ops) q"
    by (simp add: ok_mono)
  note IH = Cons(1)
  show ?case
  proof (cases op)
    case (Push x)
    show ?thesis
    proof (cases "length (elems q) < cap q")
      case True
      with Cons(2) obtain q' where q': "push q x = Inr (True, q')" "ok (length ops) q'"
          "elems q' = elems q @ [x]" "cap q' = cap q"
        using push_room [of "length ops" q x] by auto
      with Cons(1) [OF q'(2)] True Push show ?thesis
        by (auto simp: Let_def split: prod.splits)
    next
      case False
      with ok have "push q x = Inr (False, q)"
        using push_full [OF ok] elems_le [OF ok] by simp
      with Cons(1) [OF ok] False Push show ?thesis
        by (auto simp: Let_def split: prod.splits)
    qed
  next
    case Pop
    show ?thesis
    proof (cases "elems q")
      case Nil
      with Cons(1) [OF ok] Pop pop_empty [OF ok] show ?thesis
        by (auto split: prod.splits)
    next
      case (Cons x xs)
      with ok obtain q' where q': "pop q = Inr (x, q')" "ok (length ops) q'" "elems q' = xs" "cap q' = cap q"
        using pop_elem by blast
      with IH [OF q'(2)] Cons Pop show ?thesis
        by (auto split: prod.splits)
    qed
  qed
qed

end

interpretation atomic_fifo: bounded_fifo queue_ok contents capacity push_back pop_front 0
proof
  fix n and q :: "'a::zero queue_atomic" and x :: 'a and xs
  show "queue_ok (Suc n) q \<Longrightarrow> queue_ok n q"
    by (auto simp: queue_ok_def Let_def)
  show "queue_ok n q \<Longrightarrow> length (contents q) \<le> capacity q"
    using queue_shapeD(7) by (fastforce simp: queue_ok_iff contents_shape queue_shape_offsets)
  show "\<exists>q'. push_back q x = Inr (True, q') \<and> queue_ok n q' \<and> contents q' = contents q @ [x] \<and> capacity q' = capacity q"
    if asm: "queue_ok (Suc n) q" "length (contents q) < capacity q"
  proof -
    obtain b f where s: "queue_shape b b f f q" "b + Suc n + length (vec q) < 2 ^ 48"
      using asm(1) unfolding queue_ok_iff by blast
    have "b < f + length (vec q)" "b + 1 + length (vec q) < 2 ^ 48"
      using asm s by (auto simp: contents_shape [OF s(1)] queue_shape_offsets [OF s(1)])
    note room = push_back_room [OF s(1) this, of x]
    let ?q = "snd (projr (push_back q x))"
    have "length (vec ?q) = length (vec q)"
      using room(1) queue_shape_slot(2) [OF s(1), of b] s(2) by simp
    with room s(2) have "queue_ok n ?q" "capacity ?q = capacity q"
      using queue_shape_offsets(3) [OF s(1)] queue_shape_offsets(3) [OF room(2)]
      by (simp_all add: queue_okI [of "Suc b" f])
    with room show ?thesis
      by simp
  qed
  show "push_back q x = Inr (False, q)" if asm: "queue_ok n q" "length (contents q) = capacity q"
  proof -
    obtain b f where s: "queue_shape b b f f q"
      using asm by (auto simp: queue_ok_iff)
    moreover from this have "b = f + length (vec q)"
      using asm queue_shapeD(6) [OF s] by (simp add: contents_shape queue_shape_offsets)
    ultimately show ?thesis
      by (rule push_back_full)
  qed
  show "pop_front q = Inr (0, q)" if asm: "queue_ok n q" "contents q = []"
  proof -
    obtain b f where s: "queue_shape b b f f q"
      using asm by (auto simp: queue_ok_iff)
    moreover from this have "b = f"
      using asm queue_shapeD(6) [OF s] by (auto simp: contents_shape)
    ultimately show ?thesis
      by (rule pop_front_empty)
  qed
  show "\<exists>q'. pop_front q = Inr (x, q') \<and> queue_ok n q' \<and> contents q' = xs \<and> capacity q' = capacity q"
    if asm: "queue_ok n q" "contents q = x # xs"
  proof -
    obtain b f where s: "queue_shape b b f f q" "b + n + length (vec q) < 2 ^ 48"
      using asm by (auto simp: queue_ok_iff)
    have "f < b"
      using asm by (cases "f < b") (auto simp: contents_shape [OF s(1)])
    note pop = pop_front_element [OF s(1) this]
    let ?q = "snd (projr (pop_front q))"
    from pop s(2) have "queue_ok n ?q" "capacity ?q = capacity q"
      using queue_shape_offsets(3) [OF s(1)] queue_shape_offsets(3) [OF pop(2)]
      by (simp_all add: queue_okI [of b "Suc f"])
    with pop asm(2) show ?thesis
      by simp
  qed
qed

subsection \<open>A new queue\<close>

lemma new_queue_ok:
  assumes "ispow2 limit" "limit \<le> size_max"
  shows "\<exists>q. new_queue limit = Inr (q :: 'a::zero queue_atomic) \<and> queue_shape 0 0 0 0 q \<and>
           length (vec q) = unat limit"
proof -
  let ?k = "63 - leading_zeros limit"
  have k: "unat limit = 2 ^ ?k"
    using ispow2_exp [OF assms(1)] by simp
  have "unat limit \<le> 2 ^ 47"
    using assms(2) by (simp add: size_max_def word_le_nat_alt)
  then have "?k \<le> 47"
    unfolding k by (metis power_increasing_iff one_less_numeral_iff semiring_norm(76))
  with k have pow: "\<exists>k\<le>47. unat limit = 2 ^ k"
    by blast
  have lim: "unat limit < 2 ^ 48" "limit > 0"
    using \<open>unat limit \<le> 2 ^ 47\<close> k by (simp_all add: word_neq_0_conv [symmetric] unat_eq_0 [symmetric] del: unat_eq_0)
  have pack: "pack_offset 0 0 = Inr (packw 0 0)" "pack_offset 0 limit = Inr (packw 0 (unat limit))"
    using lim(1) by (simp_all add: pack_offset_def limit_less_iff packw_def)
  let ?q = "\<lparr> vec = replicate (unat limit) 0, size_limit = limit, counter_back = 0, version_back = packw 0 0,
              counter_front = 0, version_front = packw 0 (unat limit) \<rparr> :: 'a queue_atomic"
  have "new_queue limit = Inr ?q"
    using assms lim pack by (simp add: new_queue_def)
  moreover have "queue_shape 0 0 0 0 ?q"
    using lim(1) pow unfolding queue_shape_def by simp
  ultimately show ?thesis
    by (intro exI [of _ ?q]) simp
qed

text \<open>
  C20. Until an offset wraps at \<open>2 ^ 48\<close>, a new \<^verbatim>\<open>queue_atomic\<close> used by one thread is a bounded first-in
  first-out queue: every sequence of \<^verbatim>\<open>push_back\<close> and \<^verbatim>\<open>pop_front\<close> returns what a list of at most
  \<^verbatim>\<open>size_limit\<close> elements returns, and no assertion fails and no slot outside the array is touched.
\<close>

theorem queue_refines_fifo:
  assumes "ispow2 limit" "limit \<le> size_max" "length ops + unat limit < 2 ^ 48"
  shows "\<exists>q q'. new_queue limit = Inr q \<and>
           run_queue push_back pop_front ops q = Inr (fst (run_fifo (unat limit) 0 ops []), q') \<and>
           contents q' = snd (run_fifo (unat limit) 0 ops [])"
proof -
  obtain q :: "'a queue_atomic" where q: "new_queue limit = Inr q" "queue_shape 0 0 0 0 q" "length (vec q) = unat limit"
    using new_queue_ok [OF assms(1,2)] by blast
  have "queue_ok (length ops) q"
    using q assms(3) by (auto simp: queue_ok_iff intro!: exI [of _ 0])
  from atomic_fifo.run_refines [OF this] q(1) show ?thesis
    by (auto simp: contents_shape [OF q(2)] queue_shape_offsets [OF q(2)] q(3))
qed

theorem queue_refines_fifo_witness:
  "\<exists>q q'. new_queue 2 = Inr q \<and>
     run_queue push_back pop_front [Push 7, Push 8, Push 9, Pop, Pop, Pop] (q :: int queue_atomic) =
       Inr ([Pushed True, Pushed True, Pushed False, Popped 7, Popped 8, Popped 0], q') \<and> contents q' = []"
proof -
  have "ispow2 (2 :: u64)" "(2 :: u64) \<le> size_max"
    by (simp_all add: ispow2_def size_max_def)
  from queue_refines_fifo [OF this, of "[Push 7, Push 8, Push 9, Pop, Pop, Pop :: int queue_op]"] show ?thesis
    by simp
qed

text \<open>The three observers agree with the list under the same bound.\<close>

lemma queue_observers:
  assumes "queue_ok n q"
  shows "queue_empty q \<longleftrightarrow> contents q = []" "queue_full q \<longleftrightarrow> length (contents q) = capacity q"
    "unat (queue_size q) = length (contents q)"
proof -
  obtain b f where s: "queue_shape b b f f q"
    using assms by (auto simp: queue_ok_iff)
  note d = queue_shapeD [OF s]
  have "queue_empty q \<longleftrightarrow> f = b"
    using empty_test [OF s, of b] d(1-3,6) by (simp only: queue_empty_def)
  then show "queue_empty q \<longleftrightarrow> contents q = []"
    using d(6) by (auto simp: contents_shape [OF s])
  have "queue_full q \<longleftrightarrow> b = f + length (vec q)"
    using full_test [OF s order_refl] by (simp only: queue_full_def d(1,2))
  then show "queue_full q \<longleftrightarrow> length (contents q) = capacity q"
    using d(6) by (auto simp: contents_shape [OF s] queue_shape_offsets [OF s])
  have "\<not> front_offset q < back_offset q"
    using d(7) by (simp add: word_less_nat_alt queue_shape_offsets [OF s])
  moreover have "size_limit q - front_offset q + back_offset q = (of_nat (b - f) :: u64)"
    using d(1-3,6) by (simp add: of_nat_diff)
  ultimately have "queue_size q = of_nat (b - f)"
    by (simp add: queue_size_def)
  moreover have "b - f < 2 ^ 64"
    using d(8) by simp
  ultimately show "unat (queue_size q) = length (contents q)"
    by (simp only: unat_of_nat_u64) (simp add: contents_shape [OF s])
qed

section \<open>One producer and one consumer\<close>

text \<open>
  The shared queue, the producer's and the consumer's position, and two ghost lists: the
  elements whose \<^verbatim>\<open>push_back\<close> has entered its critical section, and the elements returned by
  \<^verbatim>\<open>pop_front\<close>. A thread that has finished a call may start the next one; no push starts once an
  offset could wrap.
\<close>

type_synonym 'a spsc = "'a queue_atomic \<times> 'a thread \<times> 'a thread \<times> 'a list \<times> 'a list"

fun sent_by :: "'a thread \<Rightarrow> 'a thread \<Rightarrow> 'a list" where
  "sent_by (PushExchange x front n cb v off pack) (PushStore y off' pack') = [x]"
| "sent_by p p' = []"

fun received_by :: "'a thread \<Rightarrow> 'a list" where
  "received_by (PopPublish v pack) = [v]"
| "received_by c = []"

inductive spsc_step :: "'a::zero spsc \<Rightarrow> 'a spsc \<Rightarrow> bool" where
  push_begin: "length sent + 1 + length (vec q) < 2 ^ 48 \<Longrightarrow>
     spsc_step (q, PushDone r, c, sent, recv) (q, PushReadFront x, c, sent, recv)"
| pop_begin: "spsc_step (q, p, PopDone r, sent, recv) (q, p, PopReadBack, sent, recv)"
| producer: "thread_step sp q p = Inr (q', p') \<Longrightarrow>
     spsc_step (q, p, c, sent, recv) (q', p', c, sent @ sent_by p p', recv)"
| consumer: "thread_step sp q c = Inr (q', c') \<Longrightarrow>
     spsc_step (q, p, c, sent, recv) (q', p, c', sent, recv @ received_by c)"

inductive_cases spsc_stepE: "spsc_step s s'"

text \<open>
  What the positions say: \<open>b\<close> elements are published, \<open>f\<close> released, and \<open>n\<close> is the size of
  the array.
\<close>

text \<open>The slots between the released and the published position hold the elements sent.\<close>

definition window :: "nat \<Rightarrow> nat \<Rightarrow> 'a list \<Rightarrow> 'a list \<Rightarrow> bool" where
  "window f b v sent \<longleftrightarrow> (\<forall>i. f \<le> i \<and> i < b \<longrightarrow> v ! (i mod length v) = sent ! i)"

fun producer_inv :: "nat \<Rightarrow> nat \<Rightarrow> nat \<Rightarrow> 'a list \<Rightarrow> 'a list \<Rightarrow> 'a thread \<Rightarrow> bool" where
  "producer_inv b f n v sent (PushReadFront x) \<longleftrightarrow> length sent = b \<and> b + 1 + n < 2 ^ 48"
| "producer_inv b f n v sent (PushLoadCounter x front k) \<longleftrightarrow> length sent = b \<and> b + 1 + n < 2 ^ 48 \<and>
     (\<exists>g\<le>f. front = of_nat (g + n) \<and> b \<le> g + n)"
| "producer_inv b f n v sent (PushLoadVersion x front k cb) \<longleftrightarrow> length sent = b \<and> b + 1 + n < 2 ^ 48 \<and>
     (\<exists>g\<le>f. front = of_nat (g + n) \<and> b \<le> g + n) \<and> cb = of_nat (b mod 2 ^ 16)"
| "producer_inv b f n v sent (PushExchange x front k cb nv off pack) \<longleftrightarrow> length sent = b \<and> b + 1 + n < 2 ^ 48 \<and>
     (\<exists>g\<le>f. front = of_nat (g + n) \<and> b < g + n) \<and> cb = of_nat (b mod 2 ^ 16) \<and>
     nv = of_nat (Suc b mod 2 ^ 16) \<and> off = b mod n \<and> pack = packw (b + 1) (b + 1)"
| "producer_inv b f n v sent (PushStore x off pack) \<longleftrightarrow> length sent = Suc b \<and> b + 1 + n < 2 ^ 48 \<and>
     b < f + n \<and> off = b mod n \<and> pack = packw (b + 1) (b + 1) \<and> sent ! b = x"
| "producer_inv b f n v sent (PushPublish pack) \<longleftrightarrow> length sent = Suc b \<and> b + 1 + n < 2 ^ 48 \<and>
     b < f + n \<and> pack = packw (b + 1) (b + 1) \<and> v ! (b mod n) = sent ! b"
| "producer_inv b f n v sent (PushDone r) \<longleftrightarrow> length sent = b"
| "producer_inv b f n v sent _ \<longleftrightarrow> False"

fun consumer_inv :: "nat \<Rightarrow> nat \<Rightarrow> nat \<Rightarrow> 'a list \<Rightarrow> 'a thread \<Rightarrow> bool" where
  "consumer_inv b f n sent PopReadBack \<longleftrightarrow> True"
| "consumer_inv b f n sent (PopLoadCounter back k) \<longleftrightarrow> (\<exists>c\<le>b. back = of_nat c \<and> f \<le> c)"
| "consumer_inv b f n sent (PopLoadVersion back k cf) \<longleftrightarrow> (\<exists>c\<le>b. back = of_nat c \<and> f \<le> c) \<and> cf = of_nat (f mod 2 ^ 16)"
| "consumer_inv b f n sent (PopExchange back k cf nv off pack) \<longleftrightarrow> (\<exists>c\<le>b. back = of_nat c \<and> f < c) \<and>
     cf = of_nat (f mod 2 ^ 16) \<and> nv = of_nat (Suc f mod 2 ^ 16) \<and> off = f mod n \<and> pack = packw (f + 1) (f + 1 + n)"
| "consumer_inv b f n sent (PopLoad off pack) \<longleftrightarrow> f < b \<and> off = f mod n \<and> pack = packw (f + 1) (f + 1 + n)"
| "consumer_inv b f n sent (PopPublish v pack) \<longleftrightarrow> f < b \<and> v = sent ! f \<and> pack = packw (f + 1) (f + 1 + n)"
| "consumer_inv b f n sent (PopDone r) \<longleftrightarrow> True"
| "consumer_inv b f n sent _ \<longleftrightarrow> False"

definition consumer_inside :: "'a thread \<Rightarrow> bool" where
  "consumer_inside c \<longleftrightarrow> (case c of PopLoad _ _ \<Rightarrow> True | PopPublish _ _ \<Rightarrow> True | _ \<Rightarrow> False)"

definition spsc_inv :: "nat \<Rightarrow> 'a spsc \<Rightarrow> bool" where
  "spsc_inv n s = (case s of (q, p, c, sent, recv) \<Rightarrow>
     length (vec q) = n \<and> (\<exists>b f. queue_shape b (length sent) f (if consumer_inside c then Suc f else f) q \<and>
       recv = take f sent \<and> window f b (vec q) sent \<and>
       producer_inv b f n (vec q) sent p \<and> consumer_inv b f n sent c))"

lemma spsc_invI:
  assumes "length (vec q) = n" "queue_shape b (length sent) f (if consumer_inside c then Suc f else f) q"
    "recv = take f sent" "window f b (vec q) sent" "producer_inv b f n (vec q) sent p" "consumer_inv b f n sent c"
  shows "spsc_inv n (q, p, c, sent, recv)"
  using assms unfolding spsc_inv_def by blast

lemma producer_inv_le: "producer_inv b f n v sent p \<Longrightarrow> b \<le> length sent"
  by (cases p) auto

lemma producer_inv_mono: "producer_inv b f n v sent p \<Longrightarrow> f \<le> f' \<Longrightarrow> producer_inv b f' n v sent p"
  by (cases p) (auto intro: order_trans)

lemma consumer_inv_mono:
  "consumer_inv b f n sent c \<Longrightarrow> b \<le> b' \<Longrightarrow> b \<le> length sent \<Longrightarrow> consumer_inv b' f n (sent @ xs) c"
  by (cases c) (auto simp: nth_append intro: order_trans)

lemma window_append: "window f b v sent \<Longrightarrow> b \<le> length sent \<Longrightarrow> window f b v (sent @ xs)"
  by (auto simp: window_def nth_append)

text \<open>Every step of the producer succeeds and keeps what the consumer relies on.\<close>

lemma producer_step:
  assumes shape: "queue_shape b (length sent) f f' q" and win: "window f b (vec q) sent"
    and p: "producer_inv b f (length (vec q)) (vec q) sent p"
  shows "\<exists>q' p' b'. thread_step sp q p = Inr (q', p') \<and> b \<le> b' \<and> length (vec q') = length (vec q) \<and>
           queue_shape b' (length (sent @ sent_by p p')) f f' q' \<and> window f b' (vec q') (sent @ sent_by p p') \<and>
           producer_inv b' f (length (vec q)) (vec q') (sent @ sent_by p p') p'"
proof -
  let ?n = "length (vec q)"
  note d = queue_shapeD [OF shape]
  have slot: "unat (of_nat b AND (size_limit q - 1)) = b mod ?n" "b mod ?n < ?n"
    using queue_shape_slot [OF shape, of b] d(8) by simp_all
  have cb: "counter_back q = of_nat (length sent mod 2 ^ 16)" and vb: "version_back q = packw b b"
    using shape by (simp_all add: queue_shape_def)
  show ?thesis
  proof (cases p)
    case (PushReadFront x)
    with assms show ?thesis
      by (intro exI [of _ q] exI [of _ "PushLoadCounter x (front_offset q) 0"] exI [of _ b])
        (use d in \<open>auto intro!: exI [of _ f]\<close>)
  next
    case (PushLoadCounter x front k)
    with assms show ?thesis
      by (intro exI [of _ q] exI [of _ "PushLoadVersion x front k (counter_back q)"] exI [of _ b])
        (auto simp: cb)
  next
    case (PushLoadVersion x front k cb')
    with p obtain g where g: "g \<le> f" "front = of_nat (g + ?n)" "b \<le> g + ?n" "cb' = of_nat (b mod 2 ^ 16)"
        "length sent = b" "b + 1 + ?n < 2 ^ 48"
      by auto
    have un: "unpack_offsets cb' (version_back q) = Some (of_nat b)"
      using unpack_packw [of b b b] g d(8) by (simp add: vb)
    show ?thesis
    proof (cases "b = g + ?n")
      case True
      with assms show ?thesis
        by (intro exI [of _ q] exI [of _ "PushDone False"] exI [of _ b])
          (use PushLoadVersion un g in auto)
    next
      case False
      then have ne: "front \<noteq> of_nat b"
        using full_test [OF shape g(1)] by (simp only: g(2)) simp
      have step: "thread_step sp q p =
          Inr (q, PushExchange x front k cb' (of_nat (Suc b mod 2 ^ 16)) (b mod ?n) (packw (b + 1) (b + 1)))"
        using queue_shape_pack_back [OF shape g(6)] of_nat_next_version [of b] un ne slot
        by (simp add: PushLoadVersion Let_def g(4))
      have inv: "producer_inv b f ?n (vec q) sent
          (PushExchange x front k cb' (of_nat (Suc b mod 2 ^ 16)) (b mod ?n) (packw (b + 1) (b + 1)))"
        using g False by auto
      show ?thesis
        unfolding step
        by (intro exI conjI, rule refl) (use assms(1,2) inv PushLoadVersion in auto)
    qed
  next
    case (PushExchange x front k cb' nv off pack)
    show ?thesis
    proof (cases "counter_back q = cb' \<and> \<not> sp")
      case True
      let ?q = "q\<lparr> counter_back := nv \<rparr>"
      have "queue_shape b (length (sent @ [x])) f f' ?q"
        using shape p PushExchange by (auto simp: queue_shape_def)
      with assms True show ?thesis
        by (intro exI [of _ ?q] exI [of _ "PushStore x off pack"] exI [of _ b])
          (use PushExchange in \<open>auto simp: window_append\<close>)
    next
      case False
      have "producer_inv b f ?n (vec q) sent (push_retry x front k)" "sent_by p (push_retry x front k) = []"
        using p PushExchange by (auto simp: push_retry_def intro: less_imp_le)
      with assms False show ?thesis
        by (intro exI [of _ q] exI [of _ "push_retry x front k"] exI [of _ b])
          (use PushExchange in auto)
    qed
  next
    case (PushStore x off pack)
    let ?q = "q\<lparr> vec := overwrite (vec q) off [x] \<rparr>"
    have off: "off = b mod ?n" "b < f + ?n"
      using p PushStore by auto
    have "vec ?q ! (i mod ?n) = vec q ! (i mod ?n)" if "f \<le> i" "i < b" for i
      using window_slots [OF that off(2)] off(1) slot(2) mod_less_divisor [OF d(4), of i]
      by (simp add: nth_overwrite_single)
    then have "window f b (vec ?q) sent"
      using win off(1) slot(2) by (simp add: window_def)
    moreover have "queue_shape b (length sent) f f' ?q"
      using shape off slot by (simp add: queue_shape_def)
    ultimately show ?thesis
      using p PushStore off slot
      by (intro exI [of _ ?q] exI [of _ "PushPublish pack"] exI [of _ b]) (auto simp: nth_overwrite_single)
  next
    case (PushPublish pack)
    let ?q = "q\<lparr> version_back := pack \<rparr>"
    have "queue_shape (b + 1) (length sent) f f' ?q"
      using shape p PushPublish by (auto simp: queue_shape_def)
    moreover have "window f (b + 1) (vec ?q) sent"
      using win p PushPublish by (auto simp: window_def less_Suc_eq)
    ultimately show ?thesis
      using p PushPublish by (intro exI [of _ ?q] exI [of _ "PushDone True"] exI [of _ "b + 1"]) auto
  qed (use assms in auto)
qed

lemma consumer_step:
  assumes shape: "queue_shape b b' f (if consumer_inside c then Suc f else f) q" and win: "window f b (vec q) sent"
    and c: "consumer_inv b f (length (vec q)) sent c" and len: "b \<le> length sent"
  shows "\<exists>q' c' f'. thread_step sp q c = Inr (q', c') \<and> f \<le> f' \<and> vec q' = vec q \<and>
           queue_shape b b' f' (if consumer_inside c' then Suc f' else f') q' \<and> window f' b (vec q) sent \<and>
           take f sent @ received_by c = take f' sent \<and> consumer_inv b f' (length (vec q)) sent c'"
proof -
  let ?n = "length (vec q)"
  note d = queue_shapeD [OF shape]
  have vf: "version_front q = packw f (f + ?n)"
    using shape by (simp add: queue_shape_def)
  have fn: "f + ?n < 2 ^ 48"
    using d(6,8) by simp
  have slot: "unat (of_nat (f + ?n) AND (size_limit q - 1)) = f mod ?n" "f mod ?n < ?n"
    using queue_shape_slot [OF shape fn] by simp_all
  show ?thesis
  proof (cases c)
    case PopReadBack
    with assms show ?thesis
      by (intro exI [of _ q] exI [of _ "PopLoadCounter (back_offset q) 0"] exI [of _ f])
        (use d in \<open>auto simp: consumer_inside_def intro!: exI [of _ b]\<close>)
  next
    case (PopLoadCounter bk k)
    with assms show ?thesis
      by (intro exI [of _ q] exI [of _ "PopLoadVersion bk k (counter_front q)"] exI [of _ f])
        (auto simp: consumer_inside_def queue_shape_def)
  next
    case (PopLoadVersion bk k cf)
    with c obtain e where e: "e \<le> b" "bk = of_nat e" "f \<le> e" "cf = of_nat (f mod 2 ^ 16)"
      by auto
    have un: "unpack_offsets cf (version_front q) = Some (of_nat (f + ?n))"
      using unpack_packw [OF fn, of f f] e by (simp add: vf)
    show ?thesis
    proof (cases "f = e")
      case True
      then have "of_nat (f + ?n) - bk = size_limit q"
        using empty_test [OF shape e(1,3)] by (simp only: e(2))
      with assms show ?thesis
        by (intro exI [of _ q] exI [of _ "PopDone 0"] exI [of _ f])
          (use PopLoadVersion un in \<open>auto simp: consumer_inside_def\<close>)
    next
      case False
      then have ne: "of_nat (f + ?n) - bk \<noteq> size_limit q"
        using empty_test [OF shape e(1,3)] by (simp only: e(2)) simp
      have "f < b"
        using False e by simp
      let ?c = "PopExchange bk k cf (of_nat (Suc f mod 2 ^ 16)) (f mod ?n) (packw (f + 1) (f + 1 + ?n))"
      have step: "thread_step sp q c = Inr (q, ?c)"
        using queue_shape_pack_front [OF shape \<open>f < b\<close>] of_nat_next_version [of f] un ne slot
        by (simp add: PopLoadVersion Let_def e(4) del: of_nat_add)
      have inv: "consumer_inv b f ?n sent ?c"
        using e False by (auto intro!: exI [of _ e])
      show ?thesis
        unfolding step using assms inv PopLoadVersion
        by (intro exI [of _ q] exI [of _ ?c] exI [of _ f]) (simp add: consumer_inside_def)
    qed
  next
    case (PopExchange bk k cf nv off pack)
    show ?thesis
    proof (cases "counter_front q = cf \<and> \<not> sp")
      case True
      let ?q = "q\<lparr> counter_front := nv \<rparr>"
      have "queue_shape b b' f (Suc f) ?q"
        using shape c PopExchange by (auto simp: queue_shape_def)
      with assms True show ?thesis
        by (intro exI [of _ ?q] exI [of _ "PopLoad off pack"] exI [of _ f])
          (use PopExchange in \<open>auto simp: consumer_inside_def\<close>)
    next
      case False
      have "consumer_inv b f ?n sent (pop_retry bk k)" "\<not> consumer_inside (pop_retry bk k)"
        using c PopExchange by (auto simp: pop_retry_def consumer_inside_def intro: less_imp_le)
      with assms False show ?thesis
        by (intro exI [of _ q] exI [of _ "pop_retry bk k"] exI [of _ f])
          (use PopExchange in \<open>auto simp: consumer_inside_def\<close>)
    qed
  next
    case (PopLoad off pack)
    with assms slot show ?thesis
      by (intro exI [of _ q] exI [of _ "PopPublish (vec q ! off) pack"] exI [of _ f])
        (auto simp: consumer_inside_def window_def)
  next
    case (PopPublish v pack)
    let ?q = "q\<lparr> version_front := pack \<rparr>"
    have "queue_shape b b' (Suc f) (Suc f) ?q"
      using shape c PopPublish by (auto simp: queue_shape_def consumer_inside_def)
    then show ?thesis
      using c PopPublish win len
      by (intro exI [of _ ?q] exI [of _ "PopDone v"] exI [of _ "Suc f"])
        (auto simp: consumer_inside_def window_def take_Suc_conv_app_nth)
  qed (use assms in \<open>auto simp: consumer_inside_def\<close>)
qed

lemma spsc_inv_producer:
  assumes "spsc_inv n (q, p, c, sent, recv)"
  shows "\<exists>q' p'. thread_step sp q p = Inr (q', p') \<and> spsc_inv n (q', p', c, sent @ sent_by p p', recv)"
proof -
  obtain b f where i: "queue_shape b (length sent) f (if consumer_inside c then Suc f else f) q" "recv = take f sent"
      "window f b (vec q) sent" "producer_inv b f (length (vec q)) (vec q) sent p" "consumer_inv b f (length (vec q)) sent c" "length (vec q) = n"
    using assms by (auto simp: spsc_inv_def)
  obtain q' p' b' where s: "thread_step sp q p = Inr (q', p')" "b \<le> b'" "length (vec q') = length (vec q)"
      "queue_shape b' (length (sent @ sent_by p p')) f (if consumer_inside c then Suc f else f) q'"
      "window f b' (vec q') (sent @ sent_by p p')" "producer_inv b' f (length (vec q)) (vec q') (sent @ sent_by p p') p'"
    using producer_step [OF i(1,3,4), of sp] by blast
  have len: "b \<le> length sent" "f \<le> length sent"
    using producer_inv_le [OF i(4)] queue_shapeD(6) [OF i(1)] by simp_all
  then have "consumer_inv b' f (length (vec q)) (sent @ sent_by p p') c" "recv = take f (sent @ sent_by p p')"
    using consumer_inv_mono [OF i(5) s(2)] i(2) by simp_all
  with s i(6) show ?thesis
    using spsc_invI [of q' n b' "sent @ sent_by p p'" f c recv p'] by auto
qed

lemma spsc_inv_consumer:
  assumes "spsc_inv n (q, p, c, sent, recv)"
  shows "\<exists>q' c'. thread_step sp q c = Inr (q', c') \<and> spsc_inv n (q', p, c', sent, recv @ received_by c)"
proof -
  obtain b f where i: "queue_shape b (length sent) f (if consumer_inside c then Suc f else f) q" "recv = take f sent"
      "window f b (vec q) sent" "producer_inv b f (length (vec q)) (vec q) sent p" "consumer_inv b f (length (vec q)) sent c" "length (vec q) = n"
    using assms by (auto simp: spsc_inv_def)
  obtain q' c' f' where s: "thread_step sp q c = Inr (q', c')" "f \<le> f'" "vec q' = vec q"
      "queue_shape b (length sent) f' (if consumer_inside c' then Suc f' else f') q'" "window f' b (vec q) sent"
      "take f sent @ received_by c = take f' sent" "consumer_inv b f' (length (vec q)) sent c'"
    using consumer_step [OF i(1,3,5) producer_inv_le [OF i(4)], of sp] by blast
  with producer_inv_mono [OF i(4) s(2)] i(2,6) show ?thesis
    using spsc_invI [of q' n b sent f' c' "recv @ received_by c" p] by auto
qed

lemma spsc_inv_step:
  assumes "spsc_step s s'" "spsc_inv n s"
  shows "spsc_inv n s'"
  using assms
proof (induction rule: spsc_step.induct)
  case (push_begin sent q r c recv x)
  then show ?case by (auto simp: spsc_inv_def)
next
  case (pop_begin q p r sent recv)
  then show ?case by (auto simp: spsc_inv_def consumer_inside_def)
next
  case (producer sp q p q' p' c sent recv)
  with spsc_inv_producer [OF producer(2), of sp] show ?case by auto
next
  case (consumer sp q c q' c' p sent recv)
  with spsc_inv_consumer [OF consumer(2), of sp] show ?case by auto
qed

lemma spsc_inv_reachable: "spsc_step\<^sup>*\<^sup>* s s' \<Longrightarrow> spsc_inv n s \<Longrightarrow> spsc_inv n s'"
  by (induction rule: rtranclp_induct) (auto intro: spsc_inv_step)

lemma spsc_inv_new:
  "queue_shape 0 0 0 0 q \<Longrightarrow> spsc_inv (length (vec q)) (q, PushDone r, PopDone v, [], [])"
  by (auto simp: spsc_inv_def window_def consumer_inside_def intro!: exI [of _ 0])

text \<open>A schedule of a producer (true) and a consumer (false) without spurious failures.\<close>

fun spsc_exec :: "bool list \<Rightarrow> 'a::zero spsc \<Rightarrow> 'a spsc cxx" where
  "spsc_exec [] s = Inr s"
| "spsc_exec (True # ms) (q, p, c, sent, recv) =
     bind_cxx (thread_step False q p) (\<lambda>(q', p'). spsc_exec ms (q', p', c, sent @ sent_by p p', recv))"
| "spsc_exec (False # ms) (q, p, c, sent, recv) =
     bind_cxx (thread_step False q c) (\<lambda>(q', c'). spsc_exec ms (q', p, c', sent, recv @ received_by c))"

lemma spsc_exec_reachable: "spsc_exec ms s = Inr s' \<Longrightarrow> spsc_step\<^sup>*\<^sup>* s s'"
  by (induction ms s rule: spsc_exec.induct)
    (auto simp: bind_cxx_Inr_iff intro: converse_rtranclp_into_rtranclp spsc_step.intros)

text \<open>
  C7. With one producer and one consumer, however their atomic accesses interleave and whichever
  exchanges fail spuriously, no access leaves the array and no assertion fails, the elements
  \<^verbatim>\<open>pop_front\<close> has returned are a prefix of those pushed, in order and without loss or duplication,
  and at most \<^verbatim>\<open>size_limit\<close> elements are in flight.
\<close>

theorem spsc_fifo:
  fixes q0 :: "'a::zero queue_atomic"
  assumes "new_queue limit = Inr q0" "spsc_step\<^sup>*\<^sup>* (q0, PushDone True, PopDone 0, [], []) (q, p, c, sent, recv)"
  shows "recv = take (length recv) sent \<and> length sent \<le> length recv + unat limit \<and>
         (\<forall>sp. (\<exists>r. thread_step sp q p = Inr r) \<and> (\<exists>r. thread_step sp q c = Inr r))"
proof -
  have "ispow2 limit" "limit \<le> size_max"
    using assms(1) by (auto simp: new_queue_def bind_cxx_Inr_iff split: if_splits)
  with assms(1) new_queue_ok [of limit] obtain q1 :: "'a queue_atomic" where "new_queue limit = Inr q1" "queue_shape 0 0 0 0 q1"
      "length (vec q1) = unat limit"
    by blast
  with assms(1) have q0: "queue_shape 0 0 0 0 q0" "length (vec q0) = unat limit"
    by simp_all
  have inv: "spsc_inv (unat limit) (q, p, c, sent, recv)"
    using spsc_inv_reachable [OF assms(2) spsc_inv_new [OF q0(1)]] q0(2) by simp
  then obtain b f where i: "queue_shape b (length sent) f (if consumer_inside c then Suc f else f) q"
      "recv = take f sent" "producer_inv b f (unat limit) (vec q) sent p" "length (vec q) = unat limit"
    by (auto simp: spsc_inv_def)
  have "length sent \<le> f + unat limit"
    using i(3) queue_shapeD(7) [OF i(1)] i(4) by (cases p) auto
  moreover have "f \<le> length sent"
    using producer_inv_le [OF i(3)] queue_shapeD(6) [OF i(1)] by simp
  ultimately show ?thesis
    using i(2) spsc_inv_producer [OF inv] spsc_inv_consumer [OF inv] by (simp add: min_def) blast
qed

definition one_slot_queue :: "int queue_atomic" where
  "one_slot_queue = \<lparr> vec = [0], size_limit = 1, counter_back = 0, version_back = 0,
     counter_front = 0, version_front = 1 \<rparr>"

theorem spsc_fifo_witness:
  "new_queue 1 = Inr one_slot_queue \<and>
   (\<exists>q. spsc_step\<^sup>*\<^sup>* (one_slot_queue, PushDone True, PopDone 0, [], []) (q, PushDone True, PopDone 5, [5], [5]) \<and>
     [5] = take (length [5::int]) [5::int] \<and> (\<exists>r. thread_step True q (PopDone 5) = Inr r))"
proof -
  have new: "new_queue 1 = Inr one_slot_queue"
    by (simp add: new_queue_def one_slot_queue_def pack_offset_def limit_less_iff ispow2_def size_max_def)
  let ?s = "(one_slot_queue, PushReadFront 5, PopReadBack, [], [])"
  have "spsc_exec (replicate 6 True @ replicate 6 False) ?s =
      Inr (one_slot_queue\<lparr> vec := [5], counter_back := 1, version_back := 0x1000000000001,
             counter_front := 1, version_front := 0x1000000000002 \<rparr>, PushDone True, PopDone 5, [5], [5])"
    by code_simp
  then have "spsc_step\<^sup>*\<^sup>* ?s (one_slot_queue\<lparr> vec := [5], counter_back := 1, version_back := 0x1000000000001,
             counter_front := 1, version_front := 0x1000000000002 \<rparr>, PushDone True, PopDone 5, [5], [5])"
    by (rule spsc_exec_reachable)
  moreover have "spsc_step\<^sup>*\<^sup>* (one_slot_queue, PushDone True, PopDone 0, [], []) ?s"
    by (rule converse_rtranclp_into_rtranclp [where b = "(one_slot_queue, PushReadFront 5, PopDone 0, [], [])"])
      (auto simp: one_slot_queue_def intro: spsc_step.intros)
  ultimately have "spsc_step\<^sup>*\<^sup>* (one_slot_queue, PushDone True, PopDone 0, [], [])
     (one_slot_queue\<lparr> vec := [5], counter_back := 1, version_back := 0x1000000000001,
             counter_front := 1, version_front := 0x1000000000002 \<rparr>, PushDone True, PopDone 5, [5], [5])"
    by (rule rtranclp_trans [rotated])
  with new spsc_fifo [OF new this] show ?thesis
    by blast
qed

section \<open>Several consumers\<close>

text \<open>A schedule names the thread that moves next.\<close>

fun run_threads :: "nat list \<Rightarrow> 'a::zero queue_atomic \<Rightarrow> 'a thread list \<Rightarrow> ('a queue_atomic \<times> 'a thread list) cxx" where
  "run_threads [] q ts = Inr (q, ts)"
| "run_threads (i # is) q ts =
     bind_cxx (index_cxx ts i) (\<lambda>t. bind_cxx (thread_step False q t) (\<lambda>(q', t').
       run_threads is q' (ts[i := t'])))"

text \<open>
  C38. The queue is not safe with two consumers. \<^verbatim>\<open>pop_front\<close> reads the back offset once, before its
  loop, and compares for equality with the front offset it loads later. In this schedule of a
  queue with one slot the first consumer reads the back offset while the queue is empty, an
  element is pushed, the second consumer pops it, and the first one then pops it again;
  afterwards two pushes in a row succeed and the second overwrites the first.
\<close>

theorem queue_two_consumers_unsafe:
  "\<exists>schedule q. run_threads schedule one_slot_queue
       [PushReadFront 5, PopReadBack, PopReadBack, PushReadFront 6, PushReadFront 7] =
     Inr (q, [PushDone True, PopDone 5, PopDone 5, PushDone True, PushDone True]) \<and> vec q = [7]"
proof -
  have "\<exists>q. run_threads ([1] @ replicate 6 0 @ replicate 6 2 @ replicate 5 1 @ replicate 6 3 @ replicate 6 4)
      one_slot_queue [PushReadFront 5, PopReadBack, PopReadBack, PushReadFront 6, PushReadFront 7] =
    Inr (q, [PushDone True, PopDone 5, PopDone 5, PushDone True, PushDone True]) \<and> vec q = [7]"
    by (rule exI [of _ "one_slot_queue\<lparr> vec := [7], counter_back := 3, version_back := 0x3000000000003,
        counter_front := 2, version_front := 0x2000000000003 \<rparr>"]) code_simp
  then show ?thesis by blast
qed

text \<open>
  After the offsets have wrapped at \<open>2 ^ 48\<close> the test for an empty queue fails: the subtraction is
  done modulo \<open>2 ^ 64\<close>. Here \<open>2 ^ 48 - 1\<close> elements have passed through a queue with one slot.
\<close>

lemma queue_empty_wraps:
  defines "q \<equiv> one_slot_queue\<lparr> counter_back := 0xFFFF, version_back := 0xFFFFFFFFFFFFFFFF,
    counter_front := 0xFFFF, version_front := 0xFFFF000000000000 \<rparr>"
  shows "\<not> queue_empty q"
  unfolding q_def by code_simp

end
