(* ===== verification/Io_Buffer.thy ===== *)
theory Io_Buffer
  imports Bits
begin

text \<open>
  \<^verbatim>\<open>src/io.h\<close> and \<^verbatim>\<open>src/io.cc\<close>: results, the reader and writer interfaces, files, the linear
  \<^verbatim>\<open>io_buffer\<close> and the buffered reader and writer over it. A destination \<^verbatim>\<open>buf\<close> is a list that is
  returned updated; a source \<^verbatim>\<open>buf\<close> of \<^verbatim>\<open>len\<close> bytes is the list of those bytes.
\<close>

section \<open>io_result\<close>

record io_result =
  size :: int
  errcode :: int

definition io_size :: "int \<Rightarrow> io_result" where
  "io_size n = \<lparr> size = n, errcode = 0 \<rparr>"

definition io_failed :: "int \<Rightarrow> io_result" where
  "io_failed e = \<lparr> size = 0, errcode = e \<rparr>"

definition has_error :: "io_result \<Rightarrow> bool" where
  "has_error r \<longleftrightarrow> errcode r \<noteq> 0"

lemma io_result_simps [simp]:
  "size (io_size n) = n" "errcode (io_size n) = 0" "size (io_failed e) = 0" "errcode (io_failed e) = e"
  "\<not> has_error (io_size n)" "has_error (io_failed e) \<longleftrightarrow> e \<noteq> 0"
  by (simp_all add: io_size_def io_failed_def has_error_def)

section \<open>io_file\<close>

text \<open>
  The build does not define \<^verbatim>\<open>USE_PREAD_PWRITE\<close>. The system calls are arguments: \<open>sys_open\<close> and
  \<open>sys_read\<close>, \<open>sys_write\<close> return -1 and an \<^verbatim>\<open>errno\<close> on failure; the operating system's state is of
  type \<open>'os\<close>. \<^verbatim>\<open>io_result(errno)\<close> selects the constructor from \<^verbatim>\<open>ssize_t\<close>, since \<^verbatim>\<open>errno\<close> is an \<^verbatim>\<open>int\<close>.
\<close>

record io_file =
  fd :: int

definition file_close :: "(int \<Rightarrow> 'os \<Rightarrow> 'os) \<Rightarrow> io_file \<Rightarrow> 'os \<Rightarrow> io_file \<times> 'os" where
  "file_close sys_close f os = (if fd f \<ge> 0 then (f\<lparr> fd := - 1 \<rparr>, sys_close (fd f) os) else (f, os))"

definition file_open ::
  "(int \<Rightarrow> 'os \<Rightarrow> 'os) \<Rightarrow> (string \<Rightarrow> int \<Rightarrow> int \<Rightarrow> 'os \<Rightarrow> int \<times> int \<times> 'os) \<Rightarrow> io_file \<Rightarrow> string \<Rightarrow> int \<Rightarrow> int \<Rightarrow> 'os \<Rightarrow>
   int \<times> io_file \<times> 'os" where
  "file_open sys_close sys_open f filename flags mode os =
     (let (f, os) = file_close sys_close f os;
          (new_fd, errno, os) = sys_open (c_str filename) flags mode os in
      (if new_fd < 0 then errno else 0, f\<lparr> fd := new_fd \<rparr>, os))"

definition file_set_fd :: "(int \<Rightarrow> 'os \<Rightarrow> 'os) \<Rightarrow> io_file \<Rightarrow> int \<Rightarrow> 'os \<Rightarrow> io_file \<times> 'os" where
  "file_set_fd sys_close f new_fd os =
     (let (f, os) = file_close sys_close f os in (f\<lparr> fd := new_fd \<rparr>, os))"

definition file_release_fd :: "(int \<Rightarrow> 'os \<Rightarrow> 'os) \<Rightarrow> io_file \<Rightarrow> 'os \<Rightarrow> int \<times> io_file \<times> 'os" where
  "file_release_fd sys_close f os =
     (let old_fd = fd f; (f, os) = file_close sys_close f os in (old_fd, f, os))"

definition file_read ::
  "(int \<Rightarrow> byte list \<Rightarrow> nat \<Rightarrow> 'os \<Rightarrow> int \<times> int \<times> byte list \<times> 'os) \<Rightarrow> io_file \<Rightarrow> byte list \<Rightarrow> nat \<Rightarrow> 'os \<Rightarrow>
   io_result \<times> byte list \<times> 'os" where
  "file_read sys_read f buf len os =
     (let (ret, errno, buf, os) = sys_read (fd f) buf len os in
      (if ret < 0 then io_size errno else io_size ret, buf, os))"

definition file_write ::
  "(int \<Rightarrow> byte list \<Rightarrow> 'os \<Rightarrow> int \<times> int \<times> 'os) \<Rightarrow> io_file \<Rightarrow> byte list \<Rightarrow> 'os \<Rightarrow> io_result \<times> 'os" where
  "file_write sys_write f buf os =
     (let (ret, errno, os) = sys_write (fd f) buf os in
      (if ret < 0 then io_size errno else io_size ret, os))"

section \<open>io_buffer\<close>

record io_buffer =
  buffer :: "byte list"
  buffer_length :: nat
  buffer_offset :: nat

definition io_buffer_new :: io_buffer where
  "io_buffer_new = \<lparr> buffer = [], buffer_length = 0, buffer_offset = 0 \<rparr>"

definition bytes_readable :: "io_buffer \<Rightarrow> nat" where
  "bytes_readable b = size_sub (buffer_length b) (buffer_offset b)"

definition bytes_writable :: "io_buffer \<Rightarrow> nat" where
  "bytes_writable b = size_sub (length (buffer b)) (buffer_length b)"

definition set_length :: "io_buffer \<Rightarrow> nat \<Rightarrow> io_buffer cxx" where
  "set_length b n = (if n \<le> length (buffer b) then Inr (b\<lparr> buffer_length := n \<rparr>) else Inl AssertFailed)"

definition set_offset :: "io_buffer \<Rightarrow> nat \<Rightarrow> io_buffer cxx" where
  "set_offset b n = (if n \<le> length (buffer b) then Inr (b\<lparr> buffer_offset := n \<rparr>) else Inl AssertFailed)"

definition io_buffer_resize :: "io_buffer \<Rightarrow> u64 \<Rightarrow> io_buffer cxx" where
  "io_buffer_resize b n =
     bind_cxx (roundpow2 n) (\<lambda>buffer_size. Inr (b\<lparr> buffer := vector_resize (buffer b) (unat buffer_size) \<rparr>))"

definition io_buffer_clear :: "io_buffer \<Rightarrow> io_buffer" where
  "io_buffer_clear b =
     b\<lparr> buffer_offset := 0, buffer_length := 0, buffer := replicate (length (buffer b)) 0 \<rparr>"

definition io_buffer_reset :: "io_buffer \<Rightarrow> io_buffer" where
  "io_buffer_reset b = b\<lparr> buffer_offset := 0, buffer_length := 0 \<rparr>"

definition io_buffer_set :: "io_buffer \<Rightarrow> byte list \<Rightarrow> io_buffer cxx" where
  "io_buffer_set b src =
     (if length src \<le> length (buffer b)
      then bind_cxx (write_range (buffer b) 0 src) (\<lambda>buf.
        Inr (b\<lparr> buffer_offset := 0, buffer_length := length src, buffer := buf \<rparr>))
      else Inl AssertFailed)"

definition io_buffer_read :: "io_buffer \<Rightarrow> byte list \<Rightarrow> nat \<Rightarrow> (io_result \<times> byte list \<times> io_buffer) cxx" where
  "io_buffer_read b buf len =
     (let read_max = to_ssize (bytes_readable b);
          bytes_to_read = (if len < bytes_readable b then len else bytes_readable b) in
      if read_max < 0 \<or> len = 0 then Inr (io_size 0, buf, b)
      else
        bind_cxx (read_range (buffer b) (buffer_offset b) bytes_to_read) (\<lambda>bytes.
          bind_cxx (write_range buf 0 bytes) (\<lambda>buf'.
            Inr (io_size (int bytes_to_read), buf', b\<lparr> buffer_offset := buffer_offset b + bytes_to_read \<rparr>))))"

definition io_buffer_write :: "io_buffer \<Rightarrow> byte list \<Rightarrow> (io_result \<times> io_buffer) cxx" where
  "io_buffer_write b buf =
     (let len = length buf;
          write_max = to_ssize (bytes_writable b);
          bytes_to_write = (if len < bytes_writable b then len else bytes_writable b) in
      if write_max < 0 \<or> len = 0 then Inr (io_size 0, b)
      else
        bind_cxx (write_range (buffer b) (buffer_offset b) (take bytes_to_write buf)) (\<lambda>buffer'.
          Inr (io_size (int bytes_to_write), b\<lparr> buffer := buffer', buffer_length := buffer_length b + bytes_to_write \<rparr>)))"

text \<open>
  \<^verbatim>\<open>reader.read\<close> gets a pointer into the buffer: its destination is the tail of the buffer from
  that pointer on.
\<close>

type_synonym 'r read_op = "'r \<Rightarrow> byte list \<Rightarrow> nat \<Rightarrow> (io_result \<times> byte list \<times> 'r) cxx"
type_synonym 'w write_op = "'w \<Rightarrow> byte list \<Rightarrow> (io_result \<times> 'w) cxx"

definition io_buffer_buffer_read :: "'r read_op \<Rightarrow> io_buffer \<Rightarrow> 'r \<Rightarrow> (io_result \<times> io_buffer \<times> 'r) cxx" where
  "io_buffer_buffer_read read b reader =
     (let bytes_to_read = to_ssize (bytes_writable b) in
      if bytes_to_read \<le> 0 then Inr (io_size 0, b, reader)
      else if buffer_offset b > length (buffer b) then Inl OutOfBounds
      else
        bind_cxx (read reader (drop (buffer_offset b) (buffer b)) (nat bytes_to_read)) (\<lambda>(result, tail, reader).
          Inr (result, b\<lparr> buffer := take (buffer_offset b) (buffer b) @ tail,
                           buffer_length := nat (int (buffer_length b) + size result) \<rparr>, reader)))"

definition io_buffer_buffer_write :: "'w write_op \<Rightarrow> io_buffer \<Rightarrow> 'w \<Rightarrow> (io_result \<times> io_buffer \<times> 'w) cxx" where
  "io_buffer_buffer_write write b writer =
     (let bytes_to_write = to_ssize (bytes_readable b) in
      if bytes_to_write \<le> 0 then Inr (io_size 0, b, writer)
      else
        bind_cxx (read_range (buffer b) (buffer_offset b) (nat bytes_to_write)) (\<lambda>bytes.
          bind_cxx (write writer bytes) (\<lambda>(result, writer).
            Inr (result, b\<lparr> buffer_offset := nat (int (buffer_offset b) + size result) \<rparr>, writer))))"

section \<open>io_buffered_reader and io_buffered_writer\<close>

definition buffered_reader_read ::
  "'r read_op \<Rightarrow> io_buffer \<times> 'r \<Rightarrow> byte list \<Rightarrow> nat \<Rightarrow> (io_result \<times> byte list \<times> (io_buffer \<times> 'r)) cxx" where
  "buffered_reader_read read s buf len =
     (case s of (b, reader) \<Rightarrow>
        bind_cxx (if bytes_readable b = 0 then io_buffer_buffer_read read b reader else Inr (io_size 0, b, reader))
          (\<lambda>(res, b, reader).
             if bytes_readable (fst s) = 0 \<and> has_error res then Inr (res, buf, (b, reader))
             else bind_cxx (io_buffer_read b buf len) (\<lambda>(res, buf, b). Inr (res, buf, (b, reader)))))"

definition buffered_writer_write ::
  "'w write_op \<Rightarrow> io_buffer \<times> 'w \<Rightarrow> byte list \<Rightarrow> (io_result \<times> (io_buffer \<times> 'w)) cxx" where
  "buffered_writer_write write s buf =
     (case s of (b, writer) \<Rightarrow>
        bind_cxx (io_buffer_write b buf) (\<lambda>(res, b).
          if has_error res then Inr (res, (b, writer))
          else if bytes_readable b = length (buffer b)
          then bind_cxx (io_buffer_buffer_write write b writer) (\<lambda>(res2, b, writer).
            if has_error res2 then Inr (res2, (b, writer)) else Inr (res, (b, writer)))
          else Inr (res, (b, writer))))"

definition buffered_writer_flush :: "'w write_op \<Rightarrow> io_buffer \<times> 'w \<Rightarrow> (io_result \<times> (io_buffer \<times> 'w)) cxx" where
  "buffered_writer_flush write s =
     (case s of (b, writer) \<Rightarrow>
        if bytes_readable b > 0
        then bind_cxx (io_buffer_buffer_write write b writer) (\<lambda>(res, b, writer).
          if has_error res then Inr (res, (b, writer)) else Inr (io_size 0, (b, writer)))
        else Inr (io_size 0, (b, writer)))"

section \<open>The invariant and the unread bytes\<close>

definition io_buffer_ok :: "io_buffer \<Rightarrow> bool" where
  "io_buffer_ok b \<longleftrightarrow>
     buffer_offset b \<le> buffer_length b \<and> buffer_length b \<le> length (buffer b) \<and> length (buffer b) < 2 ^ 63"

definition unread :: "io_buffer \<Rightarrow> byte list" where
  "unread b = take (buffer_length b - buffer_offset b) (drop (buffer_offset b) (buffer b))"

definition drained :: "io_buffer \<Rightarrow> bool" where
  "drained b \<longleftrightarrow> buffer_offset b = buffer_length b"

lemma io_buffer_okD:
  assumes "io_buffer_ok b"
  shows "bytes_readable b = buffer_length b - buffer_offset b" "bytes_writable b = length (buffer b) - buffer_length b"
    "to_ssize (bytes_readable b) = int (buffer_length b - buffer_offset b)"
    "to_ssize (bytes_writable b) = int (length (buffer b) - buffer_length b)"
    "length (unread b) = buffer_length b - buffer_offset b"
  using assms by (auto simp: io_buffer_ok_def bytes_readable_def bytes_writable_def unread_def to_ssize_def)

lemma drained_unread: "io_buffer_ok b \<Longrightarrow> drained b \<longleftrightarrow> unread b = []"
  using io_buffer_okD(5) [of b] by (auto simp: drained_def io_buffer_ok_def)

lemma take_unread:
  assumes "io_buffer_ok b" "n \<le> buffer_length b - buffer_offset b"
  shows "take n (drop (buffer_offset b) (buffer b)) = take n (unread b)"
    "drop n (unread b) = unread (b\<lparr> buffer_offset := buffer_offset b + n \<rparr>)"
  using assms by (simp_all add: unread_def min_def drop_take add.commute)

lemma io_buffer_read_ok:
  assumes "io_buffer_ok b" "len \<le> length buf"
  defines "n \<equiv> min len (length (unread b))"
  shows "io_buffer_read b buf len =
    Inr (io_size (int n), overwrite buf 0 (take n (unread b)), b\<lparr> buffer_offset := buffer_offset b + n \<rparr>)"
proof -
  note d = io_buffer_okD [OF assms(1)]
  have n: "n \<le> buffer_length b - buffer_offset b" "n \<le> length buf" "n \<le> len"
    using assms d(5) by (auto simp: n_def)
  have "read_range (buffer b) (buffer_offset b) n = Inr (take n (unread b))"
    using assms(1) n take_unread(1) [OF assms(1) n(1)] by (auto simp: io_buffer_ok_def)
  moreover have "(if len < bytes_readable b then len else bytes_readable b) = n"
    using d by (auto simp: n_def)
  moreover have "length (take n (unread b)) = n"
    using n d(5) by simp
  ultimately show ?thesis
    using d(3) n by (cases "len = 0") (auto simp: io_buffer_read_def Let_def)
qed

subsection \<open>The contract of a reader\<close>

text \<open>
  \<open>stream r\<close> are the bytes that \<open>r\<close> has still to deliver. A read stores a prefix of them at the
  start of the destination, leaves the rest of the destination alone, and never reports more
  bytes than were asked for.
\<close>

definition reads_prefix :: "'r read_op \<Rightarrow> ('r \<Rightarrow> bool) \<Rightarrow> ('r \<Rightarrow> byte list) \<Rightarrow> 'r \<Rightarrow> byte list \<Rightarrow> nat \<Rightarrow> bool" where
  "reads_prefix read ok stream r buf len \<longleftrightarrow>
     (\<exists>res buf' r' n. read r buf len = Inr (res, buf', r') \<and> ok r' \<and> size res = int n \<and> n \<le> len \<and>
        n \<le> length (stream r) \<and> (has_error res \<longrightarrow> n = 0) \<and> buf' = overwrite buf 0 (take n (stream r)) \<and> stream r' = drop n (stream r))"

text \<open>Reading until a read reports no bytes or an error; the bytes that were delivered.\<close>

fun read_all :: "'r read_op \<Rightarrow> nat \<Rightarrow> 'r \<Rightarrow> byte list \<Rightarrow> nat \<Rightarrow> (byte list \<times> 'r) option cxx" where
  "read_all read 0 r buf len = Inr None"
| "read_all read (Suc fuel) r buf len =
     bind_cxx (read r buf len) (\<lambda>(res, buf, r).
       if has_error res \<or> size res = 0 then Inr (Some ([], r))
       else bind_cxx (read_all read fuel r buf len) (\<lambda>x.
         Inr (map_option (\<lambda>(bytes, r). (take (nat (size res)) buf @ bytes, r)) x)))"

locale io_reader =
  fixes read :: "'r read_op"
    and ok :: "'r \<Rightarrow> bool"
    and stream :: "'r \<Rightarrow> byte list"
  assumes read_prefix: "ok r \<Longrightarrow> len \<le> length buf \<Longrightarrow> reads_prefix read ok stream r buf len"
begin

lemma buffer_read_drained:
  assumes "io_buffer_ok b" "drained b" "ok r"
  shows "\<exists>res b' r'. io_buffer_buffer_read read b r = Inr (res, b', r') \<and> io_buffer_ok b' \<and> ok r' \<and>
    length (buffer b') = length (buffer b) \<and> unread b' @ stream r' = stream r \<and> size res = int (length (unread b')) \<and>
    (has_error res \<longrightarrow> unread b' = []) \<and> buffer_length b' = buffer_length b + length (unread b') \<and> buffer_offset b' = buffer_offset b"
proof (cases "buffer_length b = length (buffer b)")
  case True
  with assms show ?thesis
    using io_buffer_okD [OF assms(1)] by (auto simp: io_buffer_buffer_read_def drained_unread)
next
  case False
  let ?off = "buffer_offset b" and ?len = "length (buffer b) - buffer_length b"
  note d = io_buffer_okD [OF assms(1)]
  have off: "?off = buffer_length b" "?off < length (buffer b)"
    using assms False by (auto simp: drained_def io_buffer_ok_def)
  obtain res n r' where r: "read r (drop ?off (buffer b)) ?len = Inr (res, overwrite (drop ?off (buffer b)) 0 (take n (stream r)), r')"
      "ok r'" "size res = int n" "n \<le> ?len" "n \<le> length (stream r)" "stream r' = drop n (stream r)" "has_error res \<longrightarrow> n = 0"
    using read_prefix [OF assms(3), of ?len "drop ?off (buffer b)"] off by (auto simp: reads_prefix_def)
  let ?b = "b\<lparr> buffer := take ?off (buffer b) @ overwrite (drop ?off (buffer b)) 0 (take n (stream r)),
               buffer_length := buffer_length b + n \<rparr>"
  have "io_buffer_buffer_read read b r = Inr (res, ?b, r')"
    using r(1,3) off d(4) by (simp add: io_buffer_buffer_read_def nat_int_add del: of_nat_diff)
  moreover have "io_buffer_ok ?b" "length (buffer ?b) = length (buffer b)"
    using assms(1) r(4,5) off by (auto simp: io_buffer_ok_def min_def)
  moreover have "unread ?b = take n (stream r)"
    using off r(5) by (simp add: unread_def overwrite_def)
  ultimately show ?thesis
    using r by (intro exI [of _ res] exI [of _ ?b] exI [of _ r']) auto
qed

lemma buffered_read_prefix:
  assumes "io_buffer_ok b" "ok r" "len \<le> length buf"
  shows "reads_prefix (buffered_reader_read read) (\<lambda>(b, r). io_buffer_ok b \<and> ok r)
    (\<lambda>(b, r). unread b @ stream r) (b, r) buf len"
proof -
  have *: "reads_prefix (buffered_reader_read read) (\<lambda>(b, r). io_buffer_ok b \<and> ok r)
      (\<lambda>(b, r). unread b @ stream r) (b, r) buf len"
    if "io_buffer_ok c" "ok s" "unread c @ stream s = unread b @ stream r"
      "buffered_reader_read read (b, r) buf len =
         bind_cxx (io_buffer_read c buf len) (\<lambda>(res, buf, c). Inr (res, buf, (c, s)))" for c s
  proof -
    let ?n = "min len (length (unread c))"
    let ?c = "c\<lparr> buffer_offset := buffer_offset c + ?n \<rparr>"
    have "take ?n (unread c) = take ?n (unread b @ stream r)"
      unfolding that(3) [symmetric] by simp
    moreover have "unread ?c @ stream s = drop ?n (unread b @ stream r)"
      using take_unread(2) [OF that(1), of ?n] io_buffer_okD(5) [OF that(1)]
      unfolding that(3) [symmetric] by simp
    moreover have "io_buffer_ok ?c"
      using that(1) io_buffer_okD(5) [OF that(1)] by (auto simp: io_buffer_ok_def)
    moreover have "length (unread c) \<le> length (unread b @ stream r)"
      unfolding that(3) [symmetric] by simp
    ultimately show ?thesis
      unfolding reads_prefix_def that(4) io_buffer_read_ok [OF that(1) assms(3)]
      using that(2) by (intro exI [of _ "io_size (int ?n)"] exI [of _ "(?c, s)"] exI [of _ ?n] exI) auto
  qed
  show ?thesis
  proof (cases "drained b")
    case False
    then have "bytes_readable b \<noteq> 0"
      using io_buffer_okD(1) [OF assms(1)] assms(1) by (auto simp: drained_def io_buffer_ok_def)
    then show ?thesis
      by (intro * [OF assms(1,2) refl]) (simp add: buffered_reader_read_def)
  next
    case True
    then have z: "bytes_readable b = 0" "unread b = []"
      using io_buffer_okD(1) [OF assms(1)] drained_unread [OF assms(1)] by (simp_all add: drained_def)
    obtain res c s where c: "io_buffer_buffer_read read b r = Inr (res, c, s)" "io_buffer_ok c" "ok s"
        "unread c @ stream s = stream r" "size res = int (length (unread c))" "has_error res \<longrightarrow> unread c = []"
      using buffer_read_drained [OF assms(1) True assms(2)] by blast
    show ?thesis
    proof (cases "has_error res")
      case False
      then show ?thesis
        using c z by (intro * [OF c(2,3)]) (auto simp: buffered_reader_read_def)
    next
      case True
      then have "buffered_reader_read read (b, r) buf len = Inr (res, buf, (c, s))" "unread c = []"
        using c z by (simp_all add: buffered_reader_read_def)
      with c z show ?thesis
        by (auto simp: reads_prefix_def)
    qed
  qed
qed

end

text \<open>A reader that delivers at least one byte, without an error, as long as it has some.\<close>

locale live_reader = io_reader +
  assumes delivers: "ok r \<Longrightarrow> 0 < len \<Longrightarrow> len \<le> length buf \<Longrightarrow> stream r \<noteq> [] \<Longrightarrow>
    \<exists>res buf' r'. read r buf len = Inr (res, buf', r') \<and> 0 < size res \<and> \<not> has_error res"
begin

lemma buffer_read_delivers:
  assumes "io_buffer_ok b" "drained b" "ok r" "buffer_length b < length (buffer b)" "stream r \<noteq> []"
    "io_buffer_buffer_read read b r = Inr (res, b', r')"
  shows "0 < size res" "\<not> has_error res"
proof -
  let ?off = "buffer_offset b" and ?len = "length (buffer b) - buffer_length b"
  have off: "?off = buffer_length b"
    using assms(2) by (simp add: drained_def)
  obtain res' buf' r1 where "read r (drop ?off (buffer b)) ?len = Inr (res', buf', r1)" "0 < size res'" "\<not> has_error res'"
    using delivers [OF assms(3), of ?len "drop ?off (buffer b)"] assms(4,5) off by auto
  then show "0 < size res" "\<not> has_error res"
    using assms(4,6) off io_buffer_okD(4) [OF assms(1)] by (auto simp: io_buffer_buffer_read_def simp del: of_nat_diff)
qed

text \<open>One read: what the buffer holds is delivered first, and a buffer that is drained is filled up, at its end only.\<close>

lemma buffered_read_step:
  assumes "io_buffer_ok b" "ok r" "0 < len" "len \<le> length buf"
  defines "todo \<equiv> unread b @ take (length (buffer b) - buffer_length b) (stream r)"
  shows "\<exists>res buf' b' r' n. buffered_reader_read read (b, r) buf len = Inr (res, buf', (b', r')) \<and> io_buffer_ok b' \<and> ok r' \<and> length buf' = length buf \<and>
    length (buffer b') = length (buffer b) \<and> size res = int n \<and> (has_error res \<or> n = 0 \<longleftrightarrow> todo = []) \<and>
    (todo \<noteq> [] \<longrightarrow> take n buf' @ unread b' @ take (length (buffer b') - buffer_length b') (stream r') = todo \<and>
       buffer_offset b' = buffer_offset b + n)"
proof (cases "drained b")
  case False
  let ?n = "min len (length (unread b))"
  let ?b = "b\<lparr> buffer_offset := buffer_offset b + ?n \<rparr>"
  have ne: "unread b \<noteq> []" "bytes_readable b \<noteq> 0"
    using False drained_unread [OF assms(1)] io_buffer_okD(1) [OF assms(1)] assms(1) by (auto simp: drained_def io_buffer_ok_def)
  have "buffered_reader_read read (b, r) buf len = Inr (io_size (int ?n), overwrite buf 0 (take ?n (unread b)), (?b, r))"
    using ne(2) io_buffer_read_ok [OF assms(1,4)] by (simp add: buffered_reader_read_def)
  moreover have "io_buffer_ok ?b" "unread ?b = drop ?n (unread b)"
    using assms(1) io_buffer_okD(5) [OF assms(1)] take_unread(2) [OF assms(1), of ?n] by (auto simp: io_buffer_ok_def)
  ultimately show ?thesis
    using ne(1) assms(2-4) by (auto simp: todo_def overwrite_def append_assoc [symmetric] simp del: append_assoc)
next
  case True
  then have z: "bytes_readable b = 0" "unread b = []"
    using io_buffer_okD(1) [OF assms(1)] drained_unread [OF assms(1)] by (simp_all add: drained_def)
  obtain res c s where c: "io_buffer_buffer_read read b r = Inr (res, c, s)" "io_buffer_ok c" "ok s" "length (buffer c) = length (buffer b)"
      "unread c @ stream s = stream r" "size res = int (length (unread c))" "has_error res \<longrightarrow> unread c = []"
      "buffer_length c = buffer_length b + length (unread c)" "buffer_offset c = buffer_offset b"
    using buffer_read_drained [OF assms(1) True assms(2)] by blast
  have todo: "todo = unread c @ take (length (buffer c) - buffer_length c) (stream s)"
    using c(2,4,8) unfolding todo_def z(2) c(5) [symmetric] by (simp add: io_buffer_ok_def) linarith
  have "0 < size res \<and> \<not> has_error res" if "todo \<noteq> []"
  proof -
    have "stream r \<noteq> []" "buffer_length b < length (buffer b)"
      using that by (auto simp: todo_def z(2))
    then show ?thesis
      using buffer_read_delivers [OF assms(1) True assms(2) _ _ c(1)] by blast
  qed
  then have live: "unread c = [] \<Longrightarrow> todo = []" "has_error res \<Longrightarrow> todo = []"
    using c(6) by auto
  show ?thesis
  proof (cases "has_error res")
    case True
    then have "buffered_reader_read read (b, r) buf len = Inr (res, buf, (c, s))" "unread c = []"
      using c z by (simp_all add: buffered_reader_read_def)
    with c live True show ?thesis by auto
  next
    case False
    let ?n = "min len (length (unread c))"
    let ?c = "c\<lparr> buffer_offset := buffer_offset c + ?n \<rparr>"
    have "buffered_reader_read read (b, r) buf len = Inr (io_size (int ?n), overwrite buf 0 (take ?n (unread c)), (?c, s))"
      using c(1) z False io_buffer_read_ok [OF c(2) assms(4)] by (simp add: buffered_reader_read_def)
    moreover have "io_buffer_ok ?c" "unread ?c = drop ?n (unread c)"
      using c(2) io_buffer_okD(5) [OF c(2)] take_unread(2) [OF c(2), of ?n] by (auto simp: io_buffer_ok_def)
    moreover have "?n = 0 \<longleftrightarrow> todo = []"
      using live(1) todo assms(3) by (auto simp: min_def split: if_splits)
    ultimately show ?thesis
      using c(3,4,9) assms(4) todo by (auto simp: overwrite_def append_assoc [symmetric] simp del: append_assoc)
  qed
qed

lemma buffered_read_all:
  assumes "io_buffer_ok b" "ok r" "0 < len" "len \<le> length buf" "length (buffer b) < buffer_offset b + fuel"
  shows "\<exists>s. read_all (buffered_reader_read read) fuel (b, r) buf len =
    Inr (Some (unread b @ take (length (buffer b) - buffer_length b) (stream r), s))"
  using assms
proof (induction fuel arbitrary: b r buf)
  case (Suc fuel)
  let ?todo = "unread b @ take (length (buffer b) - buffer_length b) (stream r)"
  obtain res buf' b' r' n where step: "buffered_reader_read read (b, r) buf len = Inr (res, buf', (b', r'))" "io_buffer_ok b'" "ok r'"
      "length buf' = length buf" "length (buffer b') = length (buffer b)" "size res = int n" "has_error res \<or> n = 0 \<longleftrightarrow> ?todo = []"
      "?todo \<noteq> [] \<longrightarrow> take n buf' @ unread b' @ take (length (buffer b') - buffer_length b') (stream r') = ?todo \<and> buffer_offset b' = buffer_offset b + n"
    using buffered_read_step [OF Suc.prems(1-4)] by blast
  show ?case
  proof (cases "?todo = []")
    case True
    then show ?thesis using step by auto
  next
    case False
    then have "length (buffer b') < buffer_offset b' + fuel"
      using step(5,7,8) Suc.prems(5) by auto
    from Suc.IH [OF step(2,3) Suc.prems(3) _ this, of buf'] False show ?thesis
      using step(1,4,6-8) Suc.prems(4) by auto
  qed
qed (auto simp: io_buffer_ok_def)

end

subsection \<open>io_buffer is a reader\<close>

interpretation buffer_reader: live_reader io_buffer_read io_buffer_ok unread
proof
  fix b :: io_buffer and len and buf :: "byte list"
  assume asm: "io_buffer_ok b" "len \<le> length buf" "0 < len" "unread b \<noteq> []"
  then show "\<exists>res buf' b'. io_buffer_read b buf len = Inr (res, buf', b') \<and> 0 < size res \<and> \<not> has_error res"
    by (simp add: io_buffer_read_ok)
next
  fix b :: io_buffer and len and buf :: "byte list"
  assume asm: "io_buffer_ok b" "len \<le> length buf"
  let ?n = "min len (length (unread b))"
  have "io_buffer_ok (b\<lparr> buffer_offset := buffer_offset b + ?n \<rparr>)"
    using asm io_buffer_okD(5) [OF asm(1)] by (auto simp: io_buffer_ok_def)
  then show "reads_prefix io_buffer_read io_buffer_ok unread b buf len"
    unfolding reads_prefix_def io_buffer_read_ok [OF asm]
    using take_unread(2) [OF asm(1), of ?n] io_buffer_okD(5) [OF asm(1)] by auto
qed

text \<open>A buffered reader is a reader again, over what its buffer and its source still hold.\<close>

interpretation buffered_buffer_reader: io_reader "buffered_reader_read io_buffer_read"
  "\<lambda>(b, r). io_buffer_ok b \<and> io_buffer_ok r" "\<lambda>(b, r). unread b @ unread r"
  by unfold_locales (use buffer_reader.buffered_read_prefix in auto)

section \<open>Writing\<close>

text \<open>What the code relies on of a writer: it takes a prefix of the bytes it is given.\<close>

definition writes_prefix :: "'w write_op \<Rightarrow> ('w \<Rightarrow> byte list) \<Rightarrow> bool" where
  "writes_prefix write sent \<longleftrightarrow>
     (\<forall>w buf. \<exists>res w' n. write w buf = Inr (res, w') \<and> size res = int n \<and> n \<le> length buf \<and>
        (has_error res \<longrightarrow> n = 0) \<and> sent w' = sent w @ take n buf)"

lemma buffer_write_ok:
  assumes "io_buffer_ok b" "writes_prefix write sent"
  shows "\<exists>res b' w'. io_buffer_buffer_write write b w = Inr (res, b', w') \<and> io_buffer_ok b' \<and>
           length (buffer b') = length (buffer b) \<and> buffer_length b' = buffer_length b \<and>
           sent w' @ unread b' = sent w @ unread b \<and> (has_error res \<longrightarrow> b' = b)"
proof (cases "bytes_readable b = 0")
  case True
  then show ?thesis
    using assms by (auto simp: io_buffer_buffer_write_def)
next
  case False
  note d = io_buffer_okD [OF assms(1)]
  let ?n = "buffer_length b - buffer_offset b"
  obtain res w' n where w: "write w (unread b) = Inr (res, w')" "size res = int n" "n \<le> ?n"
      "has_error res \<longrightarrow> n = 0" "sent w' = sent w @ take n (unread b)"
    using assms(2) d(5) unfolding writes_prefix_def by metis
  let ?b = "b\<lparr> buffer_offset := buffer_offset b + n \<rparr>"
  have "read_range (buffer b) (buffer_offset b) ?n = Inr (unread b)"
    using assms(1) by (auto simp: io_buffer_ok_def unread_def)
  then have "io_buffer_buffer_write write b w = Inr (res, ?b, w')"
    using w(1,2) d(1,3) False by (simp add: io_buffer_buffer_write_def nat_int_add del: of_nat_diff)
  moreover have "sent w' @ unread ?b = sent w @ unread b"
    using w(5) take_unread(2) [OF assms(1) w(3)] by (metis append.assoc append_take_drop_id)
  ultimately show ?thesis
    using assms(1) w(3,4) by (intro exI [of _ res] exI [of _ ?b] exI [of _ w']) (auto simp: io_buffer_ok_def)
qed

text \<open>A write to a buffer that has been read to its end appends; in any other state it does not.\<close>

lemma io_buffer_write_drained:
  fixes data :: "byte list"
  assumes "io_buffer_ok b" "drained b"
  defines "n \<equiv> min (length data) (length (buffer b) - buffer_length b)"
  shows "\<exists>b'. io_buffer_write b data = Inr (io_size (int n), b') \<and> io_buffer_ok b' \<and>
           length (buffer b') = length (buffer b) \<and> unread b' = take n data"
proof (cases "data = []")
  case True
  then show ?thesis
    using assms drained_unread [OF assms(1)] by (simp add: io_buffer_write_def)
next
  case False
  note d = io_buffer_okD [OF assms(1)]
  let ?b = "b\<lparr> buffer := overwrite (buffer b) (buffer_offset b) (take n data), buffer_length := buffer_length b + n \<rparr>"
  have n: "(if length data < bytes_writable b then length data else bytes_writable b) = n"
    using d(2) by (auto simp: n_def)
  have off: "buffer_offset b = buffer_length b" "buffer_offset b + n \<le> length (buffer b)" "n \<le> length data"
    using assms by (auto simp: drained_def io_buffer_ok_def)
  have "io_buffer_write b data = Inr (io_size (int n), ?b)"
    unfolding io_buffer_write_def Let_def n using d(4) False off by simp
  moreover have "io_buffer_ok ?b" "length (buffer ?b) = length (buffer b)"
    using assms(1) off by (auto simp: io_buffer_ok_def)
  moreover have "unread ?b = take n data"
    using off take_drop_overwrite_same [of "buffer_offset b" "take n data" "buffer b"]
    by (simp add: unread_def min.absorb2)
  ultimately show ?thesis
    by blast
qed

definition example_source :: io_buffer where
  "example_source = \<lparr> buffer = [1, 2, 3, 4, 5, 6, 7, 8], buffer_length = 6, buffer_offset = 1 \<rparr>"

definition example_empty :: io_buffer where
  "example_empty = \<lparr> buffer = [0, 0, 0, 0], buffer_length = 0, buffer_offset = 0 \<rparr>"

text \<open>
  C32. A buffered reader with an empty buffer, over any source that delivers something as long as it has
  some, delivers exactly the first bytes of its source, as many as its buffer is long, in order and unchanged.
  After that every read returns 0 although the source may have more: the buffer is never emptied for a
  second filling. Reading ends after at most one call for each byte.
\<close>

theorem buffered_reader_stream:
  assumes "live_reader read ok stream" "ok source" "0 < len" "len \<le> length buf" "length (buffer b) < 2 ^ 63" "length (buffer b) < fuel"
  shows "\<exists>s. read_all (buffered_reader_read read) fuel (io_buffer_reset b, source) buf len =
    Inr (Some (take (length (buffer b)) (stream source), s))"
proof -
  have "io_buffer_ok (io_buffer_reset b)" "unread (io_buffer_reset b) = []"
    using assms(5) by (simp_all add: io_buffer_ok_def io_buffer_reset_def unread_def)
  then show ?thesis
    using live_reader.buffered_read_all [OF assms(1), of "io_buffer_reset b" source len buf fuel] assms(2-4,6)
    by (simp add: io_buffer_reset_def)
qed

theorem buffered_reader_stream_witness:
  "\<exists>s. read_all (buffered_reader_read io_buffer_read) 5 (io_buffer_reset example_empty, example_source) [0, 0, 0] 3 = Inr (Some ([2, 3, 4, 5], s)) \<and>
     unread example_source = [2, 3, 4, 5, 6]"
  using buffered_reader_stream [OF buffer_reader.live_reader_axioms, of example_source 3 "[0, 0, 0]" example_empty 5]
  by (simp add: io_buffer_ok_def example_source_def example_empty_def unread_def)

text \<open>
  \<^verbatim>\<open>buffer_write\<close> hands the writer bytes of the buffer in order and drops from the buffer exactly
  the bytes the writer took: the bytes sent followed by the bytes still unread never change.
\<close>

theorem buffer_write_conserves:
  assumes "io_buffer_ok b" "writes_prefix write sent"
  shows "\<exists>res b' w'. io_buffer_buffer_write write b w = Inr (res, b', w') \<and> io_buffer_ok b' \<and>
           sent w' @ unread b' = sent w @ unread b \<and> (has_error res \<longrightarrow> b' = b)"
  using buffer_write_ok [OF assms] by blast

definition take_two :: "byte list write_op" where
  "take_two w buf = Inr (io_size (int (min 2 (length buf))), w @ take 2 buf)"

theorem buffer_write_conserves_witness:
  "writes_prefix take_two id \<and>
   (\<exists>res b' w'. io_buffer_buffer_write take_two example_source [] = Inr (res, b', w') \<and> io_buffer_ok b' \<and>
      id w' @ unread b' = id [] @ unread example_source \<and> (has_error res \<longrightarrow> b' = example_source))"
proof
  show w: "writes_prefix take_two id"
    unfolding writes_prefix_def take_two_def
    by (intro allI) (auto intro!: exI [of _ "min 2 (length _)"] simp: min_def)
  show "\<exists>res b' w'. io_buffer_buffer_write take_two example_source [] = Inr (res, b', w') \<and> io_buffer_ok b' \<and>
      id w' @ unread b' = id [] @ unread example_source \<and> (has_error res \<longrightarrow> b' = example_source)"
    by (rule buffer_write_conserves [OF _ w]) (simp add: io_buffer_ok_def example_source_def)
qed

text \<open>
  \<^verbatim>\<open>io_buffer::write\<close> copies to the read offset, not to the end of the data: a second write to a
  buffer that has not been read overwrites what the first one stored, and the bytes after it
  that become readable were never written.
\<close>

theorem io_buffer_write_overwrites:
  assumes "io_buffer_ok b" "buffer_offset b = 0" "buffer_length b = 0" "data1 \<noteq> []" "length data1 = length data2"
    "length data1 + length data2 \<le> length (buffer b)"
  shows "\<exists>b1 b2. io_buffer_write b data1 = Inr (io_size (int (length data1)), b1) \<and>
           io_buffer_write b1 data2 = Inr (io_size (int (length data2)), b2) \<and>
           unread b1 = data1 \<and> unread b2 = data2 @ take (length data1) (drop (length data1) (buffer b))"
proof -
  let ?n = "length data1"
  let ?b1 = "b\<lparr> buffer := overwrite (buffer b) 0 data1, buffer_length := ?n \<rparr>"
  have "length (buffer b) < 2 ^ 63"
    using assms(1) by (simp add: io_buffer_ok_def)
  then have small: "to_ssize (length (buffer b)) = int (length (buffer b))"
      "to_ssize (length (buffer b) - ?n) = int (length (buffer b) - ?n)"
    by (auto simp: to_ssize_def)
  have 1: "io_buffer_write b data1 = Inr (io_size (int ?n), ?b1)"
    using assms(2-6) small(1) by (auto simp: io_buffer_write_def bytes_writable_def Let_def)
  have 2: "io_buffer_write ?b1 data2 = Inr (io_size (int ?n),
      ?b1\<lparr> buffer := overwrite (overwrite (buffer b) 0 data1) 0 data2, buffer_length := ?n + ?n \<rparr>)"
    using assms(2-6) small(2) by (auto simp: io_buffer_write_def bytes_writable_def Let_def)
  from 1 2 assms show ?thesis
    by (auto simp: unread_def overwrite_def)
qed

theorem io_buffer_write_overwrites_witness:
  "\<exists>b1 b2. io_buffer_write example_empty [1, 2] = Inr (io_size 2, b1) \<and>
     io_buffer_write b1 [3, 4] = Inr (io_size 2, b2) \<and> unread b1 = [1, 2] \<and> unread b2 = [3, 4, 0, 0]"
  using io_buffer_write_overwrites [of example_empty "[1, 2]" "[3, 4]"]
  by (simp add: example_empty_def io_buffer_ok_def)

text \<open>
  Two more consequences of the code: a buffered reader never makes room again once its buffer
  has been filled and read, and \<^verbatim>\<open>io_file::release_fd\<close> returns a descriptor it has closed.
\<close>

lemma buffered_reader_exhausted:
  assumes "io_buffer_ok b" "drained b" "buffer_length b = length (buffer b)"
  shows "buffered_reader_read read (b, r) buf len = Inr (io_size 0, buf, (b, r))"
  using assms io_buffer_okD [OF assms(1)]
  by (auto simp: buffered_reader_read_def io_buffer_buffer_read_def io_buffer_read_def drained_def Let_def
      io_buffer_ok_def)

lemma release_fd_closes:
  "fd f \<ge> 0 \<Longrightarrow> file_release_fd sys_close f os = (fd f, f\<lparr> fd := - 1 \<rparr>, sys_close (fd f) os)"
  by (simp add: file_release_fd_def file_close_def)

end
