(* ===== verification/Io_Ring.thy ===== *)
theory Io_Ring
  imports Io_Buffer
begin

text \<open>
  \<^verbatim>\<open>io_ring_buffer\<close> of \<^verbatim>\<open>src/io.h\<close> and \<^verbatim>\<open>src/io.cc\<close>, the buffer of a server and of a client connection.
  \<^verbatim>\<open>back\<close>, \<^verbatim>\<open>front\<close> and \<^verbatim>\<open>mask\<close> are \<^verbatim>\<open>ssize_t\<close>, kept as 64-bit words and compared as signed numbers;
  arithmetic with \<^verbatim>\<open>buffer.size()\<close> is unsigned.
\<close>

record io_ring_buffer =
  ring :: "byte list"
  ring_back :: u64
  ring_front :: u64
  ring_mask :: u64

text \<open>The constructor leaves \<^verbatim>\<open>mask\<close> indeterminate; its value is the argument.\<close>

definition ring_new :: "u64 \<Rightarrow> io_ring_buffer" where
  "ring_new m = \<lparr> ring = [], ring_back = 0, ring_front = 0, ring_mask = m \<rparr>"

definition ring_size :: "io_ring_buffer \<Rightarrow> u64" where
  "ring_size r = of_nat (length (ring r))"

definition ring_resize :: "io_ring_buffer \<Rightarrow> u64 \<Rightarrow> io_ring_buffer cxx" where
  "ring_resize r n =
     bind_cxx (roundpow2 n) (\<lambda>buffer_size.
       Inr (r\<lparr> ring := vector_resize (ring r) (unat buffer_size), ring_back := 0,
              ring_mask := buffer_size - 1, ring_front := of_nat (unat buffer_size) \<rparr>))"

definition ring_clear :: "io_ring_buffer \<Rightarrow> io_ring_buffer" where
  "ring_clear r = r\<lparr> ring_back := 0, ring_front := ring_size r, ring := replicate (length (ring r)) 0 \<rparr>"

definition ring_reset :: "io_ring_buffer \<Rightarrow> io_ring_buffer" where
  "ring_reset r = r\<lparr> ring_back := 0, ring_front := ring_size r \<rparr>"

definition ring_set :: "io_ring_buffer \<Rightarrow> byte list \<Rightarrow> io_ring_buffer cxx" where
  "ring_set r src =
     (if length src \<le> length (ring r)
      then bind_cxx (write_range (ring r) 0 src) (\<lambda>buf.
        Inr (r\<lparr> ring_back := of_nat (length src), ring_front := ring_size r, ring := buf \<rparr>))
      else Inl AssertFailed)"

definition ring_bytes_readable :: "io_ring_buffer \<Rightarrow> u64" where
  "ring_bytes_readable r =
     (if sint (ring_front r) < sint (ring_back r) then ring_back r - ring_front r
      else ring_size r - ring_front r + ring_back r)"

definition ring_bytes_writable :: "io_ring_buffer \<Rightarrow> u64" where
  "ring_bytes_writable r =
     (if sint (ring_front r) < sint (ring_back r) then ring_size r - ring_back r - ring_front r
      else ring_front r + ring_back r)"

text \<open>
  The first \<^verbatim>\<open>memcpy\<close> takes everything up to the end of the array, whatever the number of bytes
  asked for; the destination has the capacity of the list \<open>buf\<close>.
\<close>

definition ring_read :: "io_ring_buffer \<Rightarrow> byte list \<Rightarrow> nat \<Rightarrow> (io_result \<times> byte list \<times> io_ring_buffer) cxx" where
  "ring_read r buf len =
     (let read_max = ring_bytes_readable r;
          read_offset = ring_front r AND ring_mask r;
          bytes_to_read = min (of_nat len) read_max in
      if bytes_to_read = 0 then Inr (io_size 0, buf, r)
      else
        let len1 = ring_size r - read_offset in
        bind_cxx
          (if 0 < sint len1
           then bind_cxx (read_range (ring r) (unat read_offset) (unat len1)) (write_range buf 0)
           else Inr buf) (\<lambda>buf.
        let len2 = bytes_to_read - len1 in
        bind_cxx
          (if 0 < sint len2
           then bind_cxx (read_range (ring r) 0 (unat len2)) (write_range buf (unat len1))
           else Inr buf) (\<lambda>buf.
        Inr (io_size (sint bytes_to_read), buf, r\<lparr> ring_front := ring_front r + bytes_to_read \<rparr>))))"

text \<open>Here the first \<^verbatim>\<open>memcpy\<close> reads up to the end of the array from the source.\<close>

definition ring_write :: "io_ring_buffer \<Rightarrow> byte list \<Rightarrow> nat \<Rightarrow> (io_result \<times> io_ring_buffer) cxx" where
  "ring_write r buf len =
     (let write_max = ring_bytes_writable r;
          write_offset = ring_back r AND ring_mask r;
          bytes_to_write = min (of_nat len) write_max in
      if bytes_to_write = 0 then Inr (io_size 0, r)
      else
        let len1 = ring_size r - write_offset in
        bind_cxx
          (if 0 < sint len1
           then bind_cxx (read_range buf 0 (unat len1)) (write_range (ring r) (unat write_offset))
           else Inr (ring r)) (\<lambda>ring'.
        let len2 = bytes_to_write - len1 in
        bind_cxx
          (if 0 < sint len2
           then bind_cxx (read_range buf (unat len1) (unat len2)) (write_range ring' 0)
           else Inr ring') (\<lambda>ring'.
        Inr (io_size (sint bytes_to_write), r\<lparr> ring := ring', ring_back := ring_back r + bytes_to_write \<rparr>))))"

definition ring_buffer_read :: "'r read_op \<Rightarrow> io_ring_buffer \<Rightarrow> 'r \<Rightarrow> (io_result \<times> io_ring_buffer \<times> 'r) cxx" where
  "ring_buffer_read read r reader =
     (let read_max = ring_bytes_writable r;
          write_offset = ring_back r AND ring_mask r;
          bytes_to_read = min (ring_size r - write_offset) read_max in
      if bytes_to_read = 0 then Inr (io_size 0, r, reader)
      else if unat write_offset > length (ring r) then Inl OutOfBounds
      else
        bind_cxx (read reader (drop (unat write_offset) (ring r)) (unat bytes_to_read)) (\<lambda>(result, tail, reader).
          Inr (result, r\<lparr> ring := take (unat write_offset) (ring r) @ tail,
                           ring_back := ring_back r + word_of_int (size result) \<rparr>, reader)))"

definition ring_buffer_write :: "'w write_op \<Rightarrow> io_ring_buffer \<Rightarrow> 'w \<Rightarrow> (io_result \<times> io_ring_buffer \<times> 'w) cxx" where
  "ring_buffer_write write r writer =
     (let write_max = ring_bytes_readable r;
          read_offset = ring_front r AND ring_mask r;
          bytes_to_write = min (ring_size r - read_offset) write_max in
      if bytes_to_write = 0 then Inr (io_size 0, r, writer)
      else
        bind_cxx (read_range (ring r) (unat read_offset) (unat bytes_to_write)) (\<lambda>bytes.
          bind_cxx (write writer bytes) (\<lambda>(result, writer).
            Inr (result, r\<lparr> ring_front := ring_front r + word_of_int (size result) \<rparr>, writer))))"

section \<open>The shape of a ring buffer\<close>

text \<open>
  \<open>b\<close> bytes have been stored and \<open>f\<close> taken since the last reset, and \<open>m\<close> more may be stored
  before a counter could overflow.
\<close>

definition ring_shape :: "nat \<Rightarrow> nat \<Rightarrow> nat \<Rightarrow> io_ring_buffer \<Rightarrow> bool" where
  "ring_shape m b f r \<longleftrightarrow>
     (\<exists>k\<le>47. length (ring r) = 2 ^ k) \<and> ring_mask r = of_nat (length (ring r)) - 1 \<and>
     f \<le> b \<and> b \<le> f + length (ring r) \<and> b + m + length (ring r) < 2 ^ 48 \<and>
     ring_back r = of_nat b \<and> ring_front r = of_nat (f + length (ring r))"

definition ring_unread :: "io_ring_buffer \<Rightarrow> byte list" where
  "ring_unread r =
     map (\<lambda>i. ring r ! (i mod length (ring r))) [unat (ring_front r) - length (ring r)..<unat (ring_back r)]"

lemma sint_u64_diff: "a < 2 ^ 62 \<Longrightarrow> b < 2 ^ 62 \<Longrightarrow> sint (of_nat a - of_nat b :: u64) = int a - int b"
  using sint_word_of_int_in_range [of "int a - int b", where 'a = 64] by simp

lemma sint_u64: "a < 2 ^ 62 \<Longrightarrow> sint (of_nat a :: u64) = int a"
  using sint_u64_diff [of a 0] by simp

lemma unat_u64: "a < 2 ^ 62 \<Longrightarrow> unat (of_nat a :: u64) = a"
  by (simp add: unat_of_nat take_bit_nat_eq_self)

lemma ring_mask_offset:
  assumes "n = 2 ^ k" "k \<le> 47"
  shows "of_nat i AND (of_nat n - 1) = (of_nat (i mod n) :: u64)"
proof -
  have "(of_nat n - 1 :: u64) = mask k"
    by (simp add: assms(1) mask_eq_exp_minus_1)
  then show ?thesis
    using assms by (metis take_bit_eq_mask take_bit_eq_mod take_bit_of_nat)
qed

lemma ring_shapeD:
  assumes "ring_shape m b f r"
  shows "0 < length (ring r)" "length (ring r) \<le> 2 ^ 47" "f \<le> b" "b \<le> f + length (ring r)"
    "b + m + length (ring r) < 2 ^ 48" "unat (ring_back r) = b" "unat (ring_front r) = f + length (ring r)"
    "ring_size r = of_nat (length (ring r))" "ring_back r = of_nat b" "ring_front r = of_nat (f + length (ring r))"
    "ring_back r AND ring_mask r = of_nat (b mod length (ring r))"
    "ring_front r AND ring_mask r = of_nat (f mod length (ring r))"
    "ring_unread r = map (\<lambda>i. ring r ! (i mod length (ring r))) [f..<b]"
proof -
  obtain k where k: "k \<le> 47" "length (ring r) = 2 ^ k"
    using assms by (auto simp: ring_shape_def)
  then show n: "0 < length (ring r)" "length (ring r) \<le> 2 ^ 47"
    using power_increasing [of k 47 "2::nat"] by simp_all
  show fb: "f \<le> b" "b \<le> f + length (ring r)" "b + m + length (ring r) < 2 ^ 48"
    "ring_back r = of_nat b" "ring_front r = of_nat (f + length (ring r))"
    using assms by (simp_all add: ring_shape_def)
  show "ring_size r = of_nat (length (ring r))"
    by (simp add: ring_size_def)
  have "f + length (ring r) < 2 ^ 62" "b < 2 ^ 62"
    using fb by simp_all
  with fb show u: "unat (ring_back r) = b" "unat (ring_front r) = f + length (ring r)"
    by (simp_all add: unat_u64 del: of_nat_add)
  show "ring_back r AND ring_mask r = of_nat (b mod length (ring r))"
    "ring_front r AND ring_mask r = of_nat (f mod length (ring r))"
    using assms ring_mask_offset [OF k(2,1), of b] ring_mask_offset [OF k(2,1), of "f + length (ring r)"]
    by (simp_all add: ring_shape_def del: of_nat_add)
  show "ring_unread r = map (\<lambda>i. ring r ! (i mod length (ring r))) [f..<b]"
    by (simp add: ring_unread_def u)
qed

lemma ring_bytes:
  assumes "ring_shape m b f r"
  shows "ring_bytes_readable r = of_nat (b - f)" "ring_bytes_writable r = of_nat (f + length (ring r) + b)"
    "ring_size r - (ring_back r AND ring_mask r) = of_nat (length (ring r) - b mod length (ring r))"
    "ring_size r - (ring_front r AND ring_mask r) = of_nat (length (ring r) - f mod length (ring r))"
proof -
  note d = ring_shapeD [OF assms]
  have "f + length (ring r) < 2 ^ 62" "b < 2 ^ 62"
    using d(3,5) by simp_all
  then have "\<not> sint (ring_front r) < sint (ring_back r)"
    using d(4) by (simp add: d(9,10) sint_u64 del: of_nat_add)
  then show "ring_bytes_readable r = of_nat (b - f)" "ring_bytes_writable r = of_nat (f + length (ring r) + b)"
    using d(3) by (simp_all add: ring_bytes_readable_def ring_bytes_writable_def d(8-10) of_nat_diff)
  have "i mod length (ring r) \<le> length (ring r)" for i
    using mod_less_divisor [OF d(1), of i] by simp
  then show "ring_size r - (ring_back r AND ring_mask r) = of_nat (length (ring r) - b mod length (ring r))"
    "ring_size r - (ring_front r AND ring_mask r) = of_nat (length (ring r) - f mod length (ring r))"
    by (simp_all add: d(8,11,12) of_nat_diff)
qed

text \<open>A stretch of the array that does not wrap is a stretch of the stored sequence.\<close>

lemma ring_stretch:
  assumes "f mod length xs + n \<le> length xs"
  shows "take n (drop (f mod length xs) xs) = map (\<lambda>i. xs ! (i mod length xs)) [f..<f + n]"
proof (rule nth_equalityI)
  show "length (take n (drop (f mod length xs) xs)) = length (map (\<lambda>i. xs ! (i mod length xs)) [f..<f + n])"
    using assms by simp
  fix i
  assume "i < length (take n (drop (f mod length xs) xs))"
  then have i: "i < n" "f mod length xs + i < length xs"
    using assms by auto
  then have "(f + i) mod length xs = f mod length xs + i"
    by (metis mod_add_left_eq mod_less)
  with i assms show "take n (drop (f mod length xs) xs) ! i = map (\<lambda>i. xs ! (i mod length xs)) [f..<f + n] ! i"
    by simp
qed

lemma take_map_upt: "n \<le> b - f \<Longrightarrow> take n (map g [f..<b]) = map g [f..<f + n]"
  by (cases "f \<le> b") (auto simp: take_map)

lemma map_upt_split: "f \<le> c \<Longrightarrow> c \<le> b \<Longrightarrow> map g [f..<c] @ map g [c..<b] = map g [f..<b]"
  by (metis map_append upt_add_eq_append le_iff_add)

lemma ring_resize_shape:
  assumes "unat n \<le> 2 ^ 30" "m < 2 ^ 47"
  shows "\<exists>r'. ring_resize r n = Inr r' \<and> ring_shape m 0 0 r' \<and> unat n \<le> length (ring r')"
proof -
  obtain k where k: "roundpow2 n = Inr (2 ^ k)" "k \<le> 30" "unat n \<le> 2 ^ k"
    using roundpow2_rounds [OF assms(1)] by blast
  have u: "unat (2 ^ k :: u64) = 2 ^ k"
    using unat_u64 [of "2 ^ k"] power_increasing [of k 30 "2::nat"] k(2) by simp
  have "(2::nat) ^ k \<le> 2 ^ 30"
    using k(2) by (intro power_increasing) simp_all
  then have "ring_shape m 0 0 (projr (ring_resize r n))"
    using k assms(2) unfolding ring_shape_def by (auto simp: ring_resize_def u intro!: exI [of _ k])
  then show ?thesis
    using k u by (simp add: ring_resize_def)
qed

lemma ring_reset_shape:
  assumes "ring_shape m b f r" "m' + 2 ^ 47 < 2 ^ 48"
  shows "ring_shape m' 0 0 (ring_reset r)" "ring_unread (ring_reset r) = []"
proof -
  show "ring_shape m' 0 0 (ring_reset r)"
    using assms ring_shapeD(2) [OF assms(1)] by (auto simp: ring_shape_def ring_reset_def ring_size_def)
  from ring_shapeD(13) [OF this] show "ring_unread (ring_reset r) = []"
    by simp
qed

section \<open>Sending the ring to a writer\<close>

lemma ring_buffer_write_shape:
  assumes shape: "ring_shape m b f r" and w: "writes_prefix write sent"
  shows "\<exists>res r' w' n. ring_buffer_write write r w = Inr (res, r', w') \<and> ring_shape m b (f + n) r' \<and>
           n \<le> length (ring_unread r) \<and> sent w' = sent w @ take n (ring_unread r) \<and>
           ring_unread r' = drop n (ring_unread r) \<and> (has_error res \<longrightarrow> n = 0) \<and> size res = int n"
proof (cases "b = f")
  case True
  with shape show ?thesis
    using ring_bytes [OF shape]
    by (intro exI [of _ "io_size 0"] exI [of _ r] exI [of _ w] exI [of _ 0])
      (auto simp: ring_buffer_write_def Let_def)
next
  case False
  note d = ring_shapeD [OF shape] and y = ring_bytes [OF shape]
  let ?n = "length (ring r)" and ?o = "f mod length (ring r)"
  let ?m = "min (?n - ?o) (b - f)"
  have o: "?o < ?n"
    using d(1) by simp
  have small: "?n - ?o < 2 ^ 62" "b - f < 2 ^ 62" "?o < 2 ^ 62"
    using d(2,5) o by simp_all
  have m: "min (of_nat (?n - ?o)) (of_nat (b - f)) = (of_nat ?m :: u64)"
    using small by (auto simp: min_def word_le_nat_alt unat_u64 simp del: of_nat_diff)
  have "0 < ?m" "?m < 2 ^ 62"
    using False d(3) o small by (simp_all add: min_less_iff_disj)
  then have pos: "of_nat ?m \<noteq> (0 :: u64)"
    using unat_u64 [of ?m] by (metis less_numeral_extra(3) unat_0)
  have bytes: "take ?m (drop ?o (ring r)) = take ?m (ring_unread r)"
    using ring_stretch [of f "ring r" ?m] o by (simp add: d(13) take_map_upt)
  have rng: "read_range (ring r) (unat (of_nat ?o :: u64)) (unat (of_nat ?m :: u64)) = Inr (take ?m (ring_unread r))"
    using bytes o small by (simp add: unat_u64 del: of_nat_diff)
  have len: "length (ring_unread r) = b - f"
    by (simp add: d(13))
  obtain res w' n where r: "write w (take ?m (ring_unread r)) = Inr (res, w')" "size res = int n" "n \<le> ?m"
      "has_error res \<longrightarrow> n = 0" "sent w' = sent w @ take n (take ?m (ring_unread r))"
  proof -
    obtain res w' n where "write w (take ?m (ring_unread r)) = Inr (res, w')" "size res = int n"
        "n \<le> length (take ?m (ring_unread r))" "has_error res \<longrightarrow> n = 0"
        "sent w' = sent w @ take n (take ?m (ring_unread r))"
      using w unfolding writes_prefix_def by blast
    then show thesis
      using len by (intro that) (simp_all del: take_take)
  qed
  let ?r = "r\<lparr> ring_front := ring_front r + word_of_int (size res) \<rparr>"
  have step: "ring_buffer_write write r w = Inr (res, ?r, w')"
    using rng r(1) pos unfolding ring_buffer_write_def Let_def y(4) unfolding y(1) m d(12) by simp
  have shape': "ring_shape m b (f + n) ?r"
    using shape r(2,3) by (auto simp: ring_shape_def)
  have "ring_unread ?r = drop n (ring_unread r)"
    using ring_shapeD(13) [OF shape'] r(3) by (simp add: d(13) drop_map)
  then show ?thesis
    using step shape' r len by (intro exI [of _ res] exI [of _ ?r] exI [of _ w'] exI [of _ n]) simp
qed

text \<open>
  C30. \<^verbatim>\<open>io_ring_buffer::buffer_write\<close> sends unread bytes in order across the wrap of the ring: the bytes
  sent followed by the bytes unread never change, and on an error nothing is taken from the ring.
\<close>

theorem ring_buffer_write_conserves:
  assumes "ring_shape m b f r" "writes_prefix write sent"
  shows "\<exists>res r' w' n. ring_buffer_write write r w = Inr (res, r', w') \<and> ring_shape m b (f + n) r' \<and>
           sent w' @ ring_unread r' = sent w @ ring_unread r \<and> size res = int n \<and> (has_error res \<longrightarrow> n = 0)"
  using ring_buffer_write_shape [OF assms, of w] by (metis append.assoc append_take_drop_id)

definition example_ring :: io_ring_buffer where
  "example_ring = \<lparr> ring = [15, 16, 13, 14], ring_back = 6, ring_front = 6, ring_mask = 3 \<rparr>"

theorem ring_buffer_write_conserves_witness:
  "ring_unread example_ring = [13, 14, 15, 16] \<and>
   (\<exists>res r' w' n. ring_buffer_write take_two example_ring [] = Inr (res, r', w') \<and> ring_shape 0 6 (2 + n) r' \<and>
      id w' @ ring_unread r' = id [] @ ring_unread example_ring \<and> size res = int n \<and> (has_error res \<longrightarrow> n = 0))"
proof
  show "ring_unread example_ring = [13, 14, 15, 16]"
    by code_simp
  have "writes_prefix take_two id"
    unfolding writes_prefix_def take_two_def
    by (intro allI) (auto intro!: exI [of _ "min 2 (length _)"] simp: min_def)
  moreover have "ring_shape 0 6 2 example_ring"
    by (auto simp: ring_shape_def example_ring_def intro!: exI [of _ 2])
  ultimately show "\<exists>res r' w' n. ring_buffer_write take_two example_ring [] = Inr (res, r', w') \<and> ring_shape 0 6 (2 + n) r' \<and>
      id w' @ ring_unread r' = id [] @ ring_unread example_ring \<and> size res = int n \<and> (has_error res \<longrightarrow> n = 0)"
    by (intro ring_buffer_write_conserves)
qed

section \<open>Filling the ring from a reader\<close>

context io_reader
begin

lemma ring_buffer_read_fits:
  assumes shape: "ring_shape (length (ring r)) b f r" and "ok s"
    and room: "length (ring r) - b mod length (ring r) \<le> length (ring r) - (b - f)"
  shows "\<exists>res r' s' n. ring_buffer_read read r s = Inr (res, r', s') \<and> ring_shape 0 (b + n) f r' \<and> ok s' \<and>
    ring_unread r' = ring_unread r @ take n (stream s) \<and> stream s' = drop n (stream s) \<and> size res = int n"
proof -
  note d = ring_shapeD [OF shape] and y = ring_bytes [OF shape]
  let ?n = "length (ring r)" and ?o = "b mod length (ring r)"
  let ?m = "?n - ?o"
  have o: "?o < ?n"
    using d(1) by simp
  have small: "?m < 2 ^ 62" "f + ?n + b < 2 ^ 62" "?o < 2 ^ 62"
    using d(2,3,5) o by simp_all
  have "?m \<le> f + ?n + b"
    by simp
  then have m: "min (of_nat ?m) (of_nat (f + ?n + b)) = (of_nat ?m :: u64)"
    using small by (simp add: min_def word_le_nat_alt unat_u64 del: of_nat_diff of_nat_add)
  have um: "unat (of_nat ?m :: u64) = ?m" "unat (of_nat ?o :: u64) = ?o"
    using small unat_u64 by blast+
  then have pos: "of_nat ?m \<noteq> (0 :: u64)"
    using o by (metis unat_0 zero_less_diff less_irrefl)
  obtain res n s' where r: "read s (drop ?o (ring r)) ?m = Inr (res, overwrite (drop ?o (ring r)) 0 (take n (stream s)), s')"
      "ok s'" "size res = int n" "n \<le> ?m" "n \<le> length (stream s)" "stream s' = drop n (stream s)"
    using read_prefix [OF assms(2), of ?m "drop ?o (ring r)"] by (auto simp: reads_prefix_def)
  let ?ring = "overwrite (ring r) ?o (take n (stream s))"
  let ?r = "r\<lparr> ring := ?ring, ring_back := ring_back r + of_nat n \<rparr>"
  have len: "length ?ring = ?n" "length (take n (stream s)) = n"
    using r(4,5) o by simp_all
  have tail: "take ?o (ring r) @ overwrite (drop ?o (ring r)) 0 (take n (stream s)) = ?ring"
    using o by (simp add: overwrite_def add.commute)
  have step: "ring_buffer_read read r s = Inr (res, ?r, s')"
    using r(1,3) o pos unfolding ring_buffer_read_def Let_def y(3) unfolding y(2) m d(11) um by (simp add: tail)
  have room': "n \<le> ?n - (b - f)"
    using r(4) room by simp
  have shape': "ring_shape 0 (b + n) f ?r"
    using shape room' d(4) r(4) unfolding ring_shape_def by (auto simp: len)
  have old: "?ring ! (i mod ?n) = ring r ! (i mod ?n)" if "f \<le> i" "i < b" for i
  proof -
    have "i mod ?n < ?o \<or> ?o + n \<le> i mod ?n"
    proof (rule ccontr)
      assume "\<not> ?thesis"
      then obtain j where j: "i mod ?n = ?o + j" "j < n"
        by (metis le_Suc_ex not_less nat_add_left_cancel_less)
      have "(b + j) mod ?n = ?o + j"
        using j(2) r(4) o mod_less [of "?o + j" ?n] by (simp add: mod_add_left_eq [of b ?n j, symmetric])
      with j(1) have "?n dvd b + j - i"
        using that(2) by (metis mod_eq_dvd_iff_nat less_imp_le trans_le_add1)
      moreover have "0 < b + j - i" "b + j - i < ?n"
        using that j(2) room' d(4) by linarith+
      ultimately show False
        by (auto dest: dvd_imp_le)
    qed
    then show ?thesis
      using r(4) o mod_less_divisor [OF d(1), of i] len by (auto simp: nth_overwrite)
  qed
  have new: "map (\<lambda>i. ?ring ! (i mod ?n)) [b..<b + n] = take n (stream s)"
    using ring_stretch [of b ?ring n] r(4) o take_drop_overwrite_same [of ?o "take n (stream s)" "ring r"] len by simp
  have "ring_unread ?r = map (\<lambda>i. ?ring ! (i mod ?n)) [f..<b] @ map (\<lambda>i. ?ring ! (i mod ?n)) [b..<b + n]"
    using ring_shapeD(13) [OF shape'] by (subst map_upt_split) (simp_all add: len d(3))
  then have "ring_unread ?r = ring_unread r @ take n (stream s)"
    unfolding new d(13) using old by simp
  then show ?thesis
    using step shape' r by (intro exI [of _ res] exI [of _ ?r] exI [of _ s'] exI [of _ n]) simp
qed

end

text \<open>
  Reading into an empty ring appends what the reader delivers, wherever the ring's positions are.
\<close>

theorem ring_buffer_read_empty:
  assumes "ring_shape (length (ring r)) b b r" "io_buffer_ok source"
  shows "\<exists>res r' source' n. ring_buffer_read io_buffer_read r source = Inr (res, r', source') \<and>
    ring_shape 0 (b + n) b r' \<and> ring_unread r' = take n (unread source) \<and>
    unread source' = drop n (unread source) \<and> size res = int n"
  using buffer_reader.ring_buffer_read_fits [OF assms] ring_shapeD(13) [OF assms(1)] by fastforce

theorem ring_buffer_read_empty_witness:
  "\<exists>res r' source' n. ring_buffer_read io_buffer_read (example_ring\<lparr> ring_front := 10 \<rparr>) example_source =
      Inr (res, r', source') \<and> ring_shape 0 (6 + n) 6 r' \<and> ring_unread r' = take n (unread example_source) \<and>
    unread source' = drop n (unread example_source) \<and> size res = int n"
  by (rule ring_buffer_read_empty)
    (auto simp: ring_shape_def example_ring_def io_buffer_ok_def example_source_def intro!: exI [of _ 2])

section \<open>Where the ring buffer leaves its contract\<close>

text \<open>
  C31. \<^verbatim>\<open>bytes_readable\<close> is exact, but \<^verbatim>\<open>bytes_writable\<close> adds the two counters instead of subtracting them: it
  exceeds the free space by twice the number of bytes stored so far, and is right only before
  the first byte is stored.
\<close>

theorem ring_bytes_writable_wrong:
  assumes "ring_shape m b f r"
  shows "unat (ring_bytes_readable r) = length (ring_unread r) \<and>
    unat (ring_bytes_writable r) = (length (ring r) - length (ring_unread r)) + 2 * b"
proof -
  note d = ring_shapeD [OF assms]
  have "b - f < 2 ^ 62" "f + length (ring r) + b < 2 ^ 62"
    using d(3,5) by simp_all
  then show ?thesis
    using d(3,4) by (simp add: ring_bytes [OF assms] d(13) unat_u64 del: of_nat_diff of_nat_add)
qed

theorem ring_bytes_writable_wrong_witness:
  "unat (ring_bytes_readable example_ring) = length (ring_unread example_ring) \<and>
   unat (ring_bytes_writable example_ring) = (length (ring example_ring) - length (ring_unread example_ring)) + 2 * 6"
  by (rule ring_bytes_writable_wrong [of 0 6 2])
    (auto simp: ring_shape_def example_ring_def intro!: exI [of _ 2])

text \<open>
  \<^verbatim>\<open>io_ring_buffer::read\<close> copies up to the end of the array before it looks at the number of bytes
  asked for: with a destination smaller than that stretch it writes past the destination's end,
  whatever \<^verbatim>\<open>len\<close> is.
\<close>

theorem ring_read_overflows:
  assumes "ring_shape m b f r" "f < b" "0 < len" "len < 2 ^ 62"
    "length buf < length (ring r) - f mod length (ring r)"
  shows "ring_read r buf len = Inl OutOfBounds"
proof -
  note d = ring_shapeD [OF assms(1)] and y = ring_bytes [OF assms(1)]
  let ?n = "length (ring r)" and ?o = "f mod length (ring r)"
  have small: "?n - ?o < 2 ^ 62" "?o < 2 ^ 62" "b - f < 2 ^ 62" "?o < ?n"
    using d(1,2,5) mod_less_divisor [OF d(1), of f] by (simp_all del: mod_less_divisor)
  have nz: "of_nat k \<noteq> (0 :: u64)" if "0 < k" "k < 2 ^ 62" for k
    using unat_u64 [OF that(2)] that(1) by (metis less_numeral_extra(3) unat_0)
  have "min (of_nat len) (of_nat (b - f)) \<noteq> (0 :: u64)"
    using nz [of len] nz [of "b - f"] assms(2-4) small(3) by (simp add: min_def del: of_nat_diff)
  moreover have "0 < sint (of_nat (?n - ?o) :: u64)"
    using sint_u64 [OF small(1)] small(4) by simp
  moreover have "read_range (ring r) ?o (?n - ?o) = Inr (drop ?o (ring r))"
    using small(4) by simp
  moreover have "write_range buf 0 (drop ?o (ring r)) = Inl OutOfBounds"
    using assms(5) by (simp add: write_range_def)
  ultimately show ?thesis
    unfolding ring_read_def Let_def y(4) unfolding y(1) d(12) unat_u64 [OF small(1)] unat_u64 [OF small(2)] by simp
qed

theorem ring_read_overflows_witness:
  "ring_read (example_ring\<lparr> ring_front := 4 \<rparr>\<lparr> ring_back := 1 \<rparr>) [0] 1 = Inl OutOfBounds"
  by (rule ring_read_overflows [of 0 1 0])
    (auto simp: ring_shape_def example_ring_def intro!: exI [of _ 2])

text \<open>The same happens on the source side of \<^verbatim>\<open>write\<close>, and unread bytes may be overwritten.\<close>

lemma ring_write_overreads:
  "ring_write (example_ring\<lparr> ring_front := 4, ring_back := 0 \<rparr>) [1] 1 = Inl OutOfBounds"
  by code_simp

definition list_read :: "byte list read_op" where
  "list_read s buf len = Inr (io_size (int (length (take len s))), overwrite buf 0 (take len s), drop len s)"

lemma ring_buffer_read_clobbers:
  "ring_unread (fst (snd (projr (ring_buffer_read list_read example_ring [2, 3, 4])))) = [2, 3, 15, 16, 2, 3]"
  by code_simp

end
