(* ===== verification/Ragel.thy ===== *)
theory Ragel
  imports Latypus_Prelude
begin

text \<open>
  The generated machines of \<^verbatim>\<open>src/http_parser.cc\<close> and \<^verbatim>\<open>src/http_date.cc\<close> have the same shape: a state has
  sorted single keys and sorted ranges of keys, which are searched by bisection, and an entry of a
  table for each of them and one for no match. This theory has what the two share: the check that the
  tables fit together, and an interface that states how a machine searches them.
\<close>

definition table_at :: "int list \<Rightarrow> nat \<Rightarrow> nat cxx" where
  "table_at xs i = bind_cxx (index_cxx xs i) (\<lambda>v. Inr (nat v))"

lemma table_at_Inr [simp]: "i < length xs \<Longrightarrow> table_at xs i = Inr (nat (xs ! i))"
  by (simp add: table_at_def)

definition ragel_ok :: "nat \<Rightarrow> int list \<Rightarrow> int list \<Rightarrow> int list \<Rightarrow> int list \<Rightarrow> int list \<Rightarrow> int list \<Rightarrow> int list \<Rightarrow> int list \<Rightarrow> int list \<Rightarrow> bool" where
  "ragel_ok n actions key_offsets trans_keys single_lengths range_lengths index_offsets indicies trans_targs trans_actions \<longleftrightarrow>
     length key_offsets = n \<and> length index_offsets = n \<and> length single_lengths = n \<and> length range_lengths = n \<and>
     list_all (\<lambda>s. nat (key_offsets ! s) + nat (single_lengths ! s) + 2 * nat (range_lengths ! s) \<le> length trans_keys \<and>
       nat (index_offsets ! s) + nat (single_lengths ! s) + nat (range_lengths ! s) < length indicies) [0..<n] \<and>
     list_all (\<lambda>t. 0 \<le> t \<and> t < int (length trans_targs) \<and> t < int (length trans_actions)) indicies \<and>
     list_all (\<lambda>s. 0 \<le> s \<and> s < int n) trans_targs \<and>
     list_all (\<lambda>a. 0 \<le> a \<and> a < int (length actions) \<and>
       (a \<noteq> 0 \<longrightarrow> nat a + 1 + nat (actions ! nat a) \<le> length actions)) trans_actions"

locale ragel_machine =
  fixes n :: nat and actions key_offsets trans_keys single_lengths range_lengths index_offsets indicies trans_targs trans_actions :: "int list"
    and find_single find_range :: "int \<Rightarrow> nat \<Rightarrow> int \<Rightarrow> int \<Rightarrow> int option cxx"
    and find_trans :: "nat \<Rightarrow> int \<Rightarrow> nat cxx" and action_list :: "nat \<Rightarrow> nat list cxx"
  assumes ok: "ragel_ok n actions key_offsets trans_keys single_lengths range_lengths index_offsets indicies trans_targs trans_actions"
    and find_single: "find_single c keys lower upper =
     (if upper < lower then Inr None
      else
        let mid = lower + (upper - lower) div 2 in
        bind_cxx (index_cxx trans_keys (keys + nat mid)) (\<lambda>k.
          if c < k then find_single c keys lower (mid - 1)
          else if c > k then find_single c keys (mid + 1) upper
          else Inr (Some mid)))"
    and find_range: "find_range c keys lower upper =
     (if upper < lower then Inr None
      else
        let mid = lower + 2 * ((upper - lower) div 2 div 2) in
        bind_cxx (index_cxx trans_keys (keys + nat mid)) (\<lambda>k0.
          if c < k0 then find_range c keys lower (mid - 2)
          else bind_cxx (index_cxx trans_keys (keys + nat mid + 1)) (\<lambda>k1.
            if c > k1 then find_range c keys (mid + 2) upper
            else Inr (Some (mid div 2)))))"
    and find_trans: "find_trans state c =
     bind_cxx (table_at key_offsets state) (\<lambda>keys.
     bind_cxx (table_at index_offsets state) (\<lambda>trans.
     bind_cxx (table_at single_lengths state) (\<lambda>singles.
     bind_cxx (table_at range_lengths state) (\<lambda>ranges.
     bind_cxx (if singles > 0 then find_single c keys 0 (int singles - 1) else Inr None) (\<lambda>found.
     bind_cxx
       (case found of
          Some i \<Rightarrow> Inr (trans + nat i)
        | None \<Rightarrow>
            bind_cxx (if ranges > 0 then find_range c (keys + singles) 0 (2 * int ranges - 2) else Inr None) (\<lambda>found.
              case found of
                Some i \<Rightarrow> Inr (trans + singles + nat i)
              | None \<Rightarrow> Inr (trans + singles + ranges)))
       (table_at indicies))))))"
    and action_list: "action_list tr =
     bind_cxx (table_at trans_actions tr) (\<lambda>a.
       if a = 0 then Inr []
       else bind_cxx (table_at actions a) (\<lambda>n. bind_cxx (read_range actions (a + 1) n) (\<lambda>acts. Inr (map nat acts))))"
begin

lemma state_tables:
  assumes "s < n"
  shows "table_at key_offsets s = Inr (nat (key_offsets ! s))" "table_at index_offsets s = Inr (nat (index_offsets ! s))"
    "table_at single_lengths s = Inr (nat (single_lengths ! s))" "table_at range_lengths s = Inr (nat (range_lengths ! s))"
    "nat (key_offsets ! s) + nat (single_lengths ! s) + 2 * nat (range_lengths ! s) \<le> length trans_keys"
    "nat (index_offsets ! s) + nat (single_lengths ! s) + nat (range_lengths ! s) < length indicies"
  using ok assms by (simp_all add: ragel_ok_def list_all_iff)

lemma slot_tables:
  assumes "s < n" "i \<le> nat (single_lengths ! s) + nat (range_lengths ! s)"
  defines "t \<equiv> nat (indicies ! (nat (index_offsets ! s) + i))"
  shows "table_at trans_targs t = Inr (nat (trans_targs ! t))" "nat (trans_targs ! t) < n" "t < length trans_actions"
proof -
  have "indicies ! (nat (index_offsets ! s) + i) \<in> set indicies"
    using state_tables(6) [OF assms(1)] assms(2) by simp
  then have *: "t < length trans_targs" "t < length trans_actions"
    using ok by (auto simp: ragel_ok_def list_all_iff t_def nat_less_iff)
  then show "table_at trans_targs t = Inr (nat (trans_targs ! t))" "t < length trans_actions"
    by simp_all
  have "trans_targs ! t \<in> set trans_targs"
    using * by simp
  then show "nat (trans_targs ! t) < n"
    using ok by (auto simp: ragel_ok_def list_all_iff nat_less_iff)
qed

lemma action_list_ok:
  assumes "t < length trans_actions"
  shows "\<exists>acts. action_list t = Inr acts"
proof -
  have "trans_actions ! t \<in> set trans_actions"
    using assms by simp
  then show ?thesis
    using ok assms by (auto simp: ragel_ok_def action_list list_all_iff nat_less_iff)
qed

text \<open>The searches stay inside a state's keys and return a slot of that state.\<close>

lemma find_single_ok:
  assumes "keys + m \<le> length trans_keys" "0 \<le> lower" "upper < int m"
  shows "\<exists>r. find_single c keys lower upper = Inr r \<and>
           (\<forall>i. r = Some i \<longrightarrow> lower \<le> i \<and> i \<le> upper \<and> trans_keys ! (keys + nat i) = c)"
  using assms(2,3)
proof (induction "nat (upper - lower + 1)" arbitrary: lower upper rule: less_induct)
  case less
  show ?case
  proof (cases "upper < lower")
    case True
    then show ?thesis by (subst find_single) simp
  next
    case False
    define mid where "mid = lower + (upper - lower) div 2"
    have mid: "lower \<le> mid" "mid \<le> upper"
      using False by (auto simp: mid_def)
    then have idx: "keys + nat mid < length trans_keys"
      using assms(1) less.prems by linarith
    let ?k = "trans_keys ! (keys + nat mid)"
    have step: "find_single c keys lower upper =
        (if c < ?k then find_single c keys lower (mid - 1)
         else if c > ?k then find_single c keys (mid + 1) upper else Inr (Some mid))"
      using False idx by (subst find_single) (simp add: mid_def [symmetric] Let_def)
    have "nat (mid - 1 - lower + 1) < nat (upper - lower + 1)" "nat (upper - (mid + 1) + 1) < nat (upper - lower + 1)"
      using mid by linarith+
    from less.hyps [OF this(1)] less.hyps [OF this(2)] show ?thesis
      unfolding step using mid less.prems by fastforce
  qed
qed

lemma find_range_ok:
  assumes "keys + 2 * m \<le> length trans_keys" "0 \<le> lower" "upper + 1 < 2 * int m"
  shows "\<exists>r. find_range c keys lower upper = Inr r \<and> (\<forall>i. r = Some i \<longrightarrow> 0 \<le> i \<and> i < int m)"
  using assms(2,3)
proof (induction "nat (upper - lower + 2)" arbitrary: lower upper rule: less_induct)
  case less
  show ?case
  proof (cases "upper < lower")
    case True
    then show ?thesis by (subst find_range) simp
  next
    case False
    define mid where "mid = lower + 2 * ((upper - lower) div 2 div 2)"
    have mid: "lower \<le> mid" "mid \<le> upper"
      using False by (simp_all add: mid_def)
    then have idx: "keys + nat mid + 1 < length trans_keys" "keys + nat mid < length trans_keys"
      using assms(1) less.prems by linarith+
    let ?k0 = "trans_keys ! (keys + nat mid)" and ?k1 = "trans_keys ! (keys + nat mid + 1)"
    have step: "find_range c keys lower upper =
        (if c < ?k0 then find_range c keys lower (mid - 2)
         else if c > ?k1 then find_range c keys (mid + 2) upper else Inr (Some (mid div 2)))"
      using False idx by (subst find_range) (simp add: mid_def [symmetric] Let_def)
    have half: "0 \<le> mid div 2" "mid div 2 < int m"
      using mid less.prems by linarith+
    have "nat (mid - 2 - lower + 2) < nat (upper - lower + 2)" "nat (upper - (mid + 2) + 2) < nat (upper - lower + 2)"
      using mid by linarith+
    from less.hyps [OF this(1)] less.hyps [OF this(2)] show ?thesis
      unfolding step using mid half less.prems by fastforce
  qed
qed

lemma slot_found:
  assumes "s < n"
  defines "singles \<equiv> nat (single_lengths ! s)" and "ranges \<equiv> nat (range_lengths ! s)"
  shows "\<exists>i. find_trans s c = Inr (nat (indicies ! (nat (index_offsets ! s) + i))) \<and> i \<le> singles + ranges \<and>
           (i < singles \<longrightarrow> trans_keys ! (nat (key_offsets ! s) + i) = c)"
proof -
  note t = state_tables [OF assms(1), folded singles_def ranges_def]
  let ?keys = "nat (key_offsets ! s)" and ?tr = "nat (index_offsets ! s)"
  obtain r where r: "(if singles > 0 then find_single c ?keys 0 (int singles - 1) else Inr None) = Inr r"
      "\<forall>i. r = Some i \<longrightarrow> 0 \<le> i \<and> i < int singles \<and> trans_keys ! (?keys + nat i) = c"
  proof (cases "singles > 0")
    case True
    then obtain r where "find_single c ?keys 0 (int singles - 1) = Inr r"
        "\<forall>i. r = Some i \<longrightarrow> 0 \<le> i \<and> i \<le> int singles - 1 \<and> trans_keys ! (?keys + nat i) = c"
      using find_single_ok [of ?keys singles 0 "int singles - 1" c] t(5) by auto
    with True show thesis by (intro that [of r]) auto
  qed (auto intro: that [of None])
  obtain r' where r': "(if ranges > 0 then find_range c (?keys + singles) 0 (2 * int ranges - 2) else Inr None) = Inr r'"
      "\<forall>i. r' = Some i \<longrightarrow> 0 \<le> i \<and> i < int ranges"
  proof (cases "ranges > 0")
    case True
    then show thesis
      using find_range_ok [of "?keys + singles" ranges 0 "2 * int ranges - 2" c] t(5) by (auto intro: that)
  qed (auto intro: that [of None])
  show ?thesis
  proof (cases r)
    case (Some i)
    then show ?thesis
      using r r' t(6) by (intro exI [of _ "nat i"]) (auto simp: find_trans t(1-4) nat_less_iff)
  next
    case None
    show ?thesis
    proof (cases r')
      case (Some i)
      then show ?thesis
        using None r r' t(6) by (intro exI [of _ "singles + nat i"]) (auto simp: find_trans t(1-4) nat_less_iff add.assoc)
    next
      case None': None
      then show ?thesis
        using None r r' t(6) by (intro exI [of _ "singles + ranges"]) (auto simp: find_trans t(1-4) add.assoc)
    qed
  qed
qed

end

end
