(* ===== verification/Http_Parser.thy ===== *)
theory Http_Parser
  imports Http_Common Cxx_Text Ragel
begin

text \<open>
  \<^verbatim>\<open>src/http_parser.cc\<close>: the table-driven machine that reads the head of a request or a response. The
  tables are those of the source; the execution loop is \<open>parse_exec\<close>. Characters are those of a
  memory \<open>mem\<close> and pointers are indices into it, so that a mark set in one call of \<^verbatim>\<open>parse\<close> is still
  good in the next. The virtual functions the machine calls are events, in the order of the calls;
  what a request or a response does with them is in the theory of messages.
\<close>

section \<open>The tables\<close>

definition http_parser_actions :: "int list" where
  "http_parser_actions =
    [0, 1, 0, 1, 1, 1, 2, 1, 3, 1, 4, 1, 5, 1, 6, 1, 7, 1, 8, 1, 10, 1, 11, 1, 12, 1, 13, 1, 14, 1,
    15, 1, 16, 2, 0, 8, 2, 3, 5, 2, 9, 7, 2, 11, 7, 2, 14, 1, 2, 14, 16, 2, 15, 1, 2, 15, 16, 3, 4,
    9, 7]"

definition http_parser_key_offsets :: "int list" where
  "http_parser_key_offsets =
    [0, 0, 9, 18, 28, 30, 31, 32, 33, 34, 35, 37, 40, 42, 46, 63, 64, 80, 83, 85, 102, 103, 104, 110,
    116, 122, 128, 138, 144, 150, 156, 164, 170, 176, 182, 188, 194, 200, 209, 218, 227, 236, 245,
    254, 263, 272, 281, 290, 299, 308, 317, 326, 335, 344, 353, 362, 363, 373, 383, 393, 401, 403,
    406, 408, 411, 413, 415, 417, 418, 419, 421, 438]"

definition http_parser_trans_keys :: "int list" where
  "http_parser_trans_keys =
    [36, 72, 95, 45, 46, 48, 57, 65, 90, 32, 36, 95, 45, 46, 48, 57, 65, 90, 42, 43, 47, 58, 45, 57,
    65, 90, 97, 122, 32, 35, 72, 84, 84, 80, 47, 48, 57, 46, 48, 57, 48, 57, 10, 13, 48, 57, 10, 13,
    33, 124, 126, 35, 39, 42, 43, 45, 46, 48, 57, 65, 90, 94, 122, 10, 33, 58, 124, 126, 35, 39, 42,
    43, 45, 46, 48, 57, 65, 90, 94, 122, 10, 13, 32, 10, 13, 10, 13, 33, 124, 126, 35, 39, 42, 43,
    45, 46, 48, 57, 65, 90, 94, 122, 10, 10, 32, 35, 37, 127, 0, 31, 32, 35, 37, 127, 0, 31, 48, 57,
    65, 70, 97, 102, 48, 57, 65, 70, 97, 102, 43, 58, 45, 46, 48, 57, 65, 90, 97, 122, 32, 35, 37,
    127, 0, 31, 48, 57, 65, 70, 97, 102, 48, 57, 65, 70, 97, 102, 32, 35, 37, 59, 63, 127, 0, 31,
    48, 57, 65, 70, 97, 102, 48, 57, 65, 70, 97, 102, 32, 35, 37, 127, 0, 31, 32, 35, 37, 127, 0,
    31, 48, 57, 65, 70, 97, 102, 48, 57, 65, 70, 97, 102, 32, 36, 95, 45, 46, 48, 57, 65, 90, 32,
    36, 95, 45, 46, 48, 57, 65, 90, 32, 36, 95, 45, 46, 48, 57, 65, 90, 32, 36, 95, 45, 46, 48, 57,
    65, 90, 32, 36, 95, 45, 46, 48, 57, 65, 90, 32, 36, 95, 45, 46, 48, 57, 65, 90, 32, 36, 95, 45,
    46, 48, 57, 65, 90, 32, 36, 95, 45, 46, 48, 57, 65, 90, 32, 36, 95, 45, 46, 48, 57, 65, 90, 32,
    36, 95, 45, 46, 48, 57, 65, 90, 32, 36, 95, 45, 46, 48, 57, 65, 90, 32, 36, 95, 45, 46, 48, 57,
    65, 90, 32, 36, 95, 45, 46, 48, 57, 65, 90, 32, 36, 95, 45, 46, 48, 57, 65, 90, 32, 36, 95, 45,
    46, 48, 57, 65, 90, 32, 36, 95, 45, 46, 48, 57, 65, 90, 32, 36, 95, 45, 46, 48, 57, 65, 90, 32,
    36, 95, 45, 46, 48, 57, 65, 90, 32, 32, 36, 84, 95, 45, 46, 48, 57, 65, 90, 32, 36, 84, 95, 45,
    46, 48, 57, 65, 90, 32, 36, 80, 95, 45, 46, 48, 57, 65, 90, 32, 36, 47, 95, 45, 57, 65, 90, 48,
    57, 46, 48, 57, 48, 57, 32, 48, 57, 48, 57, 48, 57, 48, 57, 32, 10, 10, 13, 10, 13, 33, 124,
    126, 35, 39, 42, 43, 45, 46, 48, 57, 65, 90, 94, 122, 0]"

definition http_parser_single_lengths :: "int list" where
  "http_parser_single_lengths =
    [0, 3, 3, 4, 2, 1, 1, 1, 1, 1, 0, 1, 0, 2, 5, 1, 4, 3, 2, 5, 1, 1, 4, 4, 0, 0, 2, 4, 0, 0, 6, 0,
    0, 4, 4, 0, 0, 3, 3, 3, 3, 3, 3, 3, 3, 3, 3, 3, 3, 3, 3, 3, 3, 3, 3, 1, 4, 4, 4, 4, 0, 1, 0, 1,
    0, 0, 0, 1, 1, 2, 5, 0]"

definition http_parser_range_lengths :: "int list" where
  "http_parser_range_lengths =
    [0, 3, 3, 3, 0, 0, 0, 0, 0, 0, 1, 1, 1, 1, 6, 0, 6, 0, 0, 6, 0, 0, 1, 1, 3, 3, 4, 1, 3, 3, 1, 3,
    3, 1, 1, 3, 3, 3, 3, 3, 3, 3, 3, 3, 3, 3, 3, 3, 3, 3, 3, 3, 3, 3, 3, 0, 3, 3, 3, 2, 1, 1, 1, 1,
    1, 1, 1, 0, 0, 0, 6, 0]"

definition http_parser_index_offsets :: "int list" where
  "http_parser_index_offsets =
    [0, 0, 7, 14, 22, 25, 27, 29, 31, 33, 35, 37, 40, 42, 46, 58, 60, 71, 75, 78, 90, 92, 94, 100,
    106, 110, 114, 121, 127, 131, 135, 143, 147, 151, 157, 163, 167, 171, 178, 185, 192, 199, 206,
    213, 220, 227, 234, 241, 248, 255, 262, 269, 276, 283, 290, 297, 299, 307, 315, 323, 330, 332,
    335, 337, 340, 342, 344, 346, 348, 350, 353, 365]"

definition http_parser_indicies :: "int list" where
  "http_parser_indicies =
    [0, 2, 0, 0, 0, 0, 1, 3, 4, 4, 4, 4, 4, 1, 5, 6, 7, 8, 6, 6, 6, 1, 9, 10, 1, 11, 1, 12, 1, 13, 1,
    14, 1, 15, 1, 16, 1, 17, 16, 1, 18, 1, 19, 20, 18, 1, 21, 22, 23, 23, 23, 23, 23, 23, 23, 23,
    23, 1, 24, 1, 25, 26, 25, 25, 25, 25, 25, 25, 25, 25, 1, 28, 29, 30, 27, 32, 33, 31, 24, 34, 35,
    35, 35, 35, 35, 35, 35, 35, 35, 1, 36, 1, 37, 1, 39, 1, 40, 1, 1, 38, 42, 1, 43, 1, 1, 41, 44,
    44, 44, 1, 41, 41, 41, 1, 45, 46, 45, 45, 45, 45, 1, 9, 10, 47, 1, 1, 46, 48, 48, 48, 1, 46, 46,
    46, 1, 50, 51, 52, 1, 53, 1, 1, 49, 54, 54, 54, 1, 49, 49, 49, 1, 56, 57, 58, 1, 1, 55, 60, 61,
    62, 1, 1, 59, 63, 63, 63, 1, 59, 59, 59, 1, 3, 64, 64, 64, 64, 64, 1, 3, 65, 65, 65, 65, 65, 1,
    3, 66, 66, 66, 66, 66, 1, 3, 67, 67, 67, 67, 67, 1, 3, 68, 68, 68, 68, 68, 1, 3, 69, 69, 69, 69,
    69, 1, 3, 70, 70, 70, 70, 70, 1, 3, 71, 71, 71, 71, 71, 1, 3, 72, 72, 72, 72, 72, 1, 3, 73, 73,
    73, 73, 73, 1, 3, 74, 74, 74, 74, 74, 1, 3, 75, 75, 75, 75, 75, 1, 3, 76, 76, 76, 76, 76, 1, 3,
    77, 77, 77, 77, 77, 1, 3, 78, 78, 78, 78, 78, 1, 3, 79, 79, 79, 79, 79, 1, 3, 80, 80, 80, 80,
    80, 1, 3, 81, 81, 81, 81, 81, 1, 3, 1, 3, 4, 82, 4, 4, 4, 4, 1, 3, 64, 83, 64, 64, 64, 64, 1, 3,
    65, 84, 65, 65, 65, 65, 1, 3, 66, 85, 66, 66, 66, 1, 86, 1, 87, 86, 1, 88, 1, 89, 88, 1, 90, 1,
    91, 1, 92, 1, 93, 1, 1, 94, 96, 97, 95, 98, 99, 100, 100, 100, 100, 100, 100, 100, 100, 100, 1,
    1, 0]"

definition http_parser_trans_targs :: "int list" where
  "http_parser_trans_targs =
    [2, 0, 56, 3, 37, 4, 26, 30, 27, 5, 22, 6, 7, 8, 9, 10, 11, 12, 13, 14, 21, 71, 15, 16, 71, 16,
    17, 18, 19, 20, 17, 18, 19, 20, 15, 16, 19, 14, 23, 5, 24, 23, 5, 24, 25, 26, 27, 28, 29, 30, 5,
    22, 31, 33, 32, 34, 5, 22, 35, 34, 5, 22, 35, 36, 38, 39, 40, 41, 42, 43, 44, 45, 46, 47, 48,
    49, 50, 51, 52, 53, 54, 55, 57, 58, 59, 60, 61, 62, 63, 64, 65, 66, 67, 68, 69, 69, 70, 69, 71,
    15, 16]"

definition http_parser_trans_actions :: "int list" where
  "http_parser_trans_actions =
    [1, 0, 1, 13, 0, 1, 1, 1, 1, 15, 15, 1, 0, 0, 0, 0, 0, 0, 0, 19, 19, 54, 29, 51, 31, 0, 5, 7, 36,
    36, 7, 0, 11, 11, 0, 3, 0, 0, 1, 33, 1, 0, 17, 0, 0, 0, 0, 0, 0, 0, 42, 42, 0, 21, 0, 9, 57, 57,
    9, 0, 39, 39, 0, 0, 0, 0, 0, 0, 0, 0, 0, 0, 0, 0, 0, 0, 0, 0, 0, 0, 0, 0, 0, 0, 0, 0, 0, 0, 0,
    19, 1, 0, 0, 23, 1, 0, 25, 25, 48, 27, 45]"

definition http_parser_start :: nat where
  "http_parser_start = 1"

definition http_parser_first_final :: nat where
  "http_parser_first_final = 71"

definition http_parser_error :: nat where
  "http_parser_error = 0"

definition http_parser_en_main :: nat where
  "http_parser_en_main = 1"

section \<open>The parser's state\<close>

datatype http_parse_type = http_parse_none | http_parse_request | http_parse_response

record http_parser =
  cs :: nat
  nread :: nat
  mark :: "nat option"
  query_start :: "nat option"
  field_start :: "nat option"
  field_len :: nat

definition parser_reset :: "http_parser \<Rightarrow> http_parser" where
  "parser_reset st =
     st\<lparr> nread := 0, mark := None, query_start := None, field_start := None, field_len := 0,
         cs := http_parser_en_main \<rparr>"

definition parser_has_error :: "http_parser \<Rightarrow> bool" where
  "parser_has_error st \<longleftrightarrow> cs st = http_parser_error"

definition parser_is_finished :: "http_parser \<Rightarrow> bool" where
  "parser_is_finished st \<longleftrightarrow> cs st = http_parser_first_final"

text \<open>\<open>SetBodyStart\<close> carries a pointer and a length; every other string is copied by the callee.\<close>

datatype parse_event =
    SetHeaderField string string
  | SetRequestMethod string
  | SetRequestUri string
  | SetFragment string
  | SetQueryString string
  | SetHttpVersion string
  | SetRequestPath string
  | SetStatusCode int
  | SetReasonPhrase string
  | SetParseType http_parse_type
  | SetBodyStart nat nat

section \<open>The transition of a state on a character\<close>

function find_single :: "int \<Rightarrow> nat \<Rightarrow> int \<Rightarrow> int \<Rightarrow> int option cxx" where
  "find_single c keys lower upper =
     (if upper < lower then Inr None
      else
        let mid = lower + (upper - lower) div 2 in
        bind_cxx (index_cxx http_parser_trans_keys (keys + nat mid)) (\<lambda>k.
          if c < k then find_single c keys lower (mid - 1)
          else if c > k then find_single c keys (mid + 1) upper
          else Inr (Some mid)))"
  by pat_completeness auto
termination
  by (relation "measure (\<lambda>(c, keys, lower, upper). nat (upper - lower + 1))") auto

function find_range :: "int \<Rightarrow> nat \<Rightarrow> int \<Rightarrow> int \<Rightarrow> int option cxx" where
  "find_range c keys lower upper =
     (if upper < lower then Inr None
      else
        let mid = lower + 2 * ((upper - lower) div 2 div 2) in
        bind_cxx (index_cxx http_parser_trans_keys (keys + nat mid)) (\<lambda>k0.
          if c < k0 then find_range c keys lower (mid - 2)
          else bind_cxx (index_cxx http_parser_trans_keys (keys + nat mid + 1)) (\<lambda>k1.
            if c > k1 then find_range c keys (mid + 2) upper
            else Inr (Some (mid div 2)))))"
  by pat_completeness auto
termination
  by (relation "measure (\<lambda>(c, keys, lower, upper). nat (upper - lower + 2))") auto

declare find_single.simps [simp del] find_range.simps [simp del]

definition find_trans :: "nat \<Rightarrow> int \<Rightarrow> nat cxx" where
  "find_trans state c =
     bind_cxx (table_at http_parser_key_offsets state) (\<lambda>keys.
     bind_cxx (table_at http_parser_index_offsets state) (\<lambda>trans.
     bind_cxx (table_at http_parser_single_lengths state) (\<lambda>singles.
     bind_cxx (table_at http_parser_range_lengths state) (\<lambda>ranges.
     bind_cxx (if singles > 0 then find_single c keys 0 (int singles - 1) else Inr None) (\<lambda>found.
     bind_cxx
       (case found of
          Some i \<Rightarrow> Inr (trans + nat i)
        | None \<Rightarrow>
            bind_cxx (if ranges > 0 then find_range c (keys + singles) 0 (2 * int ranges - 2) else Inr None) (\<lambda>found.
              case found of
                Some i \<Rightarrow> Inr (trans + singles + nat i)
              | None \<Rightarrow> Inr (trans + singles + ranges)))
       (table_at http_parser_indicies))))))"

section \<open>Actions and the execution loop\<close>

text \<open>The string from a start pointer to \<open>p\<close>; a null or later start is undefined.\<close>

definition mark_string :: "string \<Rightarrow> nat option \<Rightarrow> nat \<Rightarrow> string cxx" where
  "mark_string mem start p =
     (case start of
        None \<Rightarrow> Inl Undefined
      | Some m \<Rightarrow> if m \<le> p then read_range mem m (p - m) else Inl Undefined)"

text \<open>The third component is true when the action leaves the loop.\<close>

definition exec_action ::
  "string \<Rightarrow> nat \<Rightarrow> nat \<Rightarrow> nat \<Rightarrow> nat \<Rightarrow> http_parser \<Rightarrow> (http_parser \<times> parse_event list \<times> bool) cxx" where
  "exec_action mem buf len p act st =
     (if act = 0 then Inr (st\<lparr> mark := Some p \<rparr>, [], False)
      else if act = 1 then Inr (st\<lparr> field_start := Some p \<rparr>, [], False)
      else if act = 2 then
        (case field_start st of None \<Rightarrow> Inl Undefined
         | Some f \<Rightarrow> if f \<le> p then Inr (st\<lparr> field_len := p - f \<rparr>, [], False) else Inl Undefined)
      else if act = 3 then Inr (st\<lparr> mark := Some p \<rparr>, [], False)
      else if act = 4 then Inr (st\<lparr> query_start := Some p \<rparr>, [], False)
      else if act = 5 then
        (case field_start st of None \<Rightarrow> Inl Undefined
         | Some f \<Rightarrow> bind_cxx (read_range mem f (field_len st)) (\<lambda>name.
             bind_cxx (mark_string mem (mark st) p) (\<lambda>v. Inr (st, [SetHeaderField name v], False))))
      else if act = 6 then bind_cxx (mark_string mem (mark st) p) (\<lambda>s. Inr (st, [SetRequestMethod s], False))
      else if act = 7 then bind_cxx (mark_string mem (mark st) p) (\<lambda>s. Inr (st, [SetRequestUri s], False))
      else if act = 8 then bind_cxx (mark_string mem (mark st) p) (\<lambda>s. Inr (st, [SetFragment s], False))
      else if act = 9 then bind_cxx (mark_string mem (query_start st) p) (\<lambda>s. Inr (st, [SetQueryString s], False))
      else if act = 10 then bind_cxx (mark_string mem (mark st) p) (\<lambda>s. Inr (st, [SetHttpVersion s], False))
      else if act = 11 then bind_cxx (mark_string mem (mark st) p) (\<lambda>s. Inr (st, [SetRequestPath s], False))
      else if act = 12 then bind_cxx (mark_string mem (mark st) p) (\<lambda>s.
        bind_cxx (atoi s) (\<lambda>code. Inr (st, [SetStatusCode code], False)))
      else if act = 13 then bind_cxx (mark_string mem (mark st) p) (\<lambda>s. Inr (st, [SetReasonPhrase s], False))
      else if act = 14 then Inr (st, [SetParseType http_parse_response], False)
      else if act = 15 then Inr (st, [SetParseType http_parse_request], False)
      else if act = 16 then Inr (st, [SetBodyStart (p + 1) (len - (p + 1 - buf))], True)
      else Inr (st, [], False))"

fun exec_actions ::
  "string \<Rightarrow> nat \<Rightarrow> nat \<Rightarrow> nat \<Rightarrow> nat list \<Rightarrow> http_parser \<Rightarrow> (http_parser \<times> parse_event list \<times> bool) cxx" where
  "exec_actions mem buf len p [] st = Inr (st, [], False)"
| "exec_actions mem buf len p (act # acts) st =
     bind_cxx (exec_action mem buf len p act st) (\<lambda>(st, evs, out).
       if out then Inr (st, evs, True)
       else bind_cxx (exec_actions mem buf len p acts st) (\<lambda>(st, evs', out). Inr (st, evs @ evs', out)))"

definition action_list :: "nat \<Rightarrow> nat list cxx" where
  "action_list tr =
     bind_cxx (table_at http_parser_trans_actions tr) (\<lambda>a.
       if a = 0 then Inr []
       else bind_cxx (table_at http_parser_actions a) (\<lambda>n. bind_cxx (read_range http_parser_actions (a + 1) n) (\<lambda>acts. Inr (map nat acts))))"

text \<open>From \<^verbatim>\<open>_resume\<close> to \<^verbatim>\<open>_out\<close>; the result has the final position.\<close>

function parse_exec ::
  "string \<Rightarrow> nat \<Rightarrow> nat \<Rightarrow> nat \<Rightarrow> http_parser \<Rightarrow> (http_parser \<times> parse_event list \<times> nat) cxx" where
  "parse_exec mem buf len p st =
     bind_cxx (index_cxx mem p) (\<lambda>c.
     bind_cxx (find_trans (cs st) (schar c)) (\<lambda>trans.
     bind_cxx (table_at http_parser_trans_targs trans) (\<lambda>targ.
     bind_cxx (action_list trans) (\<lambda>acts.
     bind_cxx (exec_actions mem buf len p acts (st\<lparr> cs := targ \<rparr>)) (\<lambda>(st, evs, out).
       if out then Inr (st, evs, p + 1)
       else if cs st = 0 then Inr (st, evs, p)
       else if p + 1 \<noteq> buf + len
       then bind_cxx (parse_exec mem buf len (p + 1) st) (\<lambda>(st, evs', p). Inr (st, evs @ evs', p))
       else Inr (st, evs, p + 1))))))"
  by pat_completeness auto
termination
  by (relation "measure (\<lambda>(mem, buf, len, p, st). length mem - p)") (auto simp: index_cxx_Inr_iff)

declare parse_exec.simps [simp del]

definition parse :: "string \<Rightarrow> nat \<Rightarrow> nat \<Rightarrow> http_parser \<Rightarrow> (nat \<times> http_parser \<times> parse_event list) cxx" where
  "parse mem buf len st =
     (if len = 0 \<or> cs st = 0 then Inr (nread st, st, [])
      else bind_cxx (parse_exec mem buf len buf st) (\<lambda>(st, evs, p).
        let st = st\<lparr> nread := nread st + (p - buf) \<rparr> in Inr (nread st, st, evs)))"

section \<open>The tables are consistent\<close>

definition n_states :: nat where
  "n_states = 72"

definition singles_of :: "nat \<Rightarrow> nat" where
  "singles_of s = nat (http_parser_single_lengths ! s)"

definition ranges_of :: "nat \<Rightarrow> nat" where
  "ranges_of s = nat (http_parser_range_lengths ! s)"

definition trans_targ :: "nat \<Rightarrow> nat" where
  "trans_targ t = nat (http_parser_trans_targs ! t)"

definition slot_trans :: "nat \<Rightarrow> nat \<Rightarrow> nat" where
  "slot_trans s i = nat (http_parser_indicies ! (nat (http_parser_index_offsets ! s) + i))"

definition slot_key :: "nat \<Rightarrow> nat \<Rightarrow> int option" where
  "slot_key s i =
     (if i < singles_of s then Some (http_parser_trans_keys ! (nat (http_parser_key_offsets ! s) + i)) else None)"

lemma tables_ok:
  "ragel_ok 72 http_parser_actions http_parser_key_offsets http_parser_trans_keys http_parser_single_lengths
     http_parser_range_lengths http_parser_index_offsets http_parser_indicies http_parser_trans_targs http_parser_trans_actions"
  by code_simp

interpretation parser_machine: ragel_machine n_states http_parser_actions http_parser_key_offsets http_parser_trans_keys
  http_parser_single_lengths http_parser_range_lengths http_parser_index_offsets http_parser_indicies
  http_parser_trans_targs http_parser_trans_actions find_single find_range find_trans action_list
  by unfold_locales (rule tables_ok [folded n_states_def] find_single.simps find_range.simps find_trans_def action_list_def)+

lemma trans_tables:
  assumes "s < n_states" "i \<le> singles_of s + ranges_of s"
  shows "table_at http_parser_trans_targs (slot_trans s i) = Inr (trans_targ (slot_trans s i))"
    "trans_targ (slot_trans s i) < n_states"
  using parser_machine.slot_tables [OF assms [unfolded singles_of_def ranges_of_def]]
  by (simp_all add: slot_trans_def trans_targ_def)

lemma find_trans_slot:
  assumes "s < n_states"
  shows "\<exists>i. find_trans s c = Inr (slot_trans s i) \<and> i \<le> singles_of s + ranges_of s \<and>
           (\<forall>k. slot_key s i = Some k \<longrightarrow> k = c)"
  using parser_machine.slot_found [OF assms, of c]
  by (auto simp: slot_trans_def slot_key_def singles_of_def ranges_of_def)

section \<open>What is known in each state\<close>

text \<open>
  Facts about the pointers: the mark is set (\<open>f_mark\<close>), before the current position (\<open>f_old\<close>), at a
  slash that starts a text without NUL (\<open>f_slash\<close>), at a known distance (\<open>f_dist\<close>); the field start
  is set (\<open>f_field\<close>) and its length does not pass the position (\<open>f_len\<close>); the query start is set.
\<close>

record flow =
  f_mark :: bool
  f_old :: bool
  f_slash :: bool
  f_dist :: "nat option"
  f_field :: bool
  f_len :: bool
  f_query :: bool

definition flow_of :: "nat \<Rightarrow> flow" where
  "flow_of s =
     \<lparr> f_mark = (s \<noteq> 1), f_old = (s \<noteq> 1), f_slash = (s = 30 \<or> s = 31 \<or> s = 32),
       f_dist = (if s = 65 then Some 1 else if s = 66 then Some 2 else if s = 67 then Some 3 else None),
       f_field = (16 \<le> s \<and> s \<le> 20), f_len = (s = 17 \<or> s = 18),
       f_query = (s = 34 \<or> s = 35 \<or> s = 36) \<rparr>"

definition flow_action :: "int option \<Rightarrow> nat \<Rightarrow> flow \<Rightarrow> flow option" where
  "flow_action key act a =
     (if act = 0 \<or> act = 3
      then Some (a\<lparr> f_mark := True, f_old := False, f_slash := (key = Some 47), f_dist := Some 0 \<rparr>)
      else if act = 1 then Some (a\<lparr> f_field := True, f_len := False \<rparr>)
      else if act = 2 then (if f_field a then Some (a\<lparr> f_len := True \<rparr>) else None)
      else if act = 4 then Some (a\<lparr> f_query := True \<rparr>)
      else if act = 5 then (if f_field a \<and> f_len a \<and> f_mark a then Some a else None)
      else if act = 9 then (if f_query a then Some a else None)
      else if act = 11 then (if f_mark a \<and> f_old a \<and> f_slash a then Some a else None)
      else if act = 12 then (if f_mark a \<and> f_dist a = Some 3 then Some a else None)
      else if act \<in> {6, 7, 8, 10, 13} then (if f_mark a then Some a else None)
      else Some a)"

fun flow_actions :: "int option \<Rightarrow> nat list \<Rightarrow> flow \<Rightarrow> flow option" where
  "flow_actions key [] a = Some a"
| "flow_actions key (act # acts) a =
     (case flow_action key act a of None \<Rightarrow> None | Some a \<Rightarrow> flow_actions key acts a)"

text \<open>After the step the position is one further.\<close>

definition flow_next :: "flow \<Rightarrow> flow" where
  "flow_next a = a\<lparr> f_old := f_mark a, f_dist := map_option Suc (f_dist a) \<rparr>"

definition flow_le :: "flow \<Rightarrow> flow \<Rightarrow> bool" where
  "flow_le a b \<longleftrightarrow>
     (f_mark a \<longrightarrow> f_mark b) \<and> (f_old a \<longrightarrow> f_old b) \<and> (f_slash a \<longrightarrow> f_slash b) \<and>
     (f_dist a \<noteq> None \<longrightarrow> f_dist b = f_dist a) \<and>
     (f_field a \<longrightarrow> f_field b) \<and> (f_len a \<longrightarrow> f_len b) \<and> (f_query a \<longrightarrow> f_query b)"

definition slot_ok :: "nat \<Rightarrow> nat \<Rightarrow> bool" where
  "slot_ok s i =
     (case action_list (slot_trans s i) of
        Inl _ \<Rightarrow> False
      | Inr acts \<Rightarrow>
          (case flow_actions (slot_key s i) acts (flow_of s) of
             None \<Rightarrow> False
           | Some a \<Rightarrow>
               let targ = trans_targ (slot_trans s i) in
               (16 \<in> set acts \<longleftrightarrow> targ = 71) \<and>
               (targ = 0 \<or> flow_le (flow_of targ) (flow_next a) \<and>
                 (f_slash (flow_of targ) \<longrightarrow> f_slash (flow_of s) \<or> slot_key s i = Some 47))))"

text \<open>The check of all transitions of all states but the error state.\<close>

lemma all_slots_ok:
  "list_all (\<lambda>s. list_all (slot_ok s) [0..<singles_of s + ranges_of s + 1]) [1..<72]"
  by code_simp

lemma slot_ok: "0 < s \<Longrightarrow> s < n_states \<Longrightarrow> i \<le> singles_of s + ranges_of s \<Longrightarrow> slot_ok s i"
  using all_slots_ok unfolding list_all_iff n_states_def by fastforce

text \<open>No NUL character continues a path.\<close>

lemma path_states_reject_NUL:
  "s = 30 \<or> s = 31 \<or> s = 32 \<Longrightarrow> \<exists>t. find_trans s 0 = Inr t \<and> trans_targ t = 0"
proof -
  have "\<exists>t. find_trans 30 0 = Inr t \<and> trans_targ t = 0"
    by (rule exI [of _ 1]) code_simp
  moreover have "\<exists>t. find_trans 31 0 = Inr t \<and> trans_targ t = 0"
    by (rule exI [of _ 1]) code_simp
  moreover have "\<exists>t. find_trans 32 0 = Inr t \<and> trans_targ t = 0"
    by (rule exI [of _ 1]) code_simp
  ultimately show "s = 30 \<or> s = 31 \<or> s = 32 \<Longrightarrow> ?thesis"
    by blast
qed

section \<open>The parser is memory safe\<close>

definition mark_ok :: "string \<Rightarrow> nat \<Rightarrow> nat \<Rightarrow> flow \<Rightarrow> bool" where
  "mark_ok mem p m a \<longleftrightarrow>
     m \<le> p \<and> (f_old a \<longrightarrow> m < p) \<and> (\<forall>d. f_dist a = Some d \<longrightarrow> p = m + d) \<and>
     (f_slash a \<longrightarrow> mem ! m = CHR ''/'' \<and> (\<forall>i. m \<le> i \<and> i < p \<longrightarrow> mem ! i \<noteq> NUL))"

definition flow_holds :: "string \<Rightarrow> nat \<Rightarrow> http_parser \<Rightarrow> flow \<Rightarrow> bool" where
  "flow_holds mem p st a \<longleftrightarrow>
     (f_mark a \<longrightarrow> (\<exists>m. mark st = Some m \<and> mark_ok mem p m a)) \<and>
     (f_field a \<longrightarrow> (\<exists>f. field_start st = Some f \<and> f \<le> p \<and> (f_len a \<longrightarrow> f + field_len st \<le> p))) \<and>
     (f_query a \<longrightarrow> (\<exists>q. query_start st = Some q \<and> q \<le> p)) \<and>
     (f_len a \<longrightarrow> f_field a)"

definition event_ok :: "parse_event \<Rightarrow> bool" where
  "event_ok ev = (case ev of SetRequestPath s \<Rightarrow> s \<noteq> [] \<and> hd s = CHR ''/'' \<and> NUL \<notin> set s | _ \<Rightarrow> True)"

lemma flow_holds_cs [simp]: "flow_holds mem p (st\<lparr> cs := s \<rparr>) a = flow_holds mem p st a"
  by (simp add: flow_holds_def)

lemma mark_string_ok:
  assumes "flow_holds mem p st a" "f_mark a" "p < length mem"
  shows "\<exists>m. mark st = Some m \<and> mark_ok mem p m a \<and> mark_string mem (mark st) p = Inr (take (p - m) (drop m mem))"
  using assms by (auto simp: flow_holds_def mark_ok_def mark_string_def)

lemma path_string:
  assumes "mark_ok mem p m a" "f_old a" "f_slash a" "p < length mem"
  shows "event_ok (SetRequestPath (take (p - m) (drop m mem)))"
proof -
  have m: "m < p" "mem ! m = CHR ''/''" "\<forall>i. m \<le> i \<and> i < p \<longrightarrow> mem ! i \<noteq> NUL"
    using assms by (auto simp: mark_ok_def)
  then have "take (p - m) (drop m mem) \<noteq> []" "hd (take (p - m) (drop m mem)) = CHR ''/''"
    using assms(4) by (auto simp: hd_drop_conv_nth)
  moreover have "NUL \<notin> set (take (p - m) (drop m mem))"
    using m(3) assms(4) by (fastforce simp: in_set_conv_nth)
  ultimately show ?thesis
    by (simp add: event_ok_def)
qed

text \<open>One action, whatever it is, keeps the facts that the analysis derives for it.\<close>

lemma exec_action_ok:
  assumes "flow_holds mem p st a" "flow_action key act a = Some a'" "p < length mem" "\<forall>k. key = Some k \<longrightarrow> k = schar (mem ! p)"
  shows "\<exists>st' evs out. exec_action mem buf len p act st = Inr (st', evs, out) \<and> cs st' = cs st \<and>
           flow_holds mem p st' a' \<and> list_all event_ok evs"
proof -
  have slash: "key = Some 47 \<Longrightarrow> mem ! p = CHR ''/''"
  proof -
    assume "key = Some 47"
    then have "schar (mem ! p) = schar CHR ''/''"
      using assms(4) by (simp add: schar_def)
    then show ?thesis by (simp add: schar_inj)
  qed
  consider "act = 0 \<or> act = 3" | "act = 1" | "act = 2" | "act = 4" | "act = 5" | "act = 9" | "act = 11" | "act = 12"
    | "act \<in> {6, 7, 8, 10, 13}" | "act \<notin> {0, 1, 2, 3, 4, 5, 6, 7, 8, 9, 10, 11, 12, 13}"
    by blast
  then show ?thesis
  proof cases
    case 1
    then have "exec_action mem buf len p act st = Inr (st\<lparr> mark := Some p \<rparr>, [], False)"
      and a': "a' = a\<lparr> f_mark := True, f_old := False, f_slash := (key = Some 47), f_dist := Some 0 \<rparr>"
      using assms(2) by (auto simp: exec_action_def flow_action_def)
    moreover have "flow_holds mem p (st\<lparr> mark := Some p \<rparr>) a'"
      using assms(1) slash unfolding a' flow_holds_def by (auto simp: mark_ok_def)
    ultimately show ?thesis
      by (intro exI [of _ "st\<lparr> mark := Some p \<rparr>"] exI [of _ "[]"] exI [of _ False]) simp
  next
    case 2
    then show ?thesis
      using assms by (auto simp: exec_action_def flow_action_def flow_holds_def mark_ok_def)
  next
    case 3
    then show ?thesis
      using assms by (auto simp: exec_action_def flow_action_def flow_holds_def mark_ok_def split: if_splits)
  next
    case 4
    then show ?thesis
      using assms by (auto simp: exec_action_def flow_action_def flow_holds_def mark_ok_def)
  next
    case 5
    then have a: "a' = a" "f_field a" "f_len a" "f_mark a"
      using assms(2) by (auto simp: flow_action_def split: if_splits)
    obtain f where "field_start st = Some f" "f + field_len st \<le> p"
      using assms(1) a by (auto simp: flow_holds_def)
    then show ?thesis
      using mark_string_ok [OF assms(1) a(4) assms(3)] assms 5 a by (auto simp: exec_action_def event_ok_def)
  next
    case 6
    then have a: "a' = a" "f_query a"
      using assms(2) by (auto simp: flow_action_def split: if_splits)
    obtain q where "query_start st = Some q" "q \<le> p"
      using assms(1) a by (auto simp: flow_holds_def)
    then show ?thesis
      using assms 6 a by (auto simp: exec_action_def event_ok_def mark_string_def)
  next
    case 7
    then have a: "a' = a" "f_mark a" "f_old a" "f_slash a"
      using assms(2) by (auto simp: flow_action_def split: if_splits)
    from mark_string_ok [OF assms(1) a(2) assms(3)] path_string [OF _ a(3,4) assms(3)] show ?thesis
      using assms 7 a by (auto simp: exec_action_def)
  next
    case 8
    then have a: "a' = a" "f_mark a" "f_dist a = Some 3"
      using assms(2) by (auto simp: flow_action_def split: if_splits)
    obtain m where m: "mark_ok mem p m a" "mark_string mem (mark st) p = Inr (take (p - m) (drop m mem))"
      using mark_string_ok [OF assms(1) a(2) assms(3)] by blast
    then have "length (take (p - m) (drop m mem)) \<le> 9"
      using a(3) assms(3) by (simp add: mark_ok_def)
    with atoi_short m(2) show ?thesis
      using assms 8 a by (fastforce simp: exec_action_def event_ok_def)
  next
    case 9
    then have a: "a' = a" "f_mark a"
      using assms(2) by (auto simp: flow_action_def split: if_splits)
    from mark_string_ok [OF assms(1) a(2) assms(3)] show ?thesis
      using assms 9 a by (auto simp: exec_action_def event_ok_def)
  next
    case 10
    then show ?thesis
      using assms by (auto simp: exec_action_def flow_action_def event_ok_def)
  qed
qed

lemma exec_action_out: "exec_action mem buf len p act st = Inr (st', evs, out) \<Longrightarrow> out \<longleftrightarrow> act = 16"
  by (auto simp: exec_action_def bind_cxx_Inr_iff split: if_splits option.splits)

lemma exec_actions_out: "exec_actions mem buf len p acts st = Inr (st', evs, out) \<Longrightarrow> out \<longleftrightarrow> 16 \<in> set acts"
  by (induction acts arbitrary: st st' evs out)
    (auto simp: bind_cxx_Inr_iff split: if_splits dest: exec_action_out)

lemma exec_actions_ok:
  assumes "flow_holds mem p st a" "flow_actions key acts a = Some a'" "p < length mem" "\<forall>k. key = Some k \<longrightarrow> k = schar (mem ! p)"
  shows "\<exists>st' evs out. exec_actions mem buf len p acts st = Inr (st', evs, out) \<and> cs st' = cs st \<and>
           list_all event_ok evs \<and> (\<not> out \<longrightarrow> flow_holds mem p st' a')"
  using assms(1,2)
proof (induction acts arbitrary: st a)
  case (Cons act acts)
  then obtain a1 where a1: "flow_action key act a = Some a1" "flow_actions key acts a1 = Some a'"
    by (auto split: option.splits)
  obtain st1 evs out where s: "exec_action mem buf len p act st = Inr (st1, evs, out)" "cs st1 = cs st"
      "flow_holds mem p st1 a1" "list_all event_ok evs"
    using exec_action_ok [OF Cons(2) a1(1) assms(3,4)] by blast
  show ?case
  proof (cases out)
    case False
    with Cons.IH [OF s(3) a1(2)] s show ?thesis by auto
  qed (use s in auto)
qed auto

text \<open>One step of the loop.\<close>

lemma flow_holds_next:
  assumes "flow_holds mem p st a" "flow_le b (flow_next a)" "f_slash b \<longrightarrow> mem ! p \<noteq> NUL" "f_len b \<longrightarrow> f_field b"
  shows "flow_holds mem (p + 1) st b"
proof -
  have mark: "\<exists>m. mark st = Some m \<and> mark_ok mem (p + 1) m b" if "f_mark b"
  proof -
    have "f_mark a"
      using assms(2) that by (simp add: flow_le_def flow_next_def)
    then obtain m where m: "mark st = Some m" "mark_ok mem p m a"
      using assms(1) by (auto simp: flow_holds_def)
    have "\<forall>d. f_dist b = Some d \<longrightarrow> p + 1 = m + d"
      using m(2) assms(2) by (auto simp: mark_ok_def flow_le_def flow_next_def)
    moreover have "f_slash b \<longrightarrow> mem ! m = CHR ''/'' \<and> (\<forall>i. m \<le> i \<and> i < p + 1 \<longrightarrow> mem ! i \<noteq> NUL)"
      using m(2) assms(2,3) by (auto simp: mark_ok_def flow_le_def flow_next_def less_Suc_eq)
    ultimately have "mark_ok mem (p + 1) m b"
      using m(2) by (simp add: mark_ok_def)
    with m(1) show ?thesis by blast
  qed
  have "f_field b \<longrightarrow> (\<exists>f. field_start st = Some f \<and> f \<le> p + 1 \<and> (f_len b \<longrightarrow> f + field_len st \<le> p + 1))"
    "f_query b \<longrightarrow> (\<exists>q. query_start st = Some q \<and> q \<le> p + 1)"
    using assms(1,2) by (auto simp: flow_holds_def flow_le_def flow_next_def)
  with mark assms(4) show ?thesis
    unfolding flow_holds_def by blast
qed

lemma schar_NUL: "schar NUL = 0"
  by (simp add: schar_def)

definition parser_ok :: "string \<Rightarrow> nat \<Rightarrow> http_parser \<Rightarrow> bool" where
  "parser_ok mem p st \<longleftrightarrow> cs st < n_states \<and> (cs st \<noteq> 0 \<longrightarrow> cs st \<noteq> 71 \<longrightarrow> flow_holds mem p st (flow_of (cs st)))"

lemma parse_step_ok:
  assumes "parser_ok mem p st" "cs st \<noteq> 0" "cs st \<noteq> 71" "p < length mem"
  shows "\<exists>t acts st' evs out. find_trans (cs st) (schar (mem ! p)) = Inr t \<and>
    table_at http_parser_trans_targs t = Inr (trans_targ t) \<and> action_list t = Inr acts \<and>
    exec_actions mem buf len p acts (st\<lparr> cs := trans_targ t \<rparr>) = Inr (st', evs, out) \<and>
    list_all event_ok evs \<and> cs st' = trans_targ t \<and> trans_targ t < n_states \<and>
    (out \<longleftrightarrow> cs st' = 71) \<and> (out \<or> cs st' = 0 \<or> flow_holds mem (p + 1) st' (flow_of (cs st')))"
proof -
  let ?s = "cs st"
  have s: "?s < n_states" "0 < ?s" and holds: "flow_holds mem p st (flow_of ?s)"
    using assms by (auto simp: parser_ok_def)
  obtain i where i: "find_trans ?s (schar (mem ! p)) = Inr (slot_trans ?s i)" "i \<le> singles_of ?s + ranges_of ?s"
      "\<forall>k. slot_key ?s i = Some k \<longrightarrow> k = schar (mem ! p)"
    using find_trans_slot [OF s(1)] by blast
  let ?t = "slot_trans ?s i"
  note t = trans_tables [OF s(1) i(2)]
  obtain acts a where a: "action_list ?t = Inr acts" "flow_actions (slot_key ?s i) acts (flow_of ?s) = Some a"
      "trans_targ ?t = 0 \<or> flow_le (flow_of (trans_targ ?t)) (flow_next a) \<and>
        (f_slash (flow_of (trans_targ ?t)) \<longrightarrow> f_slash (flow_of ?s) \<or> slot_key ?s i = Some 47)"
      "16 \<in> set acts \<longleftrightarrow> trans_targ ?t = 71"
    using slot_ok [OF s(2,1) i(2)] by (auto simp: slot_ok_def Let_def split: sum.splits option.splits)
  have "flow_holds mem p (st\<lparr> cs := trans_targ ?t \<rparr>) (flow_of ?s)"
    using holds by simp
  from exec_actions_ok [OF this a(2) assms(4) i(3)] obtain st' evs out where e:
      "exec_actions mem buf len p acts (st\<lparr> cs := trans_targ ?t \<rparr>) = Inr (st', evs, out)" "cs st' = trans_targ ?t"
      "list_all event_ok evs" "\<not> out \<longrightarrow> flow_holds mem p st' a"
    by fastforce
  have nul: "mem ! p \<noteq> NUL" if "f_slash (flow_of (trans_targ ?t))" "trans_targ ?t \<noteq> 0"
  proof
    assume z: "mem ! p = NUL"
    have "f_slash (flow_of ?s) \<or> slot_key ?s i = Some 47"
      using that a(3) by metis
    then consider "f_slash (flow_of ?s)" | "slot_key ?s i = Some 47"
      by blast
    then show False
    proof cases
      case 1
      then show ?thesis
        using path_states_reject_NUL [of ?s] i(1) that(2) by (auto simp: z schar_NUL flow_of_def)
    next
      case 2
      then show ?thesis
        using i(3) by (simp add: z schar_NUL)
    qed
  qed
  have "out \<or> cs st' = 0 \<or> flow_holds mem (p + 1) st' (flow_of (cs st'))"
  proof (cases "out \<or> cs st' = 0")
    case False
    then have "flow_holds mem p st' a" "flow_le (flow_of (cs st')) (flow_next a)" "f_slash (flow_of (cs st')) \<longrightarrow> mem ! p \<noteq> NUL"
      using e(2,4) a(3) nul by simp_all
    moreover have "f_len (flow_of (cs st')) \<longrightarrow> f_field (flow_of (cs st'))"
      by (auto simp: flow_of_def)
    ultimately show ?thesis
      by (intro disjI2 flow_holds_next)
  qed auto
  moreover have "out \<longleftrightarrow> cs st' = 71"
    using exec_actions_out [OF e(1)] a(4) e(2) by simp
  ultimately show ?thesis
    using i(1) t a(1) e
    by (intro exI [of _ ?t] exI [of _ acts] exI [of _ st'] exI [of _ evs] exI [of _ out]) simp
qed

lemma parse_exec_step:
  assumes "p < length mem" "find_trans (cs st) (schar (mem ! p)) = Inr t"
    "table_at http_parser_trans_targs t = Inr (trans_targ t)" "action_list t = Inr acts"
    "exec_actions mem buf len p acts (st\<lparr> cs := trans_targ t \<rparr>) = Inr (st', evs, out)"
  shows "parse_exec mem buf len p st =
     (if out then Inr (st', evs, p + 1) else if cs st' = 0 then Inr (st', evs, p)
      else if p + 1 \<noteq> buf + len
      then bind_cxx (parse_exec mem buf len (p + 1) st') (\<lambda>(st, evs', p). Inr (st, evs @ evs', p))
      else Inr (st', evs, p + 1))"
  using assms by (subst parse_exec.simps) simp

lemma parse_exec_ok:
  assumes "parser_ok mem p st" "cs st \<noteq> 0" "cs st \<noteq> 71" "p < buf + len" "buf + len \<le> length mem"
  shows "\<exists>st' evs p'. parse_exec mem buf len p st = Inr (st', evs, p') \<and> parser_ok mem p' st' \<and>
           list_all event_ok evs \<and> p \<le> p' \<and> p' \<le> buf + len"
  using assms
proof (induction mem buf len p st rule: parse_exec.induct)
  case (1 mem buf len p st)
  then have p: "p < length mem" by simp
  obtain t acts st' evs out where s: "find_trans (cs st) (schar (mem ! p)) = Inr t"
      "table_at http_parser_trans_targs t = Inr (trans_targ t)" "action_list t = Inr acts"
      "exec_actions mem buf len p acts (st\<lparr> cs := trans_targ t \<rparr>) = Inr (st', evs, out)"
      "list_all event_ok evs" "cs st' = trans_targ t" "trans_targ t < n_states"
      "out \<longleftrightarrow> cs st' = 71" "out \<or> cs st' = 0 \<or> flow_holds mem (p + 1) st' (flow_of (cs st'))"
    using parse_step_ok [OF 1(2-4) p] by blast
  note step = parse_exec_step [OF p s(1-4)]
  consider (stop) "out \<or> cs st' = 0 \<or> p + 1 = buf + len" | (more) "\<not> out" "cs st' \<noteq> 0" "p + 1 \<noteq> buf + len"
    by blast
  then show ?case
  proof cases
    case stop
    then show ?thesis
      unfolding step using s(5-9) 1(5) by (auto simp: parser_ok_def)
  next
    case more
    then have "parser_ok mem (p + 1) st'" "cs st' \<noteq> 71" "p + 1 < buf + len"
      using s(6-9) 1(5) by (auto simp: parser_ok_def)
    with 1(1) [of "mem ! p" t "trans_targ t" acts "(st', evs, out)" st' "(evs, out)" evs out] s more p 1(6)
    show ?thesis
      unfolding step by fastforce
  qed
qed

lemma parser_ok_nread [simp]: "parser_ok mem p (st\<lparr> nread := n \<rparr>) = parser_ok mem p st"
  by (simp add: parser_ok_def flow_holds_def)

lemma parse_nread: "parse mem buf len st = Inr (n, st', evs) \<Longrightarrow> n = nread st'"
  by (auto simp: parse_def bind_cxx_Inr_iff Let_def split: if_splits)

lemma parse_ok:
  assumes "parser_ok mem buf st" "cs st \<noteq> 71" "buf + len \<le> length mem"
  shows "\<exists>k n st' evs. parse mem buf len st = Inr (n, st', evs) \<and> k \<le> len \<and>
           parser_ok mem (buf + k) st' \<and> list_all event_ok evs"
proof (cases "len = 0 \<or> cs st = 0")
  case True
  then show ?thesis
    using assms by (simp add: parse_def) (rule exI [of _ 0], simp)
next
  case False
  then obtain st' evs p' where e: "parse_exec mem buf len buf st = Inr (st', evs, p')" "parser_ok mem p' st'"
      "list_all event_ok evs" "buf \<le> p'" "p' \<le> buf + len"
    using parse_exec_ok [OF assms(1) _ assms(2) _ assms(3)] by auto
  then show ?thesis
    using False by (simp add: parse_def Let_def) (rule exI [of _ "p' - buf"], simp)
qed

section \<open>A head may arrive in pieces\<close>

lemma exec_action_len:
  "exec_action mem buf len p act st = Inr (st', evs, False) \<Longrightarrow>
   exec_action mem buf' len' p act st = Inr (st', evs, False)"
  by (auto simp: exec_action_def split: if_splits)

lemma exec_actions_len:
  "exec_actions mem buf len p acts st = Inr (st', evs, False) \<Longrightarrow>
   exec_actions mem buf' len' p acts st = Inr (st', evs, False)"
proof (induction acts arbitrary: st st' evs)
  case (Cons act acts)
  then obtain st1 e1 e2 where s: "exec_action mem buf len p act st = Inr (st1, e1, False)"
      "exec_actions mem buf len p acts st1 = Inr (st', e2, False)" "evs = e1 @ e2"
    by (auto simp: bind_cxx_Inr_iff split: if_splits)
  from exec_action_len [OF s(1), of buf' len'] Cons.IH [OF s(2)] s(3) show ?case
    by simp
qed simp

lemma exec_actions_shift:
  "buf + len1 \<le> p \<Longrightarrow> exec_actions mem buf (len1 + len2) p acts st = exec_actions mem (buf + len1) len2 p acts st"
proof (induction acts arbitrary: st)
  case (Cons act acts)
  then have "exec_action mem buf (len1 + len2) p act st = exec_action mem (buf + len1) len2 p act st"
    by (auto simp: exec_action_def)
  with Cons show ?case by (simp cong: if_cong)
qed simp

lemma parse_exec_shift:
  "buf + len1 \<le> p \<Longrightarrow> parse_exec mem buf (len1 + len2) p st = parse_exec mem (buf + len1) len2 p st"
proof (induction mem "buf + len1" len2 p st rule: parse_exec.induct)
  case (1 mem len2 p st)
  show ?case
    unfolding parse_exec.simps [of mem buf "len1 + len2" p st] parse_exec.simps [of mem "buf + len1" len2 p st]
      exec_actions_shift [OF 1(2)]
    using 1 by (intro bind_cxx_cong refl) (auto intro!: bind_cxx_cong split: prod.splits simp: add.assoc)
qed

lemma parse_exec_split:
  assumes "parser_ok mem p st" "cs st \<noteq> 0" "cs st \<noteq> 71" "p < buf + len1" "buf + len1 + len2 \<le> length mem" "0 < len2"
    and "parse_exec mem buf len1 p st = Inr (st1, evs1, p1)" "cs st1 \<noteq> 0" "cs st1 \<noteq> 71"
  shows "p1 = buf + len1 \<and> parse_exec mem buf (len1 + len2) p st =
    bind_cxx (parse_exec mem (buf + len1) len2 (buf + len1) st1) (\<lambda>(st, evs, p). Inr (st, evs1 @ evs, p))"
  using assms
proof (induction mem buf len1 p st arbitrary: st1 evs1 p1 rule: parse_exec.induct)
  case (1 mem buf len p st)
  then have p: "p < length mem" by simp
  obtain t acts st' evs out where s: "find_trans (cs st) (schar (mem ! p)) = Inr t"
      "table_at http_parser_trans_targs t = Inr (trans_targ t)" "action_list t = Inr acts"
      "exec_actions mem buf len p acts (st\<lparr> cs := trans_targ t \<rparr>) = Inr (st', evs, out)"
      "list_all event_ok evs" "cs st' = trans_targ t" "trans_targ t < n_states"
      "out \<longleftrightarrow> cs st' = 71" "out \<or> cs st' = 0 \<or> flow_holds mem (p + 1) st' (flow_of (cs st'))"
    using parse_step_ok [OF 1(2-4) p] by blast
  note step = parse_exec_step [OF p s(1-4)]
  have nout: "\<not> out" "cs st' \<noteq> 0"
    using 1(8-10) s(8) unfolding step by (auto split: if_splits)
  then have "exec_actions mem buf len p acts (st\<lparr> cs := trans_targ t \<rparr>) = Inr (st', evs, False)"
    using s(4) by simp
  note acts = exec_actions_len [OF this, of buf "len + len2"]
  note full = parse_exec_step [OF p s(1-3) acts]
  have ok: "parser_ok mem (p + 1) st'" "cs st' \<noteq> 71"
    using nout s(6-9) by (auto simp: parser_ok_def)
  show ?case
  proof (cases "p + 1 = buf + len")
    case True
    then have "st1 = st'" "evs1 = evs" "p1 = buf + len"
      using 1(8) nout unfolding step by auto
    with True nout 1(7) parse_exec_shift [of buf len "p + 1" mem len2 st'] show ?thesis
      unfolding full by simp
  next
    case False
    then obtain evs' where r: "parse_exec mem buf len (p + 1) st' = Inr (st1, evs', p1)" "evs1 = evs @ evs'"
      using 1(8) nout unfolding step by (auto simp: bind_cxx_Inr_iff)
    have "p + 1 < buf + len"
      using 1(5) False by simp
    from 1(1) [of "mem ! p" t "trans_targ t" acts "(st', evs, out)" st' "(evs, out)" evs out, OF _ s(1-4) refl refl nout False ok(1) nout(2) ok(2) this 1(6,7) r(1) 1(9,10)]
    have ih: "p1 = buf + len" "parse_exec mem buf (len + len2) (p + 1) st' =
        bind_cxx (parse_exec mem (buf + len) len2 (buf + len) st1) (\<lambda>(st, e, p). Inr (st, evs' @ e, p))"
      using p by simp_all
    then show ?thesis
      unfolding full using nout 1(5,7) r(2) False by (auto simp: bind_cxx_def split: sum.splits)
  qed
qed


text \<open>The count of bytes read plays no part in the machine.\<close>

lemma exec_action_nread:
  "exec_action mem buf len p act (st\<lparr> nread := n \<rparr>) =
     bind_cxx (exec_action mem buf len p act st) (\<lambda>(st, evs, out). Inr (st\<lparr> nread := n \<rparr>, evs, out))"
  by (auto simp: exec_action_def bind_cxx_def split: sum.splits option.splits)

lemma exec_actions_nread:
  "exec_actions mem buf len p acts (st\<lparr> nread := n \<rparr>) =
     bind_cxx (exec_actions mem buf len p acts st) (\<lambda>(st, evs, out). Inr (st\<lparr> nread := n \<rparr>, evs, out))"
  by (induction acts arbitrary: st)
    (auto simp: exec_action_nread bind_cxx_def split: sum.splits prod.splits)

lemma parse_exec_nread:
  "parse_exec mem buf len p (st\<lparr> nread := n \<rparr>) =
     bind_cxx (parse_exec mem buf len p st) (\<lambda>(st, evs, p). Inr (st\<lparr> nread := n \<rparr>, evs, p))"
proof (induction mem buf len p st rule: parse_exec.induct)
  case (1 mem buf len p st)
  have upd: "st\<lparr> nread := n, cs := s \<rparr> = st\<lparr> cs := s \<rparr>\<lparr> nread := n \<rparr>" "cs (st\<lparr> nread := n \<rparr>) = cs st" for s
    by simp_all
  have ih: "parse_exec mem buf len (Suc p) (st'\<lparr> nread := n \<rparr>) =
      bind_cxx (parse_exec mem buf len (Suc p) st') (\<lambda>(st, evs, p). Inr (st\<lparr> nread := n \<rparr>, evs, p))"
    if "index_cxx mem p = Inr c" "find_trans (cs st) (schar c) = Inr tr" "table_at http_parser_trans_targs tr = Inr targ"
      "action_list tr = Inr acts" "exec_actions mem buf len p acts (st\<lparr> cs := targ \<rparr>) = Inr (st', evs, False)"
      "0 < cs st'" "Suc p \<noteq> buf + len" for c tr targ acts st' evs
    using 1 [OF that(1-5) refl refl] that(6,7) by (simp add: split_def)
  show ?case
    unfolding parse_exec.simps [of mem buf len p st] parse_exec.simps [of mem buf len p "st\<lparr> nread := n \<rparr>"]
      bind_cxx_assoc upd exec_actions_nread
    by (rule bind_cxx_cong [OF refl], rule bind_cxx_cong [OF refl], rule bind_cxx_cong [OF refl],
        rule bind_cxx_cong [OF refl], rule bind_cxx_cong [OF refl])
      (auto simp: ih, auto simp: bind_cxx_def split: prod.splits sum.splits)
qed

lemma parse_exec_keeps_nread:
  assumes "parse_exec mem buf len p st = Inr (st', evs, p')"
  shows "nread st' = nread st"
proof -
  have "st'\<lparr> nread := nread st \<rparr> = st'"
    using parse_exec_nread [where st = st and n = "nread st" and mem = mem and buf = buf and len = len and p = p] assms by simp
  then show ?thesis
    by (metis http_parser.select_convs(2) http_parser.surjective http_parser.update_convs(2))
qed

section \<open>The parser from its clients\<close>

text \<open>C2. On any bytes, a parser that has been reset, or that stopped in the middle of a head, returns without
  an access outside the buffer or the tables, reads at most the bytes it was given and stops in a state
  from which it can go on; every request path it reports is nonempty, starts with a slash and has no NUL.\<close>

theorem parse_memory_safe:
  assumes "parser_ok mem buf st" "\<not> parser_is_finished st" "buf + len \<le> length mem"
  shows "\<exists>k n st' evs. parse mem buf len st = Inr (n, st', evs) \<and> k \<le> len \<and> parser_ok mem (buf + k) st' \<and>
    (\<forall>s. SetRequestPath s \<in> set evs \<longrightarrow> s \<noteq> [] \<and> hd s = CHR ''/'' \<and> NUL \<notin> set s)"
proof -
  have "cs st \<noteq> 71"
    using assms(2) by (auto simp: parser_is_finished_def http_parser_first_final_def)
  from parse_ok [OF assms(1) this assms(3)] show ?thesis
    by (fastforce simp: list_all_iff event_ok_def)
qed

lemma reset_ok: "parser_ok mem p (parser_reset st)"
  by (simp add: parser_ok_def parser_reset_def http_parser_en_main_def n_states_def flow_holds_def flow_of_def)

abbreviation blank_parser :: http_parser where
  "blank_parser \<equiv> \<lparr> cs = 0, nread = 0, mark = None, query_start = None, field_start = None, field_len = 0 \<rparr>"

theorem parse_memory_safe_witness:
  "\<exists>k n st' evs. parse ''GET'' 0 3 (parser_reset blank_parser) = Inr (n, st', evs) \<and> k \<le> 3 \<and>
     parser_ok ''GET'' (0 + k) st' \<and>
     (\<forall>s. SetRequestPath s \<in> set evs \<longrightarrow> s \<noteq> [] \<and> hd s = CHR ''/'' \<and> NUL \<notin> set s)"
  by (rule parse_memory_safe [OF reset_ok])
    (simp_all add: parser_is_finished_def parser_reset_def http_parser_en_main_def http_parser_first_final_def)

text \<open>C11. Reading a head in two pieces is reading it at once: when the first piece ends inside the head, a second
  call on the rest leaves the same parser, reports the same count and, after the events of the first
  call, the same events as one call on both pieces.\<close>

theorem parse_streaming:
  assumes "parser_ok mem buf st" "\<not> parser_is_finished st" "buf + len1 + len2 \<le> length mem"
    and "parse mem buf len1 st = Inr (n1, st1, evs1)" "\<not> parser_has_error st1" "\<not> parser_is_finished st1"
  shows "parse mem buf (len1 + len2) st =
    bind_cxx (parse mem (buf + len1) len2 st1) (\<lambda>(n, st, evs). Inr (n, st, evs1 @ evs))"
proof -
  have st: "cs st \<noteq> 71" and st1: "cs st1 \<noteq> 0" "cs st1 \<noteq> 71"
    using assms(2,5,6) by (auto simp: parser_is_finished_def parser_has_error_def http_parser_first_final_def http_parser_error_def)
  consider "len1 = 0" | "cs st = 0" | "len2 = 0" | "0 < len1" "cs st \<noteq> 0" "0 < len2"
    by blast
  then show ?thesis
  proof cases
    case 4
    then obtain st' p1 where e: "parse_exec mem buf len1 buf st = Inr (st', evs1, p1)"
        "st1 = st'\<lparr> nread := nread st' + (p1 - buf) \<rparr>"
      using assms(4) by (auto simp: parse_def bind_cxx_Inr_iff Let_def)
    have st': "cs st' \<noteq> 0" "cs st' \<noteq> 71"
      using st1 e(2) by simp_all
    have split: "p1 = buf + len1" "parse_exec mem buf (len1 + len2) buf st =
        bind_cxx (parse_exec mem (buf + len1) len2 (buf + len1) st') (\<lambda>(st, evs, p). Inr (st, evs1 @ evs, p))"
      using parse_exec_split [OF assms(1) 4(2) st _ assms(3) 4(3) e(1) st'] 4(1) by auto
    obtain st1' evs p1' where ok: "parse_exec mem buf len1 buf st = Inr (st1', evs, p1')" "parser_ok mem p1' st1'"
      using parse_exec_ok [OF assms(1) 4(2) st, of buf len1] 4(1) assms(3) by auto
    then have "parser_ok mem (buf + len1) st'"
      using e(1) split(1) by simp
    then obtain st2 evs2 p2 where f: "parse_exec mem (buf + len1) len2 (buf + len1) st' = Inr (st2, evs2, p2)"
        "buf + len1 \<le> p2"
      using parse_exec_ok [OF _ st', of mem "buf + len1" "buf + len1" len2] 4(3) assms(3) by auto
    have "nread st2 = nread st'"
      by (rule parse_exec_keeps_nread [OF f(1)])
    then show ?thesis
      using 4 f st' by (simp add: parse_def Let_def split e(2) parse_exec_nread)
  qed (use assms(4) st1 parse_nread [OF assms(4)] in \<open>auto simp: parse_def bind_cxx_def split: sum.splits\<close>)
qed


lemma parse_GET:
  "parse ''GET /a'' 0 3 (parser_reset blank_parser) = Inr (3, blank_parser\<lparr> cs := 38, nread := 3, mark := Some 0 \<rparr>, [])"
  by code_simp

theorem parse_streaming_witness:
  "parse ''GET /a'' 0 (3 + 3) (parser_reset blank_parser) =
     bind_cxx (parse ''GET /a'' (0 + 3) 3 (blank_parser\<lparr> cs := 38, nread := 3, mark := Some 0 \<rparr>))
       (\<lambda>(n, st, evs). Inr (n, st, [] @ evs))"
  by (rule parse_streaming [OF reset_ok _ _ parse_GET])
    (simp_all add: parser_is_finished_def parser_has_error_def parser_reset_def http_parser_en_main_def
      http_parser_first_final_def http_parser_error_def)

text \<open>The state after the reason phrase sets it when it sees the carriage return and again, with the
  carriage return in it, when it sees the line feed.\<close>

lemma reason_phrase_has_CR:
  "bind_cxx (parse (''HTTP/1.1 200 OK'' @ [CHR 0x0D, CHR 0x0A]) 0 17 (parser_reset blank_parser)) (\<lambda>(n, st, evs). Inr evs) =
     Inr [SetHttpVersion ''HTTP/1.1'', SetStatusCode 200, SetReasonPhrase ''OK'', SetReasonPhrase (''OK'' @ [CHR 0x0D])]"
  by code_simp

end
