(* ===== verification/Http_Message.thy ===== *)
theory Http_Message
  imports Http_Parser
begin

text \<open>
  \<^verbatim>\<open>src/http_request.cc\<close> and \<^verbatim>\<open>src/http_response.cc\<close>: the messages that the parser fills and the
  server and the client print. A message owns a character buffer in which it allocates the strings
  it keeps by moving an offset; a kept string is a pointer into that buffer, here its index and its
  length. What the two classes share is the record \<open>message\<close>, which both extend; \<open>chars\<close> is the storage
  of the vector up to its capacity, since the code compares with \<^verbatim>\<open>capacity()\<close>.
\<close>

section \<open>Messages\<close>

datatype hstring = HNull | HBuf (hs_offset: nat) (hs_length: nat)

text \<open>\<^verbatim>\<open>header_map\<close> is an ordered map that is only searched and inserted into; its order is not modelled.\<close>

record message =
  parser :: http_parser
  chars :: string
  chars_offset :: nat
  max_headers :: nat
  parse_type :: http_parse_type
  header_list :: "(hstring \<times> hstring) list"
  header_map :: "(hstring \<times> hstring) list"
  body_start :: "(nat \<times> nat) option"
  http_version :: hstring
  overflow :: bool

record http_request = message +
  request_method :: hstring
  request_uri :: hstring
  fragment :: hstring
  request_path :: hstring
  query_string :: hstring

record http_response = message +
  reason_phrase :: hstring
  status_code :: int

definition hstring_len :: "hstring \<Rightarrow> nat" where
  "hstring_len h = (case h of HNull \<Rightarrow> 0 | HBuf _ n \<Rightarrow> n)"

text \<open>The characters of a string with a length, and of a \<^verbatim>\<open>const char*\<close>, which must be terminated.\<close>

definition hstring_chars :: "string \<Rightarrow> hstring \<Rightarrow> string cxx" where
  "hstring_chars b h = (case h of HNull \<Rightarrow> Inr [] | HBuf off n \<Rightarrow> read_range b off n)"

definition c_string_at :: "string \<Rightarrow> nat \<Rightarrow> string cxx" where
  "c_string_at b off = (if NUL \<in> set (drop off b) then Inr (c_str (drop off b)) else Inl OutOfBounds)"

definition message_bytes_writable :: "'a message_scheme \<Rightarrow> nat" where
  "message_bytes_writable m = size_sub (length (chars m)) (chars_offset m)"

section \<open>Allocation\<close>

definition alloc_string :: "'a message_scheme \<Rightarrow> string \<Rightarrow> ('a message_scheme \<times> hstring) cxx" where
  "alloc_string m str =
     (if message_bytes_writable m < length str + 1 then Inr (m\<lparr> overflow := True \<rparr>, HNull)
      else
        bind_cxx (write_range (chars m) (chars_offset m) str) (\<lambda>b.
        bind_cxx (write_range b (chars_offset m + length str) [NUL]) (\<lambda>b.
          Inr (m\<lparr> chars := b, chars_offset := chars_offset m + (length str + 1) \<rparr>,
            HBuf (chars_offset m) (length str)))))"

text \<open>\<^verbatim>\<open>std::map::find\<close> compares with the key; \<^verbatim>\<open>std::find\<close> compares both parts of a pair.\<close>

fun map_find :: "string \<Rightarrow> string \<Rightarrow> (hstring \<times> hstring) list \<Rightarrow> nat option cxx" where
  "map_find b name [] = Inr None"
| "map_find b name ((k, v) # kvs) =
     bind_cxx (hstring_chars b k) (\<lambda>s.
       if compare (HStr s) (HStr name) = 0 then Inr (Some 0)
       else bind_cxx (map_find b name kvs) (\<lambda>r. Inr (map_option Suc r)))"

fun list_find :: "string \<Rightarrow> string \<Rightarrow> string \<Rightarrow> (hstring \<times> hstring) list \<Rightarrow> nat option cxx" where
  "list_find b name v' [] = Inr None"
| "list_find b name v' ((k, v) # kvs) =
     bind_cxx (hstring_chars b k) (\<lambda>s. bind_cxx (hstring_chars b v) (\<lambda>t.
       if compare (HStr s) (HStr name) = 0 \<and> compare (HStr t) (HStr v') = 0 then Inr (Some 0)
       else bind_cxx (list_find b name v' kvs) (\<lambda>r. Inr (map_option Suc r))))"

definition add_field :: "'a message_scheme \<Rightarrow> string \<Rightarrow> string \<Rightarrow> (bool \<times> 'a message_scheme) cxx" where
  "add_field m name v =
     (if message_bytes_writable m < length name + length v + 2 then Inr (False, m\<lparr> overflow := True \<rparr>)
      else
        bind_cxx (write_range (chars m) (chars_offset m) (name @ [NUL])) (\<lambda>b.
        let off = chars_offset m + (length name + 1) in
        bind_cxx (write_range b off (v @ [NUL])) (\<lambda>b.
        let nameval = (HBuf (chars_offset m) (length name), HBuf off (length v)) in
          Inr (True, m\<lparr> chars := b, chars_offset := off + (length v + 1),
            header_list := header_list m @ [nameval], header_map := header_map m @ [nameval] \<rparr>))))"

text \<open>The branch for a name that is there already: the values are joined by a comma and a space.\<close>

definition join_field :: "'a message_scheme \<Rightarrow> nat \<Rightarrow> string \<Rightarrow> (bool \<times> 'a message_scheme) cxx" where
  "join_field m hi v =
     bind_cxx (index_cxx (header_map m) hi) (\<lambda>(k, orig).
     let value_length = hstring_len orig + length v + 2 in
     if message_bytes_writable m < value_length + 1 then Inr (False, m\<lparr> overflow := True \<rparr>)
     else
       bind_cxx (hstring_chars (chars m) k) (\<lambda>name.
       bind_cxx (hstring_chars (chars m) orig) (\<lambda>orig_value.
       bind_cxx (write_range (chars m) (chars_offset m) (orig_value @ '', '' @ v @ [NUL])) (\<lambda>b.
       bind_cxx (list_find b name orig_value (header_list m)) (\<lambda>li.
         case li of
           None \<Rightarrow> Inl Undefined
         | Some i \<Rightarrow>
             let value_buf = HBuf (chars_offset m) value_length in
             Inr (True, m\<lparr> chars := b, chars_offset := chars_offset m + (value_length + 1),
               header_list := (header_list m)[i := (fst (header_list m ! i), value_buf)],
               header_map := (header_map m)[hi := (k, value_buf)] \<rparr>))))))"

definition set_header_field :: "'a message_scheme \<Rightarrow> string \<Rightarrow> string \<Rightarrow> (bool \<times> 'a message_scheme) cxx" where
  "set_header_field m name v =
     (if length (header_map m) = max_headers m then Inr (False, m\<lparr> overflow := True \<rparr>)
      else bind_cxx (map_find (chars m) name (header_map m)) (\<lambda>hi.
        case hi of None \<Rightarrow> add_field m name v | Some i \<Rightarrow> join_field m i v))"

text \<open>The string behind the pointer that \<^verbatim>\<open>get_header_string\<close> returns.\<close>

definition get_header_string :: "'a message_scheme \<Rightarrow> string \<Rightarrow> string option cxx" where
  "get_header_string m name =
     bind_cxx (map_find (chars m) (c_str name) (header_map m)) (\<lambda>hi.
       case hi of
         None \<Rightarrow> Inr None
       | Some i \<Rightarrow>
           bind_cxx (index_cxx (header_map m) i) (\<lambda>(k, v).
           case v of HNull \<Rightarrow> Inr None
           | HBuf off n \<Rightarrow> bind_cxx (c_string_at (chars m) off) (\<lambda>s. Inr (Some s))))"

section \<open>The state of a message\<close>

definition message_clear :: "'a message_scheme \<Rightarrow> 'a message_scheme" where
  "message_clear m =
     m\<lparr> parser := parser_reset (parser m), chars_offset := 0, parse_type := http_parse_none,
        http_version := HNull, header_list := [], header_map := [], overflow := False \<rparr>"

definition request_reset :: "http_request \<Rightarrow> http_request" where
  "request_reset r =
     (message_clear r)\<lparr> request_method := HNull, request_uri := HNull, fragment := HNull,
        request_path := HNull, query_string := HNull, body_start := None \<rparr>"

definition response_reset :: "http_response \<Rightarrow> http_response" where
  "response_reset r = (message_clear r)\<lparr> reason_phrase := HNull, status_code := 0 \<rparr>"

text \<open>
  \<^verbatim>\<open>vector::resize\<close> may take more room than it needs when it grows: \<open>extra\<close> is that room. New characters are
  zero. The code resizes messages that have allocated nothing.
\<close>

definition message_resize :: "nat \<Rightarrow> 'a message_scheme \<Rightarrow> nat \<Rightarrow> nat \<Rightarrow> 'a message_scheme" where
  "message_resize extra m buffer_size headers =
     m\<lparr> max_headers := headers,
        chars := (if buffer_size \<le> length (chars m) then chars m
                  else chars m @ replicate (buffer_size - length (chars m) + extra) NUL) \<rparr>"

section \<open>What the parser reports\<close>

definition request_event :: "http_request \<Rightarrow> parse_event \<Rightarrow> http_request cxx" where
  "request_event r ev =
     (case ev of
        SetParseType t \<Rightarrow> Inr (r\<lparr> parse_type := t \<rparr>)
      | SetHeaderField name v \<Rightarrow> bind_cxx (set_header_field r name v) (\<lambda>(ok, r). Inr r)
      | SetRequestMethod s \<Rightarrow> bind_cxx (alloc_string r s) (\<lambda>(r, h). Inr (r\<lparr> request_method := h \<rparr>))
      | SetRequestUri s \<Rightarrow> bind_cxx (alloc_string r s) (\<lambda>(r, h). Inr (r\<lparr> request_uri := h \<rparr>))
      | SetFragment s \<Rightarrow> bind_cxx (alloc_string r s) (\<lambda>(r, h). Inr (r\<lparr> fragment := h \<rparr>))
      | SetRequestPath s \<Rightarrow> bind_cxx (alloc_string r s) (\<lambda>(r, h). Inr (r\<lparr> request_path := h \<rparr>))
      | SetQueryString s \<Rightarrow> bind_cxx (alloc_string r s) (\<lambda>(r, h). Inr (r\<lparr> query_string := h \<rparr>))
      | SetBodyStart off n \<Rightarrow> Inr (r\<lparr> body_start := Some (off, n) \<rparr>)
      | SetHttpVersion s \<Rightarrow> bind_cxx (alloc_string r s) (\<lambda>(r, h). Inr (r\<lparr> http_version := h \<rparr>))
      | SetReasonPhrase s \<Rightarrow> Inr r
      | SetStatusCode code \<Rightarrow> Inr r)"

definition response_event :: "http_response \<Rightarrow> parse_event \<Rightarrow> http_response cxx" where
  "response_event r ev =
     (case ev of
        SetParseType t \<Rightarrow> Inr (r\<lparr> parse_type := t \<rparr>)
      | SetHeaderField name v \<Rightarrow> bind_cxx (set_header_field r name v) (\<lambda>(ok, r). Inr r)
      | SetBodyStart off n \<Rightarrow> Inr (r\<lparr> body_start := Some (off, n) \<rparr>)
      | SetHttpVersion s \<Rightarrow> bind_cxx (alloc_string r s) (\<lambda>(r, h). Inr (r\<lparr> http_version := h \<rparr>))
      | SetReasonPhrase s \<Rightarrow> bind_cxx (alloc_string r s) (\<lambda>(r, h). Inr (r\<lparr> reason_phrase := h \<rparr>))
      | SetStatusCode code \<Rightarrow> Inr (r\<lparr> status_code := code \<rparr>)
      | _ \<Rightarrow> Inr r)"

definition request_parse :: "string \<Rightarrow> nat \<Rightarrow> nat \<Rightarrow> http_request \<Rightarrow> (nat \<times> http_request) cxx" where
  "request_parse mem buf len r =
     bind_cxx (parse mem buf len (parser r)) (\<lambda>(n, st, evs).
     bind_cxx (fold_cxx request_event (r\<lparr> parser := st \<rparr>) evs) (\<lambda>r. Inr (n, r)))"

definition response_parse :: "string \<Rightarrow> nat \<Rightarrow> nat \<Rightarrow> http_response \<Rightarrow> (nat \<times> http_response) cxx" where
  "response_parse mem buf len r =
     bind_cxx (parse mem buf len (parser r)) (\<lambda>(n, st, evs).
     bind_cxx (fold_cxx response_event (r\<lparr> parser := st \<rparr>) evs) (\<lambda>r. Inr (n, r)))"

definition request_has_error :: "http_request \<Rightarrow> bool" where
  "request_has_error r \<longleftrightarrow>
     parser_has_error (parser r) \<or> overflow r \<or> (parser_is_finished (parser r) \<and> parse_type r \<noteq> http_parse_request)"

definition response_has_error :: "http_response \<Rightarrow> bool" where
  "response_has_error r \<longleftrightarrow>
     parser_has_error (parser r) \<or> overflow r \<or> (parser_is_finished (parser r) \<and> parse_type r \<noteq> http_parse_response)"

section \<open>Printing\<close>

abbreviation CRLF :: string where
  "CRLF \<equiv> [CHR 0x0D, CHR 0x0A]"

definition show_c_string :: "'a message_scheme \<Rightarrow> hstring \<Rightarrow> string cxx" where
  "show_c_string m h = (case h of HNull \<Rightarrow> Inl Undefined | HBuf off _ \<Rightarrow> c_string_at (chars m) off)"

fun show_headers :: "string \<Rightarrow> (hstring \<times> hstring) list \<Rightarrow> string cxx" where
  "show_headers b [] = Inr []"
| "show_headers b ((k, v) # kvs) =
     bind_cxx (hstring_chars b k) (\<lambda>s. bind_cxx (hstring_chars b v) (\<lambda>t.
     bind_cxx (show_headers b kvs) (\<lambda>rest. Inr (s @ '': '' @ t @ CRLF @ rest))))"

definition show_part :: "'a message_scheme \<Rightarrow> string \<Rightarrow> hstring \<Rightarrow> string cxx" where
  "show_part m sep h = (if h = HNull then Inr [] else bind_cxx (show_c_string m h) (\<lambda>s. Inr (sep @ s)))"

definition request_to_string :: "http_request \<Rightarrow> string cxx" where
  "request_to_string r =
     bind_cxx
       (if request_method r \<noteq> HNull \<and> request_uri r \<noteq> HNull
        then bind_cxx (show_c_string r (request_method r)) (\<lambda>a.
             bind_cxx (show_c_string r (request_uri r)) (\<lambda>b. Inr (a @ '' '' @ b)))
        else Inr []) (\<lambda>line.
     bind_cxx (show_part r ''?'' (query_string r)) (\<lambda>query.
     bind_cxx (show_part r ''#'' (fragment r)) (\<lambda>frag.
     bind_cxx (show_part r '' '' (http_version r)) (\<lambda>version.
     bind_cxx (show_headers (chars r) (header_list r)) (\<lambda>headers.
       Inr (line @ query @ frag @ version @ CRLF @ headers @ CRLF))))))"

definition response_to_string :: "http_response \<Rightarrow> string cxx" where
  "response_to_string r =
     bind_cxx
       (if http_version r \<noteq> HNull \<and> reason_phrase r \<noteq> HNull
        then bind_cxx (show_c_string r (http_version r)) (\<lambda>a.
             bind_cxx (show_c_string r (reason_phrase r)) (\<lambda>b.
               Inr (a @ '' '' @ show_int (status_code r) @ '' '' @ b @ CRLF)))
        else Inr []) (\<lambda>line.
     bind_cxx (show_headers (chars r) (header_list r)) (\<lambda>headers. Inr (line @ headers @ CRLF)))"

text \<open>
  \<^verbatim>\<open>to_buffer\<close> writes to a caller's buffer, \<open>out\<close>, whose length is \<^verbatim>\<open>buffer_size\<close>. The pieces of a line are
  copied one after the other when the line fits with a character to spare.
\<close>

definition put_line :: "string \<Rightarrow> nat \<Rightarrow> string \<Rightarrow> (string \<times> nat) option cxx" where
  "put_line out len line =
     (if length line < size_sub (length out) len
      then bind_cxx (write_range out len line) (\<lambda>out. Inr (Some (out, len + length line)))
      else Inr None)"

fun put_headers :: "string \<Rightarrow> string \<Rightarrow> nat \<Rightarrow> (hstring \<times> hstring) list \<Rightarrow> (string \<times> nat) option cxx" where
  "put_headers b out len [] = Inr (Some (out, len))"
| "put_headers b out len ((k, v) # kvs) =
     bind_cxx (hstring_chars b k) (\<lambda>s. bind_cxx (hstring_chars b v) (\<lambda>t.
     bind_cxx (put_line out len (s @ '': '' @ t @ CRLF)) (\<lambda>r.
       case r of None \<Rightarrow> Inr None | Some (out, len) \<Rightarrow> put_headers b out len kvs)))"

text \<open>The result is \<open>None\<close> where the code returns -1.\<close>

definition put_rest :: "'a message_scheme \<Rightarrow> (string \<times> nat) option \<Rightarrow> (string \<times> nat) option cxx" where
  "put_rest m r =
     (case r of
        None \<Rightarrow> Inr None
      | Some (out, len) \<Rightarrow>
          bind_cxx (put_headers (chars m) out len (header_list m)) (\<lambda>r.
            case r of None \<Rightarrow> Inr None | Some (out, len) \<Rightarrow> put_line out len CRLF))"

definition request_to_buffer :: "http_request \<Rightarrow> string \<Rightarrow> (string \<times> nat) option cxx" where
  "request_to_buffer r out =
     (if \<not> (request_method r \<noteq> HNull \<and> request_uri r \<noteq> HNull \<and> http_version r \<noteq> HNull) then Inr None
      else
        bind_cxx (hstring_chars (chars r) (request_method r)) (\<lambda>a.
        bind_cxx (hstring_chars (chars r) (request_uri r)) (\<lambda>u.
        bind_cxx (hstring_chars (chars r) (query_string r)) (\<lambda>q.
        bind_cxx (hstring_chars (chars r) (http_version r)) (\<lambda>v.
        bind_cxx (put_line out 0
          (a @ '' '' @ u @ (if query_string r \<noteq> HNull then ''?'' @ q else []) @ '' '' @ v @ CRLF)) (put_rest r))))))"

definition response_to_buffer :: "http_response \<Rightarrow> string \<Rightarrow> (string \<times> nat) option cxx" where
  "response_to_buffer r out =
     (if \<not> (http_version r \<noteq> HNull \<and> reason_phrase r \<noteq> HNull) then Inr None
      else
        bind_cxx (hstring_chars (chars r) (http_version r)) (\<lambda>v.
        bind_cxx (hstring_chars (chars r) (reason_phrase r)) (\<lambda>p.
        bind_cxx (put_line out 0 (v @ '' '' @ show_int (status_code r) @ '' '' @ p @ CRLF)) (put_rest r))))"

section \<open>The buffer of a message\<close>

text \<open>A kept string lies below the offset and is terminated.\<close>

definition hs_ok :: "'a message_scheme \<Rightarrow> hstring \<Rightarrow> bool" where
  "hs_ok m h = (case h of HNull \<Rightarrow> True | HBuf off n \<Rightarrow> off + n < chars_offset m \<and> chars m ! (off + n) = NUL)"

definition text_of :: "string \<Rightarrow> hstring \<Rightarrow> string" where
  "text_of b h = (case h of HNull \<Rightarrow> [] | HBuf off n \<Rightarrow> take n (drop off b))"

definition headers :: "'a message_scheme \<Rightarrow> (string \<times> string) list" where
  "headers m = map (map_prod (text_of (chars m)) (text_of (chars m))) (header_list m)"

definition store_ok :: "'a message_scheme \<Rightarrow> bool" where
  "store_ok m \<longleftrightarrow>
     chars_offset m \<le> length (chars m) \<and> header_map m = header_list m \<and> length (header_list m) \<le> max_headers m \<and>
     (\<forall>(k, v) \<in> set (header_list m). k \<noteq> HNull \<and> v \<noteq> HNull \<and> hs_ok m k \<and> hs_ok m v) \<and>
     distinct (map fst (headers m)) \<and> hs_ok m (http_version m)"

text \<open>The buffer only grows: what was below the offset stays.\<close>

definition grows :: "'a message_scheme \<Rightarrow> 'a message_scheme \<Rightarrow> bool" where
  "grows m m' \<longleftrightarrow> length (chars m') = length (chars m) \<and> chars_offset m \<le> chars_offset m' \<and>
     chars_offset m' \<le> length (chars m) \<and> take (chars_offset m) (chars m') = take (chars_offset m) (chars m)"

lemma hs_ok_update [simp]:
  "hs_ok (m\<lparr> header_list := hl \<rparr>) h = hs_ok m h" "hs_ok (m\<lparr> header_map := hl \<rparr>) h = hs_ok m h"
  "hs_ok (m\<lparr> overflow := ov \<rparr>) h = hs_ok m h" "hs_ok (m\<lparr> http_version := s \<rparr>) h = hs_ok m h"
  "hs_ok (m\<lparr> parse_type := pt \<rparr>) h = hs_ok m h" "hs_ok (m\<lparr> body_start := bs \<rparr>) h = hs_ok m h"
  "hs_ok (m\<lparr> parser := st \<rparr>) h = hs_ok m h"
  by (simp_all add: hs_ok_def split: hstring.split)

lemma overwrite_overwrite:
  "off + length ys + length zs \<le> length xs \<Longrightarrow>
   overwrite (overwrite xs off ys) (off + length ys) zs = overwrite xs off (ys @ zs)"
  by (simp add: overwrite_def ac_simps)

lemma grows_text:
  assumes "grows m m'" "hs_ok m h"
  shows "hs_ok m' h" "text_of (chars m') h = text_of (chars m) h"
proof -
  have same: "chars m' ! i = chars m ! i" if "i < chars_offset m" for i
    using assms(1) that unfolding grows_def by (metis nth_take)
  show "hs_ok m' h"
    using assms same by (auto simp: hs_ok_def grows_def split: hstring.splits)
  show "text_of (chars m') h = text_of (chars m) h"
  proof (cases h)
    case (HBuf off n)
    then have "off + n < chars_offset m"
      using assms(2) by (simp add: hs_ok_def)
    then have "take n (drop off (chars m')) = drop off (take (off + n) (take (chars_offset m) (chars m')))"
      "take n (drop off (chars m)) = drop off (take (off + n) (take (chars_offset m) (chars m)))"
      by (simp_all add: take_drop min_def add.commute)
    then show ?thesis
      using assms(1) HBuf by (simp add: text_of_def grows_def del: take_take)
  qed (simp add: text_of_def)
qed

lemma grows_trans: "grows m m' \<Longrightarrow> grows m' m'' \<Longrightarrow> grows m m''"
  by (simp add: grows_def) (metis min.absorb1 take_take)

lemma grows_headers:
  assumes "grows m m'" "\<forall>(k, v) \<in> set hl. hs_ok m k \<and> hs_ok m v"
  shows "map (map_prod (text_of (chars m')) (text_of (chars m'))) hl = map (map_prod (text_of (chars m)) (text_of (chars m))) hl"
    "\<forall>(k, v) \<in> set hl. hs_ok m' k \<and> hs_ok m' v"
  using assms grows_text [OF assms(1)] by fastforce+

lemma hstring_chars_ok [simp]: "hs_ok m h \<Longrightarrow> chars_offset m \<le> length (chars m) \<Longrightarrow>
    hstring_chars (chars m) h = Inr (text_of (chars m) h)"
  by (auto simp: hstring_chars_def hs_ok_def text_of_def split: hstring.splits)

lemma hstring_len_text: "hs_ok m h \<Longrightarrow> chars_offset m \<le> length (chars m) \<Longrightarrow> hstring_len h = length (text_of (chars m) h)"
  by (auto simp: hstring_len_def hs_ok_def text_of_def split: hstring.splits)

lemma hs_split:
  assumes "hs_ok m (HBuf off n)" "chars_offset m \<le> length (chars m)"
  shows "drop off (chars m) = text_of (chars m) (HBuf off n) @ NUL # drop (off + n + 1) (chars m)"
proof -
  have "off + n < length (chars m)" "chars m ! (off + n) = NUL"
    using assms by (auto simp: hs_ok_def)
  then show ?thesis
    by (simp add: text_of_def) (metis Cons_nth_drop_Suc add.commute append_take_drop_id drop_drop)
qed

lemma c_string_at_ok:
  assumes "hs_ok m (HBuf off n)" "chars_offset m \<le> length (chars m)"
  shows "c_string_at (chars m) off = Inr (c_str (text_of (chars m) (HBuf off n)))"
  unfolding c_string_at_def hs_split [OF assms]
  by (auto simp: c_str_def takeWhile_append takeWhile_eq_all_conv [THEN iffD2, symmetric])

section \<open>Allocation\<close>

lemma bytes_writable_ok: "store_ok m \<Longrightarrow> message_bytes_writable m = length (chars m) - chars_offset m"
  by (simp add: message_bytes_writable_def store_ok_def)

text \<open>The message after a string has been added to its buffer.\<close>

definition pushed :: "'a message_scheme \<Rightarrow> string \<Rightarrow> 'a message_scheme" where
  "pushed m s = m\<lparr> chars := overwrite (chars m) (chars_offset m) (s @ [NUL]), chars_offset := chars_offset m + (length s + 1) \<rparr>"

lemma pushed_simps [simp]:
  "header_list (pushed m s) = header_list m" "header_map (pushed m s) = header_map m"
  "max_headers (pushed m s) = max_headers m" "http_version (pushed m s) = http_version m"
  "overflow (pushed m s) = overflow m" "parser (pushed m s) = parser m" "parse_type (pushed m s) = parse_type m"
  "body_start (pushed m s) = body_start m"
  by (simp_all add: pushed_def)

lemma pushed_grows:
  assumes "chars_offset m + length s < length (chars m)"
  shows "grows m (pushed m s)" "hs_ok (pushed m s) (HBuf (chars_offset m) (length s))"
    "text_of (chars (pushed m s)) (HBuf (chars_offset m) (length s)) = s"
  using assms
  by (simp_all add: grows_def pushed_def hs_ok_def text_of_def take_overwrite nth_overwrite nth_append)
    (simp add: overwrite_def)

lemma store_ok_grows:
  assumes "store_ok m" "grows m m'" "header_list m' = header_list m" "header_map m' = header_map m"
    "max_headers m' = max_headers m" "http_version m' = http_version m"
  shows "store_ok m'" "headers m' = headers m"
proof -
  have hl: "\<forall>(k, v) \<in> set (header_list m). hs_ok m k \<and> hs_ok m v"
    using assms(1) by (auto simp: store_ok_def)
  show h: "headers m' = headers m"
    using grows_headers(1) [OF assms(2) hl] by (simp add: headers_def assms(3))
  show "store_ok m'"
    using assms grows_headers(2) [OF assms(2) hl] grows_text(1) [OF assms(2)]
    by (auto simp: store_ok_def h grows_def)
qed

lemma alloc_string_cases:
  assumes "store_ok m"
  shows "alloc_string m s =
    (if chars_offset m + length s < length (chars m) then Inr (pushed m s, HBuf (chars_offset m) (length s))
     else Inr (m\<lparr> overflow := True \<rparr>, HNull))"
  using assms overwrite_overwrite [of "chars_offset m" s "[NUL]" "chars m"]
  by (auto simp: alloc_string_def bytes_writable_ok pushed_def store_ok_def)

section \<open>Header fields\<close>

text \<open>The abstract store: names are distinct and a repeated field is joined to the value that is there.\<close>

definition add_header :: "(string \<times> string) list \<Rightarrow> string \<Rightarrow> string \<Rightarrow> (string \<times> string) list" where
  "add_header hs name v =
     (if name \<in> fst ` set hs then map (\<lambda>(k, w). if k = name then (k, w @ '', '' @ v) else (k, w)) hs
      else hs @ [(name, v)])"

definition field_room :: "(string \<times> string) list \<Rightarrow> string \<Rightarrow> string \<Rightarrow> nat" where
  "field_room hs name v = (case map_of hs name of None \<Rightarrow> length name + length v + 2 | Some w \<Rightarrow> length w + length v + 3)"

lemma map_find_ok:
  assumes "\<forall>(k, v) \<in> set kvs. hs_ok m k \<and> hs_ok m v" "chars_offset m \<le> length (chars m)"
  shows "\<exists>r. map_find (chars m) name kvs = Inr r \<and>
    (case r of
       None \<Rightarrow> name \<notin> text_of (chars m) ` fst ` set kvs
     | Some i \<Rightarrow> i < length kvs \<and> text_of (chars m) (fst (kvs ! i)) = name)"
  using assms(1)
proof (induction kvs)
  case (Cons kv kvs)
  obtain k v where kv: "kv = (k, v)" by (cases kv)
  from Cons obtain r where "map_find (chars m) name kvs = Inr r"
      "case r of None \<Rightarrow> name \<notin> text_of (chars m) ` fst ` set kvs
       | Some i \<Rightarrow> i < length kvs \<and> text_of (chars m) (fst (kvs ! i)) = name"
    by auto
  with Cons.prems assms(2) show ?case
    by (auto simp: kv compare_def compare_chars_0_iff split: option.splits)
qed simp

lemma list_find_ok:
  assumes "\<forall>(k, v) \<in> set kvs. hs_ok m k \<and> hs_ok m v" "chars_offset m \<le> length (chars m)"
    and "i < length kvs" "distinct (map (\<lambda>kv. text_of (chars m) (fst kv)) kvs)"
  shows "list_find (chars m) (text_of (chars m) (fst (kvs ! i))) (text_of (chars m) (snd (kvs ! i))) kvs = Inr (Some i)"
  using assms(1,3,4)
proof (induction kvs arbitrary: i)
  case (Cons kv kvs)
  obtain k v where kv: "kv = (k, v)" by (cases kv)
  show ?case
  proof (cases i)
    case (Suc j)
    then have "text_of (chars m) (fst (kvs ! j)) \<in> (\<lambda>kv. text_of (chars m) (fst kv)) ` set kvs"
      using Cons.prems(2) by (intro imageI) simp
    then have "text_of (chars m) k \<noteq> text_of (chars m) (fst (kvs ! j))"
      using Cons.prems(3) unfolding kv by simp metis
    with Suc Cons assms(2) show ?thesis
      by (auto simp: kv compare_def compare_chars_0_iff)
  qed (use Cons.prems assms(2) in \<open>auto simp: kv compare_def compare_chars_0_iff\<close>)
qed simp

lemma store_okD:
  assumes "store_ok m"
  shows "chars_offset m \<le> length (chars m)" "header_map m = header_list m"
    "\<forall>(k, v) \<in> set (header_list m). hs_ok m k \<and> hs_ok m v"
    "distinct (map (\<lambda>kv. text_of (chars m) (fst kv)) (header_list m))"
    "length (header_list m) \<le> max_headers m"
  using assms by (auto simp: store_ok_def headers_def comp_def)

lemma add_field_ok:
  assumes "store_ok m" "name \<notin> fst ` set (headers m)" "length (header_list m) < max_headers m"
    and "length name + length v + 2 \<le> length (chars m) - chars_offset m"
  shows "\<exists>m'. add_field m name v = Inr (True, m') \<and> store_ok m' \<and> grows m m' \<and>
           headers m' = headers m @ [(name, v)] \<and> overflow m' = overflow m"
proof -
  let ?m1 = "pushed m name" and ?k = "HBuf (chars_offset m) (length name)"
  let ?m2 = "pushed (pushed m name) v" and ?v = "HBuf (chars_offset (pushed m name)) (length v)"
  let ?m' = "?m2\<lparr> header_list := header_list m @ [(?k, ?v)], header_map := header_map m @ [(?k, ?v)] \<rparr>"
  have off: "chars_offset m + length name < length (chars m)" "chars_offset ?m1 + length v < length (chars ?m1)"
    using assms(4) by (auto simp: pushed_def)
  note p1 = pushed_grows [OF off(1)] and p2 = pushed_grows [OF off(2)]
  have g: "grows m ?m2"
    by (rule grows_trans [OF p1(1) p2(1)])
  note hl = grows_headers [OF g store_okD(3) [OF assms(1)]]
  have k: "hs_ok ?m2 ?k" "text_of (chars ?m2) ?k = name"
    using grows_text [OF p2(1) p1(2)] p1(3) by simp_all
  have h: "headers ?m' = headers m @ [(name, v)]"
    using hl(1) k(2) p2(3) by (simp add: headers_def)
  have "store_ok ?m'"
    unfolding store_ok_def h using assms(1-3) hl(2) k(1) p2(2) grows_text(1) [OF g] g
    by (auto simp: store_ok_def grows_def)
  moreover have "add_field m name v = Inr (True, ?m')"
    using assms(4) off by (simp add: add_field_def bytes_writable_ok [OF assms(1)] Let_def pushed_def)
  moreover have "grows m ?m'" "overflow ?m' = overflow m"
    using g by (simp_all add: grows_def pushed_def)
  ultimately show ?thesis
    using h by blast
qed

lemma map_of_headers:
  "store_ok m \<Longrightarrow> i < length (header_list m) \<Longrightarrow> text_of (chars m) (fst (header_list m ! i)) = name \<Longrightarrow>
   map_of (headers m) name = Some (text_of (chars m) (snd (header_list m ! i)))"
  by (intro map_of_is_SomeI) (auto simp: store_ok_def headers_def in_set_conv_nth intro!: exI [of _ i] simp: map_prod_def split_def)

lemma add_header_update:
  assumes "distinct (map fst hs)" "i < length hs" "fst (hs ! i) = name"
  shows "add_header hs name v = hs[i := (name, snd (hs ! i) @ '', '' @ v)]"
proof (rule nth_equalityI)
  have mem: "name \<in> fst ` set hs"
    using assms by (metis image_eqI nth_mem)
  show "length (add_header hs name v) = length (hs[i := (name, snd (hs ! i) @ '', '' @ v)])"
    using mem by (simp add: add_header_def)
  fix j
  assume j: "j < length (add_header hs name v)"
  with mem have jl: "j < length hs"
    by (simp add: add_header_def)
  have "fst (hs ! j) = name \<longleftrightarrow> j = i"
    using assms jl nth_eq_iff_index_eq [OF assms(1), of j i] by auto
  with mem jl show "add_header hs name v ! j = hs[i := (name, snd (hs ! i) @ '', '' @ v)] ! j"
    by (auto simp: add_header_def split_def)
qed

lemma join_field_ok:
  assumes "store_ok m" "i < length (header_list m)" "text_of (chars m) (fst (header_list m ! i)) = name"
    and "length (text_of (chars m) (snd (header_list m ! i))) + length v + 3 \<le> length (chars m) - chars_offset m"
  shows "\<exists>m'. join_field m i v = Inr (True, m') \<and> store_ok m' \<and> grows m m' \<and>
           headers m' = add_header (headers m) name v \<and> overflow m' = overflow m"
proof -
  obtain k w where kw: "header_list m ! i = (k, w)"
    by (cases "header_list m ! i")
  let ?w = "text_of (chars m) w"
  let ?s = "?w @ '', '' @ v"
  let ?m1 = "pushed m ?s" and ?h = "HBuf (chars_offset m) (length ?s)"
  let ?hl = "(header_list m)[i := (k, ?h)]"
  let ?m' = "?m1\<lparr> header_list := ?hl, header_map := ?hl \<rparr>"
  note ok = store_okD [OF assms(1)]
  have kw_ok: "hs_ok m k" "hs_ok m w"
    using ok(3) assms(2) kw by (metis (mono_tags, lifting) case_prodD nth_mem)+
  have off: "chars_offset m + length ?s < length (chars m)"
    using assms(4) by (simp add: kw)
  note p = pushed_grows [OF off]
  note hl = grows_headers [OF p(1) ok(3)]
  have grows: "grows m ?m'"
    using p(1) by (simp add: grows_def)
  have hs: "headers m ! i = (name, ?w)" "i < length (headers m)"
    using assms(2,3) by (simp_all add: headers_def kw)
  have dist: "distinct (map fst (headers m))"
    using assms(1) by (simp add: store_ok_def)
  have k: "text_of (chars ?m1) k = name" "text_of (chars ?m1) w = ?w"
    using grows_text(2) [OF p(1)] kw_ok assms(3) kw by auto
  have h: "headers ?m' = add_header (headers m) name v"
    using hl(1) k p(3) add_header_update [OF dist hs(2), of name v] hs(1) by (simp add: headers_def map_update del: map_eq_conv)
  have "map fst (add_header (headers m) name v) = map fst (headers m)"
    using hs by (simp add: add_header_update [OF dist hs(2)] map_update) (metis fst_conv list_update_id map_update nth_map)
  moreover have "\<forall>kv \<in> set ?hl. fst kv \<noteq> HNull \<and> snd kv \<noteq> HNull \<and> hs_ok ?m1 (fst kv) \<and> hs_ok ?m1 (snd kv)"
  proof -
    have old: "\<forall>kv \<in> set (header_list m). fst kv \<noteq> HNull \<and> snd kv \<noteq> HNull \<and> hs_ok ?m1 (fst kv) \<and> hs_ok ?m1 (snd kv)"
      using assms(1) hl(2) by (auto simp: store_ok_def)
    then have "k \<noteq> HNull"
      using nth_mem [OF assms(2)] kw by auto
    moreover have "set ?hl \<subseteq> insert (k, ?h) (set (header_list m))"
      by (rule set_update_subset_insert)
    ultimately show ?thesis
      using old p(2) grows_text(1) [OF p(1) kw_ok(1)] by fastforce
  qed
  ultimately have "store_ok ?m'"
    unfolding store_ok_def h using assms(1) p(1) grows_text(1) [OF p(1)]
    by (simp add: store_ok_def grows_def split_def)
  moreover have "join_field m i v = Inr (True, ?m')"
  proof -
    have "map (\<lambda>kv. text_of (chars ?m1) (fst kv)) (header_list m) = map (\<lambda>kv. text_of (chars m) (fst kv)) (header_list m)"
      using grows_text(2) [OF p(1)] ok(3) by fastforce
    then have "distinct (map (\<lambda>kv. text_of (chars ?m1) (fst kv)) (header_list m))"
      using ok(4) by (simp only:)
    then have "list_find (chars ?m1) name ?w (header_list m) = Inr (Some i)"
      using list_find_ok [OF hl(2) _ assms(2)] p(1) k by (simp add: kw grows_def)
    then show ?thesis
      using off ok(1) assms(2) kw_ok hstring_len_text [OF kw_ok(2) ok(1)] assms(3)
      by (simp add: join_field_def bytes_writable_ok [OF assms(1)] ok(2) kw Let_def pushed_def)
  qed
  ultimately show ?thesis
    using h grows by (intro exI [of _ ?m']) simp
qed

definition field_fits :: "'a message_scheme \<Rightarrow> string \<Rightarrow> string \<Rightarrow> bool" where
  "field_fits m name v \<longleftrightarrow>
     length (headers m) < max_headers m \<and> field_room (headers m) name v \<le> length (chars m) - chars_offset m"

lemma set_header_field_ok:
  assumes "store_ok m"
  shows "\<exists>m'. set_header_field m name v = Inr (field_fits m name v, m') \<and> store_ok m' \<and> grows m m' \<and>
           headers m' = (if field_fits m name v then add_header (headers m) name v else headers m) \<and> overflow m' = (overflow m \<or> \<not> field_fits m name v)"
proof -
  note d = store_okD [OF assms(1)]
  have len: "length (headers m) = length (header_list m)"
    by (simp add: headers_def)
  have full: "store_ok (m\<lparr> overflow := True \<rparr>)" "grows m (m\<lparr> overflow := True \<rparr>)" "headers (m\<lparr> overflow := True \<rparr>) = headers m"
    using assms(1) by (simp_all add: grows_def store_ok_def headers_def)
  obtain r where r: "map_find (chars m) name (header_list m) = Inr r"
      "case r of None \<Rightarrow> name \<notin> text_of (chars m) ` fst ` set (header_list m)
       | Some i \<Rightarrow> i < length (header_list m) \<and> text_of (chars m) (fst (header_list m ! i)) = name"
    using map_find_ok [OF d(3,1)] by blast
  show ?thesis
  proof (cases "length (header_list m) = max_headers m")
    case True
    then show ?thesis
      using full by (simp add: set_header_field_def d(2) field_fits_def len)
  next
    case False
    then have lt: "length (header_list m) < max_headers m"
      using d(5) by simp
    show ?thesis
    proof (cases r)
      case None
      then have new: "name \<notin> fst ` set (headers m)"
        using r(2) by (auto simp: headers_def image_iff)
      then have "map_of (headers m) name = None"
        by (simp add: map_of_eq_None_iff)
      then show ?thesis
        using add_field_ok [OF assms(1) new lt, of v] full None r(1) lt new
        by (cases "field_fits m name v") (auto simp: set_header_field_def d(2) field_fits_def len field_room_def add_header_def add_field_def
          bytes_writable_ok [OF assms(1)])
    next
      case (Some i)
      then have i: "i < length (header_list m)" "text_of (chars m) (fst (header_list m ! i)) = name"
        using r(2) by simp_all
      have room: "field_room (headers m) name v = length (text_of (chars m) (snd (header_list m ! i))) + length v + 3"
        using map_of_headers [OF assms(1) i] by (simp add: field_room_def)
      have w: "hs_ok m (snd (header_list m ! i))"
        using d(3) i(1) by (metis (mono_tags, lifting) case_prod_beta nth_mem)
      show ?thesis
        using join_field_ok [OF assms(1) i, of v] full Some r(1) lt room i hstring_len_text [OF w d(1)]
        by (cases "field_fits m name v") (auto simp: set_header_field_def d(2) field_fits_def len join_field_def split_def Let_def
          bytes_writable_ok [OF assms(1)])
    qed
  qed
qed

lemma get_header_string_ok:
  assumes "store_ok m" "NUL \<notin> set name"
  shows "get_header_string m name = Inr (map_option c_str (map_of (headers m) name))"
proof -
  note d = store_okD [OF assms(1)]
  obtain r where r: "map_find (chars m) name (header_list m) = Inr r"
      "case r of None \<Rightarrow> name \<notin> text_of (chars m) ` fst ` set (header_list m)
       | Some i \<Rightarrow> i < length (header_list m) \<and> text_of (chars m) (fst (header_list m ! i)) = name"
    using map_find_ok [OF d(3,1)] by blast
  show ?thesis
  proof (cases r)
    case None
    then have "map_of (headers m) name = None"
      using r(2) by (auto simp: map_of_eq_None_iff headers_def image_iff)
    then show ?thesis
      using r(1) None assms(2) by (simp add: get_header_string_def d(2))
  next
    case (Some i)
    then have i: "i < length (header_list m)" "text_of (chars m) (fst (header_list m ! i)) = name"
      using r(2) by simp_all
    obtain k w where kw: "header_list m ! i = (k, w)"
      by (cases "header_list m ! i")
    with i(1) nth_mem [OF i(1)] assms(1) have "w \<noteq> HNull" "hs_ok m w"
      by (auto simp: store_ok_def)
    then obtain off n where w: "w = HBuf off n" "hs_ok m (HBuf off n)"
      by (cases w) auto
    show ?thesis
      using r(1) Some i kw map_of_headers [OF assms(1) i] c_string_at_ok [OF w(2) d(1)] w(1) assms(2)
      by (simp add: get_header_string_def d(2))
  qed
qed

section \<open>A header store\<close>

text \<open>
  What the server and the client rely on when they set and read fields: a set adds to the fields or
  refuses, and a lookup reads them. The lemmas of the locale are about a run of sets.
\<close>

locale header_store =
  fixes inv :: "'m \<Rightarrow> bool" and fields :: "'m \<Rightarrow> (string \<times> string) list"
    and hset :: "'m \<Rightarrow> string \<Rightarrow> string \<Rightarrow> (bool \<times> 'm) cxx" and hget :: "'m \<Rightarrow> string \<Rightarrow> string option cxx"
  assumes hset_law: "inv m \<Longrightarrow> \<exists>ok m'. hset m name v = Inr (ok, m') \<and> inv m' \<and>
      fields m' = (if ok then add_header (fields m) name v else fields m)"
    and hget_law: "inv m \<Longrightarrow> NUL \<notin> set name \<Longrightarrow> hget m name = Inr (map_option c_str (map_of (fields m) name))"

fun set_all :: "('m \<Rightarrow> string \<Rightarrow> string \<Rightarrow> (bool \<times> 'm) cxx) \<Rightarrow> 'm \<Rightarrow> (string \<times> string) list \<Rightarrow> (bool \<times> 'm) cxx" where
  "set_all hset m [] = Inr (True, m)"
| "set_all hset m ((name, v) # fs) =
     bind_cxx (hset m name v) (\<lambda>(ok, m). if ok then set_all hset m fs else Inr (False, m))"

text \<open>The values of a name, in order.\<close>

definition values_of :: "(string \<times> string) list \<Rightarrow> string \<Rightarrow> string list" where
  "values_of fs name = map snd (filter (\<lambda>f. fst f = name) fs)"

fun comma_join :: "string list \<Rightarrow> string option" where
  "comma_join [] = None"
| "comma_join (v # vs) = Some (foldl (\<lambda>w v. w @ '', '' @ v) v vs)"

lemma map_of_add_header:
  "map_of (add_header hs name v) n =
     (if n = name then (case map_of hs name of None \<Rightarrow> Some v | Some w \<Rightarrow> Some (w @ '', '' @ v)) else map_of hs n)"
proof -
  have upd: "map_of (map (\<lambda>(k, w). if k = name then (k, w @ '', '' @ v) else (k, w)) hs) n =
      (if n = name then map_option (\<lambda>w. w @ '', '' @ v) (map_of hs n) else map_of hs n)" for hs
    by (induction hs) auto
  show ?thesis
  proof (cases "name \<in> fst ` set hs")
    case True
    then show ?thesis
      using map_of_eq_None_iff [of hs name] by (simp only: add_header_def upd if_True) (auto split: option.splits)
  next
    case False
    then show ?thesis
      using map_of_eq_None_iff [of hs name] by (auto simp: add_header_def map_add_def split: option.splits)
  qed
qed

context header_store
begin

lemma set_all_fields:
  assumes "inv m" "set_all hset m fs = Inr (True, m')"
  shows "inv m' \<and> map_of (fields m') n =
     (case map_of (fields m) n of
        None \<Rightarrow> comma_join (values_of fs n)
      | Some w \<Rightarrow> comma_join (w # values_of fs n))"
  using assms
proof (induction fs arbitrary: m)
  case (Cons f fs)
  obtain name v where f: "f = (name, v)" by (cases f)
  obtain ok m1 where s: "hset m name v = Inr (ok, m1)" "inv m1"
      "fields m1 = (if ok then add_header (fields m) name v else fields m)"
    using hset_law [OF Cons.prems(1)] by blast
  then have "ok" "set_all hset m1 fs = Inr (True, m')"
    using Cons.prems(2) by (auto simp: f split: if_splits)
  with Cons.IH [OF s(2)] s(3) show ?case
    by (auto simp: f values_of_def map_of_add_header split: option.splits)
qed (auto split: option.splits simp: values_of_def)

lemma set_all_get:
  assumes "inv m" "fields m = []" "set_all hset m fs = Inr (True, m')" "NUL \<notin> set n"
  shows "hget m' n = Inr (map_option c_str (comma_join (values_of fs n)))"
  using set_all_fields [OF assms(1,3), of n] assms(2) hget_law [OF _ assms(4), of m'] by simp

end

interpretation message_headers: header_store "store_ok :: 'a message_scheme \<Rightarrow> bool" headers set_header_field get_header_string
proof
  show "\<exists>ok m'. set_header_field m name v = Inr (ok, m') \<and> store_ok m' \<and>
      headers m' = (if ok then add_header (headers m) name v else headers m)" if "store_ok m" for m :: "'a message_scheme" and name v
    using set_header_field_ok [OF that, of name v] by blast
qed (rule get_header_string_ok)

section \<open>Requests and responses\<close>

lemma store_ok_update [simp]:
  "store_ok (m\<lparr> overflow := ov \<rparr>) = store_ok m" "store_ok (m\<lparr> parse_type := pt \<rparr>) = store_ok m"
  "store_ok (m\<lparr> body_start := bs \<rparr>) = store_ok m" "store_ok (m\<lparr> parser := st \<rparr>) = store_ok m"
  by (simp_all add: store_ok_def headers_def)

lemma store_ok_version [simp]: "store_ok m \<Longrightarrow> hs_ok m h \<Longrightarrow> store_ok (m\<lparr> http_version := h \<rparr>)"
  by (simp add: store_ok_def headers_def)

text \<open>The parts of a message that its header fields have nothing to do with.\<close>

definition same_rest :: "'a message_scheme \<Rightarrow> 'a message_scheme \<Rightarrow> bool" where
  "same_rest m m' \<longleftrightarrow> message.more m' = message.more m \<and> parser m' = parser m \<and> parse_type m' = parse_type m \<and>
     http_version m' = http_version m \<and> body_start m' = body_start m \<and> max_headers m' = max_headers m"

lemma add_field_frame: "add_field m name v = Inr (ok, m') \<Longrightarrow> same_rest m m'"
  by (simp add: add_field_def bind_cxx_Inr_iff Let_def split: if_splits) (auto simp: same_rest_def)

lemma join_field_frame: "join_field m i v = Inr (ok, m') \<Longrightarrow> same_rest m m'"
  by (simp add: join_field_def bind_cxx_Inr_iff Let_def split: if_splits prod.splits option.splits)
    (auto simp: same_rest_def split: option.splits if_splits)

lemma set_header_field_frame: "set_header_field m name v = Inr (ok, m') \<Longrightarrow> same_rest m m'"
  by (auto simp: set_header_field_def bind_cxx_Inr_iff split: if_splits option.splits
    dest: add_field_frame join_field_frame) (simp_all add: same_rest_def)

lemma alloc_string_ok:
  assumes "store_ok m"
  shows "\<exists>m' h. alloc_string m s = Inr (m', h) \<and> store_ok m' \<and> grows m m' \<and> hs_ok m' h \<and>
           message.more m' = message.more m \<and> parser m' = parser m \<and>
           (h \<noteq> HNull \<longrightarrow> text_of (chars m') h = s) \<and> headers m' = headers m \<and>
           (overflow m' \<longleftrightarrow> overflow m \<or> h = HNull) \<and> http_version m' = http_version m"
proof (cases "chars_offset m + length s < length (chars m)")
  case True
  note p = pushed_grows [OF True]
  have "message.more (pushed m s) = message.more m"
    by (simp add: pushed_def)
  with p store_ok_grows [OF assms p(1)] True show ?thesis
    by (simp add: alloc_string_cases [OF assms])
next
  case False
  then show ?thesis
    using assms store_okD(1) [OF assms] by (simp add: alloc_string_cases [OF assms] hs_ok_def grows_def headers_def)
qed

text \<open>A request path that is there is what the parser guarantees.\<close>

definition path_ok :: "http_request \<Rightarrow> hstring \<Rightarrow> bool" where
  "path_ok r h \<longleftrightarrow> (h \<noteq> HNull \<longrightarrow> (let s = text_of (chars r) h in s \<noteq> [] \<and> hd s = CHR ''/'' \<and> NUL \<notin> set s))"

definition request_ok :: "http_request \<Rightarrow> bool" where
  "request_ok r \<longleftrightarrow> store_ok r \<and> hs_ok r (request_method r) \<and> hs_ok r (request_uri r) \<and> hs_ok r (fragment r) \<and>
     hs_ok r (request_path r) \<and> hs_ok r (query_string r) \<and> path_ok r (request_path r)"

definition response_ok :: "http_response \<Rightarrow> bool" where
  "response_ok r \<longleftrightarrow> store_ok r \<and> hs_ok r (reason_phrase r)"

lemma request_more:
  assumes "message.more r' = message.more (r :: http_request)"
  shows "request_method r' = request_method r" "request_uri r' = request_uri r" "fragment r' = fragment r"
    "request_path r' = request_path r" "query_string r' = query_string r"
  using assms by (cases r; cases r'; simp)+

lemma response_more:
  assumes "message.more r' = message.more (r :: http_response)"
  shows "reason_phrase r' = reason_phrase r" "status_code r' = status_code r"
  using assms by (cases r; cases r'; simp)+

lemma request_hs_ok [simp]:
  fixes r :: http_request
  shows "hs_ok (r\<lparr> request_method := s \<rparr>) h = hs_ok r h" "hs_ok (r\<lparr> request_uri := s \<rparr>) h = hs_ok r h"
    "hs_ok (r\<lparr> fragment := s \<rparr>) h = hs_ok r h" "hs_ok (r\<lparr> request_path := s \<rparr>) h = hs_ok r h"
    "hs_ok (r\<lparr> query_string := s \<rparr>) h = hs_ok r h"
  by (simp_all add: hs_ok_def split: hstring.splits)

lemma response_hs_ok [simp]:
  fixes r :: http_response
  shows "hs_ok (r\<lparr> reason_phrase := s \<rparr>) h = hs_ok r h" "hs_ok (r\<lparr> status_code := i \<rparr>) h = hs_ok r h"
  by (simp_all add: hs_ok_def split: hstring.splits)

lemma response_store_ok [simp]:
  fixes r :: http_response
  shows "store_ok (r\<lparr> reason_phrase := s \<rparr>) = store_ok r" "store_ok (r\<lparr> status_code := i \<rparr>) = store_ok r"
  by (simp_all add: store_ok_def headers_def)

lemma request_store_ok [simp]:
  fixes r :: http_request
  shows "store_ok (r\<lparr> request_method := s \<rparr>) = store_ok r" "store_ok (r\<lparr> request_uri := s \<rparr>) = store_ok r"
    "store_ok (r\<lparr> fragment := s \<rparr>) = store_ok r" "store_ok (r\<lparr> request_path := s \<rparr>) = store_ok r"
    "store_ok (r\<lparr> query_string := s \<rparr>) = store_ok r"
  by (simp_all add: store_ok_def headers_def)

lemma request_ok_grows:
  assumes "request_ok r" "store_ok r'" "grows r r'" "message.more r' = message.more r"
  shows "request_ok r'"
  using assms(1,2) grows_text [OF assms(3)] by (auto simp: request_ok_def path_ok_def request_more [OF assms(4)])

lemma request_event_ok:
  assumes "request_ok r" "event_ok ev"
  shows "\<exists>r'. request_event r ev = Inr r' \<and> request_ok r' \<and> parser r' = parser r"
proof -
  have store: "store_ok r"
    using assms(1) by (simp add: request_ok_def)
  obtain r' h where a: "\<And>s. alloc_string r s = Inr (r' s, h s)" "\<And>s. store_ok (r' s)" "\<And>s. hs_ok (r' s) (h s)"
      "\<And>s. parser (r' s) = parser r" "\<And>s. request_ok (r' s)" "\<And>s. h s \<noteq> HNull \<Longrightarrow> text_of (chars (r' s)) (h s) = s"
  proof -
    have "\<forall>s. \<exists>q. alloc_string r s = Inr q \<and> store_ok (fst q) \<and> hs_ok (fst q) (snd q) \<and> parser (fst q) = parser r \<and>
        request_ok (fst q) \<and> (snd q \<noteq> HNull \<longrightarrow> text_of (chars (fst q)) (snd q) = s)"
      using alloc_string_ok [OF store] request_ok_grows [OF assms(1)] by (metis fst_conv snd_conv)
    then obtain q where "\<forall>s. alloc_string r s = Inr (q s) \<and> store_ok (fst (q s)) \<and> hs_ok (fst (q s)) (snd (q s)) \<and>
        parser (fst (q s)) = parser r \<and> request_ok (fst (q s)) \<and> (snd (q s) \<noteq> HNull \<longrightarrow> text_of (chars (fst (q s))) (snd (q s)) = s)"
      by metis
    then show thesis
      by (intro that [of "\<lambda>s. fst (q s)" "\<lambda>s. snd (q s)"]) auto
  qed
  show ?thesis
  proof (cases ev)
    case (SetHeaderField name v)
    obtain m' where "set_header_field r name v = Inr (field_fits r name v, m')" "store_ok m'" "grows r m'"
      using set_header_field_ok [OF store] by blast
    with request_ok_grows [OF assms(1) this(2,3)] set_header_field_frame [OF this(1)] show ?thesis
      by (simp add: SetHeaderField same_rest_def request_event_def)
  qed (use assms a in \<open>auto simp: request_event_def request_ok_def path_ok_def event_ok_def Let_def\<close>)
qed

lemma response_ok_grows:
  assumes "response_ok r" "store_ok r'" "grows r r'" "message.more r' = message.more r"
  shows "response_ok r'"
  using assms(1,2) grows_text [OF assms(3)] by (auto simp: response_ok_def response_more [OF assms(4)])

lemma response_event_ok:
  assumes "response_ok r"
  shows "\<exists>r'. response_event r ev = Inr r' \<and> response_ok r' \<and> parser r' = parser r"
proof -
  have store: "store_ok r"
    using assms(1) by (simp add: response_ok_def)
  have alloc: "\<exists>r' h. alloc_string r s = Inr (r', h) \<and> store_ok r' \<and> hs_ok r' h \<and> response_ok r' \<and> parser r' = parser r" for s
    using alloc_string_ok [OF store] response_ok_grows [OF assms] by metis
  show ?thesis
  proof (cases ev)
    case (SetHeaderField name v)
    obtain m' where "set_header_field r name v = Inr (field_fits r name v, m')" "store_ok m'" "grows r m'"
      using set_header_field_ok [OF store] by blast
    with response_ok_grows [OF assms(1) this(2,3)] set_header_field_frame [OF this(1)] show ?thesis
      by (simp add: SetHeaderField same_rest_def response_event_def)
  next
    case (SetHttpVersion s)
    with alloc [of s] show ?thesis
      by (auto simp: response_event_def response_ok_def)
  next
    case (SetReasonPhrase s)
    with alloc [of s] show ?thesis
      by (auto simp: response_event_def response_ok_def)
  qed (use assms in \<open>auto simp: response_event_def response_ok_def\<close>)
qed

text \<open>C6. On any bytes a request in good order parses without an access outside a buffer and stays in good
  order: the strings it keeps lie in its buffer and are terminated, its header names are distinct and
  its path, if there is one, is nonempty, absolute and without NUL.\<close>

theorem request_parse_ok:
  assumes "request_ok r" "parser_ok mem buf (parser r)" "\<not> parser_is_finished (parser r)" "buf + len \<le> length mem"
  shows "\<exists>k n r'. request_parse mem buf len r = Inr (n, r') \<and> k \<le> len \<and> request_ok r' \<and> parser_ok mem (buf + k) (parser r')"
proof -
  have "cs (parser r) \<noteq> 71"
    using assms(3) by (auto simp: parser_is_finished_def http_parser_first_final_def)
  from parse_ok [OF assms(2) this assms(4)] obtain k n st evs where
    p: "parse mem buf len (parser r) = Inr (n, st, evs)" "k \<le> len" "parser_ok mem (buf + k) st" "list_all event_ok evs"
    by blast
  have "request_ok (r\<lparr> parser := st \<rparr>) \<and> parser (r\<lparr> parser := st \<rparr>) = st"
    using assms(1) by (simp add: request_ok_def path_ok_def)
  with fold_cxx_inv [where P = "\<lambda>r. request_ok r \<and> parser r = st" and f = request_event and Q = event_ok] request_event_ok p(4)
  obtain r' where "fold_cxx request_event (r\<lparr> parser := st \<rparr>) evs = Inr r'" "request_ok r'" "parser r' = st"
    by metis
  with p show ?thesis
    by (auto simp: request_parse_def)
qed

text \<open>The same for a response.\<close>

lemma response_parse_ok:
  assumes "response_ok r" "parser_ok mem buf (parser r)" "\<not> parser_is_finished (parser r)" "buf + len \<le> length mem"
  shows "\<exists>k n r'. response_parse mem buf len r = Inr (n, r') \<and> k \<le> len \<and> response_ok r' \<and> parser_ok mem (buf + k) (parser r')"
proof -
  have "cs (parser r) \<noteq> 71"
    using assms(3) by (auto simp: parser_is_finished_def http_parser_first_final_def)
  from parse_ok [OF assms(2) this assms(4)] obtain k n st evs where
    p: "parse mem buf len (parser r) = Inr (n, st, evs)" "k \<le> len" "parser_ok mem (buf + k) st"
    by blast
  have "response_ok (r\<lparr> parser := st \<rparr>) \<and> parser (r\<lparr> parser := st \<rparr>) = st"
    using assms(1) by (simp add: response_ok_def)
  moreover have "list_all (\<lambda>_. True) evs"
    by (simp add: list_all_iff)
  ultimately obtain r' where "fold_cxx response_event (r\<lparr> parser := st \<rparr>) evs = Inr r'" "response_ok r'" "parser r' = st"
    using fold_cxx_inv [where P = "\<lambda>r. response_ok r \<and> parser r = st" and f = response_event and Q = "\<lambda>_. True"] response_event_ok
    by metis
  with p show ?thesis
    by (auto simp: response_parse_def)
qed

lemma request_reset_ok:
  "request_ok (request_reset r)" "parser_ok mem buf (parser (request_reset r))" "\<not> parser_is_finished (parser (request_reset r))"
proof -
  show "parser_ok mem buf (parser (request_reset r))"
    by (simp add: request_reset_def message_clear_def reset_ok)
  show "request_ok (request_reset r)"
    by (simp add: request_ok_def request_reset_def message_clear_def store_ok_def headers_def hs_ok_def path_ok_def)
  show "\<not> parser_is_finished (parser (request_reset r))"
    by (simp add: request_reset_def message_clear_def parser_is_finished_def parser_reset_def http_parser_en_main_def http_parser_first_final_def)
qed

abbreviation blank_request :: "string \<Rightarrow> http_request" where
  "blank_request b \<equiv> \<lparr> parser = blank_parser, chars = b, chars_offset = 0, max_headers = 8, parse_type = http_parse_none,
     header_list = [], header_map = [], body_start = None, http_version = HNull, overflow = False,
     request_method = HNull, request_uri = HNull, fragment = HNull, request_path = HNull, query_string = HNull \<rparr>"

theorem request_parse_ok_witness:
  "\<exists>k n r'. request_parse ''GET /a?b HTTP/1.1'' 0 17 (request_reset (blank_request (replicate 64 NUL))) = Inr (n, r') \<and>
     k \<le> 17 \<and> request_ok r' \<and> parser_ok ''GET /a?b HTTP/1.1'' (0 + k) (parser r')"
  by (rule request_parse_ok [OF request_reset_ok]) simp

text \<open>After a parse the request path can be sanitised in place: the call stays inside the path and its
  terminator, and either refuses the path or leaves a clean absolute path that is no longer.\<close>

lemma request_path_sanitised:
  assumes "request_ok r" "request_path r = HBuf off n"
  shows "\<exists>s'. sanitize_path (drop off (chars r)) = Inr (- 1, s') \<or>
           sanitize_path (drop off (chars r)) = Inr (0, s') \<and> clean_path (c_str s') \<and> length (c_str s') \<le> n"
proof -
  let ?p = "text_of (chars r) (HBuf off n)"
  have p: "?p \<noteq> []" "hd ?p = CHR ''/''" "NUL \<notin> set ?p" and ok: "hs_ok r (HBuf off n)" "chars_offset r \<le> length (chars r)"
    using assms by (auto simp: request_ok_def path_ok_def Let_def store_ok_def)
  have "length ?p = n"
    using hstring_len_text [OF ok] by (simp add: hstring_len_def)
  then show ?thesis
    using sanitize_path_absolute [OF p, of "drop (off + n + 1) (chars r)"] unfolding hs_split [OF ok] by simp
qed

definition sample_request :: http_request where
  "sample_request = (blank_request (''/a/../b'' @ [NUL]))\<lparr> chars_offset := 8, request_path := HBuf 0 7 \<rparr>"

lemma sample_request_ok: "request_ok sample_request"
  by (simp add: sample_request_def request_ok_def store_ok_def hs_ok_def path_ok_def headers_def text_of_def)

section \<open>Printing\<close>

definition header_lines :: "(string \<times> string) list \<Rightarrow> string" where
  "header_lines hs = concat (map (\<lambda>(k, v). k @ '': '' @ v @ CRLF) hs)"

lemma put_line_prefix:
  assumes "length pre \<le> length out"
  shows "put_line (overwrite out 0 pre) (length pre) line =
    Inr (if length (pre @ line) < length out then Some (overwrite out 0 (pre @ line), length (pre @ line)) else None)"
  using assms overwrite_overwrite [of 0 pre line out] by (auto simp: put_line_def)

lemma put_headers_prefix:
  assumes "\<forall>(k, v) \<in> set kvs. hs_ok m k \<and> hs_ok m v" "chars_offset m \<le> length (chars m)" "length pre < length out"
  shows "put_headers (chars m) (overwrite out 0 pre) (length pre) kvs =
    (let s = pre @ header_lines (map (map_prod (text_of (chars m)) (text_of (chars m))) kvs)
     in Inr (if length s < length out then Some (overwrite out 0 s, length s) else None))"
  using assms(1,3)
proof (induction kvs arbitrary: pre)
  case (Cons kv kvs)
  obtain k v where kv: "kv = (k, v)" by (cases kv)
  let ?line = "text_of (chars m) k @ '': '' @ text_of (chars m) v @ CRLF"
  have put: "put_line (overwrite out 0 pre) (length pre) ?line =
      Inr (if length (pre @ ?line) < length out then Some (overwrite out 0 (pre @ ?line), length (pre @ ?line)) else None)"
    by (rule put_line_prefix) (use Cons.prems in simp)
  show ?case
  proof (cases "length (pre @ ?line) < length out")
    case True
    with Cons.IH [of "pre @ ?line"] Cons.prems put assms(2) show ?thesis
      by (simp add: kv header_lines_def Let_def)
  next
    case False
    with Cons.prems put assms(2) show ?thesis
      by (auto simp: kv header_lines_def Let_def)
  qed
qed (simp add: header_lines_def)

lemma put_rest_prefix:
  assumes "store_ok m" "length pre < length out"
  shows "put_rest m (Some (overwrite out 0 pre, length pre)) =
    (let s = pre @ header_lines (headers m) @ CRLF
     in Inr (if length s < length out then Some (overwrite out 0 s, length s) else None))"
proof (cases "length (pre @ header_lines (headers m)) < length out")
  case True
  with put_headers_prefix [OF store_okD(3,1) [OF assms(1)] assms(2)]
    put_line_prefix [of "pre @ header_lines (headers m)" out CRLF] show ?thesis
    by (auto simp: put_rest_def Let_def headers_def)
next
  case False
  with put_headers_prefix [OF store_okD(3,1) [OF assms(1)] assms(2)] show ?thesis
    by (auto simp: put_rest_def Let_def headers_def)
qed

definition request_text :: "http_request \<Rightarrow> string" where
  "request_text r =
     text_of (chars r) (request_method r) @ '' '' @ text_of (chars r) (request_uri r) @
     (if query_string r \<noteq> HNull then ''?'' @ text_of (chars r) (query_string r) else []) @ '' '' @
     text_of (chars r) (http_version r) @ CRLF @ header_lines (headers r) @ CRLF"

definition response_text :: "http_response \<Rightarrow> string" where
  "response_text r =
     text_of (chars r) (http_version r) @ '' '' @ show_int (status_code r) @ '' '' @
     text_of (chars r) (reason_phrase r) @ CRLF @ header_lines (headers r) @ CRLF"

lemma put_message:
  assumes "store_ok m"
  shows "bind_cxx (put_line out 0 line) (put_rest m) =
    (let s = line @ header_lines (headers m) @ CRLF
     in Inr (if length s < length out then Some (overwrite out 0 s, length s) else None))"
proof (cases "length line < length out")
  case True
  with put_line_prefix [of "[]" out line] put_rest_prefix [OF assms True] show ?thesis
    by simp
next
  case False
  with put_line_prefix [of "[]" out line] show ?thesis
    by (auto simp: put_rest_def Let_def)
qed

lemma response_to_buffer_text:
  assumes "response_ok r" "http_version r \<noteq> HNull" "reason_phrase r \<noteq> HNull"
  shows "response_to_buffer r out =
    Inr (if length (response_text r) < length out
         then Some (overwrite out 0 (response_text r), length (response_text r)) else None)"
proof -
  have ok: "store_ok r" "hs_ok r (http_version r)" "hs_ok r (reason_phrase r)" "chars_offset r \<le> length (chars r)"
    using assms(1) by (auto simp: response_ok_def store_ok_def)
  then show ?thesis
    using assms(2,3) put_message [OF ok(1), of out] by (simp add: response_to_buffer_def response_text_def Let_def)
qed

text \<open>C22. \<^verbatim>\<open>to_buffer\<close> never writes outside the caller's buffer. It writes the status line and the header fields
  and returns their length when they fit with a character to spare, and returns -1 otherwise.\<close>

theorem response_to_buffer_ok:
  assumes "response_ok r" "http_version r \<noteq> HNull" "reason_phrase r \<noteq> HNull"
  shows "response_to_buffer r out =
    Inr (if length (response_text r) < length out
         then Some (overwrite out 0 (response_text r), length (response_text r)) else None)"
  using assms by (rule response_to_buffer_text)

abbreviation sample_response :: http_response where
  "sample_response \<equiv> \<lparr> parser = blank_parser, chars = ''HTTP/1.1'' @ NUL # ''OK'' @ NUL # ''Host'' @ NUL # ''a'' @ [NUL],
     chars_offset = 19, max_headers = 8, parse_type = http_parse_none,
     header_list = [(HBuf 12 4, HBuf 17 1)], header_map = [(HBuf 12 4, HBuf 17 1)], body_start = None, http_version = HBuf 0 8,
     overflow = False, reason_phrase = HBuf 9 2, status_code = 200 \<rparr>"

lemma sample_response_ok: "response_ok sample_response"
  by (simp add: response_ok_def store_ok_def hs_ok_def headers_def text_of_def)

theorem response_to_buffer_ok_witness:
  "response_to_buffer sample_response (replicate 64 NUL) =
    Inr (if length (response_text sample_response) < length (replicate 64 NUL)
         then Some (overwrite (replicate 64 NUL) 0 (response_text sample_response), length (response_text sample_response)) else None)"
  by (rule response_to_buffer_ok [OF sample_response_ok]) simp_all

lemma request_to_buffer_ok:
  assumes "request_ok r" "request_method r \<noteq> HNull" "request_uri r \<noteq> HNull" "http_version r \<noteq> HNull"
  shows "request_to_buffer r out =
    Inr (if length (request_text r) < length out
         then Some (overwrite out 0 (request_text r), length (request_text r)) else None)"
proof -
  have ok: "store_ok r" "hs_ok r (http_version r)" "hs_ok r (request_method r)" "hs_ok r (request_uri r)"
      "hs_ok r (query_string r)" "chars_offset r \<le> length (chars r)"
    using assms(1) by (auto simp: request_ok_def store_ok_def)
  then show ?thesis
    using assms(2-4) put_message [OF ok(1), of out] by (simp add: request_to_buffer_def request_text_def Let_def)
qed

text \<open>The other printer.\<close>

lemma show_headers_ok:
  assumes "\<forall>(k, v) \<in> set kvs. hs_ok m k \<and> hs_ok m v" "chars_offset m \<le> length (chars m)"
  shows "show_headers (chars m) kvs = Inr (header_lines (map (map_prod (text_of (chars m)) (text_of (chars m))) kvs))"
  using assms(1)
proof (induction kvs)
  case (Cons kv kvs)
  then show ?case
    using assms(2) by (cases kv) (auto simp: header_lines_def)
qed (simp add: header_lines_def)

lemma show_c_string_ok:
  assumes "hs_ok m h" "h \<noteq> HNull" "chars_offset m \<le> length (chars m)" "NUL \<notin> set (text_of (chars m) h)"
  shows "show_c_string m h = Inr (text_of (chars m) h)"
  using assms c_string_at_ok [of m] by (cases h) (auto simp: show_c_string_def)

text \<open>C23. What \<^verbatim>\<open>to_buffer\<close> sends of a response is what \<^verbatim>\<open>to_string\<close> shows, when its strings have no NUL.\<close>

theorem response_printers_agree:
  assumes "response_ok r" "http_version r \<noteq> HNull" "reason_phrase r \<noteq> HNull"
    and "NUL \<notin> set (text_of (chars r) (http_version r))" "NUL \<notin> set (text_of (chars r) (reason_phrase r))"
    and "response_to_buffer r out = Inr (Some (out', n))"
  shows "response_to_string r = Inr (take n out')"
proof -
  have ok: "store_ok r" "hs_ok r (http_version r)" "hs_ok r (reason_phrase r)" "chars_offset r \<le> length (chars r)"
    using assms(1) by (auto simp: response_ok_def store_ok_def)
  have "response_to_string r = Inr (response_text r)"
    using assms(2,3) show_c_string_ok [OF ok(2) assms(2) ok(4) assms(4)] show_c_string_ok [OF ok(3) assms(3) ok(4) assms(5)]
      show_headers_ok [OF store_okD(3) [OF ok(1)] ok(4)]
    by (simp add: response_to_string_def response_text_def headers_def)
  moreover note response_to_buffer_text [OF assms(1-3), of out]
  then have "out' = overwrite out 0 (response_text r)" "n = length (response_text r)"
    using assms(6) by (auto split: if_splits)
  ultimately show ?thesis
    by (simp add: overwrite_def)
qed

lemma sample_response_sent:
  "response_to_buffer sample_response (replicate 64 NUL) =
    Inr (Some (overwrite (replicate 64 NUL) 0 (response_text sample_response), length (response_text sample_response)))"
proof -
  have "length (response_text sample_response) < length (replicate 64 NUL)"
    by code_simp
  with response_to_buffer_text [OF sample_response_ok, of "replicate 64 NUL"] show ?thesis
    by simp
qed

theorem response_printers_agree_witness:
  "response_to_string sample_response =
    Inr (take (length (response_text sample_response)) (overwrite (replicate 64 NUL) 0 (response_text sample_response)))"
  by (rule response_printers_agree [OF sample_response_ok _ _ _ _ sample_response_sent]) (simp_all add: text_of_def)

section \<open>Header fields from the clients\<close>

text \<open>C4. \<^verbatim>\<open>set_header_field\<close> refines an update of an association list: when there is a free entry and enough room,
  the field is added, or joined to the value that is there; otherwise the fields stay as they are and
  the overflow flag is set. The strings kept before are not moved.\<close>

theorem set_header_field_refines:
  assumes "store_ok m"
  shows "\<exists>m'. set_header_field m name v = Inr (field_fits m name v, m') \<and> store_ok m' \<and> grows m m' \<and> same_rest m m' \<and>
    headers m' = (if field_fits m name v then add_header (headers m) name v else headers m) \<and>
    overflow m' = (overflow m \<or> \<not> field_fits m name v)"
  using set_header_field_ok [OF assms, of name v] set_header_field_frame by blast

theorem set_header_field_refines_witness:
  "\<exists>m'. set_header_field sample_response ''Host'' ''b'' = Inr (field_fits sample_response ''Host'' ''b'', m') \<and> store_ok m' \<and>
    grows sample_response m' \<and> same_rest sample_response m' \<and>
    headers m' = (if field_fits sample_response ''Host'' ''b'' then add_header (headers sample_response) ''Host'' ''b''
      else headers sample_response) \<and>
    overflow m' = (overflow sample_response \<or> \<not> field_fits sample_response ''Host'' ''b'')"
  by (rule set_header_field_refines) (use sample_response_ok in \<open>simp add: response_ok_def\<close>)

text \<open>C21. After any run of successful sets on an empty message, \<^verbatim>\<open>get_header_string\<close> returns the values given for
  the name, in order and separated by commas, and NULL for a name that was not set.\<close>

theorem header_fields_joined:
  assumes "store_ok m" "headers m = []" "set_all set_header_field m fs = Inr (True, m')" "NUL \<notin> set n"
  shows "get_header_string m' n = Inr (map_option c_str (comma_join (values_of fs n)))"
  using assms by (rule message_headers.set_all_get)

abbreviation two_hosts :: http_request where
  "two_hosts \<equiv> (blank_request (''Host'' @ NUL # ''a'' @ NUL # ''a, b'' @ [NUL, NUL]))\<lparr> chars_offset := 12,
     header_list := [(HBuf 0 4, HBuf 7 4)], header_map := [(HBuf 0 4, HBuf 7 4)] \<rparr>"

lemma two_hosts_set:
  "set_all set_header_field (blank_request (replicate 13 NUL)) [(''Host'', ''a''), (''Host'', ''b'')] = Inr (True, two_hosts)"
  by code_simp

theorem header_fields_joined_witness:
  "get_header_string two_hosts ''Host'' =
     Inr (map_option c_str (comma_join (values_of [(''Host'', ''a''), (''Host'', ''b'')] ''Host'')))"
  by (rule header_fields_joined [OF _ _ two_hosts_set]) (simp_all add: store_ok_def hs_ok_def headers_def)

text \<open>The parser reports the whole target as the URI and its query again, and the printers print both.\<close>

lemma query_printed_twice:
  "bind_cxx (request_parse (''GET /a?b HTTP/1.1'' @ CRLF @ CRLF) 0 21 (blank_request (replicate 40 NUL)\<lparr> parser := parser_reset blank_parser \<rparr>))
     (\<lambda>(n, r). request_to_string r) = Inr (''GET /a?b?b HTTP/1.1'' @ CRLF @ CRLF)"
  by code_simp

end
