(* ===== verification/Http_Date.thy ===== *)
theory Http_Date
  imports Http_Parser
begin

text \<open>
  \<^verbatim>\<open>src/http_date.cc\<close>: dates in HTTP headers. The parser is a table-driven machine of the same shape as
  that of the message heads; it fills a broken-down time, which the C library turns into seconds. The
  printers take the broken-down time of the C library. Its functions \<open>timegm\<close> and \<open>gmtime\<close> are those of
  the proleptic Gregorian calendar without leap seconds, as POSIX defines them.
\<close>

section \<open>Broken-down time\<close>

record tm =
  tm_sec :: int
  tm_min :: int
  tm_hour :: int
  tm_mday :: int
  tm_mon :: int
  tm_year :: int
  tm_wday :: int

definition is_leap :: "int \<Rightarrow> bool" where
  "is_leap y \<longleftrightarrow> 4 dvd y \<and> (\<not> 100 dvd y \<or> 400 dvd y)"

definition year_length :: "int \<Rightarrow> int" where
  "year_length y = (if is_leap y then 366 else 365)"

definition month_lengths :: "int \<Rightarrow> int list" where
  "month_lengths y = [31, if is_leap y then 29 else 28, 31, 30, 31, 30, 31, 31, 30, 31, 30, 31]"

text \<open>Days from the first of January 1970 to the first of January of a year.\<close>

definition days_before_year :: "int \<Rightarrow> int" where
  "days_before_year y = 365 * (y - 1970) + (y - 1969) div 4 - (y - 1901) div 100 + (y - 1601) div 400"

text \<open>\<^verbatim>\<open>timegm\<close>, for a month in range; the other fields need not be.\<close>

definition timegm :: "tm \<Rightarrow> int" where
  "timegm t =
     (let y = tm_year t + 1900 in
      86400 * (days_before_year y + sum_list (take (nat (tm_mon t)) (month_lengths y)) + tm_mday t - 1) +
      3600 * tm_hour t + 60 * tm_min t + tm_sec t)"

function year_of :: "int \<Rightarrow> int \<Rightarrow> int \<times> int" where
  "year_of d y =
     (if d < 0 then year_of (d + year_length (y - 1)) (y - 1)
      else if d < year_length y then (y, d) else year_of (d - year_length y) (y + 1))"
  by pat_completeness auto
termination
  by (relation "measures [\<lambda>(d, y). if d < 0 then 1 else 0, \<lambda>(d, y). nat (- d), \<lambda>(d, y). nat d]")
    (auto simp: year_length_def split: if_splits)

declare year_of.simps [simp del]

fun month_of :: "int \<Rightarrow> int list \<Rightarrow> int \<times> int" where
  "month_of d [] = (0, d)"
| "month_of d (n # ns) = (if d < n then (0, d) else let (m, d') = month_of (d - n) ns in (m + 1, d'))"

definition gmtime :: "int \<Rightarrow> tm" where
  "gmtime t =
     (let days = t div 86400; sod = t mod 86400; (y, d) = year_of days 1970; (m, d') = month_of d (month_lengths y) in
      \<lparr> tm_sec = sod mod 60, tm_min = sod div 60 mod 60, tm_hour = sod div 3600, tm_mday = d' + 1, tm_mon = m,
        tm_year = y - 1900, tm_wday = (days + 4) mod 7 \<rparr>)"

section \<open>The tables\<close>

definition http_date_actions :: "int list" where
  "http_date_actions =
    [0, 1, 0, 1, 1, 1, 2, 1, 3, 1, 4, 1, 5, 1, 6, 1, 7, 1, 8, 1, 9, 1, 10, 1, 11, 1, 12, 1, 13, 1,
    14, 1, 15, 1, 16, 1, 17, 1, 18, 1, 19, 1, 20, 1, 21, 1, 22, 1, 23, 1, 24, 1, 25, 1, 26, 2, 25, 1]"

definition http_date_key_offsets :: "int list" where
  "http_date_key_offsets =
    [0, 0, 5, 6, 7, 12, 23, 25, 26, 29, 34, 39, 44, 46, 47, 49, 51, 52, 54, 56, 59, 64, 66, 68, 70,
    73, 74, 77, 78, 79, 82, 83, 84, 87, 89, 90, 93, 95, 98, 101, 102, 104, 107, 110, 111, 112, 115,
    116, 117, 120, 121, 122, 125, 128, 133, 139, 150, 152, 153, 156, 161, 163, 165, 167, 170, 175,
    177, 178, 180, 182, 183, 185, 187, 190, 194, 195, 196, 197, 200, 201, 202, 205, 206, 207, 210,
    212, 213, 216, 218, 221, 224, 225, 227, 230, 233, 234, 235, 238, 239, 240, 243, 244, 245, 248,
    256, 258, 259, 260, 262, 264, 267, 268, 269, 270, 271, 272, 273, 274, 275, 277, 278, 279, 281,
    282, 283, 284, 286, 287, 288, 289, 290, 291, 292, 293, 294, 295, 296, 297, 301, 302, 303, 307,
    308, 309, 314, 315, 316, 320, 322, 323, 328, 329, 330, 331, 332, 336, 337, 342, 343, 344, 348,
    350, 351, 356, 357, 358, 359, 360, 364, 365, 370, 371, 372, 373, 377, 378, 379, 384, 385, 386,
    387, 388, 389, 393, 393]"

definition http_date_trans_keys :: "int list" where
  "http_date_trans_keys =
    [70, 77, 83, 84, 87, 114, 105, 32, 44, 100, 9, 13, 32, 65, 68, 70, 74, 77, 78, 79, 83, 9, 13,
    112, 117, 114, 32, 9, 13, 32, 9, 13, 48, 57, 32, 9, 13, 48, 57, 32, 9, 13, 48, 57, 48, 57, 58,
    48, 57, 48, 57, 58, 48, 57, 48, 57, 32, 9, 13, 32, 9, 13, 48, 57, 48, 57, 48, 57, 48, 57, 32, 9,
    13, 103, 32, 9, 13, 101, 99, 32, 9, 13, 101, 98, 32, 9, 13, 97, 117, 110, 32, 9, 13, 108, 110,
    32, 9, 13, 32, 9, 13, 97, 114, 121, 32, 9, 13, 32, 9, 13, 111, 118, 32, 9, 13, 99, 116, 32, 9,
    13, 101, 112, 32, 9, 13, 32, 9, 13, 32, 9, 13, 48, 57, 32, 45, 9, 13, 48, 57, 32, 65, 68, 70,
    74, 77, 78, 79, 83, 9, 13, 112, 117, 114, 32, 9, 13, 32, 9, 13, 48, 57, 48, 57, 48, 57, 48, 57,
    32, 9, 13, 32, 9, 13, 48, 57, 48, 57, 58, 48, 57, 48, 57, 58, 48, 57, 48, 57, 32, 9, 13, 32, 71,
    9, 13, 77, 84, 103, 32, 9, 13, 101, 99, 32, 9, 13, 101, 98, 32, 9, 13, 97, 117, 110, 32, 9, 13,
    108, 110, 32, 9, 13, 32, 9, 13, 97, 114, 121, 32, 9, 13, 32, 9, 13, 111, 118, 32, 9, 13, 99,
    116, 32, 9, 13, 101, 112, 32, 9, 13, 65, 68, 70, 74, 77, 78, 79, 83, 112, 117, 114, 45, 48, 57,
    48, 57, 32, 9, 13, 103, 45, 101, 99, 45, 101, 98, 45, 97, 117, 110, 45, 108, 110, 45, 45, 97,
    114, 121, 45, 45, 111, 118, 45, 99, 116, 45, 101, 112, 45, 32, 45, 9, 13, 97, 121, 32, 44, 9,
    13, 111, 110, 32, 44, 100, 9, 13, 97, 121, 32, 44, 9, 13, 97, 117, 116, 32, 44, 117, 9, 13, 114,
    100, 97, 121, 32, 44, 9, 13, 110, 32, 44, 100, 9, 13, 97, 121, 32, 44, 9, 13, 104, 117, 117, 32,
    44, 114, 9, 13, 115, 100, 97, 121, 32, 44, 9, 13, 101, 32, 44, 115, 9, 13, 100, 97, 121, 32, 44,
    9, 13, 101, 100, 32, 44, 110, 9, 13, 101, 115, 100, 97, 121, 32, 44, 9, 13, 0]"

definition http_date_single_lengths :: "int list" where
  "http_date_single_lengths =
    [0, 5, 1, 1, 3, 9, 2, 1, 1, 1, 1, 1, 0, 1, 0, 0, 1, 0, 0, 1, 1, 0, 0, 0, 1, 1, 1, 1, 1, 1, 1, 1,
    1, 2, 1, 1, 2, 1, 1, 1, 2, 1, 1, 1, 1, 1, 1, 1, 1, 1, 1, 1, 1, 1, 2, 9, 2, 1, 1, 1, 0, 0, 0, 1,
    1, 0, 1, 0, 0, 1, 0, 0, 1, 2, 1, 1, 1, 1, 1, 1, 1, 1, 1, 1, 2, 1, 1, 2, 1, 1, 1, 2, 1, 1, 1, 1,
    1, 1, 1, 1, 1, 1, 1, 8, 2, 1, 1, 0, 0, 1, 1, 1, 1, 1, 1, 1, 1, 1, 2, 1, 1, 2, 1, 1, 1, 2, 1, 1,
    1, 1, 1, 1, 1, 1, 1, 1, 1, 2, 1, 1, 2, 1, 1, 3, 1, 1, 2, 2, 1, 3, 1, 1, 1, 1, 2, 1, 3, 1, 1, 2,
    2, 1, 3, 1, 1, 1, 1, 2, 1, 3, 1, 1, 1, 2, 1, 1, 3, 1, 1, 1, 1, 1, 2, 0, 0]"

definition http_date_range_lengths :: "int list" where
  "http_date_range_lengths =
    [0, 0, 0, 0, 1, 1, 0, 0, 1, 2, 2, 2, 1, 0, 1, 1, 0, 1, 1, 1, 2, 1, 1, 1, 1, 0, 1, 0, 0, 1, 0, 0,
    1, 0, 0, 1, 0, 1, 1, 0, 0, 1, 1, 0, 0, 1, 0, 0, 1, 0, 0, 1, 1, 2, 2, 1, 0, 0, 1, 2, 1, 1, 1, 1,
    2, 1, 0, 1, 1, 0, 1, 1, 1, 1, 0, 0, 0, 1, 0, 0, 1, 0, 0, 1, 0, 0, 1, 0, 1, 1, 0, 0, 1, 1, 0, 0,
    1, 0, 0, 1, 0, 0, 1, 0, 0, 0, 0, 1, 1, 1, 0, 0, 0, 0, 0, 0, 0, 0, 0, 0, 0, 0, 0, 0, 0, 0, 0, 0,
    0, 0, 0, 0, 0, 0, 0, 0, 0, 1, 0, 0, 1, 0, 0, 1, 0, 0, 1, 0, 0, 1, 0, 0, 0, 0, 1, 0, 1, 0, 0, 1,
    0, 0, 1, 0, 0, 0, 0, 1, 0, 1, 0, 0, 0, 1, 0, 0, 1, 0, 0, 0, 0, 0, 1, 0, 0]"

definition http_date_index_offsets :: "int list" where
  "http_date_index_offsets =
    [0, 0, 6, 8, 10, 15, 26, 29, 31, 34, 38, 42, 46, 48, 50, 52, 54, 56, 58, 60, 63, 67, 69, 71, 73,
    76, 78, 81, 83, 85, 88, 90, 92, 95, 98, 100, 103, 106, 109, 112, 114, 117, 120, 123, 125, 127,
    130, 132, 134, 137, 139, 141, 144, 147, 151, 156, 167, 170, 172, 175, 179, 181, 183, 185, 188,
    192, 194, 196, 198, 200, 202, 204, 206, 209, 213, 215, 217, 219, 222, 224, 226, 229, 231, 233,
    236, 239, 241, 244, 247, 250, 253, 255, 258, 261, 264, 266, 268, 271, 273, 275, 278, 280, 282,
    285, 294, 297, 299, 301, 303, 305, 308, 310, 312, 314, 316, 318, 320, 322, 324, 327, 329, 331,
    334, 336, 338, 340, 343, 345, 347, 349, 351, 353, 355, 357, 359, 361, 363, 365, 369, 371, 373,
    377, 379, 381, 386, 388, 390, 394, 397, 399, 404, 406, 408, 410, 412, 416, 418, 423, 425, 427,
    431, 434, 436, 441, 443, 445, 447, 449, 453, 455, 460, 462, 464, 466, 470, 472, 474, 479, 481,
    483, 485, 487, 489, 493, 494]"

definition http_date_indicies :: "int list" where
  "http_date_indicies =
    [0, 2, 3, 4, 5, 1, 6, 1, 7, 1, 8, 9, 10, 8, 1, 11, 12, 13, 14, 15, 16, 17, 18, 19, 11, 1, 20, 21,
    1, 22, 1, 23, 23, 1, 24, 24, 25, 1, 26, 26, 27, 1, 28, 28, 29, 1, 30, 1, 31, 1, 32, 1, 33, 1,
    34, 1, 35, 1, 36, 1, 37, 37, 1, 38, 38, 39, 1, 40, 1, 41, 1, 42, 1, 26, 26, 1, 43, 1, 44, 44, 1,
    45, 1, 46, 1, 47, 47, 1, 48, 1, 49, 1, 50, 50, 1, 51, 52, 1, 53, 1, 54, 54, 1, 55, 56, 1, 57,
    57, 1, 58, 58, 1, 59, 1, 60, 61, 1, 62, 62, 1, 63, 63, 1, 64, 1, 65, 1, 66, 66, 1, 67, 1, 68, 1,
    69, 69, 1, 70, 1, 71, 1, 72, 72, 1, 73, 73, 1, 73, 73, 74, 1, 75, 76, 75, 77, 1, 78, 79, 80, 81,
    82, 83, 84, 85, 86, 78, 1, 87, 88, 1, 89, 1, 90, 90, 1, 91, 91, 92, 1, 93, 1, 94, 1, 95, 1, 96,
    96, 1, 97, 97, 98, 1, 99, 1, 100, 1, 101, 1, 102, 1, 103, 1, 104, 1, 105, 1, 106, 106, 1, 107,
    108, 107, 1, 109, 1, 110, 1, 111, 1, 112, 112, 1, 113, 1, 114, 1, 115, 115, 1, 116, 1, 117, 1,
    118, 118, 1, 119, 120, 1, 121, 1, 122, 122, 1, 123, 124, 1, 125, 125, 1, 126, 126, 1, 127, 1,
    128, 129, 1, 130, 130, 1, 131, 131, 1, 132, 1, 133, 1, 134, 134, 1, 135, 1, 136, 1, 137, 137, 1,
    138, 1, 139, 1, 140, 140, 1, 141, 142, 143, 144, 145, 146, 147, 148, 1, 149, 150, 1, 151, 1,
    152, 1, 153, 1, 154, 1, 155, 155, 1, 156, 1, 157, 1, 158, 1, 159, 1, 160, 1, 161, 1, 162, 1,
    163, 1, 164, 165, 1, 166, 1, 167, 1, 168, 169, 1, 170, 1, 171, 1, 172, 1, 173, 174, 1, 175, 1,
    176, 1, 177, 1, 178, 1, 179, 1, 180, 1, 181, 1, 182, 1, 183, 1, 184, 1, 185, 1, 75, 76, 75, 1,
    186, 1, 187, 1, 8, 9, 8, 1, 188, 1, 189, 1, 190, 191, 192, 190, 1, 193, 1, 194, 1, 190, 191,
    190, 1, 195, 196, 1, 197, 1, 198, 199, 200, 198, 1, 201, 1, 202, 1, 203, 1, 204, 1, 198, 199,
    198, 1, 205, 1, 206, 207, 208, 206, 1, 209, 1, 210, 1, 206, 207, 206, 1, 211, 212, 1, 213, 1,
    214, 215, 216, 214, 1, 217, 1, 218, 1, 219, 1, 220, 1, 214, 215, 214, 1, 221, 1, 222, 223, 224,
    222, 1, 225, 1, 226, 1, 227, 1, 222, 223, 222, 1, 228, 1, 229, 1, 230, 231, 232, 230, 1, 233, 1,
    234, 1, 235, 1, 236, 1, 237, 1, 230, 231, 230, 1, 1, 1, 0]"

definition http_date_trans_targs :: "int list" where
  "http_date_trans_targs =
    [2, 0, 141, 147, 160, 174, 3, 4, 5, 52, 138, 5, 6, 27, 30, 33, 39, 43, 46, 49, 7, 25, 8, 9, 9,
    10, 11, 24, 11, 12, 13, 14, 15, 16, 17, 18, 19, 20, 20, 21, 22, 23, 183, 26, 9, 28, 29, 9, 31,
    32, 9, 34, 36, 35, 9, 37, 38, 9, 9, 40, 41, 42, 9, 9, 44, 45, 9, 47, 48, 9, 50, 51, 9, 53, 54,
    55, 103, 137, 55, 56, 78, 81, 84, 90, 94, 97, 100, 57, 76, 58, 59, 59, 60, 61, 62, 63, 64, 64,
    65, 66, 67, 68, 69, 70, 71, 72, 73, 73, 74, 75, 184, 77, 59, 79, 80, 59, 82, 83, 59, 85, 87, 86,
    59, 88, 89, 59, 59, 91, 92, 93, 59, 59, 95, 96, 59, 98, 99, 59, 101, 102, 59, 104, 112, 115,
    118, 124, 128, 131, 134, 105, 110, 106, 107, 108, 109, 64, 111, 107, 113, 114, 107, 116, 117,
    107, 119, 121, 120, 107, 122, 123, 107, 107, 125, 126, 127, 107, 107, 129, 130, 107, 132, 133,
    107, 135, 136, 107, 139, 140, 142, 143, 5, 52, 144, 145, 146, 148, 155, 149, 5, 52, 150, 151,
    152, 153, 154, 156, 5, 52, 157, 158, 159, 161, 168, 162, 5, 52, 163, 164, 165, 166, 167, 169, 5,
    52, 170, 171, 172, 173, 175, 176, 5, 52, 177, 178, 179, 180, 181, 182]"

definition http_date_trans_actions :: "int list" where
  "http_date_trans_actions =
    [0, 0, 0, 0, 0, 0, 0, 0, 15, 15, 0, 0, 0, 0, 0, 0, 0, 0, 0, 0, 0, 0, 0, 25, 0, 1, 43, 0, 0, 1, 0,
    45, 1, 0, 47, 1, 0, 49, 0, 1, 0, 0, 0, 0, 33, 0, 0, 41, 0, 0, 21, 0, 0, 0, 19, 0, 0, 31, 29, 0,
    0, 0, 23, 27, 0, 0, 39, 0, 0, 37, 0, 0, 35, 0, 1, 43, 43, 0, 0, 0, 0, 0, 0, 0, 0, 0, 0, 0, 0, 0,
    25, 0, 1, 0, 0, 0, 51, 0, 1, 0, 45, 1, 0, 47, 1, 0, 49, 0, 0, 0, 0, 0, 33, 0, 0, 41, 0, 0, 21,
    0, 0, 0, 19, 0, 0, 31, 29, 0, 0, 0, 23, 27, 0, 0, 39, 0, 0, 37, 0, 0, 35, 0, 0, 0, 0, 0, 0, 0,
    0, 0, 0, 0, 25, 1, 0, 53, 0, 33, 0, 0, 41, 0, 0, 21, 0, 0, 0, 19, 0, 0, 31, 29, 0, 0, 0, 23, 27,
    0, 0, 39, 0, 0, 37, 0, 0, 35, 0, 0, 0, 0, 7, 7, 0, 0, 0, 0, 0, 0, 17, 17, 0, 0, 0, 0, 0, 0, 5,
    5, 0, 0, 0, 0, 0, 0, 13, 13, 0, 0, 0, 0, 0, 0, 9, 9, 0, 0, 0, 0, 0, 0, 11, 11, 0, 0, 0, 0, 0, 0]"

definition http_date_eof_actions :: "int list" where
  "http_date_eof_actions =
    [0, 0, 0, 0, 0, 0, 0, 0, 0, 0, 0, 0, 0, 0, 0, 0, 0, 0, 0, 0, 0, 0, 0, 0, 0, 0, 0, 0, 0, 0, 0, 0,
    0, 0, 0, 0, 0, 0, 0, 0, 0, 0, 0, 0, 0, 0, 0, 0, 0, 0, 0, 0, 0, 0, 0, 0, 0, 0, 0, 0, 0, 0, 0, 0,
    0, 0, 0, 0, 0, 0, 0, 0, 0, 0, 0, 0, 0, 0, 0, 0, 0, 0, 0, 0, 0, 0, 0, 0, 0, 0, 0, 0, 0, 0, 0, 0,
    0, 0, 0, 0, 0, 0, 0, 0, 0, 0, 0, 0, 0, 0, 0, 0, 0, 0, 0, 0, 0, 0, 0, 0, 0, 0, 0, 0, 0, 0, 0, 0,
    0, 0, 0, 0, 0, 0, 0, 0, 0, 0, 0, 0, 0, 0, 0, 0, 0, 0, 0, 0, 0, 0, 0, 0, 0, 0, 0, 0, 0, 0, 0, 0,
    0, 0, 0, 0, 0, 0, 0, 0, 0, 0, 0, 0, 0, 0, 0, 0, 0, 0, 0, 0, 0, 0, 0, 55, 3]"

definition http_date_start :: nat where
  "http_date_start = 1"

definition http_date_first_final :: nat where
  "http_date_first_final = 183"

definition http_date_error :: nat where
  "http_date_error = 0"

definition day_names :: "string list" where
  "day_names = [''Sun'', ''Mon'', ''Tue'', ''Wed'', ''Thu'', ''Fri'', ''Sat'']"

definition month_names :: "string list" where
  "month_names = [''Jan'', ''Feb'', ''Mar'', ''Apr'', ''May'', ''Jun'', ''Jul'', ''Aug'', ''Sep'', ''Oct'', ''Nov'', ''Dec'']"

section \<open>The machine\<close>

function date_find_single :: "int \<Rightarrow> nat \<Rightarrow> int \<Rightarrow> int \<Rightarrow> int option cxx" where
  "date_find_single c keys lower upper =
     (if upper < lower then Inr None
      else
        let mid = lower + (upper - lower) div 2 in
        bind_cxx (index_cxx http_date_trans_keys (keys + nat mid)) (\<lambda>k.
          if c < k then date_find_single c keys lower (mid - 1)
          else if c > k then date_find_single c keys (mid + 1) upper
          else Inr (Some mid)))"
  by pat_completeness auto
termination
  by (relation "measure (\<lambda>(c, keys, lower, upper). nat (upper - lower + 1))") auto

function date_find_range :: "int \<Rightarrow> nat \<Rightarrow> int \<Rightarrow> int \<Rightarrow> int option cxx" where
  "date_find_range c keys lower upper =
     (if upper < lower then Inr None
      else
        let mid = lower + 2 * ((upper - lower) div 2 div 2) in
        bind_cxx (index_cxx http_date_trans_keys (keys + nat mid)) (\<lambda>k0.
          if c < k0 then date_find_range c keys lower (mid - 2)
          else bind_cxx (index_cxx http_date_trans_keys (keys + nat mid + 1)) (\<lambda>k1.
            if c > k1 then date_find_range c keys (mid + 2) upper
            else Inr (Some (mid div 2)))))"
  by pat_completeness auto
termination
  by (relation "measure (\<lambda>(c, keys, lower, upper). nat (upper - lower + 2))") auto

declare date_find_single.simps [simp del] date_find_range.simps [simp del]

definition date_find_trans :: "nat \<Rightarrow> int \<Rightarrow> nat cxx" where
  "date_find_trans state c =
     bind_cxx (table_at http_date_key_offsets state) (\<lambda>keys.
     bind_cxx (table_at http_date_index_offsets state) (\<lambda>trans.
     bind_cxx (table_at http_date_single_lengths state) (\<lambda>singles.
     bind_cxx (table_at http_date_range_lengths state) (\<lambda>ranges.
     bind_cxx (if singles > 0 then date_find_single c keys 0 (int singles - 1) else Inr None) (\<lambda>found.
     bind_cxx
       (case found of
          Some i \<Rightarrow> Inr (trans + nat i)
        | None \<Rightarrow>
            bind_cxx (if ranges > 0 then date_find_range c (keys + singles) 0 (2 * int ranges - 2) else Inr None) (\<lambda>found.
              case found of
                Some i \<Rightarrow> Inr (trans + singles + nat i)
              | None \<Rightarrow> Inr (trans + singles + ranges)))
       (table_at http_date_indicies))))))"

definition date_action_list :: "nat \<Rightarrow> nat list cxx" where
  "date_action_list tr =
     bind_cxx (table_at http_date_trans_actions tr) (\<lambda>a.
       if a = 0 then Inr []
       else bind_cxx (table_at http_date_actions a) (\<lambda>n. bind_cxx (read_range http_date_actions (a + 1) n) (\<lambda>acts. Inr (map nat acts))))"

record date_state =
  dcs :: nat
  dmark :: "nat option"
  dtm :: tm

definition date_action :: "string \<Rightarrow> nat \<Rightarrow> nat \<Rightarrow> date_state \<Rightarrow> date_state cxx" where
  "date_action str p act st =
     (let t = dtm st; num = bind_cxx (mark_string str (dmark st) p) atoi in
      if act = 0 then Inr (st\<lparr> dmark := Some p \<rparr>)
      else if 2 \<le> act \<and> act \<le> 8 then Inr (st\<lparr> dtm := t\<lparr> tm_wday := int act - 2 \<rparr> \<rparr>)
      else if 9 \<le> act \<and> act \<le> 20 then Inr (st\<lparr> dtm := t\<lparr> tm_mon := int act - 9 \<rparr> \<rparr>)
      else if act = 21 then bind_cxx num (\<lambda>n. Inr (st\<lparr> dtm := t\<lparr> tm_mday := n \<rparr> \<rparr>))
      else if act = 22 then bind_cxx num (\<lambda>n. Inr (st\<lparr> dtm := t\<lparr> tm_hour := n \<rparr> \<rparr>))
      else if act = 23 then bind_cxx num (\<lambda>n. Inr (st\<lparr> dtm := t\<lparr> tm_min := n \<rparr> \<rparr>))
      else if act = 24 then bind_cxx num (\<lambda>n. Inr (st\<lparr> dtm := t\<lparr> tm_sec := n \<rparr> \<rparr>))
      else if act = 25 then bind_cxx num (\<lambda>n. Inr (st\<lparr> dtm := t\<lparr> tm_year := n - 1900 \<rparr> \<rparr>))
      else if act = 26 then bind_cxx num (\<lambda>n. Inr (st\<lparr> dtm := t\<lparr> tm_year := (if n < 38 then n + 100 else n) \<rparr> \<rparr>))
      else Inr st)"

fun date_actions :: "string \<Rightarrow> nat \<Rightarrow> nat list \<Rightarrow> date_state \<Rightarrow> date_state cxx" where
  "date_actions str p [] st = Inr st"
| "date_actions str p (act # acts) st = bind_cxx (date_action str p act st) (date_actions str p acts)"

text \<open>The actions at the end of the text; action 1 leaves the machine.\<close>

fun date_eof_actions :: "string \<Rightarrow> nat \<Rightarrow> nat list \<Rightarrow> date_state \<Rightarrow> date_state cxx" where
  "date_eof_actions str p [] st = Inr st"
| "date_eof_actions str p (act # acts) st =
     (if act = 1 then Inr st
      else if act = 25 then bind_cxx (date_action str p 25 st) (date_eof_actions str p acts)
      else date_eof_actions str p acts st)"

definition date_eof :: "string \<Rightarrow> nat \<Rightarrow> date_state \<Rightarrow> date_state cxx" where
  "date_eof str p st =
     bind_cxx (table_at http_date_eof_actions (dcs st)) (\<lambda>a.
     bind_cxx (table_at http_date_actions a) (\<lambda>n.
     bind_cxx (read_range http_date_actions (a + 1) n) (\<lambda>acts. date_eof_actions str p (map nat acts) st)))"

function date_exec :: "string \<Rightarrow> nat \<Rightarrow> date_state \<Rightarrow> date_state cxx" where
  "date_exec str p st =
     bind_cxx (index_cxx str p) (\<lambda>c.
     bind_cxx (date_find_trans (dcs st) (schar c)) (\<lambda>trans.
     bind_cxx (table_at http_date_trans_targs trans) (\<lambda>targ.
     bind_cxx (date_action_list trans) (\<lambda>acts.
     bind_cxx (date_actions str p acts (st\<lparr> dcs := targ \<rparr>)) (\<lambda>st.
       if dcs st = 0 then Inr st
       else if p + 1 \<noteq> length str then date_exec str (p + 1) st
       else date_eof str (p + 1) st)))))"
  by pat_completeness auto
termination
  by (relation "measure (\<lambda>(str, p, st). length str - p)") (auto simp: index_cxx_Inr_iff)

declare date_exec.simps [simp del]

text \<open>The result of \<^verbatim>\<open>parse\<close> and the time it stores.\<close>

definition date_init :: date_state where
  "date_init = \<lparr> dcs = http_date_start, dmark = None,
     dtm = \<lparr> tm_sec = 0, tm_min = 0, tm_hour = 0, tm_mday = 0, tm_mon = 0, tm_year = 0, tm_wday = 0 \<rparr> \<rparr>"

definition date_parse :: "string \<Rightarrow> (bool \<times> int) cxx" where
  "date_parse arg =
     (let str = c_str arg in
      bind_cxx (if str = [] then date_eof str 0 date_init else date_exec str 0 date_init) (\<lambda>st.
        Inr (dcs st \<noteq> http_date_error \<and> dcs st = http_date_first_final, timegm (dtm st))))"

section \<open>Printing\<close>

text \<open>A \<^verbatim>\<open>char\<close> from a small number.\<close>

definition chr :: "int \<Rightarrow> char" where
  "chr i = char_of (nat (i mod 256))"

definition two_digits :: "int \<Rightarrow> string" where
  "two_digits n = [chr (48 + n div 10), chr (48 + n mod 10)]"

definition four_digits :: "int \<Rightarrow> string" where
  "four_digits n = [chr (48 + n div 1000), chr (48 + n div 100 mod 10), chr (48 + n div 10 mod 10), chr (48 + n mod 10)]"

definition three_chars :: "string list \<Rightarrow> int \<Rightarrow> string cxx" where
  "three_chars names i = bind_cxx (index_cxx names (nat i)) (\<lambda>s. read_range s 0 3)"

text \<open>
  The characters written, and the length of the string returned: a pointer to the buffer and this
  length, which for two of the formats is not the length of the text.
\<close>

definition to_header_string :: "nat \<Rightarrow> int \<Rightarrow> (string \<times> nat) cxx" where
  "to_header_string buf_len tod =
     (if buf_len < 30 then Inr ([], 0)
      else
        let t = gmtime tod; year = tm_year t + 1900 in
        bind_cxx (three_chars day_names (tm_wday t AND 7)) (\<lambda>wday.
        bind_cxx (three_chars month_names (tm_mon t mod 12)) (\<lambda>mon.
          Inr (wday @ '', '' @ two_digits (tm_mday t) @ '' '' @ mon @ '' '' @ four_digits year @ '' '' @
            two_digits (tm_hour t) @ '':'' @ two_digits (tm_min t) @ '':'' @ two_digits (tm_sec t) @ '' GMT'' @ [NUL], 29))))"

definition to_log_string :: "nat \<Rightarrow> int \<Rightarrow> (string \<times> nat) cxx" where
  "to_log_string buf_len tod =
     (if buf_len < 30 then Inr ([], 0)
      else
        let t = gmtime tod; year = tm_year t + 1900 in
        bind_cxx (three_chars month_names (tm_mon t mod 12)) (\<lambda>mon.
          Inr (''['' @ two_digits (tm_mday t) @ ''/'' @ mon @ ''/'' @ four_digits year @ '':'' @
            two_digits (tm_hour t) @ '':'' @ two_digits (tm_min t) @ '':'' @ two_digits (tm_sec t) @ '' +0000]'' @ [NUL], 29)))"

definition to_iso_string :: "nat \<Rightarrow> int \<Rightarrow> (string \<times> nat) cxx" where
  "to_iso_string buf_len tod =
     (if buf_len < 30 then Inr ([], 0)
      else
        let t = gmtime tod; mon = tm_mon t mod 12; year = tm_year t + 1900 in
          Inr (four_digits year @ two_digits (mon + 1) @ two_digits (tm_mday t) @
            two_digits (tm_hour t) @ two_digits (tm_min t) @ two_digits (tm_sec t) @ [NUL], 29))"

datatype http_date_format = http_date_format_header | http_date_format_log | http_date_format_iso

definition date_to_string :: "http_date_format \<Rightarrow> int \<Rightarrow> string cxx" where
  "date_to_string fmt tod =
     bind_cxx
       (case fmt of
          http_date_format_header \<Rightarrow> to_header_string 32 tod
        | http_date_format_log \<Rightarrow> to_log_string 32 tod
        | http_date_format_iso \<Rightarrow> to_iso_string 32 tod)
       (\<lambda>(text, n). Inr (c_str text))"

section \<open>The calendar\<close>

lemma div_step: "(z + 1) div d = z div d + (if d dvd z + 1 then 1 else 0)" if d: "0 < d" for z d :: int
proof -
  have z: "z + 1 = d * (z div d) + (z mod d + 1)" and lt: "0 \<le> z mod d" "z mod d < d"
    using d by simp_all
  show ?thesis
  proof (cases "z mod d + 1 = d")
    case True
    then have "z + 1 = d * (z div d + 1)"
      using z by (simp add: algebra_simps)
    with d show ?thesis
      by simp
  next
    case False
    then have small: "0 \<le> z mod d + 1" "z mod d + 1 < d"
      using lt by linarith+
    then have "(z + 1) div d = z div d" "(z + 1) mod d = z mod d + 1"
      using int_div_pos_eq [OF z small] int_mod_pos_eq [OF z small] by simp_all
    moreover have "z mod d + 1 \<noteq> 0"
      using lt by linarith
    ultimately show ?thesis
      by (simp add: dvd_eq_mod_eq_0)
  qed
qed

lemma days_before_year_next: "days_before_year (y + 1) = days_before_year y + year_length y"
proof -
  have minus: "d dvd y - c \<longleftrightarrow> d dvd y" if "d dvd c" for c d :: int
    using that by (metis diff_add_cancel dvd_add_left_iff)
  have dvd: "4 dvd y - 1969 + 1 \<longleftrightarrow> 4 dvd y" "100 dvd y - 1901 + 1 \<longleftrightarrow> 100 dvd y" "400 dvd y - 1601 + 1 \<longleftrightarrow> 400 dvd y"
    using minus [of 4 1968] minus [of 100 1900] minus [of 400 1600] by simp_all
  have "400 dvd y \<longrightarrow> 100 dvd y" "100 dvd y \<longrightarrow> 4 dvd y"
    using dvd_trans [of 100 400 y] dvd_trans [of 4 100 y] by simp_all
  moreover have "365 * (y + 1 - 1970) + (A + (if P then 1 else 0)) - (B + (if Q then 1 else 0)) + (C + (if R then 1 else 0)) =
      365 * (y - 1970) + A - B + C + (if P \<and> (\<not> Q \<or> R) then 366 else 365)"
    if "R \<longrightarrow> Q" "Q \<longrightarrow> P" for A B C :: int and P Q R
    using that by (cases P; cases Q; cases R) simp_all
  ultimately have sum: "365 * (y + 1 - 1970) + (A + (if 4 dvd y then 1 else 0)) - (B + (if 100 dvd y then 1 else 0)) +
      (C + (if 400 dvd y then 1 else 0)) = 365 * (y - 1970) + A - B + C + year_length y" for A B C
    unfolding year_length_def is_leap_def by blast
  have "y + 1 - 1969 = y - 1969 + 1" "y + 1 - 1901 = y - 1901 + 1" "y + 1 - 1601 = y - 1601 + 1"
    by simp_all
  then show ?thesis
    unfolding days_before_year_def by (simp only: div_step [of 4] div_step [of 100] div_step [of 400] zero_less_numeral dvd sum)
qed

lemma days_before_year_mono: "y \<le> z \<Longrightarrow> days_before_year y \<le> days_before_year z"
proof (induction z rule: int_ge_induct)
  case (step z)
  then show ?case
    by (simp add: days_before_year_next year_length_def)
qed simp

lemma year_of_ok:
  "year_of d y = (y', d') \<Longrightarrow> 0 \<le> d' \<and> d' < year_length y' \<and> days_before_year y' + d' = days_before_year y + d"
proof (induction d y rule: year_of.induct)
  case (1 d y)
  have "days_before_year (y - 1) + year_length (y - 1) = days_before_year y"
    using days_before_year_next [of "y - 1"] by simp
  with 1 days_before_year_next [of y] show ?case
    by (subst (asm) (3) year_of.simps) (auto split: if_splits)
qed

lemma month_of_ok:
  assumes "0 \<le> d" "d < sum_list ns" "month_of d ns = (m, d')"
  shows "0 \<le> m \<and> m < int (length ns) \<and> 0 \<le> d' \<and> d' < ns ! nat m \<and> sum_list (take (nat m) ns) + d' = d"
  using assms
proof (induction ns arbitrary: d m)
  case (Cons n ns)
  show ?case
  proof (cases "d < n")
    case False
    then obtain m1 where m1: "month_of (d - n) ns = (m1, d')" "m = m1 + 1"
      using Cons.prems(3) by (auto split: prod.splits)
    with Cons.IH [OF _ _ m1(1)] False Cons.prems have "0 \<le> m1 \<and> m1 < int (length ns) \<and> 0 \<le> d' \<and> d' < ns ! nat m1 \<and>
        sum_list (take (nat m1) ns) + d' = d - n"
      by simp
    with m1(2) show ?thesis
      by (auto simp: nat_add_distrib)
  qed (use Cons.prems in auto)
qed simp

definition tm_ok :: "tm \<Rightarrow> bool" where
  "tm_ok t \<longleftrightarrow> 0 \<le> tm_sec t \<and> tm_sec t < 60 \<and> 0 \<le> tm_min t \<and> tm_min t < 60 \<and> 0 \<le> tm_hour t \<and> tm_hour t < 24 \<and>
     1 \<le> tm_mday t \<and> tm_mday t \<le> 31 \<and> 0 \<le> tm_mon t \<and> tm_mon t < 12 \<and> 0 \<le> tm_wday t \<and> tm_wday t < 7"

lemma month_lengths_sum: "sum_list (month_lengths y) = year_length y"
  by (simp add: month_lengths_def year_length_def)

lemma month_lengths_le: "i < 12 \<Longrightarrow> month_lengths y ! i \<le> 31"
  by (auto simp: month_lengths_def less_Suc_eq numeral_eq_Suc)

lemma gmtime_ok: "tm_ok (gmtime t) \<and> timegm (gmtime t) = t"
proof -
  obtain y d where y: "year_of (t div 86400) 1970 = (y, d)"
    by (cases "year_of (t div 86400) 1970")
  obtain m d' where m: "month_of d (month_lengths y) = (m, d')"
    by (cases "month_of d (month_lengths y)")
  have yd: "0 \<le> d" "d < sum_list (month_lengths y)" "days_before_year y + d = t div 86400"
    using year_of_ok [OF y] by (simp_all add: month_lengths_sum days_before_year_def)
  note md = month_of_ok [OF yd(1,2) m]
  have len: "int (length (month_lengths y)) = 12"
    by (simp add: month_lengths_def)
  have "d' + 1 \<le> 31"
    using md len month_lengths_le [of "nat m" y] by linarith
  moreover have "t mod 86400 div 3600 < 24" "0 \<le> t mod 86400 div 3600"
    by simp_all
  ultimately have "tm_ok (gmtime t)"
    using md len by (simp add: tm_ok_def gmtime_def y m Let_def)
  have hms: "3600 * (s div 3600) + 60 * (s div 60 mod 60) + s mod 60 = s" for s :: int
  proof -
    have "s div 3600 = s div 60 div 60"
      using zdiv_zmult2_eq [of 60 s 60] by simp
    then show ?thesis
      using mult_div_mod_eq [of 60 s] mult_div_mod_eq [of 60 "s div 60"] by linarith
  qed
  have "timegm (gmtime t) = 86400 * (days_before_year y + sum_list (take (nat m) (month_lengths y)) + d') +
      3600 * (s div 3600) + 60 * (s div 60 mod 60) + s mod 60" if "s = t mod 86400" for s
    using that by (simp only: timegm_def gmtime_def y m Let_def prod.case tm.simps diff_add_cancel add_diff_cancel) simp
  from this [OF refl] have "timegm (gmtime t) = 86400 * (t div 86400) + t mod 86400"
    using md yd(3) hms [of "t mod 86400"] by (metis (no_types, lifting) add.assoc)
  with \<open>tm_ok (gmtime t)\<close> show ?thesis by simp
qed

lemma gmtime_year:
  assumes "0 \<le> t" "t < 253402300800"
  shows "1970 \<le> tm_year (gmtime t) + 1900" "tm_year (gmtime t) + 1900 \<le> 9999"
proof -
  obtain y d where y: "year_of (t div 86400) 1970 = (y, d)"
    by (cases "year_of (t div 86400) 1970")
  have yd: "0 \<le> d" "d < year_length y" "days_before_year y + d = t div 86400"
    using year_of_ok [OF y] by (simp_all add: days_before_year_def)
  have "y < 10000"
  proof (rule ccontr)
    assume "\<not> y < 10000"
    then have "days_before_year 10000 \<le> days_before_year y"
      by (intro days_before_year_mono) simp
    with yd(1,3) assms(2) show False
      by (simp add: days_before_year_def)
  qed
  moreover have "1970 \<le> y"
  proof (rule ccontr)
    assume "\<not> 1970 \<le> y"
    then have "days_before_year (y + 1) \<le> days_before_year 1970"
      by (intro days_before_year_mono) simp
    then have "days_before_year y + year_length y \<le> 0"
      by (simp add: days_before_year_next) (simp add: days_before_year_def)
    with yd(2,3) assms(1) show False
      using pos_imp_zdiv_nonneg_iff [of 86400 t] by linarith
  qed
  moreover have "tm_year (gmtime t) + 1900 = y"
    by (simp add: gmtime_def y Let_def split: prod.splits)
  ultimately show "1970 \<le> tm_year (gmtime t) + 1900" "tm_year (gmtime t) + 1900 \<le> 9999"
    by simp_all
qed

section \<open>Walks through the machine\<close>

text \<open>The transitions of a text without their effects: the state reached and the actions with their positions.\<close>

definition date_next :: "nat \<Rightarrow> char \<Rightarrow> (nat \<times> nat list) cxx" where
  "date_next s c =
     bind_cxx (date_find_trans s (schar c)) (\<lambda>trans.
     bind_cxx (table_at http_date_trans_targs trans) (\<lambda>targ.
     bind_cxx (date_action_list trans) (\<lambda>acts. Inr (targ, acts))))"

fun walk :: "nat \<Rightarrow> nat \<Rightarrow> string \<Rightarrow> (nat \<times> (nat \<times> nat) list) cxx" where
  "walk s p [] = Inr (s, [])"
| "walk s p (c # text) =
     bind_cxx (date_next s c) (\<lambda>(t, acts).
       if t = 0 then Inl Undefined
       else bind_cxx (walk t (p + 1) text) (\<lambda>(u, as). Inr (u, map (Pair p) acts @ as)))"

fun run_actions :: "string \<Rightarrow> (nat \<times> nat) list \<Rightarrow> date_state \<Rightarrow> date_state cxx" where
  "run_actions str [] st = Inr st"
| "run_actions str ((p, act) # as) st = bind_cxx (date_action str p act st) (run_actions str as)"

definition date_cont :: "string \<Rightarrow> nat \<Rightarrow> date_state \<Rightarrow> date_state cxx" where
  "date_cont str p st = (if p = length str then date_eof str p st else date_exec str p st)"

lemma walk_append:
  "walk s p (xs @ ys) =
     bind_cxx (walk s p xs) (\<lambda>(t, as). bind_cxx (walk t (p + length xs) ys) (\<lambda>(u, bs). Inr (u, as @ bs)))"
proof (induction xs arbitrary: s p)
  case (Cons x xs)
  show ?case
    by (auto simp: Cons bind_cxx_def split: sum.splits)
qed (auto simp: bind_cxx_def split: sum.splits)

lemma run_actions_append: "run_actions str (as @ bs) st = bind_cxx (run_actions str as st) (run_actions str bs)"
  by (induction as arbitrary: st) (auto simp: bind_cxx_assoc intro!: bind_cxx_cong)

lemma run_actions_same: "run_actions str (map (Pair p) acts) st = date_actions str p acts st"
  by (induction acts arbitrary: st) (simp_all cong: bind_cxx_cong)

lemma date_action_dcs:
  "date_action str p act (st\<lparr> dcs := s \<rparr>) = bind_cxx (date_action str p act st) (\<lambda>st. Inr (st\<lparr> dcs := s \<rparr>))"
proof -
  have comm: "st\<lparr> dmark := x, dcs := s \<rparr> = st\<lparr> dcs := s, dmark := x \<rparr>" "st\<lparr> dtm := t, dcs := s \<rparr> = st\<lparr> dcs := s, dtm := t \<rparr>" for x t
    by simp_all
  show ?thesis
    by (simp add: date_action_def Let_def bind_cxx_assoc bind_cxx_if comm cong: if_cong split del: if_split)
qed

lemma run_actions_dcs:
  "run_actions str as (st\<lparr> dcs := s \<rparr>) = bind_cxx (run_actions str as st) (\<lambda>st. Inr (st\<lparr> dcs := s \<rparr>))"
proof (induction as arbitrary: st)
  case (Cons a as)
  then show ?case
    by (cases a) (simp add: date_action_dcs bind_cxx_assoc)
qed simp

lemma run_actions_keeps_dcs: "run_actions str as st = Inr st' \<Longrightarrow> dcs st' = dcs st"
  using run_actions_dcs [where str = str and as = as and st = st and s = "dcs st"]
  by (metis (no_types, lifting) bind_cxx_simps(2) date_state.surjective date_state.update_convs(1) date_state.select_convs(1) sum.inject(2))

text \<open>The loop follows a walk and performs its actions.\<close>

lemma date_cont_walk:
  assumes "drop p str = seg @ post" "p + length seg \<le> length str" "walk (dcs st) p seg = Inr (t, as)" "dcs st \<noteq> 0"
  shows "date_cont str p st = bind_cxx (run_actions str as st) (\<lambda>st. date_cont str (p + length seg) (st\<lparr> dcs := t \<rparr>))"
  using assms
proof (induction seg arbitrary: p st as)
  case (Cons c seg)
  obtain u acts bs where n: "date_next (dcs st) c = Inr (u, acts)" "u \<noteq> 0" "walk u (p + 1) seg = Inr (t, bs)"
      "as = map (Pair p) acts @ bs"
    using Cons.prems(3) by (auto simp: bind_cxx_Inr_iff split: if_splits)
  have p: "p < length str" "str ! p = c" "drop (p + 1) str = seg @ post"
    using Cons.prems(1,2) tl_drop [of p str] by (auto simp: nth_via_drop drop_Suc)
  have step: "date_cont str p st = bind_cxx (date_actions str p acts (st\<lparr> dcs := u \<rparr>)) (date_cont str (p + 1))"
  proof -
    have "date_exec str p st = bind_cxx (date_actions str p acts (st\<lparr> dcs := u \<rparr>)) (\<lambda>st.
        if dcs st = 0 then Inr st else if p + 1 \<noteq> length str then date_exec str (p + 1) st else date_eof str (p + 1) st)"
      using n(1) p(1,2) by (subst date_exec.simps) (auto simp: date_next_def bind_cxx_Inr_iff)
    also have "\<dots> = bind_cxx (date_actions str p acts (st\<lparr> dcs := u \<rparr>)) (date_cont str (p + 1))"
    proof (rule bind_cxx_cong [OF refl])
      fix st'
      assume "date_actions str p acts (st\<lparr> dcs := u \<rparr>) = Inr st'"
      then have "dcs st' = u"
        using run_actions_keeps_dcs [of str "map (Pair p) acts" "st\<lparr> dcs := u \<rparr>" st'] by (simp add: run_actions_same)
      with n(2) show "(if dcs st' = 0 then Inr st' else if p + 1 \<noteq> length str then date_exec str (p + 1) st'
          else date_eof str (p + 1) st') = date_cont str (p + 1) st'"
        by (simp add: date_cont_def)
    qed
    finally show ?thesis
      using p(1) by (simp add: date_cont_def)
  qed
  have ih: "date_cont str (Suc p) st' = bind_cxx (run_actions str bs st') (\<lambda>st. date_cont str (Suc (p + length seg)) (st\<lparr> dcs := t \<rparr>))"
    if "dcs st' = u" for st'
    using Cons.IH [of "p + 1" st' bs] that n(2,3) p(3) Cons.prems(2) by simp
  show ?case
    unfolding step run_actions_same [symmetric] run_actions_dcs n(4) run_actions_append bind_cxx_assoc bind_cxx_simps
    by (rule bind_cxx_cong [OF refl]) (simp add: ih run_actions_dcs bind_cxx_assoc add.assoc)
next
  case Nil
  then have "t = dcs st" "as = []" by simp_all
  moreover have "st\<lparr> dcs := dcs st \<rparr> = st"
    by (cases st) simp
  ultimately show ?case by simp
qed

section \<open>The walk of a printed date\<close>

lemma walk_day_name: "list_all (\<lambda>i. walk 1 0 (day_names ! i @ '', '') = Inr (53, [(3, i + 2)])) [0..<7]"
  by code_simp

lemma walk_month_name: "list_all (\<lambda>i. walk 55 8 (month_names ! i @ '' '') = Inr (59, [(11, i + 9)])) [0..<12]"
  by code_simp

text \<open>The digits, with the position, the states before and after and the actions.\<close>

definition digit_steps :: "(nat \<times> nat \<times> nat \<times> (nat \<times> nat) list) list" where
  "digit_steps =
     [(53, 5, 54, [(5, 0)]), (54, 6, 137, []), (59, 12, 60, [(12, 0)]), (60, 13, 61, []), (61, 14, 62, []), (62, 15, 63, []),
      (64, 17, 65, [(17, 0)]), (65, 18, 66, []), (67, 20, 68, [(20, 0)]), (68, 21, 69, []), (70, 23, 71, [(23, 0)]), (71, 24, 72, [])]"

lemma walk_digits:
  "list_all (\<lambda>(s, p, t, as). list_all (\<lambda>d. walk s p [digit_char d] = Inr (t, as)) [0..<10]) digit_steps"
  by code_simp

lemma walk_digit:
  assumes "(s, p, t, as) \<in> set digit_steps" "d < 10"
  shows "walk s p [digit_char d] = Inr (t, as)"
  using walk_digits assms unfolding list_all_iff by fastforce

lemma walk_separators:
  "walk 137 7 '' '' = Inr (55, [(7, 21)])" "walk 63 16 '' '' = Inr (64, [(16, 25)])" "walk 66 19 '':'' = Inr (67, [(19, 22)])"
  "walk 69 22 '':'' = Inr (70, [(22, 23)])" "walk 72 25 '' GMT'' = Inr (184, [(25, 24)])"
  by code_simp+

lemma chr_digit: "0 \<le> n \<Longrightarrow> n < 10 \<Longrightarrow> chr (48 + n) = digit_char (nat n)"
  by (simp add: chr_def digit_char_def nat_add_distrib mod_pos_pos_trivial)

lemma two_digits_chars: "0 \<le> n \<Longrightarrow> n < 100 \<Longrightarrow> two_digits n = [digit_char (nat (n div 10)), digit_char (nat (n mod 10))]"
  by (simp add: two_digits_def chr_digit)

lemma four_digits_chars:
  "0 \<le> n \<Longrightarrow> n < 10000 \<Longrightarrow> four_digits n =
     [digit_char (nat (n div 1000)), digit_char (nat (n div 100 mod 10)), digit_char (nat (n div 10 mod 10)), digit_char (nat (n mod 10))]"
  by (simp add: four_digits_def chr_digit)

lemma walk_two_digits:
  assumes "(s, p, t, as) \<in> set digit_steps" "(t, p + 1, u, bs) \<in> set digit_steps" "0 \<le> n" "n < 100"
  shows "walk s p (two_digits n) = Inr (u, as @ bs)"
proof -
  have d: "nat (n div 10) < 10" "nat (n mod 10) < 10"
    using assms(3,4) by (simp_all add: nat_less_iff)
  have "walk s p ([digit_char (nat (n div 10))] @ [digit_char (nat (n mod 10))]) = Inr (u, as @ bs)"
    unfolding walk_append using walk_digit [OF assms(1) d(1)] walk_digit [OF assms(2) d(2)]
    by (simp del: walk.simps)
  then show ?thesis
    using two_digits_chars [OF assms(3,4)] by simp
qed

lemma walk_year:
  assumes "0 \<le> n" "n < 10000"
  shows "walk 59 12 (four_digits n) = Inr (63, [(12, 0)])"
proof -
  have d: "nat (n div 1000) < 10" "nat (n div 100 mod 10) < 10" "nat (n div 10 mod 10) < 10" "nat (n mod 10) < 10"
    using assms by (simp_all add: nat_less_iff)
  have "walk 59 12 ([digit_char (nat (n div 1000))] @ [digit_char (nat (n div 100 mod 10))] @ [digit_char (nat (n div 10 mod 10))] @
      [digit_char (nat (n mod 10))]) = Inr (63, [(12, 0)])"
    unfolding walk_append
    using walk_digit [of 59 12 60 "[(12, 0)]", OF _ d(1)] walk_digit [of 60 13 61 "[]", OF _ d(2)]
      walk_digit [of 61 14 62 "[]", OF _ d(3)] walk_digit [of 62 15 63 "[]", OF _ d(4)]
    by (simp add: digit_steps_def del: walk.simps)
  then show ?thesis
    using four_digits_chars [OF assms] by simp
qed

lemma walk_header:
  assumes "i < 7" "j < 12" "0 \<le> mday" "mday < 100" "0 \<le> y" "y < 10000" "0 \<le> h" "h < 100" "0 \<le> mi" "mi < 100" "0 \<le> s" "s < 100"
  shows "walk 1 0 ((day_names ! i @ '', '') @ two_digits mday @ '' '' @ (month_names ! j @ '' '') @ four_digits y @ '' '' @
      two_digits h @ '':'' @ two_digits mi @ '':'' @ two_digits s @ '' GMT'') =
    Inr (184, [(3, i + 2), (5, 0), (7, 21), (11, j + 9), (12, 0), (16, 25), (17, 0), (19, 22), (20, 0), (22, 23), (23, 0), (25, 24)])"
proof -
  have len: "length (day_names ! i @ '', '') = 5" "length (month_names ! j @ '' '') = 4"
    using assms(1,2) by (auto simp: day_names_def month_names_def less_Suc_eq numeral_eq_Suc)
  have "walk 1 0 (day_names ! i @ '', '') = Inr (53, [(3, i + 2)])" "walk 55 8 (month_names ! j @ '' '') = Inr (59, [(11, j + 9)])"
    using walk_day_name walk_month_name assms(1,2) unfolding list_all_iff by auto
  moreover have "walk 53 5 (two_digits mday) = Inr (137, [(5, 0)])" "walk 64 17 (two_digits h) = Inr (66, [(17, 0)])"
    "walk 67 20 (two_digits mi) = Inr (69, [(20, 0)])" "walk 70 23 (two_digits s) = Inr (72, [(23, 0)])"
    using walk_two_digits [of 53 5 54 "[(5, 0)]" 137 "[]" mday] walk_two_digits [of 64 17 65 "[(17, 0)]" 66 "[]" h]
      walk_two_digits [of 67 20 68 "[(20, 0)]" 69 "[]" mi] walk_two_digits [of 70 23 71 "[(23, 0)]" 72 "[]" s] assms
    by (simp_all add: digit_steps_def)
  moreover have "length (two_digits n) = 2" "length (four_digits n) = 4" for n
    by (simp_all add: two_digits_def four_digits_def)
  ultimately show ?thesis
    unfolding walk_append using walk_year [OF assms(5,6)] walk_separators len by (simp del: walk.simps)
qed

lemma atoi_digits:
  assumes "s \<noteq> []" "\<forall>c \<in> set s. c_isdigit c" "digits_value s < 2 ^ 31"
  shows "atoi s = Inr (int (digits_value s))"
proof -
  obtain c u where s: "s = c # u"
    using assms(1) by (cases s) auto
  note c = digit_facts [of c]
  have "NUL \<notin> set s"
    using assms(2) digit_facts by blast
  moreover have "dropWhile c_isspace s = s" "hd s \<noteq> CHR ''-''" "hd s \<noteq> CHR ''+''"
    using c assms(2) by (simp_all add: s)
  moreover have "digits_value (takeWhile c_isdigit s) = digits_value s"
    using assms(2) by (metis takeWhile_eq_all_conv)
  ultimately show ?thesis
    using assms by (simp add: atoi_def int_range_def)
qed

lemma atoi_two_digits:
  assumes "0 \<le> n" "n < 100"
  shows "atoi (two_digits n) = Inr n"
proof -
  have d: "nat (n div 10) < 10" "nat (n mod 10) < 10"
    using assms by (simp_all add: nat_less_iff)
  have "0 \<le> n div 10"
    using assms(1) by (rule pos_imp_zdiv_nonneg_iff [THEN iffD2, rotated]) simp
  then have v: "int (digits_value (two_digits n)) = n"
    using assms d mult_div_mod_eq [of 10 n] by (simp add: two_digits_chars digits_value_def)
  moreover have "\<forall>c \<in> set (two_digits n). c_isdigit c"
    using assms d by (simp add: two_digits_chars)
  moreover have "two_digits n \<noteq> []"
    by (simp add: two_digits_def)
  ultimately show ?thesis
    using atoi_digits [of "two_digits n"] assms v by simp
qed

lemma atoi_four_digits:
  assumes "0 \<le> n" "n < 10000"
  shows "atoi (four_digits n) = Inr n"
proof -
  have d: "nat (n div 1000) < 10" "nat (n div 100 mod 10) < 10" "nat (n div 10 mod 10) < 10" "nat (n mod 10) < 10"
    using assms by (simp_all add: nat_less_iff)
  have n: "1000 * (n div 1000) + 100 * (n div 100 mod 10) + 10 * (n div 10 mod 10) + n mod 10 = n"
  proof -
    have "n div 100 = n div 10 div 10" "n div 1000 = n div 100 div 10"
      using zdiv_zmult2_eq [of 10 n 10] zdiv_zmult2_eq [of 10 n 100] by simp_all
    then show ?thesis
      using mult_div_mod_eq [of 10 n] mult_div_mod_eq [of 10 "n div 10"] mult_div_mod_eq [of 10 "n div 100"] by linarith
  qed
  have "0 \<le> n div 1000"
    using assms(1) by (rule pos_imp_zdiv_nonneg_iff [THEN iffD2, rotated]) simp
  then have range: "0 \<le> n div 1000" "n div 1000 < 10"
    using assms(2) by simp_all
  have "int (digits_value [digit_char (nat a), digit_char (nat b), digit_char (nat c), digit_char (nat e)]) =
      1000 * a + 100 * b + 10 * c + e" if "0 \<le> a" "a < 10" "0 \<le> b" "b < 10" "0 \<le> c" "c < 10" "0 \<le> e" "e < 10" for a b c e
    using that by (simp add: digits_value_def nat_less_iff)
  from this [OF range pos_mod_sign pos_mod_bound pos_mod_sign pos_mod_bound pos_mod_sign pos_mod_bound, of "n div 100" "n div 10" n]
  have "int (digits_value (four_digits n)) = n"
    unfolding four_digits_chars [OF assms] n by (simp only: zero_less_numeral simp_thms)
  moreover have "\<forall>c \<in> set (four_digits n). c_isdigit c"
    unfolding four_digits_chars [OF assms] by (simp only: list.set ball_simps d [THEN c_isdigit_digit_char] simp_thms)
  moreover have "four_digits n \<noteq> []"
    by (simp add: four_digits_def)
  moreover have "digits_value (four_digits n) < 2 ^ 31"
    using calculation(1) assms(2) by simp
  ultimately show ?thesis
    using atoi_digits [of "four_digits n"] by simp
qed

section \<open>A printed date is read back\<close>

definition header_text :: "tm \<Rightarrow> string" where
  "header_text t =
     (day_names ! nat (tm_wday t) @ '', '') @ two_digits (tm_mday t) @ '' '' @ (month_names ! nat (tm_mon t) @ '' '') @
     four_digits (tm_year t + 1900) @ '' '' @ two_digits (tm_hour t) @ '':'' @ two_digits (tm_min t) @ '':'' @
     two_digits (tm_sec t) @ '' GMT''"

lemma day_name_plain: "i < 7 \<Longrightarrow> length (day_names ! i) = 3 \<and> NUL \<notin> set (day_names ! i) \<and> i < length day_names"
proof -
  have "list_all (\<lambda>i. length (day_names ! i) = 3 \<and> NUL \<notin> set (day_names ! i) \<and> i < length day_names) [0..<7]"
    by code_simp
  then show "i < 7 \<Longrightarrow> ?thesis"
    unfolding list_all_iff by simp
qed

lemma month_name_plain: "i < 12 \<Longrightarrow> length (month_names ! i) = 3 \<and> NUL \<notin> set (month_names ! i) \<and> i < length month_names"
proof -
  have "list_all (\<lambda>i. length (month_names ! i) = 3 \<and> NUL \<notin> set (month_names ! i) \<and> i < length month_names) [0..<12]"
    by code_simp
  then show "i < 12 \<Longrightarrow> ?thesis"
    unfolding list_all_iff by simp
qed

lemma three_chars_day: "0 \<le> i \<Longrightarrow> i < 7 \<Longrightarrow> three_chars day_names (i AND 7) = Inr (day_names ! nat i)"
proof -
  assume i: "0 \<le> i" "i < 7"
  then have "i AND 7 = i"
    using take_bit_eq_mod [of 3 i] by (simp add: take_bit_eq_mask mask_eq_exp_minus_1)
  then show ?thesis
    using i day_name_plain [of "nat i"] by (simp add: three_chars_def nat_less_iff)
qed

lemma three_chars_month: "0 \<le> i \<Longrightarrow> i < 12 \<Longrightarrow> three_chars month_names (i mod 12) = Inr (month_names ! nat i)"
  using month_name_plain [of "nat i"] by (simp add: three_chars_def nat_less_iff)

lemma to_header_string_text:
  assumes "30 \<le> buf_len"
  shows "to_header_string buf_len tod = Inr (header_text (gmtime tod) @ [NUL], 29)"
  using gmtime_ok [of tod] assms three_chars_day three_chars_month
  by (simp add: to_header_string_def tm_ok_def Let_def header_text_def)

lemma two_digits_no_NUL: "0 \<le> n \<Longrightarrow> n < 100 \<Longrightarrow> NUL \<notin> set (two_digits n)"
proof -
  assume n: "0 \<le> n" "n < 100"
  then have "nat (n div 10) < 10" "nat (n mod 10) < 10"
    by (simp_all add: nat_less_iff)
  then have "c_isdigit (digit_char (nat (n div 10)))" "c_isdigit (digit_char (nat (n mod 10)))"
    by (simp_all only: c_isdigit_digit_char)
  then show ?thesis
    using digit_facts unfolding two_digits_chars [OF n] by (metis empty_iff list.set(1) set_ConsD)
qed

lemma four_digits_no_NUL: "0 \<le> n \<Longrightarrow> n < 10000 \<Longrightarrow> NUL \<notin> set (four_digits n)"
proof -
  assume n: "0 \<le> n" "n < 10000"
  then have "nat (n div 1000) < 10" "nat (n div 100 mod 10) < 10" "nat (n div 10 mod 10) < 10" "nat (n mod 10) < 10"
    by (simp_all add: nat_less_iff)
  then have "c_isdigit (digit_char (nat (n div 1000)))" "c_isdigit (digit_char (nat (n div 100 mod 10)))"
      "c_isdigit (digit_char (nat (n div 10 mod 10)))" "c_isdigit (digit_char (nat (n mod 10)))"
    by (simp_all only: c_isdigit_digit_char)
  then show ?thesis
    using digit_facts unfolding four_digits_chars [OF n] by (metis empty_iff list.set(1) set_ConsD)
qed

lemma header_text_plain:
  assumes "tm_ok t" "0 \<le> tm_year t + 1900" "tm_year t + 1900 < 10000"
  shows "NUL \<notin> set (header_text t)" "length (header_text t) = 29"
proof -
  have names: "length (day_names ! nat (tm_wday t)) = 3" "NUL \<notin> set (day_names ! nat (tm_wday t))"
    "length (month_names ! nat (tm_mon t)) = 3" "NUL \<notin> set (month_names ! nat (tm_mon t))"
    using assms(1) day_name_plain [of "nat (tm_wday t)"] month_name_plain [of "nat (tm_mon t)"]
    by (simp_all add: tm_ok_def nat_less_iff)
  show "NUL \<notin> set (header_text t)"
    using names assms two_digits_no_NUL four_digits_no_NUL by (simp add: header_text_def tm_ok_def)
  show "length (header_text t) = 29"
    using names by (simp add: header_text_def two_digits_def four_digits_def)
qed

definition header_actions :: "tm \<Rightarrow> (nat \<times> nat) list" where
  "header_actions t =
     [(3, nat (tm_wday t) + 2), (5, 0), (7, 21), (11, nat (tm_mon t) + 9), (12, 0), (16, 25), (17, 0), (19, 22), (20, 0), (22, 23),
      (23, 0), (25, 24)]"

text \<open>The numbers of a printed date, where the machine marks them.\<close>

lemma header_fields:
  assumes "tm_ok t" "0 \<le> tm_year t + 1900" "tm_year t + 1900 < 10000"
  shows "bind_cxx (mark_string (header_text t) (Some 5) 7) atoi = Inr (tm_mday t)"
    "bind_cxx (mark_string (header_text t) (Some 12) 16) atoi = Inr (tm_year t + 1900)"
    "bind_cxx (mark_string (header_text t) (Some 17) 19) atoi = Inr (tm_hour t)"
    "bind_cxx (mark_string (header_text t) (Some 20) 22) atoi = Inr (tm_min t)"
    "bind_cxx (mark_string (header_text t) (Some 23) 25) atoi = Inr (tm_sec t)"
proof -
  have len: "length (header_text t) = 29" "length (day_names ! nat (tm_wday t)) = 3" "length (month_names ! nat (tm_mon t)) = 3"
    using header_text_plain [OF assms] assms(1) day_name_plain [of "nat (tm_wday t)"] month_name_plain [of "nat (tm_mon t)"]
    by (simp_all add: tm_ok_def nat_less_iff)
  have "take 2 (drop 5 (header_text t)) = two_digits (tm_mday t)" "take 4 (drop 12 (header_text t)) = four_digits (tm_year t + 1900)"
    "take 2 (drop 17 (header_text t)) = two_digits (tm_hour t)" "take 2 (drop 20 (header_text t)) = two_digits (tm_min t)"
    "take 2 (drop 23 (header_text t)) = two_digits (tm_sec t)"
    using len(2,3) by (simp_all add: header_text_def two_digits_def four_digits_def)
  then show "bind_cxx (mark_string (header_text t) (Some 5) 7) atoi = Inr (tm_mday t)"
    "bind_cxx (mark_string (header_text t) (Some 12) 16) atoi = Inr (tm_year t + 1900)"
    "bind_cxx (mark_string (header_text t) (Some 17) 19) atoi = Inr (tm_hour t)"
    "bind_cxx (mark_string (header_text t) (Some 20) 22) atoi = Inr (tm_min t)"
    "bind_cxx (mark_string (header_text t) (Some 23) 25) atoi = Inr (tm_sec t)"
    using len(1) assms atoi_two_digits atoi_four_digits by (simp_all add: mark_string_def read_range_def tm_ok_def)
qed

lemma run_header_actions:
  assumes "tm_ok t" "0 \<le> tm_year t + 1900" "tm_year t + 1900 < 10000"
  shows "run_actions (header_text t) (header_actions t) date_init = Inr \<lparr> dcs = 1, dmark = Some 23, dtm = t \<rparr>"
proof -
  have "0 \<le> tm_wday t" "tm_wday t < 7" "0 \<le> tm_mon t" "tm_mon t < 12"
    using assms(1) by (auto simp: tm_ok_def)
  then have acts: "date_action (header_text t) 3 (nat (tm_wday t) + 2) st = Inr (st\<lparr> dtm := (dtm st)\<lparr> tm_wday := tm_wday t \<rparr> \<rparr>)"
    "date_action (header_text t) 11 (nat (tm_mon t) + 9) st = Inr (st\<lparr> dtm := (dtm st)\<lparr> tm_mon := tm_mon t \<rparr> \<rparr>)" for st
    by (auto simp: date_action_def nat_le_iff)
  have numbers: "date_action s p 0 st = Inr (st\<lparr> dmark := Some p \<rparr>)"
    "date_action s p 21 st = bind_cxx (bind_cxx (mark_string s (dmark st) p) atoi) (\<lambda>n. Inr (st\<lparr> dtm := (dtm st)\<lparr> tm_mday := n \<rparr> \<rparr>))"
    "date_action s p 22 st = bind_cxx (bind_cxx (mark_string s (dmark st) p) atoi) (\<lambda>n. Inr (st\<lparr> dtm := (dtm st)\<lparr> tm_hour := n \<rparr> \<rparr>))"
    "date_action s p 23 st = bind_cxx (bind_cxx (mark_string s (dmark st) p) atoi) (\<lambda>n. Inr (st\<lparr> dtm := (dtm st)\<lparr> tm_min := n \<rparr> \<rparr>))"
    "date_action s p 24 st = bind_cxx (bind_cxx (mark_string s (dmark st) p) atoi) (\<lambda>n. Inr (st\<lparr> dtm := (dtm st)\<lparr> tm_sec := n \<rparr> \<rparr>))"
    "date_action s p 25 st = bind_cxx (bind_cxx (mark_string s (dmark st) p) atoi) (\<lambda>n. Inr (st\<lparr> dtm := (dtm st)\<lparr> tm_year := n - 1900 \<rparr> \<rparr>))"
    for s p st
    by (simp_all add: date_action_def Let_def)
  show ?thesis
    by (simp only: header_actions_def run_actions.simps acts numbers bind_cxx_simps date_init_def date_state.simps tm.simps
      header_fields [OF assms] http_date_start_def add_diff_cancel) simp
qed

lemma header_text_parsed:
  assumes "tm_ok t" "0 \<le> tm_year t + 1900" "tm_year t + 1900 < 10000"
  shows "date_parse (header_text t @ [NUL]) = Inr (False, timegm t)"
proof -
  let ?s = "header_text t"
  note plain = header_text_plain [OF assms]
  have c: "c_str (?s @ [NUL]) = ?s"
    using plain(1) by (simp add: c_str_def takeWhile_append takeWhile_eq_all_conv)
  have ne: "?s \<noteq> []"
    using plain(2) by auto
  have "walk 1 0 ?s = Inr (184, header_actions t)"
    unfolding header_text_def header_actions_def by (rule walk_header) (use assms in \<open>auto simp: tm_ok_def nat_less_iff\<close>)
  then have "date_cont ?s 0 date_init =
      bind_cxx (run_actions ?s (header_actions t) date_init) (\<lambda>st. date_cont ?s (0 + length ?s) (st\<lparr> dcs := 184 \<rparr>))"
    by (intro date_cont_walk [where post = "[]"]) (simp_all add: date_init_def http_date_start_def)
  also have "\<dots> = date_eof ?s (length ?s) \<lparr> dcs = 184, dmark = Some 23, dtm = t \<rparr>"
    by (simp add: run_header_actions [OF assms] date_cont_def)
  also have "\<dots> = Inr \<lparr> dcs = 184, dmark = Some 23, dtm = t \<rparr>"
    by (simp add: date_eof_def table_at_def index_cxx_def read_range_def http_date_eof_actions_def http_date_actions_def)
  finally show ?thesis
    using ne plain(2) by (simp add: date_parse_def c date_cont_def http_date_first_final_def)
qed

text \<open>C24. A time from 1970 to the year 9999, printed as a header date, is read back: the parser stores the time that was
  printed. It returns false for every such date, since it accepts only the first of its two final states,
  where the dates in the format of \<^verbatim>\<open>asctime\<close> stop.\<close>

theorem header_date_roundtrip:
  assumes "30 \<le> buf_len" "0 \<le> tod" "tod < 253402300800"
  shows "\<exists>text. to_header_string buf_len tod = Inr (text, 29) \<and> length (c_str text) = 29 \<and> date_parse text = Inr (False, tod)"
proof -
  let ?t = "gmtime tod"
  have t: "tm_ok ?t" "timegm ?t = tod" "0 \<le> tm_year ?t + 1900" "tm_year ?t + 1900 < 10000"
    using gmtime_ok gmtime_year [OF assms(2,3)] by auto
  have "c_str (header_text ?t @ [NUL]) = header_text ?t"
    using header_text_plain(1) [OF t(1,3,4)] by (simp add: c_str_def takeWhile_append takeWhile_eq_all_conv)
  then show ?thesis
    using to_header_string_text [OF assms(1)] header_text_parsed [OF t(1,3,4)] header_text_plain(2) [OF t(1,3,4)] t(2) by simp
qed

theorem header_date_roundtrip_witness:
  "\<exists>text. to_header_string 32 1382573517 = Inr (text, 29) \<and> length (c_str text) = 29 \<and> date_parse text = Inr (False, 1382573517)"
  by (rule header_date_roundtrip) simp_all

section \<open>The parser is safe on any text\<close>

lemma date_tables_ok:
  "ragel_ok 185 http_date_actions http_date_key_offsets http_date_trans_keys http_date_single_lengths http_date_range_lengths
     http_date_index_offsets http_date_indicies http_date_trans_targs http_date_trans_actions"
  by code_simp

interpretation date_machine: ragel_machine 185 http_date_actions http_date_key_offsets http_date_trans_keys http_date_single_lengths
  http_date_range_lengths http_date_index_offsets http_date_indicies http_date_trans_targs http_date_trans_actions
  date_find_single date_find_range date_find_trans date_action_list
  by unfold_locales
    (rule date_tables_ok date_find_single.simps date_find_range.simps date_find_trans_def date_action_list_def)+

text \<open>How far behind the position the mark is, in the states where a number has been read.\<close>

definition date_dist :: "nat \<Rightarrow> nat option" where
  "date_dist s =
     (if s \<in> {10, 12, 15, 18, 21, 54, 60, 65, 68, 71, 108} then Some 1
      else if s \<in> {13, 16, 19, 22, 24, 61, 66, 69, 72, 109, 137} then Some 2
      else if s = 23 \<or> s = 62 then Some 3
      else if s = 63 \<or> s = 183 then Some 4
      else None)"

fun dist_actions :: "nat list \<Rightarrow> nat option \<Rightarrow> nat option option" where
  "dist_actions [] d = Some d"
| "dist_actions (act # acts) d =
     (if act = 0 then dist_actions acts (Some 0)
      else if 21 \<le> act \<and> act \<le> 26 then (if d = None then None else dist_actions acts d)
      else dist_actions acts d)"

definition date_slot :: "nat \<Rightarrow> nat \<Rightarrow> nat" where
  "date_slot s i = nat (http_date_indicies ! (nat (http_date_index_offsets ! s) + i))"

definition date_slots :: "nat \<Rightarrow> nat" where
  "date_slots s = nat (http_date_single_lengths ! s) + nat (http_date_range_lengths ! s)"

definition date_slot_ok :: "nat \<Rightarrow> nat \<Rightarrow> bool" where
  "date_slot_ok s i =
     (case date_action_list (date_slot s i) of
        Inl _ \<Rightarrow> False
      | Inr acts \<Rightarrow>
          (case dist_actions acts (date_dist s) of
             None \<Rightarrow> False
           | Some d \<Rightarrow>
               (case date_dist (nat (http_date_trans_targs ! date_slot s i)) of
                  None \<Rightarrow> True
                | Some e \<Rightarrow> d = Some (e - 1))))"

text \<open>The check of all transitions, in five parts.\<close>

lemma date_slots_ok_1: "list_all (\<lambda>s. list_all (date_slot_ok s) [0..<date_slots s + 1]) [1..<40]"
  by code_simp

lemma date_slots_ok_2: "list_all (\<lambda>s. list_all (date_slot_ok s) [0..<date_slots s + 1]) [40..<70]"
  by code_simp

lemma date_slots_ok_3: "list_all (\<lambda>s. list_all (date_slot_ok s) [0..<date_slots s + 1]) [70..<100]"
  by code_simp

lemma date_slots_ok_4: "list_all (\<lambda>s. list_all (date_slot_ok s) [0..<date_slots s + 1]) [100..<145]"
  by code_simp

lemma date_slots_ok_5: "list_all (\<lambda>s. list_all (date_slot_ok s) [0..<date_slots s + 1]) [145..<185]"
  by code_simp

lemma date_slots_ok:
  assumes "0 < s" "s < 185" "i \<le> date_slots s"
  shows "date_slot_ok s i"
proof -
  have "s \<in> set [1..<40] \<union> set [40..<70] \<union> set [70..<100] \<union> set [100..<145] \<union> set [145..<185]"
    using assms(1,2) unfolding set_upt Un_iff atLeastLessThan_iff by presburger
  then have "list_all (date_slot_ok s) [0..<date_slots s + 1]"
    using date_slots_ok_1 date_slots_ok_2 date_slots_ok_3 date_slots_ok_4 date_slots_ok_5
    unfolding list_all_iff [where P = "\<lambda>s. list_all (date_slot_ok s) [0..<date_slots s + 1]"] by blast
  then show ?thesis
    using assms(3) by (auto simp: list_all_iff)
qed

definition date_ok :: "nat \<Rightarrow> date_state \<Rightarrow> nat option \<Rightarrow> bool" where
  "date_ok p st d \<longleftrightarrow> (\<forall>n. d = Some n \<longrightarrow> (\<exists>m. dmark st = Some m \<and> p = m + n \<and> n \<le> 4))"

lemma date_action_ok:
  assumes "date_ok p st d" "dist_actions (act # acts) d = Some d'" "p \<le> length str"
  shows "\<exists>st1 d1. date_action str p act st = Inr st1 \<and> dcs st1 = dcs st \<and> date_ok p st1 d1 \<and> dist_actions acts d1 = Some d'"
proof (cases "21 \<le> act \<and> act \<le> 26")
  case True
  then obtain n m where n: "d = Some n" "dmark st = Some m" "p = m + n" "n \<le> 4" "dist_actions acts d = Some d'"
    using assms(1,2) by (auto simp: date_ok_def split: if_splits)
  then obtain i where "bind_cxx (mark_string str (dmark st) p) atoi = Inr i"
    using assms(3) atoi_short [of "take n (drop m str)"] by (auto simp: mark_string_def)
  then have "\<exists>t. date_action str p act st = Inr (st\<lparr> dtm := t \<rparr>)"
    using True by (auto simp: date_action_def Let_def)
  then obtain t where "date_action str p act st = Inr (st\<lparr> dtm := t \<rparr>)" by blast
  with n show ?thesis
    by (auto simp: date_ok_def)
next
  case False
  show ?thesis
  proof (cases "act = 0")
    case True
    then show ?thesis
      using assms(2) by (auto simp: date_action_def Let_def date_ok_def)
  next
    case nonzero: False
    have "\<exists>t. st = st\<lparr> dtm := t \<rparr>"
      by (cases st) simp
    with nonzero have "\<exists>t. date_action str p act st = Inr (st\<lparr> dtm := t \<rparr>)"
      using False unfolding date_action_def Let_def by auto
    then obtain t where "date_action str p act st = Inr (st\<lparr> dtm := t \<rparr>)" by blast
    with False nonzero assms(1,2) show ?thesis
      by (auto simp: date_ok_def)
  qed
qed

lemma date_actions_ok:
  assumes "date_ok p st d" "dist_actions acts d = Some d'" "p \<le> length str"
  shows "\<exists>st'. date_actions str p acts st = Inr st' \<and> dcs st' = dcs st \<and> date_ok p st' d'"
  using assms(1,2)
proof (induction acts arbitrary: st d)
  case (Cons act acts)
  then obtain st1 d1 where "date_action str p act st = Inr st1" "dcs st1 = dcs st" "date_ok p st1 d1" "dist_actions acts d1 = Some d'"
    using date_action_ok [OF Cons.prems assms(3)] by blast
  with Cons.IH [OF this(3,4)] show ?case by auto
qed simp

lemma date_slot_okD:
  assumes "0 < s" "s < 185" "i \<le> date_slots s"
  shows "\<exists>acts d. date_action_list (date_slot s i) = Inr acts \<and> dist_actions acts (date_dist s) = Some d \<and>
    (\<forall>e. date_dist (nat (http_date_trans_targs ! date_slot s i)) = Some e \<longrightarrow> d = Some (e - 1))"
proof -
  from date_slots_ok [OF assms] show ?thesis
    by (auto simp: date_slot_ok_def split: sum.splits option.splits)
qed

lemma date_dist_range: "date_dist s = Some e \<Longrightarrow> 1 \<le> e \<and> e \<le> 4"
  by (auto simp: date_dist_def split: if_splits)

lemma eof_table: "http_date_eof_actions = replicate 183 0 @ [55, 3]"
  by code_simp

lemma eof_entry:
  assumes "s < 185"
  shows "table_at http_date_eof_actions s = Inr (if s = 183 then 55 else if s = 184 then 3 else 0)"
proof -
  consider "s < 183" | "s = 183" | "s = 184"
    using assms by linarith
  then show ?thesis
    by cases (simp_all add: eof_table nth_append)
qed

lemma date_eof_ok:
  assumes "date_ok (length str) st (date_dist (dcs st))" "dcs st < 185"
  shows "\<exists>st'. date_eof str (length str) st = Inr st'"
proof -
  have acts: "read_range http_date_actions 56 2 = Inr [25, 1]" "read_range http_date_actions 4 1 = Inr [1]"
    "read_range http_date_actions 1 0 = Inr []" "table_at http_date_actions 55 = Inr 2" "table_at http_date_actions 3 = Inr 1"
    "table_at http_date_actions 0 = Inr 0"
    by code_simp+
  show ?thesis
  proof (cases "dcs st = 183")
    case True
    then have "date_ok (length str) st (Some 4)"
      using assms(1) by (simp add: date_dist_def)
    from date_action_ok [OF this, of 25 "[]" "Some 4" str] obtain st1 where "date_action str (length str) 25 st = Inr st1"
      by auto
    then show ?thesis
      using True acts by (simp add: date_eof_def eof_entry)
  next
    case False
    then show ?thesis
      using assms(2) acts by (simp add: date_eof_def eof_entry)
  qed
qed

lemma date_exec_ok:
  assumes "date_ok p st (date_dist (dcs st))" "0 < dcs st" "dcs st < 185" "p < length str"
  shows "\<exists>st'. date_exec str p st = Inr st'"
  using assms
proof (induction str p st rule: date_exec.induct)
  case (1 str p st)
  let ?s = "dcs st"
  obtain i where i: "date_find_trans ?s (schar (str ! p)) = Inr (date_slot ?s i)" "i \<le> date_slots ?s"
    using date_machine.slot_found [OF 1(4)] unfolding date_slot_def date_slots_def by blast
  let ?t = "nat (http_date_trans_targs ! date_slot ?s i)"
  have t: "table_at http_date_trans_targs (date_slot ?s i) = Inr ?t" "?t < 185"
    using date_machine.slot_tables [OF 1(4) i(2) [unfolded date_slots_def]] by (simp_all add: date_slot_def)
  obtain acts d where a: "date_action_list (date_slot ?s i) = Inr acts" "dist_actions acts (date_dist ?s) = Some d"
      "\<forall>e. date_dist ?t = Some e \<longrightarrow> d = Some (e - 1)"
    using date_slot_okD [OF 1(3,4) i(2)] by blast
  have "date_ok p (st\<lparr> dcs := ?t \<rparr>) (date_dist ?s)"
    using 1(2) by (simp add: date_ok_def)
  from date_actions_ok [OF this a(2), of str] 1(5) obtain st' where s: "date_actions str p acts (st\<lparr> dcs := ?t \<rparr>) = Inr st'"
      "dcs st' = ?t" "date_ok p st' d"
    by auto
  have next_ok: "date_ok (p + 1) st' (date_dist (dcs st'))"
    using s(2,3) a(3) date_dist_range by (fastforce simp: date_ok_def)
  show ?case
  proof (cases "dcs st' \<noteq> 0 \<and> p + 1 \<noteq> length str")
    case True
    with 1(1) [OF _ i(1) t(1) a(1) s(1)] 1(5) next_ok s(2) t(2) have "\<exists>st''. date_exec str (p + 1) st' = Inr st''"
      by simp
    then show ?thesis
      using True 1(5) i(1) t(1) a(1) s(1) by (subst date_exec.simps) simp
  next
    case False
    then show ?thesis
      using 1(5) i(1) t a(1) s date_eof_ok [of str st'] next_ok by (subst date_exec.simps) auto
  qed
qed

text \<open>C25. Whatever the text, the date parser returns: it stays inside the text and its tables, it never uses a mark that
  is not set and it never converts a number that does not fit.\<close>

theorem date_parse_total: "\<exists>ok tod. date_parse arg = Inr (ok, tod)"
proof (cases "c_str arg = []")
  case True
  then show ?thesis
    using date_eof_ok [of "[]" date_init] by (auto simp: date_parse_def date_ok_def date_init_def http_date_start_def date_dist_def)
next
  case False
  then show ?thesis
    using date_exec_ok [of 0 date_init "c_str arg"]
    by (auto simp: date_parse_def date_ok_def date_init_def http_date_start_def date_dist_def)
qed

text \<open>Two printers return a length that is not the length of their text.\<close>

lemma log_string_length: "to_log_string 32 1382573517 = Inr (''[24/Oct/2013:00:11:57 +0000]'' @ [NUL], 29) \<and> length ''[24/Oct/2013:00:11:57 +0000]'' = 28"
  by code_simp

lemma iso_string_length: "to_iso_string 32 1382573517 = Inr (''20131024001157'' @ [NUL], 29) \<and> length ''20131024001157'' = 14"
  by code_simp

end
