(* ===== verification/Http_Constants.thy ===== *)
theory Http_Constants
  imports Latypus_Prelude
begin

text \<open>
  \<^verbatim>\<open>src/http_constants.h\<close> and \<^verbatim>\<open>src/http_constants.cc\<close>: the status codes, versions, methods and header names
  of HTTP. The tables end with an entry that the loops of \<^verbatim>\<open>init\<close> stop at; the maps it fills are
  association lists, and inserting a key that is there changes nothing, as in \<^verbatim>\<open>std::map\<close>. A text
  that is a null pointer is \<open>None\<close>.
\<close>

section \<open>Enumerations and tables\<close>

datatype HTTPStatusCode =
    HTTPStatusCodeNone
  | HTTPStatusCodeContinue
  | HTTPStatusCodeSwitchingProtocols
  | HTTPStatusCodeOK
  | HTTPStatusCodeCreated
  | HTTPStatusCodeAccepted
  | HTTPStatusCodeNonAuthoritativeInformation
  | HTTPStatusCodeNoContent
  | HTTPStatusCodeResetContent
  | HTTPStatusCodePartialContent
  | HTTPStatusCodeMultiStatusResponse
  | HTTPStatusCodeMultipleChoices
  | HTTPStatusCodeMovedPermanently
  | HTTPStatusCodeFound
  | HTTPStatusCodeSeeOther
  | HTTPStatusCodeNotModified
  | HTTPStatusCodeUseProxy
  | HTTPStatusCodeTemporaryRedirect
  | HTTPStatusCodeBadRequest
  | HTTPStatusCodeUnauthorized
  | HTTPStatusCodePaymentRequired
  | HTTPStatusCodeForbidden
  | HTTPStatusCodeNotFound
  | HTTPStatusCodeMethodNotAllowed
  | HTTPStatusCodeNotAcceptable
  | HTTPStatusCodeProxyAuthenticationRequired
  | HTTPStatusCodeRequestTimeout
  | HTTPStatusCodeConflict
  | HTTPStatusCodeGone
  | HTTPStatusCodeLengthRequired
  | HTTPStatusCodePreconditionFailed
  | HTTPStatusCodeRequestEntityTooLarge
  | HTTPStatusCodeRequestURITooLarge
  | HTTPStatusCodeUnsupportedMediaType
  | HTTPStatusCodeRequestedRangeNotSatisfiable
  | HTTPStatusCodeExpectationFailed
  | HTTPStatusCodeUnprocessableEntity
  | HTTPStatusCodeLocked
  | HTTPStatusCodeFailedDependency
  | HTTPStatusCodeInternalServerError
  | HTTPStatusCodeNotImplemented
  | HTTPStatusCodeBadGateway
  | HTTPStatusCodeServiceUnavailable
  | HTTPStatusCodeGatewayTimeout
  | HTTPStatusCodeHTTPVersionNotSupported
  | HTTPStatusCodeInsufficientStorage
  | HTTPStatusCodeLast

fun status_value :: "HTTPStatusCode \<Rightarrow> int" where
  "status_value HTTPStatusCodeNone = 0"
| "status_value HTTPStatusCodeContinue = 100"
| "status_value HTTPStatusCodeSwitchingProtocols = 101"
| "status_value HTTPStatusCodeOK = 200"
| "status_value HTTPStatusCodeCreated = 201"
| "status_value HTTPStatusCodeAccepted = 202"
| "status_value HTTPStatusCodeNonAuthoritativeInformation = 203"
| "status_value HTTPStatusCodeNoContent = 204"
| "status_value HTTPStatusCodeResetContent = 205"
| "status_value HTTPStatusCodePartialContent = 206"
| "status_value HTTPStatusCodeMultiStatusResponse = 207"
| "status_value HTTPStatusCodeMultipleChoices = 300"
| "status_value HTTPStatusCodeMovedPermanently = 301"
| "status_value HTTPStatusCodeFound = 302"
| "status_value HTTPStatusCodeSeeOther = 303"
| "status_value HTTPStatusCodeNotModified = 304"
| "status_value HTTPStatusCodeUseProxy = 305"
| "status_value HTTPStatusCodeTemporaryRedirect = 307"
| "status_value HTTPStatusCodeBadRequest = 400"
| "status_value HTTPStatusCodeUnauthorized = 401"
| "status_value HTTPStatusCodePaymentRequired = 402"
| "status_value HTTPStatusCodeForbidden = 403"
| "status_value HTTPStatusCodeNotFound = 404"
| "status_value HTTPStatusCodeMethodNotAllowed = 405"
| "status_value HTTPStatusCodeNotAcceptable = 406"
| "status_value HTTPStatusCodeProxyAuthenticationRequired = 407"
| "status_value HTTPStatusCodeRequestTimeout = 408"
| "status_value HTTPStatusCodeConflict = 409"
| "status_value HTTPStatusCodeGone = 410"
| "status_value HTTPStatusCodeLengthRequired = 411"
| "status_value HTTPStatusCodePreconditionFailed = 412"
| "status_value HTTPStatusCodeRequestEntityTooLarge = 413"
| "status_value HTTPStatusCodeRequestURITooLarge = 414"
| "status_value HTTPStatusCodeUnsupportedMediaType = 415"
| "status_value HTTPStatusCodeRequestedRangeNotSatisfiable = 416"
| "status_value HTTPStatusCodeExpectationFailed = 417"
| "status_value HTTPStatusCodeUnprocessableEntity = 422"
| "status_value HTTPStatusCodeLocked = 423"
| "status_value HTTPStatusCodeFailedDependency = 424"
| "status_value HTTPStatusCodeInternalServerError = 500"
| "status_value HTTPStatusCodeNotImplemented = 501"
| "status_value HTTPStatusCodeBadGateway = 502"
| "status_value HTTPStatusCodeServiceUnavailable = 503"
| "status_value HTTPStatusCodeGatewayTimeout = 504"
| "status_value HTTPStatusCodeHTTPVersionNotSupported = 505"
| "status_value HTTPStatusCodeInsufficientStorage = 507"
| "status_value HTTPStatusCodeLast = 999"

datatype HTTPVersion =
    HTTPVersionNone
  | HTTPVersion10
  | HTTPVersion11
  | HTTPVersion20
  | HTTPVersionLast

fun version_value :: "HTTPVersion \<Rightarrow> int" where
  "version_value HTTPVersionNone = 0"
| "version_value HTTPVersion10 = 10"
| "version_value HTTPVersion11 = 11"
| "version_value HTTPVersion20 = 20"
| "version_value HTTPVersionLast = 21"

datatype HTTPMethod =
    HTTPMethodNone
  | HTTPMethodGET
  | HTTPMethodHEAD
  | HTTPMethodPOST
  | HTTPMethodPUT
  | HTTPMethodDELETE
  | HTTPMethodOPTIONS
  | HTTPMethodTRACE
  | HTTPMethodCONNECT
  | HTTPMethodPROPFIND
  | HTTPMethodPROPPATCH
  | HTTPMethodMKCOL
  | HTTPMethodCOPY
  | HTTPMethodMOVE
  | HTTPMethodLOCK
  | HTTPMethodUNLOCK
  | HTTPMethodMKACTIVITY
  | HTTPMethodREPORT
  | HTTPMethodCHECKOUT
  | HTTPMethodMERGE
  | HTTPMethodLast

fun method_value :: "HTTPMethod \<Rightarrow> int" where
  "method_value HTTPMethodNone = 0"
| "method_value HTTPMethodGET = 1"
| "method_value HTTPMethodHEAD = 2"
| "method_value HTTPMethodPOST = 3"
| "method_value HTTPMethodPUT = 4"
| "method_value HTTPMethodDELETE = 5"
| "method_value HTTPMethodOPTIONS = 6"
| "method_value HTTPMethodTRACE = 7"
| "method_value HTTPMethodCONNECT = 8"
| "method_value HTTPMethodPROPFIND = 9"
| "method_value HTTPMethodPROPPATCH = 10"
| "method_value HTTPMethodMKCOL = 11"
| "method_value HTTPMethodCOPY = 12"
| "method_value HTTPMethodMOVE = 13"
| "method_value HTTPMethodLOCK = 14"
| "method_value HTTPMethodUNLOCK = 15"
| "method_value HTTPMethodMKACTIVITY = 16"
| "method_value HTTPMethodREPORT = 17"
| "method_value HTTPMethodCHECKOUT = 18"
| "method_value HTTPMethodMERGE = 19"
| "method_value HTTPMethodLast = 20"

datatype HTTPHeaderType =
    HTTPHeaderTypeNone
  | HTTPHeaderTypeRequest
  | HTTPHeaderTypeResponse
  | HTTPHeaderTypeGeneral
  | HTTPHeaderTypeEntity

definition kHTTPStatusTable :: "(HTTPStatusCode \<times> string option) list" where
  "kHTTPStatusTable =
    [(HTTPStatusCodeNone, Some ''No Status''),
     (HTTPStatusCodeContinue, Some ''Continue''),
     (HTTPStatusCodeSwitchingProtocols, Some ''Switching Protocols''),
     (HTTPStatusCodeOK, Some ''OK''),
     (HTTPStatusCodeCreated, Some ''Created''),
     (HTTPStatusCodeAccepted, Some ''Accepted''),
     (HTTPStatusCodeNonAuthoritativeInformation, Some ''Non-Authoritative Information''),
     (HTTPStatusCodeNoContent, Some ''No Content''),
     (HTTPStatusCodeResetContent, Some ''Reset Content''),
     (HTTPStatusCodePartialContent, Some ''Partial Content''),
     (HTTPStatusCodeMultiStatusResponse, Some ''Multi Status Response''),
     (HTTPStatusCodeMultipleChoices, Some ''Multiple Choices''),
     (HTTPStatusCodeMovedPermanently, Some ''Moved Permanently''),
     (HTTPStatusCodeFound, Some ''Found''),
     (HTTPStatusCodeSeeOther, Some ''See Other''),
     (HTTPStatusCodeNotModified, Some ''Not Modified''),
     (HTTPStatusCodeUseProxy, Some ''Use Proxy''),
     (HTTPStatusCodeTemporaryRedirect, Some ''Temporary Redirect''),
     (HTTPStatusCodeBadRequest, Some ''Bad Request''),
     (HTTPStatusCodeUnauthorized, Some ''Unauthorized''),
     (HTTPStatusCodePaymentRequired, Some ''Payment Required''),
     (HTTPStatusCodeForbidden, Some ''Forbidden''),
     (HTTPStatusCodeNotFound, Some ''Not Found''),
     (HTTPStatusCodeMethodNotAllowed, Some ''Method Not Allowed''),
     (HTTPStatusCodeNotAcceptable, Some ''Not Acceptable''),
     (HTTPStatusCodeProxyAuthenticationRequired, Some ''Proxy Authentication Required''),
     (HTTPStatusCodeRequestTimeout, Some ''Request Time-out''),
     (HTTPStatusCodeConflict, Some ''Conflict''),
     (HTTPStatusCodeGone, Some ''Gone''),
     (HTTPStatusCodeLengthRequired, Some ''Length Required''),
     (HTTPStatusCodePreconditionFailed, Some ''PreconditionFailed''),
     (HTTPStatusCodeRequestEntityTooLarge, Some ''Request Entity Too Large''),
     (HTTPStatusCodeRequestURITooLarge, Some ''Request-URI Too Large''),
     (HTTPStatusCodeUnsupportedMediaType, Some ''Unsupported Media Type''),
     (HTTPStatusCodeRequestedRangeNotSatisfiable, Some ''Requested range not satisfiable''),
     (HTTPStatusCodeExpectationFailed, Some ''Expectation Failed''),
     (HTTPStatusCodeUnprocessableEntity, Some ''Unprocessable Entity''),
     (HTTPStatusCodeLocked, Some ''Locked''),
     (HTTPStatusCodeFailedDependency, Some ''Failed Dependency''),
     (HTTPStatusCodeInternalServerError, Some ''Internal Server Error''),
     (HTTPStatusCodeNotImplemented, Some ''Not Implemented''),
     (HTTPStatusCodeBadGateway, Some ''Bad Gateway''),
     (HTTPStatusCodeServiceUnavailable, Some ''Service Unavailable''),
     (HTTPStatusCodeGatewayTimeout, Some ''Gateway Time-out''),
     (HTTPStatusCodeHTTPVersionNotSupported, Some ''HTTP Version not supported''),
     (HTTPStatusCodeInsufficientStorage, Some ''Insufficient Storage''),
     (HTTPStatusCodeLast, None)]"

definition kHTTPVersionTable :: "(HTTPVersion \<times> string option) list" where
  "kHTTPVersionTable =
    [(HTTPVersionNone, Some ''''),
     (HTTPVersion10, Some ''HTTP/1.0''),
     (HTTPVersion11, Some ''HTTP/1.1''),
     (HTTPVersion20, Some ''HTTP/2.0''),
     (HTTPVersionLast, None)]"

definition kHTTPMethodTable :: "(HTTPMethod \<times> string option) list" where
  "kHTTPMethodTable =
    [(HTTPMethodNone, Some ''''),
     (HTTPMethodGET, Some ''GET''),
     (HTTPMethodHEAD, Some ''HEAD''),
     (HTTPMethodPOST, Some ''POST''),
     (HTTPMethodPUT, Some ''PUT''),
     (HTTPMethodDELETE, Some ''DELETE''),
     (HTTPMethodOPTIONS, Some ''OPTIONS''),
     (HTTPMethodTRACE, Some ''TRACE''),
     (HTTPMethodCONNECT, Some ''CONNECT''),
     (HTTPMethodPROPFIND, Some ''PROPFIND''),
     (HTTPMethodPROPPATCH, Some ''PROPPATCH''),
     (HTTPMethodMKCOL, Some ''MKCOL''),
     (HTTPMethodCOPY, Some ''COPY''),
     (HTTPMethodMOVE, Some ''MOVE''),
     (HTTPMethodLOCK, Some ''LOCK''),
     (HTTPMethodUNLOCK, Some ''UNLOCK''),
     (HTTPMethodMKACTIVITY, Some ''MKACTIVITY''),
     (HTTPMethodREPORT, Some ''REPORT''),
     (HTTPMethodCHECKOUT, Some ''CHECKOUT''),
     (HTTPMethodMERGE, Some ''MERGE''),
     (HTTPMethodLast, None)]"

definition kHTTPHeaderTable :: "(string option \<times> HTTPHeaderType) list" where
  "kHTTPHeaderTable =
    [(Some ''Host'', HTTPHeaderTypeRequest),
     (Some ''User-Agent'', HTTPHeaderTypeRequest),
     (Some ''Accept'', HTTPHeaderTypeRequest),
     (Some ''Accept-Language'', HTTPHeaderTypeRequest),
     (Some ''Accept-Encoding'', HTTPHeaderTypeRequest),
     (Some ''Accept-Charset'', HTTPHeaderTypeRequest),
     (Some ''Authorization'', HTTPHeaderTypeRequest),
     (Some ''Cookie'', HTTPHeaderTypeRequest),
     (Some ''Expect'', HTTPHeaderTypeRequest),
     (Some ''From'', HTTPHeaderTypeRequest),
     (Some ''If-Match'', HTTPHeaderTypeRequest),
     (Some ''If-Modified-Since'', HTTPHeaderTypeRequest),
     (Some ''If-None-Match'', HTTPHeaderTypeRequest),
     (Some ''If-Range'', HTTPHeaderTypeRequest),
     (Some ''If-Unmodified-Since'', HTTPHeaderTypeRequest),
     (Some ''Max-Forwards'', HTTPHeaderTypeRequest),
     (Some ''Proxy-Authorization'', HTTPHeaderTypeRequest),
     (Some ''Range'', HTTPHeaderTypeRequest),
     (Some ''Referer'', HTTPHeaderTypeRequest),
     (Some ''TE'', HTTPHeaderTypeRequest),
     (Some ''Depth'', HTTPHeaderTypeRequest),
     (Some ''Destination'', HTTPHeaderTypeRequest),
     (Some ''If'', HTTPHeaderTypeRequest),
     (Some ''Lock-Token'', HTTPHeaderTypeRequest),
     (Some ''Overwrite'', HTTPHeaderTypeRequest),
     (Some ''Timeout'', HTTPHeaderTypeRequest),
     (Some ''Server'', HTTPHeaderTypeResponse),
     (Some ''SetCookie'', HTTPHeaderTypeResponse),
     (Some ''Accept-Ranges'', HTTPHeaderTypeResponse),
     (Some ''WWW-Authenticate'', HTTPHeaderTypeResponse),
     (Some ''Age'', HTTPHeaderTypeResponse),
     (Some ''ETag'', HTTPHeaderTypeResponse),
     (Some ''Location'', HTTPHeaderTypeResponse),
     (Some ''Proxy-Authenticate'', HTTPHeaderTypeResponse),
     (Some ''Retry-After'', HTTPHeaderTypeResponse),
     (Some ''Trailers'', HTTPHeaderTypeResponse),
     (Some ''Connection'', HTTPHeaderTypeGeneral),
     (Some ''Cache-Control'', HTTPHeaderTypeGeneral),
     (Some ''Date'', HTTPHeaderTypeGeneral),
     (Some ''Transfer-Encoding'', HTTPHeaderTypeGeneral),
     (Some ''Upgrade'', HTTPHeaderTypeGeneral),
     (Some ''Vary'', HTTPHeaderTypeGeneral),
     (Some ''Via'', HTTPHeaderTypeGeneral),
     (Some ''Warning'', HTTPHeaderTypeGeneral),
     (Some ''DAV'', HTTPHeaderTypeGeneral),
     (Some ''Allow'', HTTPHeaderTypeEntity),
     (Some ''Content-Encoding'', HTTPHeaderTypeEntity),
     (Some ''Content-Language'', HTTPHeaderTypeEntity),
     (Some ''Content-Length'', HTTPHeaderTypeEntity),
     (Some ''Content-Location'', HTTPHeaderTypeEntity),
     (Some ''Content-MD5'', HTTPHeaderTypeEntity),
     (Some ''Content-Range'', HTTPHeaderTypeEntity),
     (Some ''Content-Type'', HTTPHeaderTypeEntity),
     (Some ''Expires'', HTTPHeaderTypeEntity),
     (Some ''Last-Modified'', HTTPHeaderTypeEntity),
     (Some ''Pragma'', HTTPHeaderTypeEntity),
     (None, HTTPHeaderTypeNone)]"

definition kHTTPTokenClose :: string where
  "kHTTPTokenClose = ''close''"

definition kHTTPTokenKeepalive :: string where
  "kHTTPTokenKeepalive = ''keep-alive''"

section \<open>The maps\<close>

record constants =
  status_code_text :: "(int \<times> string) list"
  version_text_code :: "(string \<times> int) list"
  version_code_text :: "(int \<times> string) list"
  method_text_code :: "(string \<times> int) list"
  method_code_text :: "(int \<times> string) list"
  header_text :: "(string \<times> string) list"

definition map_insert :: "'k \<Rightarrow> 'v \<Rightarrow> ('k \<times> 'v) list \<Rightarrow> ('k \<times> 'v) list" where
  "map_insert k v kvs = (if map_of kvs k = None then kvs @ [(k, v)] else kvs)"

text \<open>The loops; a table without its last entry or with a null text would be read out of bounds.\<close>

fun init_status :: "(HTTPStatusCode \<times> string option) list \<Rightarrow> constants \<Rightarrow> constants cxx" where
  "init_status [] c = Inl OutOfBounds"
| "init_status ((code, text) # rest) c =
     (if code = HTTPStatusCodeLast then Inr c
      else case text of None \<Rightarrow> Inl Undefined
           | Some t \<Rightarrow> init_status rest (c\<lparr> status_code_text := map_insert (status_value code) t (status_code_text c) \<rparr>))"

fun init_versions :: "(HTTPVersion \<times> string option) list \<Rightarrow> constants \<Rightarrow> constants cxx" where
  "init_versions [] c = Inl OutOfBounds"
| "init_versions ((version, text) # rest) c =
     (if version = HTTPVersionLast then Inr c
      else case text of None \<Rightarrow> Inl Undefined
           | Some t \<Rightarrow> init_versions rest
               (c\<lparr> version_text_code := map_insert t (version_value version) (version_text_code c),
                   version_code_text := map_insert (version_value version) t (version_code_text c) \<rparr>))"

fun init_methods :: "(HTTPMethod \<times> string option) list \<Rightarrow> constants \<Rightarrow> constants cxx" where
  "init_methods [] c = Inl OutOfBounds"
| "init_methods ((meth, text) # rest) c =
     (if meth = HTTPMethodLast then Inr c
      else case text of None \<Rightarrow> Inl Undefined
           | Some t \<Rightarrow> init_methods rest
               (c\<lparr> method_text_code := map_insert t (method_value meth) (method_text_code c),
                   method_code_text := map_insert (method_value meth) t (method_code_text c) \<rparr>))"

fun init_headers :: "(string option \<times> HTTPHeaderType) list \<Rightarrow> constants \<Rightarrow> constants cxx" where
  "init_headers [] c = Inl OutOfBounds"
| "init_headers ((text, type) # rest) c =
     (if type = HTTPHeaderTypeNone then Inr c
      else case text of None \<Rightarrow> Inl Undefined
           | Some t \<Rightarrow> init_headers rest (c\<lparr> header_text := map_insert t t (header_text c) \<rparr>))"

definition constants_init :: "constants \<Rightarrow> constants cxx" where
  "constants_init c =
     bind_cxx (init_status kHTTPStatusTable c) (\<lambda>c.
     bind_cxx (init_versions kHTTPVersionTable c) (\<lambda>c.
     bind_cxx (init_methods kHTTPMethodTable c) (init_headers kHTTPHeaderTable)))"

definition get_status_text :: "constants \<Rightarrow> int \<Rightarrow> string option" where
  "get_status_text c code = map_of (status_code_text c) code"

text \<open>The results of type \<^verbatim>\<open>HTTPVersion\<close> and \<^verbatim>\<open>HTTPMethod\<close> are the values of the enumerators.\<close>

definition get_version_type :: "constants \<Rightarrow> string \<Rightarrow> int" where
  "get_version_type c text = (case map_of (version_text_code c) text of None \<Rightarrow> version_value HTTPVersionNone | Some v \<Rightarrow> v)"

definition get_version_text :: "constants \<Rightarrow> int \<Rightarrow> string option" where
  "get_version_text c version = map_of (version_code_text c) version"

definition get_method_type :: "constants \<Rightarrow> string \<Rightarrow> int" where
  "get_method_type c text = (case map_of (method_text_code c) text of None \<Rightarrow> method_value HTTPMethodNone | Some v \<Rightarrow> v)"

definition get_method_text :: "constants \<Rightarrow> int \<Rightarrow> string option" where
  "get_method_text c meth = map_of (method_code_text c) meth"

definition get_header_text :: "constants \<Rightarrow> string \<Rightarrow> string option" where
  "get_header_text c text = map_of (header_text c) text"

section \<open>The maps after initialisation\<close>

definition empty_constants :: constants where
  "empty_constants = \<lparr> status_code_text = [], version_text_code = [], version_code_text = [], method_text_code = [],
     method_code_text = [], header_text = [] \<rparr>"

text \<open>A pair of maps filled from the same table, one by text and one by value.\<close>

lemma map_of_map_insert: "map_of (map_insert k v kvs) x = (if x = k \<and> map_of kvs k = None then Some v else map_of kvs x)"
  by (auto simp: map_insert_def map_add_def split: option.splits)

lemma map_of_inserts:
  "map_of (fold (\<lambda>e. map_insert (f e) (g e)) es kvs) x = (case map_of kvs x of None \<Rightarrow> map_of (map (\<lambda>e. (f e, g e)) es) x | Some v \<Rightarrow> Some v)"
  by (induction es arbitrary: kvs) (auto simp: map_of_map_insert split: option.splits)

text \<open>The entries a loop reads: those before the one it stops at. A table that the loop gets through
  has one, and a text in each entry before it.\<close>

definition entries :: "('a \<Rightarrow> bool) \<Rightarrow> 'a list \<Rightarrow> 'a list" where
  "entries stop table = takeWhile (\<lambda>e. \<not> stop e) table"

definition complete :: "('a \<Rightarrow> bool) \<Rightarrow> ('a \<Rightarrow> string option) \<Rightarrow> 'a list \<Rightarrow> bool" where
  "complete stop text table \<longleftrightarrow> list_ex stop table \<and> list_all (\<lambda>e. text e \<noteq> None) (entries stop table)"

lemma complete_Cons: "complete stop text (e # table) \<longleftrightarrow> stop e \<or> text e \<noteq> None \<and> complete stop text table"
  by (auto simp: complete_def entries_def)

lemma entries_Cons: "entries stop (e # table) = (if stop e then [] else e # entries stop table)"
  by (simp add: entries_def)

lemma complete_Nil: "\<not> complete stop text []"
  by (simp add: complete_def)

lemmas table_simps = complete_Cons entries_Cons complete_Nil

lemma init_status_complete:
  "complete (\<lambda>e. fst e = HTTPStatusCodeLast) snd table \<Longrightarrow>
    init_status table c = Inr (c\<lparr> status_code_text := fold (\<lambda>e. map_insert (status_value (fst e)) (the (snd e)))
      (entries (\<lambda>e. fst e = HTTPStatusCodeLast) table) (status_code_text c) \<rparr>)"
  by (induction table c rule: init_status.induct) (auto simp: table_simps)

lemma init_versions_complete:
  "complete (\<lambda>e. fst e = HTTPVersionLast) snd table \<Longrightarrow>
    init_versions table c = Inr (c\<lparr>
      version_text_code := fold (\<lambda>e. map_insert (the (snd e)) (version_value (fst e)))
        (entries (\<lambda>e. fst e = HTTPVersionLast) table) (version_text_code c),
      version_code_text := fold (\<lambda>e. map_insert (version_value (fst e)) (the (snd e)))
        (entries (\<lambda>e. fst e = HTTPVersionLast) table) (version_code_text c) \<rparr>)"
  by (induction table c rule: init_versions.induct) (auto simp: table_simps)

lemma init_methods_complete:
  "complete (\<lambda>e. fst e = HTTPMethodLast) snd table \<Longrightarrow>
    init_methods table c = Inr (c\<lparr>
      method_text_code := fold (\<lambda>e. map_insert (the (snd e)) (method_value (fst e)))
        (entries (\<lambda>e. fst e = HTTPMethodLast) table) (method_text_code c),
      method_code_text := fold (\<lambda>e. map_insert (method_value (fst e)) (the (snd e)))
        (entries (\<lambda>e. fst e = HTTPMethodLast) table) (method_code_text c) \<rparr>)"
  by (induction table c rule: init_methods.induct) (auto simp: table_simps)

lemma init_headers_complete:
  "complete (\<lambda>e. snd e = HTTPHeaderTypeNone) fst table \<Longrightarrow>
    init_headers table c = Inr (c\<lparr> header_text := fold (\<lambda>e. map_insert (the (fst e)) (the (fst e)))
      (entries (\<lambda>e. snd e = HTTPHeaderTypeNone) table) (header_text c) \<rparr>)"
  by (induction table c rule: init_headers.induct) (auto simp: table_simps)

lemma tables_complete:
  "complete (\<lambda>e. fst e = HTTPStatusCodeLast) snd kHTTPStatusTable"
  "complete (\<lambda>e. fst e = HTTPVersionLast) snd kHTTPVersionTable"
  "complete (\<lambda>e. fst e = HTTPMethodLast) snd kHTTPMethodTable"
  "complete (\<lambda>e. snd e = HTTPHeaderTypeNone) fst kHTTPHeaderTable"
  by (simp_all add: kHTTPStatusTable_def kHTTPVersionTable_def kHTTPMethodTable_def kHTTPHeaderTable_def table_simps)

definition status_entries :: "(HTTPStatusCode \<times> string option) list" where
  "status_entries = entries (\<lambda>e. fst e = HTTPStatusCodeLast) kHTTPStatusTable"

definition version_entries :: "(HTTPVersion \<times> string option) list" where
  "version_entries = entries (\<lambda>e. fst e = HTTPVersionLast) kHTTPVersionTable"

definition method_entries :: "(HTTPMethod \<times> string option) list" where
  "method_entries = entries (\<lambda>e. fst e = HTTPMethodLast) kHTTPMethodTable"

definition header_entries :: "(string option \<times> HTTPHeaderType) list" where
  "header_entries = entries (\<lambda>e. snd e = HTTPHeaderTypeNone) kHTTPHeaderTable"

definition filled :: constants where
  "filled = \<lparr> status_code_text = fold (\<lambda>e. map_insert (status_value (fst e)) (the (snd e))) status_entries [],
     version_text_code = fold (\<lambda>e. map_insert (the (snd e)) (version_value (fst e))) version_entries [],
     version_code_text = fold (\<lambda>e. map_insert (version_value (fst e)) (the (snd e))) version_entries [],
     method_text_code = fold (\<lambda>e. map_insert (the (snd e)) (method_value (fst e))) method_entries [],
     method_code_text = fold (\<lambda>e. map_insert (method_value (fst e)) (the (snd e))) method_entries [],
     header_text = fold (\<lambda>e. map_insert (the (fst e)) (the (fst e))) header_entries [] \<rparr>"

lemma constants_filled: "constants_init empty_constants = Inr filled"
  by (simp add: constants_init_def empty_constants_def filled_def tables_complete init_status_complete
      init_versions_complete init_methods_complete init_headers_complete status_entries_def version_entries_def
      method_entries_def header_entries_def)

text \<open>Two maps filled from one table with no repeated text and no repeated value are inverse to each
  other.\<close>

lemma maps_inverse:
  assumes "distinct (map f es)" "distinct (map g es)"
  shows "map_of (map (\<lambda>e. (f e, g e)) es) x = Some y \<longleftrightarrow> map_of (map (\<lambda>e. (g e, f e)) es) y = Some x"
proof -
  have "map_of (map (\<lambda>e. (f e, g e)) es) x = Some y \<longleftrightarrow> (x, y) \<in> (\<lambda>e. (f e, g e)) ` set es"
    using assms(1) by (subst map_of_eq_Some_iff) (simp_all add: comp_def)
  also have "\<dots> \<longleftrightarrow> (y, x) \<in> (\<lambda>e. (g e, f e)) ` set es"
    by auto
  also have "\<dots> \<longleftrightarrow> map_of (map (\<lambda>e. (g e, f e)) es) y = Some x"
    using assms(2) by (subst map_of_eq_Some_iff) (simp_all add: comp_def)
  finally show ?thesis .
qed

lemma method_entries_distinct:
  "distinct (map (\<lambda>e. the (snd e)) method_entries)" "distinct (map (\<lambda>e. method_value (fst e)) method_entries)"
  by (simp_all add: method_entries_def kHTTPMethodTable_def table_simps)

lemma version_entries_distinct:
  "distinct (map (\<lambda>e. the (snd e)) version_entries)" "distinct (map (\<lambda>e. version_value (fst e)) version_entries)"
  by (simp_all add: version_entries_def kHTTPVersionTable_def table_simps)

lemma filled_methods: "map_of (method_text_code filled) t = Some v \<longleftrightarrow> map_of (method_code_text filled) v = Some t"
  using maps_inverse [OF method_entries_distinct] by (simp add: filled_def map_of_inserts)

lemma filled_versions: "map_of (version_text_code filled) t = Some v \<longleftrightarrow> map_of (version_code_text filled) v = Some t"
  using maps_inverse [OF version_entries_distinct] by (simp add: filled_def map_of_inserts)

text \<open>C39. Initialisation reads its tables up to their last entries and not past them, and fills the maps. After it the lookups
  of methods and of versions by text and by value are inverse to each other: a value has a text exactly when
  that text has the value; a text that is not in the table gives the value of \<^verbatim>\<open>HTTPMethodNone\<close> or
  \<^verbatim>\<open>HTTPVersionNone\<close>.\<close>

theorem constants_inverse:
  "\<exists>c. constants_init empty_constants = Inr c \<and>
    (\<forall>m t. (get_method_text c m = Some t \<longrightarrow> get_method_type c t = m) \<and>
      (get_method_type c t = m \<and> m \<noteq> method_value HTTPMethodNone \<longrightarrow> get_method_text c m = Some t)) \<and>
    (\<forall>v t. (get_version_text c v = Some t \<longrightarrow> get_version_type c t = v) \<and>
      (get_version_type c t = v \<and> v \<noteq> version_value HTTPVersionNone \<longrightarrow> get_version_text c v = Some t))"
proof (intro exI [of _ filled] conjI constants_filled allI)
  show "get_method_text filled m = Some t \<longrightarrow> get_method_type filled t = m"
    "get_method_type filled t = m \<and> m \<noteq> method_value HTTPMethodNone \<longrightarrow> get_method_text filled m = Some t" for m t
    using filled_methods [of t m] by (auto simp: get_method_text_def get_method_type_def split: option.splits)
  show "get_version_text filled v = Some t \<longrightarrow> get_version_type filled t = v"
    "get_version_type filled t = v \<and> v \<noteq> version_value HTTPVersionNone \<longrightarrow> get_version_text filled v = Some t" for v t
    using filled_versions [of t v] by (auto simp: get_version_text_def get_version_type_def split: option.splits)
qed

theorem constants_inverse_witness:
  "\<exists>c. constants_init empty_constants = Inr c \<and> get_method_text c 1 = Some ''GET'' \<and> get_method_type c ''GET'' = 1 \<and>
     get_version_text c 11 = Some ''HTTP/1.1'' \<and> get_version_type c ''HTTP/1.1'' = 11"
proof -
  have "get_method_text filled 1 = Some ''GET''" "get_version_text filled 11 = Some ''HTTP/1.1''"
    by (simp_all add: get_method_text_def get_version_text_def filled_def map_of_inserts)
      (simp_all add: method_entries_def version_entries_def kHTTPMethodTable_def kHTTPVersionTable_def table_simps)
  moreover obtain c where "constants_init empty_constants = Inr c" "\<And>m t. get_method_text c m = Some t \<longrightarrow> get_method_type c t = m"
      "\<And>v t. get_version_text c v = Some t \<longrightarrow> get_version_type c t = v"
    using constants_inverse by blast
  moreover from this(1) have "c = filled"
    using constants_filled by simp
  ultimately show ?thesis
    by blast
qed

text \<open>The name of the header that sets cookies is not the one that its comment gives.\<close>

lemma get_header_text_filled: "get_header_text filled t = map_of (map (\<lambda>e. (the (fst e), the (fst e))) header_entries) t"
  by (simp add: get_header_text_def filled_def map_of_inserts)

lemma set_cookie_name: "get_header_text filled ''Set-Cookie'' = None \<and> get_header_text filled ''SetCookie'' = Some ''SetCookie''"
  by (simp add: get_header_text_filled header_entries_def kHTTPHeaderTable_def table_simps)

end
