(* ===== verification/Config_Parser.thy ===== *)
theory Config_Parser
  imports Ragel Http_Common
begin

text \<open>
  \<^verbatim>\<open>src/config_parser.cc\<close>: the configuration language. The parser is a third machine of the shape of
  \<^verbatim>\<open>Ragel\<close>; it reports what it reads through virtual functions, which the model has as one function
  on events, the handler, so that the parser is proved once for every class that derives from it. A
  handler may end the process, which is an error value like those of undefined behaviour.
\<close>

section \<open>Callbacks\<close>

datatype config_stop = Fatal_Exit | Broken cxx_error

type_synonym 'a conf = "config_stop + 'a"

definition bind_conf :: "'a conf \<Rightarrow> ('a \<Rightarrow> 'b conf) \<Rightarrow> 'b conf" where
  "bind_conf m f = (case m of Inl e \<Rightarrow> Inl e | Inr x \<Rightarrow> f x)"

definition conf_of :: "'a cxx \<Rightarrow> 'a conf" where
  "conf_of m = (case m of Inl e \<Rightarrow> Inl (Broken e) | Inr x \<Rightarrow> Inr x)"

lemma bind_conf_simps [simp]:
  "bind_conf (Inl e) f = Inl e"
  "bind_conf (Inr x) f = f x"
  by (simp_all add: bind_conf_def)

lemma conf_of_simps [simp]:
  "conf_of (Inl e) = Inl (Broken e)"
  "conf_of (Inr x) = Inr x"
  by (simp_all add: conf_of_def)

lemma bind_conf_assoc: "bind_conf (bind_conf m f) g = bind_conf m (\<lambda>x. bind_conf (f x) g)"
  by (auto simp: bind_conf_def split: sum.splits)

lemma bind_conf_cong [fundef_cong]:
  assumes "m = m'" "\<And>x. m' = Inr x \<Longrightarrow> f x = g x"
  shows "bind_conf m f = bind_conf m' g"
  using assms by (auto simp: bind_conf_def split: sum.splits)

lemma bind_conf_Inl_iff: "bind_conf m f = Inl e \<longleftrightarrow> m = Inl e \<or> (\<exists>x. m = Inr x \<and> f x = Inl e)"
  by (cases m) auto

lemma bind_conf_Inr_iff: "bind_conf m f = Inr y \<longleftrightarrow> (\<exists>x. m = Inr x \<and> f x = Inr y)"
  by (cases m) auto

lemma conf_of_Inr_iff: "conf_of m = Inr x \<longleftrightarrow> m = Inr x"
  by (cases m) auto

datatype config_event = Symbol string | Start_Block | End_Block | End_Statement | Config_Done

type_synonym 's config_handler = "config_event \<Rightarrow> 's \<Rightarrow> 's conf"

section \<open>Tables\<close>

definition config_parser_actions :: "int list" where
  "config_parser_actions =
    [0, 1, 0, 1, 1, 1, 2, 1, 3, 1, 4, 1, 5, 1, 6, 2, 1, 0, 2, 1, 6, 2, 2, 0, 2, 2, 6, 2, 5, 0, 2, 5,
    6]"

definition config_parser_key_offsets :: "int list" where
  "config_parser_key_offsets =
    [0, 0, 15, 30, 32, 37, 38, 40, 40, 40, 40, 57, 74, 91]"

definition config_parser_trans_keys :: "int list" where
  "config_parser_trans_keys =
    [13, 32, 33, 59, 92, 124, 126, 9, 10, 36, 38, 40, 95, 97, 122, 13, 32, 33, 34, 39, 59, 92, 123,
    126, 9, 10, 36, 95, 97, 124, 34, 92, 13, 32, 59, 9, 10, 10, 39, 92, 13, 32, 34, 35, 39, 92, 125,
    9, 10, 33, 58, 60, 95, 97, 122, 124, 126, 13, 32, 34, 35, 39, 92, 125, 9, 10, 33, 58, 60, 95,
    97, 122, 124, 126, 13, 32, 34, 35, 39, 92, 125, 9, 10, 33, 58, 60, 95, 97, 122, 124, 126, 13,
    32, 34, 35, 39, 92, 125, 9, 10, 33, 58, 60, 95, 97, 122, 124, 126, 0]"

definition config_parser_single_lengths :: "int list" where
  "config_parser_single_lengths =
    [0, 7, 9, 2, 3, 1, 2, 0, 0, 0, 7, 7, 7, 7]"

definition config_parser_range_lengths :: "int list" where
  "config_parser_range_lengths =
    [0, 4, 3, 0, 1, 0, 0, 0, 0, 0, 5, 5, 5, 5]"

definition config_parser_index_offsets :: "int list" where
  "config_parser_index_offsets =
    [0, 0, 12, 25, 28, 33, 35, 38, 39, 40, 41, 54, 67, 80]"

definition config_parser_indicies :: "int list" where
  "config_parser_indicies =
    [0, 0, 2, 3, 4, 2, 2, 0, 2, 2, 2, 1, 5, 5, 6, 7, 8, 9, 10, 11, 6, 5, 6, 6, 1, 13, 14, 12, 15, 15,
    16, 15, 1, 18, 17, 13, 20, 19, 19, 2, 12, 18, 18, 7, 17, 8, 10, 21, 18, 6, 6, 6, 6, 1, 22, 22,
    24, 25, 26, 27, 28, 22, 23, 23, 23, 23, 1, 29, 29, 31, 32, 33, 34, 35, 29, 30, 30, 30, 30, 1,
    36, 36, 38, 39, 40, 41, 42, 36, 37, 37, 37, 37, 1, 0]"

definition config_parser_trans_targs :: "int list" where
  "config_parser_trans_targs =
    [2, 0, 1, 11, 8, 2, 1, 3, 6, 11, 8, 13, 3, 4, 9, 2, 11, 5, 10, 6, 7, 12, 10, 1, 3, 5, 6, 8, 12,
    10, 1, 3, 5, 6, 8, 12, 10, 1, 3, 5, 6, 8, 12]"

definition config_parser_trans_actions :: "int list" where
  "config_parser_trans_actions =
    [7, 0, 0, 7, 0, 0, 1, 1, 1, 0, 1, 0, 0, 0, 0, 9, 9, 0, 0, 0, 0, 0, 11, 27, 27, 11, 27, 27, 11, 5,
    21, 21, 5, 21, 21, 5, 3, 15, 15, 3, 15, 15, 3]"

definition config_parser_eof_actions :: "int list" where
  "config_parser_eof_actions =
    [0, 0, 0, 0, 0, 0, 0, 0, 0, 0, 13, 30, 24, 18]"

definition config_parser_start :: nat where
  "config_parser_start = 10"

definition config_parser_first_final :: nat where
  "config_parser_first_final = 10"

definition config_parser_error :: nat where
  "config_parser_error = 0"

section \<open>The machine\<close>

function config_find_single :: "int \<Rightarrow> nat \<Rightarrow> int \<Rightarrow> int \<Rightarrow> int option cxx" where
  "config_find_single c keys lower upper =
     (if upper < lower then Inr None
      else
        let mid = lower + (upper - lower) div 2 in
        bind_cxx (index_cxx config_parser_trans_keys (keys + nat mid)) (\<lambda>k.
          if c < k then config_find_single c keys lower (mid - 1)
          else if c > k then config_find_single c keys (mid + 1) upper
          else Inr (Some mid)))"
  by pat_completeness auto
termination
  by (relation "measure (\<lambda>(c, keys, lower, upper). nat (upper - lower + 1))") auto

function config_find_range :: "int \<Rightarrow> nat \<Rightarrow> int \<Rightarrow> int \<Rightarrow> int option cxx" where
  "config_find_range c keys lower upper =
     (if upper < lower then Inr None
      else
        let mid = lower + 2 * ((upper - lower) div 2 div 2) in
        bind_cxx (index_cxx config_parser_trans_keys (keys + nat mid)) (\<lambda>k0.
          if c < k0 then config_find_range c keys lower (mid - 2)
          else bind_cxx (index_cxx config_parser_trans_keys (keys + nat mid + 1)) (\<lambda>k1.
            if c > k1 then config_find_range c keys (mid + 2) upper
            else Inr (Some (mid div 2)))))"
  by pat_completeness auto
termination
  by (relation "measure (\<lambda>(c, keys, lower, upper). nat (upper - lower + 2))") auto

declare config_find_single.simps [simp del] config_find_range.simps [simp del]

definition config_find_trans :: "nat \<Rightarrow> int \<Rightarrow> nat cxx" where
  "config_find_trans state c =
     bind_cxx (table_at config_parser_key_offsets state) (\<lambda>keys.
     bind_cxx (table_at config_parser_index_offsets state) (\<lambda>trans.
     bind_cxx (table_at config_parser_single_lengths state) (\<lambda>singles.
     bind_cxx (table_at config_parser_range_lengths state) (\<lambda>ranges.
     bind_cxx (if singles > 0 then config_find_single c keys 0 (int singles - 1) else Inr None) (\<lambda>found.
     bind_cxx
       (case found of
          Some i \<Rightarrow> Inr (trans + nat i)
        | None \<Rightarrow>
            bind_cxx (if ranges > 0 then config_find_range c (keys + singles) 0 (2 * int ranges - 2) else Inr None) (\<lambda>found.
              case found of
                Some i \<Rightarrow> Inr (trans + singles + nat i)
              | None \<Rightarrow> Inr (trans + singles + ranges)))
       (table_at config_parser_indicies))))))"

definition config_action_list :: "nat \<Rightarrow> nat list cxx" where
  "config_action_list tr =
     bind_cxx (table_at config_parser_trans_actions tr) (\<lambda>a.
       if a = 0 then Inr []
       else bind_cxx (table_at config_parser_actions a) (\<lambda>n. bind_cxx (read_range config_parser_actions (a + 1) n) (\<lambda>acts. Inr (map nat acts))))"

text \<open>The variables of \<^verbatim>\<open>parse\<close> and the object that the callbacks change.\<close>

record 's config_run =
  ccs :: nat
  cmark :: "nat option"
  cobj :: 's

definition config_call :: "'s config_handler \<Rightarrow> config_event \<Rightarrow> 's config_run \<Rightarrow> 's config_run conf" where
  "config_call h e st = bind_conf (h e (cobj st)) (\<lambda>s. Inr (st\<lparr> cobj := s \<rparr>))"

text \<open>
  The text between the mark and the position; action 4 leaves out the quotes around it. The length is
  a \<^verbatim>\<open>size_t\<close>, so a negative one would be huge.
\<close>

definition marked :: "string \<Rightarrow> nat option \<Rightarrow> nat \<Rightarrow> nat \<Rightarrow> string cxx" where
  "marked str mk p quote =
     (case mk of
        None \<Rightarrow> Inl Undefined
      | Some i \<Rightarrow> read_range str (i + quote) (size_sub p (i + 2 * quote)))"

definition config_action :: "'s config_handler \<Rightarrow> string \<Rightarrow> nat \<Rightarrow> nat \<Rightarrow> 's config_run \<Rightarrow> 's config_run conf" where
  "config_action h str p act st =
     (if act = 0 then Inr (st\<lparr> cmark := Some p \<rparr>)
      else if act = 1 then config_call h Start_Block st
      else if act = 2 then config_call h End_Block st
      else if act = 3 then bind_conf (conf_of (marked str (cmark st) p 0)) (\<lambda>s. config_call h (Symbol s) st)
      else if act = 4 then bind_conf (conf_of (marked str (cmark st) p 1)) (\<lambda>s. config_call h (Symbol s) st)
      else if act = 5 then config_call h End_Statement st
      else Inr st)"

fun config_actions :: "'s config_handler \<Rightarrow> string \<Rightarrow> nat \<Rightarrow> nat list \<Rightarrow> 's config_run \<Rightarrow> 's config_run conf" where
  "config_actions h str p [] st = Inr st"
| "config_actions h str p (act # acts) st = bind_conf (config_action h str p act st) (config_actions h str p acts)"

text \<open>The actions at the end of the text; action 6 leaves the machine.\<close>

fun config_eof_actions :: "'s config_handler \<Rightarrow> nat list \<Rightarrow> 's config_run \<Rightarrow> 's config_run conf" where
  "config_eof_actions h [] st = Inr st"
| "config_eof_actions h (act # acts) st =
     (if act = 1 then bind_conf (config_call h Start_Block st) (config_eof_actions h acts)
      else if act = 2 then bind_conf (config_call h End_Block st) (config_eof_actions h acts)
      else if act = 5 then bind_conf (config_call h End_Statement st) (config_eof_actions h acts)
      else if act = 6 then config_call h Config_Done st
      else config_eof_actions h acts st)"

definition config_eof_list :: "nat \<Rightarrow> nat list cxx" where
  "config_eof_list state =
     bind_cxx (table_at config_parser_eof_actions state) (\<lambda>a.
     bind_cxx (table_at config_parser_actions a) (\<lambda>n.
     bind_cxx (read_range config_parser_actions (a + 1) n) (\<lambda>acts. Inr (map nat acts))))"

definition config_eof :: "'s config_handler \<Rightarrow> 's config_run \<Rightarrow> 's config_run conf" where
  "config_eof h st = bind_conf (conf_of (config_eof_list (ccs st))) (\<lambda>acts. config_eof_actions h acts st)"

function config_exec :: "'s config_handler \<Rightarrow> string \<Rightarrow> nat \<Rightarrow> 's config_run \<Rightarrow> 's config_run conf" where
  "config_exec h str p st =
     bind_conf (conf_of (index_cxx str p)) (\<lambda>c.
     bind_conf (conf_of (config_find_trans (ccs st) (schar c))) (\<lambda>trans.
     bind_conf (conf_of (table_at config_parser_trans_targs trans)) (\<lambda>targ.
     bind_conf (conf_of (config_action_list trans)) (\<lambda>acts.
     bind_conf (config_actions h str p acts (st\<lparr> ccs := targ \<rparr>)) (\<lambda>st.
       if ccs st = 0 then Inr st
       else if p + 1 \<noteq> length str then config_exec h str (p + 1) st
       else config_eof h st)))))"
  by pat_completeness auto
termination
  by (relation "measure (\<lambda>(h, str, p, st). length str - p)") (auto simp: conf_of_Inr_iff index_cxx_Inr_iff)

declare config_exec.simps [simp del]

definition config_parse :: "'s config_handler \<Rightarrow> string \<Rightarrow> 's \<Rightarrow> (bool \<times> 's) conf" where
  "config_parse h buffer s =
     (let str = c_str buffer; st = \<lparr> ccs = config_parser_start, cmark = None, cobj = s \<rparr> in
      bind_conf (if str = [] then config_eof h st else config_exec h str 0 st) (\<lambda>st.
        Inr (ccs st \<noteq> config_parser_error \<and> ccs st = config_parser_first_final, cobj st)))"

section \<open>Tables fit\<close>

lemma config_tables_ok:
  "ragel_ok 14 config_parser_actions config_parser_key_offsets config_parser_trans_keys config_parser_single_lengths config_parser_range_lengths
     config_parser_index_offsets config_parser_indicies config_parser_trans_targs config_parser_trans_actions"
  by code_simp

interpretation config_machine: ragel_machine 14 config_parser_actions config_parser_key_offsets config_parser_trans_keys
  config_parser_single_lengths config_parser_range_lengths config_parser_index_offsets config_parser_indicies config_parser_trans_targs
  config_parser_trans_actions config_find_single config_find_range config_find_trans config_action_list
  by unfold_locales
    (rule config_tables_ok config_find_single.simps config_find_range.simps config_find_trans_def config_action_list_def)+

section \<open>What the parser promises its callbacks\<close>

text \<open>
  In the states in the middle of a symbol the mark is set, at least so many characters behind the
  position. The other table tells whether there are symbols that no statement and no block has
  taken: there are some in the states after a symbol, and none between statements.
\<close>

definition config_dist :: "nat \<Rightarrow> nat option" where
  "config_dist s = (if s \<in> {1, 3, 6, 8} then Some 1 else if s \<in> {4, 7, 9} then Some 2 else None)"

definition config_pending :: "nat \<Rightarrow> bool option" where
  "config_pending s = (if s \<in> {2, 11, 13} then Some True else if s \<in> {5, 10, 12} then Some False else None)"

fun check_actions :: "nat list \<Rightarrow> nat option \<times> bool option \<Rightarrow> (nat option \<times> bool option) option" where
  "check_actions [] df = Some df"
| "check_actions (act # acts) (d, f) =
     (if act = 0 then check_actions acts (Some 0, f)
      else if act = 1 \<or> act = 5 then (if f = Some True then check_actions acts (d, Some False) else None)
      else if act = 2 then (if f = Some False then check_actions acts (d, f) else None)
      else if act = 3 then (case d of None \<Rightarrow> None | Some n \<Rightarrow> check_actions acts (d, Some True))
      else if act = 4 then (case d of None \<Rightarrow> None | Some n \<Rightarrow> if 2 \<le> n then check_actions acts (d, Some True) else None)
      else check_actions acts (d, f))"

definition config_slot :: "nat \<Rightarrow> nat \<Rightarrow> nat" where
  "config_slot s i = nat (config_parser_indicies ! (nat (config_parser_index_offsets ! s) + i))"

definition config_slots :: "nat \<Rightarrow> nat" where
  "config_slots s = nat (config_parser_single_lengths ! s) + nat (config_parser_range_lengths ! s)"

definition config_slot_ok :: "nat \<Rightarrow> nat \<Rightarrow> bool" where
  "config_slot_ok s i =
     (let targ = nat (config_parser_trans_targs ! config_slot s i) in
      case config_action_list (config_slot s i) of
        Inl _ \<Rightarrow> False
      | Inr acts \<Rightarrow>
          (case check_actions acts (config_dist s, config_pending s) of
             None \<Rightarrow> False
           | Some (d, f) \<Rightarrow>
               (case config_dist targ of None \<Rightarrow> True | Some e \<Rightarrow> (case d of None \<Rightarrow> False | Some n \<Rightarrow> e \<le> n + 1)) \<and>
               (config_pending targ = None \<or> config_pending targ = f)))"

lemma config_slots_ok: "list_all (\<lambda>s. list_all (config_slot_ok s) [0..<config_slots s + 1]) [1..<14]"
  by code_simp

lemma config_eof_lists:
  "map config_eof_list [0..<14] = map Inr (replicate 10 [] @ [[6], [5, 6], [2, 6], [1, 6]])"
  by code_simp

lemma config_slot_okD:
  assumes "0 < s" "s < 14" "i \<le> config_slots s"
  defines "targ \<equiv> nat (config_parser_trans_targs ! config_slot s i)"
  shows "\<exists>acts d f. config_action_list (config_slot s i) = Inr acts \<and>
      check_actions acts (config_dist s, config_pending s) = Some (d, f) \<and>
      (\<forall>e. config_dist targ = Some e \<longrightarrow> (\<exists>n. d = Some n \<and> e \<le> n + 1)) \<and> (\<forall>b. config_pending targ = Some b \<longrightarrow> f = Some b)"
proof -
  have "config_slot_ok s i"
    using assms(1-3) config_slots_ok unfolding list_all_iff set_upt by (simp del: upt_Suc)
  then show ?thesis
    unfolding config_slot_ok_def targ_def [symmetric] Let_def
    by (cases "config_dist targ") (auto split: sum.splits option.split_asm)
qed

lemma config_eof_list_eq:
  assumes "s < 14"
  shows "config_eof_list s = Inr (if s = 10 then [6] else if s = 11 then [5, 6] else if s = 12 then [2, 6] else if s = 13 then [1, 6] else [])"
proof -
  have "config_eof_list s = map config_eof_list [0..<14] ! s"
    using assms by simp
  also have "\<dots> = Inr ((replicate 10 [] @ [[6], [5, 6], [2, 6], [1, 6]]) ! s)"
    unfolding config_eof_lists using assms by (subst nth_map) simp_all
  also have "(replicate 10 [] @ [[6], [5, 6], [2, 6], [1, 6]]) ! s =
      (if s = 10 then [6] else if s = 11 then [5, 6] else if s = 12 then [2, 6] else if s = 13 then [1, 6] else [])"
  proof -
    consider "s < 10" | "s = 10" | "s = 11" | "s = 12" | "s = 13"
      using assms by linarith
    then show ?thesis
      by cases (simp_all add: nth_append)
  qed
  finally show ?thesis .
qed

text \<open>
  The interface of the callbacks. \<open>I b s\<close> is an invariant of the object, with \<open>b\<close> telling whether there
  are symbols waiting; \<open>bad\<close> has the ways in which a callback may fail. Under these laws the parser
  keeps the invariant on every text and fails only as the callbacks do.
\<close>

definition outcome :: "config_stop set \<Rightarrow> ('a \<Rightarrow> bool) \<Rightarrow> 'a conf \<Rightarrow> bool" where
  "outcome bad P r \<longleftrightarrow> (case r of Inl e \<Rightarrow> e \<in> bad | Inr x \<Rightarrow> P x)"

lemma outcome_simps [simp]:
  "outcome bad P (Inl e) \<longleftrightarrow> e \<in> bad"
  "outcome bad P (Inr x) \<longleftrightarrow> P x"
  by (simp_all add: outcome_def)

lemma outcome_bind:
  assumes "outcome bad P m" "\<And>x. m = Inr x \<Longrightarrow> P x \<Longrightarrow> outcome bad Q (f x)"
  shows "outcome bad Q (bind_conf m f)"
  using assms by (cases m) auto

lemma outcome_mono: "outcome bad P m \<Longrightarrow> (\<And>x. P x \<Longrightarrow> Q x) \<Longrightarrow> outcome bad Q m"
  by (cases m) auto

locale config_client =
  fixes h :: "'s config_handler" and I :: "bool \<Rightarrow> 's \<Rightarrow> bool" and bad :: "config_stop set"
  assumes on_symbol: "I b s \<Longrightarrow> outcome bad (I True) (h (Symbol x) s)"
    and on_start_block: "I True s \<Longrightarrow> outcome bad (I False) (h Start_Block s)"
    and on_end_block: "I False s \<Longrightarrow> outcome bad (I False) (h End_Block s)"
    and on_end_statement: "I True s \<Longrightarrow> outcome bad (I False) (h End_Statement s)"
    and on_config_done: "I False s \<Longrightarrow> outcome bad (I False) (h Config_Done s)"
begin

definition run_ok :: "nat \<Rightarrow> 's config_run \<Rightarrow> nat option \<times> bool option \<Rightarrow> bool" where
  "run_ok p st df \<longleftrightarrow> (\<forall>n. fst df = Some n \<longrightarrow> (\<exists>m. cmark st = Some m \<and> m + n \<le> p)) \<and>
     (\<exists>b. (snd df = None \<or> snd df = Some b) \<and> I b (cobj st))"

lemma call_ok:
  "outcome bad (I b) (h e (cobj st)) \<Longrightarrow>
    outcome bad (\<lambda>st'. ccs st' = ccs st \<and> cmark st' = cmark st \<and> I b (cobj st')) (config_call h e st)"
  unfolding config_call_def by (rule outcome_bind) auto

lemma marked_ok:
  assumes "run_ok p st (Some n, f)" "2 * q \<le> n" "p \<le> length str"
  obtains x where "marked str (cmark st) p q = Inr x"
proof -
  obtain m where "cmark st = Some m" "m + n \<le> p"
    using assms(1) by (auto simp: run_ok_def)
  with assms(2,3) show thesis
    by (intro that) (auto simp: marked_def)
qed

lemma symbol_ok:
  assumes "run_ok p st (Some n, f)" "2 * q \<le> n" "p \<le> length str"
  shows "outcome bad (\<lambda>st'. ccs st' = ccs st \<and> run_ok p st' (Some n, Some True))
    (bind_conf (conf_of (marked str (cmark st) p q)) (\<lambda>x. config_call h (Symbol x) st))"
proof -
  obtain x where x: "marked str (cmark st) p q = Inr x"
    using marked_ok [OF assms] .
  obtain b where "I b (cobj st)"
    using assms(1) by (auto simp: run_ok_def)
  then have "outcome bad (\<lambda>st'. ccs st' = ccs st \<and> cmark st' = cmark st \<and> I True (cobj st')) (config_call h (Symbol x) st)"
    by (intro call_ok on_symbol)
  with assms(1) show ?thesis
    by (auto simp: x run_ok_def elim!: outcome_mono)
qed

lemma plain_call_ok:
  assumes "run_ok p st (d, f)" "outcome bad (I b) (h e (cobj st))"
  shows "outcome bad (\<lambda>st'. ccs st' = ccs st \<and> run_ok p st' (d, Some b)) (config_call h e st)"
  using call_ok [OF assms(2)] assms(1) by (auto simp: run_ok_def elim!: outcome_mono)

lemma action_ok:
  assumes "run_ok p st df" "check_actions (act # acts) df = Some df'" "p \<le> length str"
  shows "outcome bad (\<lambda>st'. ccs st' = ccs st \<and> (\<exists>df1. run_ok p st' df1 \<and> check_actions acts df1 = Some df')) (config_action h str p act st)"
proof -
  obtain d f where df: "df = (d, f)"
    by (cases df)
  have I: "I b (cobj st)" if "f = Some b" for b
    using assms(1) that by (simp add: run_ok_def df)
  consider "act = 0" | "act = 1" | "act = 2" | "act = 3" | "act = 4" | "act = 5" | "act \<notin> {0, 1, 2, 3, 4, 5}"
    by auto
  then show ?thesis
  proof cases
    case 1
    then show ?thesis
      using assms(1,2) by (auto simp: config_action_def run_ok_def df intro!: exI [of _ "Some 0"] exI [of _ f])
  next
    case 2
    then have "outcome bad (I False) (h Start_Block (cobj st))" "check_actions acts (d, Some False) = Some df'"
      using assms(2) I on_start_block by (auto simp: df split: if_splits)
    then show ?thesis
      using 2 by (auto simp: config_action_def intro: outcome_mono [OF plain_call_ok [OF assms(1) [unfolded df]]])
  next
    case 3
    then have "outcome bad (I False) (h End_Block (cobj st))" "check_actions acts (d, Some False) = Some df'"
      using assms(2) I on_end_block by (auto simp: df split: if_splits)
    then show ?thesis
      using 3 by (auto simp: config_action_def intro: outcome_mono [OF plain_call_ok [OF assms(1) [unfolded df]]])
  next
    case 4
    then obtain n where "d = Some n" "check_actions acts (d, Some True) = Some df'"
      using assms(2) by (auto simp: df split: option.splits)
    then show ?thesis
      using symbol_ok [of p st n f 0 str] assms(1,3) 4 by (auto simp: config_action_def df elim!: outcome_mono)
  next
    case 5
    then obtain n where "d = Some n" "2 \<le> n" "check_actions acts (d, Some True) = Some df'"
      using assms(2) by (auto simp: df split: option.splits if_splits)
    then show ?thesis
      using symbol_ok [of p st n f 1 str] assms(1,3) 5 by (auto simp: config_action_def df elim!: outcome_mono)
  next
    case 6
    then have "outcome bad (I False) (h End_Statement (cobj st))" "check_actions acts (d, Some False) = Some df'"
      using assms(2) I on_end_statement by (auto simp: df split: if_splits)
    then show ?thesis
      using 6 by (auto simp: config_action_def intro: outcome_mono [OF plain_call_ok [OF assms(1) [unfolded df]]])
  next
    case 7
    then show ?thesis
      using assms(1,2) by (auto simp: config_action_def df)
  qed
qed

lemma actions_ok:
  assumes "run_ok p st df" "check_actions acts df = Some df'" "p \<le> length str"
  shows "outcome bad (\<lambda>st'. ccs st' = ccs st \<and> run_ok p st' df') (config_actions h str p acts st)"
  using assms(1,2)
proof (induction acts arbitrary: st df)
  case (Cons act acts)
  show ?case
    unfolding config_actions.simps
  proof (rule outcome_bind [OF action_ok [OF Cons.prems assms(3)]])
    fix st'
    assume "ccs st' = ccs st \<and> (\<exists>df1. run_ok p st' df1 \<and> check_actions acts df1 = Some df')"
    then show "outcome bad (\<lambda>st'. ccs st' = ccs st \<and> run_ok p st' df') (config_actions h str p acts st')"
      using Cons.IH [of st'] by metis
  qed
qed simp

lemma eof_ok:
  assumes "run_ok p st (config_dist (ccs st), config_pending (ccs st))" "ccs st < 14"
  shows "outcome bad (\<lambda>st'. ccs st' = ccs st \<and> (\<exists>b. I b (cobj st')) \<and> (ccs st' = 10 \<longrightarrow> I False (cobj st'))) (config_eof h st)"
proof -
  have finish: "outcome bad (\<lambda>st''. ccs st'' = ccs st \<and> I False (cobj st'')) (config_call h Config_Done st')"
    if "ccs st' = ccs st" "I False (cobj st')" for st'
    using call_ok [OF on_config_done [OF that(2)]] that(1) by (auto elim!: outcome_mono)
  have first: "outcome bad (\<lambda>st''. ccs st'' = ccs st \<and> I False (cobj st''))
      (bind_conf (config_call h e st) (config_eof_actions h [6]))" if "outcome bad (I False) (h e (cobj st))" for e
    by (rule outcome_bind [OF call_ok [OF that]]) (use finish in auto)
  have I: "I b (cobj st)" if "config_pending (ccs st) = Some b" for b
    using assms(1) that by (auto simp: run_ok_def)
  consider "ccs st = 10" | "ccs st = 11" | "ccs st = 12" | "ccs st = 13" | "ccs st \<notin> {10, 11, 12, 13}"
    by auto
  then show ?thesis
  proof cases
    case 1
    then show ?thesis
      using finish [of st] I [of False] by (auto simp: config_eof_def config_eof_list_eq config_pending_def elim!: outcome_mono)
  next
    case 2
    then show ?thesis
      using first [OF on_end_statement] I [of True] by (auto simp: config_eof_def config_eof_list_eq config_pending_def intro: outcome_mono)
  next
    case 3
    then show ?thesis
      using first [OF on_end_block] I [of False] by (auto simp: config_eof_def config_eof_list_eq config_pending_def elim!: outcome_mono)
  next
    case 4
    then show ?thesis
      using first [OF on_start_block] I [of True] by (auto simp: config_eof_def config_eof_list_eq config_pending_def elim!: outcome_mono)
  next
    case 5
    then show ?thesis
      using assms by (auto simp: config_eof_def config_eof_list_eq run_ok_def)
  qed
qed

lemma next_ok:
  assumes "run_ok p st (d, f)" "\<forall>e. config_dist t = Some e \<longrightarrow> (\<exists>n. d = Some n \<and> e \<le> n + 1)"
    "\<forall>b. config_pending t = Some b \<longrightarrow> f = Some b"
  shows "run_ok (p + 1) st (config_dist t, config_pending t)"
proof -
  have "\<exists>m. cmark st = Some m \<and> m + e \<le> p + 1" if "config_dist t = Some e" for e
  proof -
    obtain n where "d = Some n" "e \<le> n + 1"
      using assms(2) \<open>config_dist t = Some e\<close> by blast
    with assms(1) show ?thesis
      by (auto simp: run_ok_def)
  qed
  moreover have "\<exists>b. (config_pending t = None \<or> config_pending t = Some b) \<and> I b (cobj st)"
    using assms(1,3) by (cases "config_pending t") (auto simp: run_ok_def)
  ultimately show ?thesis
    by (simp add: run_ok_def)
qed

lemma exec_ok:
  assumes "run_ok p st (config_dist (ccs st), config_pending (ccs st))" "0 < ccs st" "ccs st < 14" "p < length str"
  shows "outcome bad (\<lambda>st'. (\<exists>b. I b (cobj st')) \<and> (ccs st' = 10 \<longrightarrow> I False (cobj st'))) (config_exec h str p st)"
  using assms
proof (induction "length str - p" arbitrary: p st rule: less_induct)
  case less
  let ?s = "ccs st"
  obtain i where i: "config_find_trans ?s (schar (str ! p)) = Inr (config_slot ?s i)" "i \<le> config_slots ?s"
    using config_machine.slot_found [OF less.prems(3)] unfolding config_slot_def config_slots_def by blast
  let ?t = "nat (config_parser_trans_targs ! config_slot ?s i)"
  have t: "table_at config_parser_trans_targs (config_slot ?s i) = Inr ?t" "?t < 14"
    using config_machine.slot_tables [OF less.prems(3) i(2) [unfolded config_slots_def]] by (simp_all add: config_slot_def)
  obtain acts d f where a: "config_action_list (config_slot ?s i) = Inr acts"
      "check_actions acts (config_dist ?s, config_pending ?s) = Some (d, f)"
      "\<forall>e. config_dist ?t = Some e \<longrightarrow> (\<exists>n. d = Some n \<and> e \<le> n + 1)" "\<forall>b. config_pending ?t = Some b \<longrightarrow> f = Some b"
    using config_slot_okD [OF less.prems(2,3) i(2)] that by (elim exE conjE)
  have "run_ok p (st\<lparr> ccs := ?t \<rparr>) (config_dist ?s, config_pending ?s)"
    using less.prems(1) by (simp add: run_ok_def)
  then have acts: "outcome bad (\<lambda>st'. ccs st' = ?t \<and> run_ok p st' (d, f)) (config_actions h str p acts (st\<lparr> ccs := ?t \<rparr>))"
    using actions_ok [OF _ a(2), of p _ str] less.prems(4) by fastforce
  have step: "config_exec h str p st = bind_conf (config_actions h str p acts (st\<lparr> ccs := ?t \<rparr>)) (\<lambda>st.
      if ccs st = 0 then Inr st else if p + 1 \<noteq> length str then config_exec h str (p + 1) st else config_eof h st)"
    using less.prems(4) i(1) t(1) a(1) by (subst config_exec.simps) simp
  show ?case
    unfolding step
  proof (rule outcome_bind [OF acts])
    fix st'
    assume st': "ccs st' = ?t \<and> run_ok p st' (d, f)"
    have ok: "run_ok (p + 1) st' (config_dist (ccs st'), config_pending (ccs st'))"
      using next_ok [OF _ a(3,4)] st' by auto
    show "outcome bad (\<lambda>st'. (\<exists>b. I b (cobj st')) \<and> (ccs st' = 10 \<longrightarrow> I False (cobj st')))
        (if ccs st' = 0 then Inr st' else if p + 1 \<noteq> length str then config_exec h str (p + 1) st' else config_eof h st')"
    proof (cases "ccs st' = 0 \<or> p + 1 = length str")
      case True
      have "\<exists>b. I b (cobj st')"
        using ok by (auto simp: run_ok_def)
      moreover have "outcome bad (\<lambda>st'. (\<exists>b. I b (cobj st')) \<and> (ccs st' = 10 \<longrightarrow> I False (cobj st'))) (config_eof h st')"
        using eof_ok [OF ok] st' t(2) by (auto elim!: outcome_mono)
      ultimately show ?thesis
        using True by auto
    next
      case False
      with less.hyps [of "p + 1" st'] ok st' t(2) less.prems(4) show ?thesis
        by simp
    qed
  qed
qed

lemma reading_ok:
  assumes "I False s"
  shows "outcome bad (\<lambda>(ok, s'). (\<exists>b. I b s') \<and> (ok \<longrightarrow> I False s')) (config_parse h buffer s)"
proof -
  let ?st = "\<lparr> ccs = config_parser_start, cmark = None, cobj = s \<rparr>"
  have ok: "run_ok 0 ?st (config_dist (ccs ?st), config_pending (ccs ?st))"
    using assms by (auto simp: run_ok_def config_dist_def config_pending_def config_parser_start_def)
  have "outcome bad (\<lambda>st'. (\<exists>b. I b (cobj st')) \<and> (ccs st' = 10 \<longrightarrow> I False (cobj st')))
      (if c_str buffer = [] then config_eof h ?st else config_exec h (c_str buffer) 0 ?st)"
    using eof_ok [OF ok] exec_ok [OF ok, of "c_str buffer"] by (auto simp: config_parser_start_def elim!: outcome_mono)
  then show ?thesis
    unfolding config_parse_def Let_def by (rule outcome_bind) (auto simp: config_parser_first_final_def)
qed

end


section \<open>Printing a configuration and reading it back\<close>

text \<open>
  A configuration as a tree, its text in the language of the parser, and the calls that it should
  cause. Symbols of word characters are printed as they are and the others in double quotes, which
  the language has for all texts without a double quote, a backslash or a NUL.
\<close>

datatype config_item = Statement "string list" | Block "string list" "config_item list"

definition word_codes :: "int list" where
  "word_codes = 33 # [36..38] @ [40..58] @ [60..91] @ [93..95] @ [97..122] @ [124, 126]"

definition word_char :: "char \<Rightarrow> bool" where
  "word_char c \<longleftrightarrow> schar c \<in> set word_codes"

definition quotable :: "string \<Rightarrow> bool" where
  "quotable s \<longleftrightarrow> CHR 0x22 \<notin> set s \<and> CHR 0x5C \<notin> set s \<and> NUL \<notin> set s"

definition print_symbol :: "string \<Rightarrow> string" where
  "print_symbol s = (if s \<noteq> [] \<and> list_all word_char s then s else [CHR 0x22] @ s @ [CHR 0x22])"

fun print_line :: "string list \<Rightarrow> string" where
  "print_line [] = []"
| "print_line [s] = print_symbol s"
| "print_line (s # ss) = print_symbol s @ '' '' @ print_line ss"

fun print_item :: "config_item \<Rightarrow> string" where
  "print_item (Statement ss) = print_line ss @ '';'' @ [CHR 0x0A]"
| "print_item (Block ss items) = print_line ss @ '' {'' @ [CHR 0x0A] @ concat (map print_item items) @ ''}'' @ [CHR 0x0A]"

fun item_ok :: "config_item \<Rightarrow> bool" where
  "item_ok (Statement ss) \<longleftrightarrow> ss \<noteq> [] \<and> list_all quotable ss"
| "item_ok (Block ss items) \<longleftrightarrow> ss \<noteq> [] \<and> list_all quotable ss \<and> list_all item_ok items"

fun item_events :: "config_item \<Rightarrow> config_event list" where
  "item_events (Statement ss) = map Symbol ss @ [End_Statement]"
| "item_events (Block ss items) = map Symbol ss @ [Start_Block] @ concat (map item_events items) @ [End_Block]"

fun run_events :: "'s config_handler \<Rightarrow> config_event list \<Rightarrow> 's \<Rightarrow> 's conf" where
  "run_events h [] s = Inr s"
| "run_events h (e # es) s = bind_conf (h e s) (run_events h es)"

lemma run_events_append: "run_events h (as @ bs) s = bind_conf (run_events h as s) (run_events h bs)"
  by (induction as arbitrary: s) (simp_all add: bind_conf_assoc cong: bind_conf_cong)

text \<open>The transitions that printed configurations use.\<close>

definition config_next :: "nat \<Rightarrow> int \<Rightarrow> (nat \<times> nat list) cxx" where
  "config_next s c =
     bind_cxx (config_find_trans s c) (\<lambda>trans.
     bind_cxx (table_at config_parser_trans_targs trans) (\<lambda>targ.
     bind_cxx (config_action_list trans) (\<lambda>acts. Inr (targ, acts))))"

lemma next_word:
  "list_all (\<lambda>c. config_next 10 c = Inr (1, [0]) \<and> config_next 2 c = Inr (1, [0]) \<and> config_next 1 c = Inr (1, [])) word_codes"
  by code_simp

lemma next_quoted:
  assumes "c \<noteq> 34" "c \<noteq> 92"
  shows "config_next 3 c = Inr (3, [])"
proof -
  have keys: "config_parser_trans_keys ! 30 = 34" "config_parser_trans_keys ! 31 = 92" "31 < length config_parser_trans_keys"
    by code_simp+
  have tables: "table_at config_parser_key_offsets 3 = Inr 30" "table_at config_parser_index_offsets 3 = Inr 25"
      "table_at config_parser_single_lengths 3 = Inr 2" "table_at config_parser_range_lengths 3 = Inr 0"
      "table_at config_parser_indicies 27 = Inr 12" "table_at config_parser_trans_targs 12 = Inr 3" "config_action_list 12 = Inr []"
    by code_simp+
  have "config_find_single c 30 0 1 = Inr None"
    using assms keys by (simp add: config_find_single.simps Let_def)
  then show ?thesis
    by (simp add: config_next_def config_find_trans_def tables)
qed

lemma next_special:
  "config_next 10 34 = Inr (3, [0])" "config_next 2 34 = Inr (3, [0])" "config_next 3 34 = Inr (4, [])"
  "config_next 4 32 = Inr (2, [4])" "config_next 4 59 = Inr (11, [4])" "config_next 1 32 = Inr (2, [3])"
  "config_next 1 59 = Inr (11, [3])" "config_next 2 123 = Inr (13, [])" "config_next 11 10 = Inr (10, [5])"
  "config_next 13 10 = Inr (10, [1])" "config_next 10 125 = Inr (12, [])" "config_next 12 10 = Inr (10, [2])"
  by code_simp+

lemma schar_codes: "schar CHR 0x22 = 34" "schar CHR '' '' = 32" "schar CHR '';'' = 59" "schar CHR ''{'' = 123" "schar CHR 0x0A = 10" "schar CHR ''}'' = 125"
  by (simp_all add: schar_def)

text \<open>The run of the machine from a position, with the calls it makes until another position.\<close>

definition config_cont :: "'s config_handler \<Rightarrow> string \<Rightarrow> nat \<Rightarrow> 's config_run \<Rightarrow> 's config_run conf" where
  "config_cont h str p st = (if p = length str then config_eof h st else config_exec h str p st)"

definition reaches :: "'s config_handler \<Rightarrow> string \<Rightarrow> nat \<Rightarrow> nat \<Rightarrow> nat option \<Rightarrow> config_event list \<Rightarrow> nat \<Rightarrow> nat \<Rightarrow> nat option \<Rightarrow> bool" where
  "reaches h str p t m es p' t' m' \<longleftrightarrow>
     (\<forall>s. config_cont h str p \<lparr> ccs = t, cmark = m, cobj = s \<rparr> =
       bind_conf (run_events h es s) (\<lambda>s. config_cont h str p' \<lparr> ccs = t', cmark = m', cobj = s \<rparr>))"

lemma reaches_refl: "reaches h str p t m [] p t m"
  by (simp add: reaches_def)

lemma reaches_trans:
  "reaches h str p t m as p1 t1 m1 \<Longrightarrow> reaches h str p1 t1 m1 bs p2 t2 m2 \<Longrightarrow> reaches h str p t m (as @ bs) p2 t2 m2"
  by (simp add: reaches_def run_events_append bind_conf_assoc)

lemma reaches_silent:
  "reaches h str p t m [] p1 t1 m1 \<Longrightarrow> reaches h str p1 t1 m1 bs p2 t2 m2 \<Longrightarrow> reaches h str p t m bs p2 t2 m2"
  using reaches_trans [of h str p t m "[]"] by simp

lemma config_action_ccs: "config_action h str p act st = Inr st' \<Longrightarrow> ccs st' = ccs st"
  by (auto simp: config_action_def config_call_def bind_conf_Inr_iff split: if_splits)

lemma config_actions_ccs: "config_actions h str p acts st = Inr st' \<Longrightarrow> ccs st' = ccs st"
  by (induction acts arbitrary: st) (auto simp: bind_conf_Inr_iff dest: config_action_ccs)

lemma drop_eq_ConsD:
  assumes "drop p xs = x # rest"
  shows "p < length xs" "xs ! p = x" "drop (p + 1) xs = rest"
proof -
  show "p < length xs"
    using assms by (cases "p < length xs") auto
  show "xs ! p = x"
    using assms by (rule nth_via_drop)
  show "drop (p + 1) xs = rest"
    using arg_cong [OF assms, of tl] by (simp add: drop_Suc tl_drop)
qed

lemma config_cont_step:
  assumes "config_next t (schar c) = Inr (u, acts)" "u \<noteq> 0" "drop p str = c # rest"
  shows "config_cont h str p \<lparr> ccs = t, cmark = m, cobj = s \<rparr> =
    bind_conf (config_actions h str p acts \<lparr> ccs = u, cmark = m, cobj = s \<rparr>) (config_cont h str (p + 1))"
proof -
  note p = drop_eq_ConsD [OF assms(3)]
  let ?st = "\<lparr> ccs = t, cmark = m, cobj = s \<rparr>" and ?acts = "config_actions h str p acts \<lparr> ccs = u, cmark = m, cobj = s \<rparr>"
  have "config_exec h str p ?st = bind_conf ?acts (\<lambda>st.
      if ccs st = 0 then Inr st else if p + 1 \<noteq> length str then config_exec h str (p + 1) st else config_eof h st)"
    using assms(1) p(1,2) by (subst config_exec.simps) (auto simp: config_next_def bind_cxx_Inr_iff)
  also have "\<dots> = bind_conf ?acts (config_cont h str (p + 1))"
    using assms(2) by (intro bind_conf_cong refl) (auto simp: config_cont_def dest!: config_actions_ccs)
  finally show ?thesis
    using p(1) by (simp add: config_cont_def)
qed

lemma reaches_plain:
  assumes "config_next t (schar c) = Inr (u, [])" "u \<noteq> 0" "drop p str = c # rest"
  shows "reaches h str p t m [] (p + 1) u m"
  using config_cont_step [OF assms, where h = h] by (simp add: reaches_def)

lemma reaches_mark:
  assumes "config_next t (schar c) = Inr (u, [0])" "u \<noteq> 0" "drop p str = c # rest"
  shows "reaches h str p t m [] (p + 1) u (Some p)"
  using config_cont_step [OF assms, where h = h] by (simp add: reaches_def config_action_def)

lemma reaches_call:
  assumes "config_next t (schar c) = Inr (u, [act])" "u \<noteq> 0" "drop p str = c # rest"
    "\<And>st. config_action h str p act st = config_call h e st"
  shows "reaches h str p t m [e] (p + 1) u m"
  using config_cont_step [OF assms(1-3), where h = h] by (simp add: reaches_def assms(4) config_call_def bind_conf_assoc)

lemma reaches_symbol:
  assumes "config_next t (schar c) = Inr (u, [3 + q])" "u \<noteq> 0" "drop p str = c # rest" "q \<le> 1" "marked str m p q = Inr x"
  shows "reaches h str p t m [Symbol x] (p + 1) u m"
proof -
  have "config_action h str p (3 + q) st = bind_conf (conf_of (marked str (cmark st) p q)) (\<lambda>s. config_call h (Symbol s) st)" for st
    using assms(4) by (auto simp: config_action_def le_Suc_eq)
  with config_cont_step [OF assms(1-3), where h = h] assms(5) show ?thesis
    by (simp add: reaches_def config_call_def bind_conf_assoc)
qed

text \<open>Symbols, lines and items.\<close>

lemma word_next:
  assumes "word_char c"
  shows "config_next 10 (schar c) = Inr (1, [0])" "config_next 2 (schar c) = Inr (1, [0])" "config_next 1 (schar c) = Inr (1, [])"
  using next_word assms by (simp_all add: word_char_def list_all_iff)

lemma reaches_word:
  assumes "list_all word_char w" "drop p str = w @ rest"
  shows "reaches h str p 1 m [] (p + length w) 1 m"
  using assms
proof (induction w arbitrary: p)
  case (Cons c w)
  have p: "drop (p + 1) str = w @ rest"
    using drop_eq_ConsD(3) [of p str c "w @ rest"] Cons.prems(2) by simp
  have "reaches h str p 1 m [] (p + 1) 1 m"
    using reaches_plain [OF word_next(3), of c p str "w @ rest"] Cons.prems by simp
  from reaches_trans [OF this Cons.IH [OF _ p]] Cons.prems(1) show ?case
    by simp
qed (simp add: reaches_refl)

lemma reaches_quoted:
  assumes "quotable w" "drop p str = w @ rest"
  shows "reaches h str p 3 m [] (p + length w) 3 m"
  using assms
proof (induction w arbitrary: p)
  case (Cons c w)
  have p: "drop (p + 1) str = w @ rest"
    using drop_eq_ConsD(3) [of p str c "w @ rest"] Cons.prems(2) by simp
  have "schar c \<noteq> 34" "schar c \<noteq> 92"
    using Cons.prems(1) schar_inj [of c "CHR 0x22"] schar_inj [of c "CHR 0x5C"] by (auto simp: quotable_def schar_def)
  then have "reaches h str p 3 m [] (p + 1) 3 m"
    using reaches_plain [OF next_quoted, of c p str "w @ rest"] Cons.prems(2) by simp
  from reaches_trans [OF this Cons.IH [OF _ p]] Cons.prems(1) show ?case
    by (simp add: quotable_def)
qed (simp add: reaches_refl)

lemma drop_append_length: "drop p xs = ys @ zs \<Longrightarrow> drop (p + length ys) xs = zs"
  by (metis add.commute append_eq_conv_conj drop_drop)

text \<open>The text from a mark to a position.\<close>

lemma marked_text:
  assumes "drop p str = ys @ zs" "2 * q \<le> length ys" "zs \<noteq> []"
  shows "marked str (Some p) (p + length ys) q = Inr (take (length ys - 2 * q) (drop q ys))"
proof -
  have "p + length ys \<le> length str"
    using arg_cong [OF assms(1), of length] assms(3) by (cases "p \<le> length str") auto
  moreover have "drop (p + q) str = drop q (ys @ zs)"
    by (metis add.commute assms(1) drop_drop)
  ultimately show ?thesis
    using assms(2) by (simp add: marked_def)
qed

lemma reaches_print_symbol:
  assumes "t = 10 \<or> t = 2" "quotable w" "drop p str = print_symbol w @ c # rest" "c = CHR '' '' \<and> u = 2 \<or> c = CHR '';'' \<and> u = 11"
  shows "reaches h str p t m [Symbol w] (p + length (print_symbol w) + 1) u (Some p)"
proof (cases "w \<noteq> [] \<and> list_all word_char w")
  case True
  then obtain d v where w: "w = d # v" "word_char d" "list_all word_char v"
    by (cases w) auto
  have str: "drop p str = d # v @ c # rest"
    using assms(3) True by (simp add: print_symbol_def w)
  note p1 = drop_eq_ConsD(3) [OF str]
  note p2 = drop_append_length [OF p1]
  have first: "reaches h str p t m [] (p + 1) 1 (Some p)"
    using reaches_mark [OF _ _ str, where h = h and m = m] word_next [OF w(2)] assms(1) by auto
  have word: "reaches h str (p + 1) 1 (Some p) [] (p + 1 + length v) 1 (Some p)"
    by (rule reaches_word [OF w(3) p1])
  have "reaches h str (p + 1 + length v) 1 (Some p) [Symbol w] (p + 1 + length v + 1) u (Some p)"
    using marked_text [of p str w "c # rest" 0] str assms(4) next_special schar_codes
    by (intro reaches_symbol [OF _ _ p2, of _ _ 0]) (auto simp: w)
  from reaches_silent [OF first reaches_silent [OF word this]] show ?thesis
    using True by (simp add: print_symbol_def w)
next
  case False
  then have print: "print_symbol w = [CHR 0x22] @ w @ [CHR 0x22]"
    by (simp add: print_symbol_def)
  then have str: "drop p str = CHR 0x22 # w @ CHR 0x22 # c # rest"
    using assms(3) by simp
  note p1 = drop_eq_ConsD(3) [OF str]
  note p2 = drop_append_length [OF p1]
  note p3 = drop_eq_ConsD(3) [OF p2]
  have first: "reaches h str p t m [] (p + 1) 3 (Some p)"
    using reaches_mark [OF _ _ str, where h = h and m = m] next_special(1,2) assms(1) by (auto simp: schar_codes)
  have word: "reaches h str (p + 1) 3 (Some p) [] (p + 1 + length w) 3 (Some p)"
    by (rule reaches_quoted [OF assms(2) p1])
  have quote: "reaches h str (p + 1 + length w) 3 (Some p) [] (p + 1 + length w + 1) 4 (Some p)"
    using reaches_plain [OF _ _ p2, where h = h] next_special(3) by (simp add: schar_codes)
  have "reaches h str (p + 1 + length w + 1) 4 (Some p) [Symbol w] (p + 1 + length w + 1 + 1) u (Some p)"
    using marked_text [of p str "print_symbol w" "c # rest" 1] str assms(4) next_special schar_codes
    by (intro reaches_symbol [OF _ _ p3, of _ _ 1]) (auto simp: print)
  from reaches_silent [OF first reaches_silent [OF word reaches_silent [OF quote this]]] show ?thesis
    by (simp add: print)
qed

lemma reaches_line:
  assumes "ss \<noteq> []" "list_all quotable ss" "t = 10 \<or> t = 2" "drop p str = print_line ss @ c # rest"
    "c = CHR '' '' \<and> u = 2 \<or> c = CHR '';'' \<and> u = 11"
  shows "\<exists>m'. reaches h str p t m (map Symbol ss) (p + length (print_line ss) + 1) u m'"
  using assms(1-4)
proof (induction ss arbitrary: p t m rule: print_line.induct)
  case (2 s)
  then show ?case
    using reaches_print_symbol [of t s p str c rest u h m] assms(5) by auto
next
  case (3 s s' ss)
  let ?rest = "print_line (s' # ss) @ c # rest"
  have str: "drop p str = print_symbol s @ CHR '' '' # ?rest"
    using 3(5) by simp
  have p: "drop (p + length (print_symbol s) + 1) str = ?rest"
    using drop_eq_ConsD(3) [OF drop_append_length [OF str]] .
  have "reaches h str p t m [Symbol s] (p + length (print_symbol s) + 1) 2 (Some p)"
    using reaches_print_symbol [OF 3(4) _ str, of 2 h m] 3(3) by simp
  moreover obtain m' where "reaches h str (p + length (print_symbol s) + 1) 2 (Some p) (map Symbol (s' # ss))
      (p + length (print_symbol s) + 1 + length (print_line (s' # ss)) + 1) u m'"
    using 3(1) [OF _ _ _ p, of 2 "Some p"] 3(3) by auto
  ultimately have "reaches h str p t m ([Symbol s] @ map Symbol (s' # ss)) (p + length (print_symbol s) + 1 + length (print_line (s' # ss)) + 1) u m'"
    by (rule reaches_trans)
  then show ?case
    by (auto simp: algebra_simps)
qed simp

lemma reaches_items:
  assumes "\<forall>item\<in>set items. \<forall>p m rest. drop p str = print_item item @ rest \<longrightarrow>
      (\<exists>m'. reaches h str p 10 m (item_events item) (p + length (print_item item)) 10 m')"
    "drop p str = concat (map print_item items) @ rest"
  shows "\<exists>m'. reaches h str p 10 m (concat (map item_events items)) (p + length (concat (map print_item items))) 10 m'"
  using assms
proof (induction items arbitrary: p m)
  case (Cons item items)
  have str: "drop p str = print_item item @ concat (map print_item items) @ rest"
    using Cons.prems(2) by simp
  obtain m1 where "reaches h str p 10 m (item_events item) (p + length (print_item item)) 10 m1"
    using Cons.prems(1) str by (meson list.set_intros(1))
  moreover obtain m2 where "reaches h str (p + length (print_item item)) 10 m1 (concat (map item_events items))
      (p + length (print_item item) + length (concat (map print_item items))) 10 m2"
    using Cons.IH [OF _ drop_append_length [OF str], of m1] Cons.prems(1) by auto
  ultimately show ?case
    using reaches_trans by (fastforce simp: add.assoc)
qed (auto intro: reaches_refl)

lemma reaches_item:
  assumes "item_ok item" "drop p str = print_item item @ rest"
  shows "\<exists>m'. reaches h str p 10 m (item_events item) (p + length (print_item item)) 10 m'"
  using assms
proof (induction item arbitrary: p m rest)
  case (Statement ss)
  have str: "drop p str = print_line ss @ CHR '';'' # CHR 0x0A # rest"
    using Statement.prems(2) by simp
  note p1 = drop_eq_ConsD(3) [OF drop_append_length [OF str]]
  obtain m' where line: "reaches h str p 10 m (map Symbol ss) (p + length (print_line ss) + 1) 11 m'"
    using reaches_line [OF _ _ _ str, of 10 11 h m] Statement.prems(1) by auto
  have "reaches h str (p + length (print_line ss) + 1) 11 m' [End_Statement] (p + length (print_line ss) + 1 + 1) 10 m'"
    by (rule reaches_call [OF _ _ p1, where act = 5]) (simp_all add: schar_codes next_special config_action_def)
  from reaches_trans [OF line this] show ?case
    by auto
next
  case (Block ss items)
  let ?body = "concat (map print_item items)" and ?p = "p + length (print_line ss) + 1 + 1"
  have str: "drop p str = print_line ss @ CHR '' '' # CHR ''{'' # CHR 0x0A # ?body @ CHR ''}'' # CHR 0x0A # rest"
    using Block.prems(2) by simp
  note p1 = drop_eq_ConsD(3) [OF drop_append_length [OF str]]
  note p2 = drop_eq_ConsD(3) [OF p1]
  note p3 = drop_eq_ConsD(3) [OF p2]
  note p4 = drop_append_length [OF p3]
  note p5 = drop_eq_ConsD(3) [OF p4]
  obtain m1 where line: "reaches h str p 10 m (map Symbol ss) (p + length (print_line ss) + 1) 2 m1"
    using reaches_line [OF _ _ _ str, of 10 2 h m] Block.prems(1) by auto
  have brace: "reaches h str (p + length (print_line ss) + 1) 2 m1 [] ?p 13 m1"
    by (rule reaches_plain [OF _ _ p1]) (simp_all add: schar_codes next_special)
  have start: "reaches h str ?p 13 m1 [Start_Block] (?p + 1) 10 m1"
    by (rule reaches_call [OF _ _ p2, where act = 1]) (simp_all add: schar_codes next_special config_action_def)
  have "\<forall>item\<in>set items. \<forall>p m rest. drop p str = print_item item @ rest \<longrightarrow>
      (\<exists>m'. reaches h str p 10 m (item_events item) (p + length (print_item item)) 10 m')"
    using Block.IH Block.prems(1) by (auto simp: list_all_iff)
  then obtain m2 where body: "reaches h str (?p + 1) 10 m1 (concat (map item_events items)) (?p + 1 + length ?body) 10 m2"
    using reaches_items [OF _ p3, of h m1] by blast
  have close: "reaches h str (?p + 1 + length ?body) 10 m2 [] (?p + 1 + length ?body + 1) 12 m2"
    by (rule reaches_plain [OF _ _ p4]) (simp_all add: schar_codes next_special)
  have "reaches h str (?p + 1 + length ?body + 1) 12 m2 [End_Block] (?p + 1 + length ?body + 1 + 1) 10 m2"
    by (rule reaches_call [OF _ _ p5, where act = 2]) (simp_all add: schar_codes next_special config_action_def)
  from reaches_trans [OF line reaches_silent [OF brace reaches_trans [OF start reaches_trans [OF body reaches_silent [OF close this]]]]]
  show ?case
    by (auto simp: add.assoc)
qed

lemma print_line_no_NUL: "list_all quotable ss \<Longrightarrow> NUL \<notin> set (print_line ss)"
  by (induction ss rule: print_line.induct) (auto simp: print_symbol_def quotable_def)

lemma print_item_no_NUL: "item_ok item \<Longrightarrow> NUL \<notin> set (print_item item)"
  by (induction item) (auto simp: print_line_no_NUL list_all_iff)

lemma config_read_back:
  assumes "list_all item_ok items"
  shows "config_parse h (concat (map print_item items)) s =
    bind_conf (run_events h (concat (map item_events items) @ [Config_Done]) s) (\<lambda>s. Inr (True, s))"
proof -
  let ?str = "concat (map print_item items)"
  have "NUL \<notin> set ?str"
    using assms print_item_no_NUL by (auto simp: list_all_iff)
  then have c: "c_str ?str = ?str"
    by simp
  obtain m' where "reaches h ?str 0 10 None (concat (map item_events items)) (length ?str) 10 m'"
    using reaches_items [of items ?str h 0 "[]" None] reaches_item assms by (fastforce simp: list_all_iff)
  then have cont: "config_cont h ?str 0 \<lparr> ccs = 10, cmark = None, cobj = s \<rparr> =
      bind_conf (run_events h (concat (map item_events items)) s) (\<lambda>s. config_eof h \<lparr> ccs = 10, cmark = m', cobj = s \<rparr>)"
    by (simp add: reaches_def config_cont_def)
  have eof: "config_eof h \<lparr> ccs = 10, cmark = m', cobj = s \<rparr> = bind_conf (h Config_Done s) (\<lambda>s. Inr \<lparr> ccs = 10, cmark = m', cobj = s \<rparr>)" for s
    by (simp add: config_eof_def config_eof_list_eq config_call_def)
  have "config_parse h ?str s = bind_conf (config_cont h ?str 0 \<lparr> ccs = 10, cmark = None, cobj = s \<rparr>)
      (\<lambda>st. Inr (ccs st \<noteq> config_parser_error \<and> ccs st = config_parser_first_final, cobj st))"
    unfolding config_parse_def c Let_def config_parser_start_def config_cont_def by (rule arg_cong2 [of _ _ _ _ bind_conf]) auto
  then show ?thesis
    unfolding cont by (simp add: eof bind_conf_assoc run_events_append config_parser_first_final_def config_parser_error_def)
qed

text \<open>C19. A configuration printed in the configuration language is read back: the parser makes the calls that belong
  to its statements and blocks, in their order and with their symbols, then the final call, and
  reports success. A callback that ends the process stops it there.\<close>

theorem config_roundtrip:
  assumes "list_all item_ok items"
  shows "config_parse h (concat (map print_item items)) s =
    bind_conf (run_events h (concat (map item_events items) @ [Config_Done]) s) (\<lambda>s. Inr (True, s))"
  using assms by (rule config_read_back)

theorem config_roundtrip_witness:
  "config_parse (\<lambda>e s. Inr (s @ [e])) (concat (map print_item [Block [''http_server''] [Statement [''listen'', ''*:80''], Statement [''root'', ''a b'']]])) [] =
     Inr (True, [Symbol ''http_server'', Start_Block, Symbol ''listen'', Symbol ''*:80'', End_Statement,
       Symbol ''root'', Symbol ''a b'', End_Statement, End_Block, Config_Done])"
  by (subst config_roundtrip) (simp_all add: quotable_def)

text \<open>Without the last line end the calls are the same and the result is failure.\<close>

lemma missing_newline:
  "config_parse (\<lambda>e s. Inr (s @ [e])) ''a b;'' [] = Inr (False, [Symbol ''a'', Symbol ''b'', End_Statement, Config_Done])"
  by code_simp


end
