(* ===== verification/Socket_Addr.thy ===== *)
theory Socket_Addr
  imports Cxx_Text
begin

text \<open>
  \<^verbatim>\<open>src/socket.h\<close> and \<^verbatim>\<open>src/socket.cc\<close>: socket addresses and their text form, which the configuration has for
  the addresses to listen on. The conversion of the address part is done by \<^verbatim>\<open>inet_pton\<close> and \<^verbatim>\<open>inet_ntop\<close>
  of the system, which are parameters; an address part is the list of its bytes. Also here are the
  operations of the base class of sockets on their descriptor.
\<close>

section \<open>Addresses\<close>

datatype sa_family = AF_UNSPEC | AF_INET | AF_INET6 | AF_LOCAL

text \<open>
  The union of the structures for IPv4 and IPv6, as the members that the system looks at; the flow
  information and the scope are members of the structure for IPv6 only, and 0 in an IPv4 address.
\<close>

record socket_addr =
  family :: sa_family
  sin_port :: u16
  sin_addr :: "byte list"
  sin6_flowinfo :: u32
  sin6_scope_id :: u32

datatype socket_mode = socket_mode_plain | socket_mode_tls

type_synonym pton = "sa_family \<Rightarrow> string \<Rightarrow> byte list option"
type_synonym ntop = "sa_family \<Rightarrow> byte list \<Rightarrow> string"

text \<open>The lengths of the address structures of Linux.\<close>

definition socket_addr_len :: "socket_addr \<Rightarrow> nat" where
  "socket_addr_len addr = (case family addr of AF_INET \<Rightarrow> 16 | AF_INET6 \<Rightarrow> 28 | AF_LOCAL \<Rightarrow> 110 | _ \<Rightarrow> 128)"

definition socket_addr_port :: "socket_addr \<Rightarrow> int" where
  "socket_addr_port addr = (case family addr of AF_INET \<Rightarrow> uint (sin_port addr) | AF_INET6 \<Rightarrow> uint (sin_port addr) | _ \<Rightarrow> 0)"

definition addr_to_string :: "ntop \<Rightarrow> socket_addr \<Rightarrow> string" where
  "addr_to_string inet_ntop addr =
     (case family addr of
        AF_INET \<Rightarrow> inet_ntop AF_INET (sin_addr addr) @ '':'' @ show_nat (unat (sin_port addr))
      | AF_INET6 \<Rightarrow> ''['' @ inet_ntop AF_INET6 (sin_addr addr) @ '']'' @ '':'' @ show_nat (unat (sin_port addr))
      | _ \<Rightarrow> '''')"

text \<open>The family from the brackets; a specification with unbalanced or misplaced brackets has none.\<close>

definition spec_family :: "string \<Rightarrow> sa_family option" where
  "spec_family addr_spec =
     (let last_colon = find_last_of CHR '':'' addr_spec in
      case (find_last_of CHR ''['' addr_spec, find_last_of CHR '']'' addr_spec) of
        (Some open_bracket, None) \<Rightarrow> None
      | (None, Some close_bracket) \<Rightarrow> None
      | (Some open_bracket, Some close_bracket) \<Rightarrow>
          if open_bracket \<noteq> 0 \<or> close_bracket < 1 \<or> last_colon = None \<or> last_colon \<noteq> Some (close_bracket + 1) then None
          else Some AF_INET6
      | (None, None) \<Rightarrow> Some AF_INET)"

definition spec_address :: "sa_family \<Rightarrow> string \<Rightarrow> string" where
  "spec_address fam addr_spec =
     (case find_last_of CHR '':'' addr_spec of
        None \<Rightarrow> ''''
      | Some last_colon \<Rightarrow>
          c_str (if fam = AF_INET6
                 then (case (find_last_of CHR ''['' addr_spec, find_last_of CHR '']'' addr_spec) of
                         (Some open_bracket, Some close_bracket) \<Rightarrow> take (close_bracket - open_bracket - 1) (drop (open_bracket + 1) addr_spec)
                       | _ \<Rightarrow> '''')
                 else take last_colon addr_spec))"

definition spec_port :: "string \<Rightarrow> int cxx" where
  "spec_port addr_spec =
     (case find_last_of CHR '':'' addr_spec of
        None \<Rightarrow> atoi addr_spec
      | Some last_colon \<Rightarrow> atoi (drop (last_colon + 1) addr_spec))"

text \<open>A result of \<^verbatim>\<open>-1\<close> is \<open>None\<close>. The port is cut to its sixteen bits when it is stored.\<close>

definition string_to_addr :: "pton \<Rightarrow> string \<Rightarrow> socket_addr option cxx" where
  "string_to_addr inet_pton addr_spec =
     (case spec_family addr_spec of
        None \<Rightarrow> Inr None
      | Some fam \<Rightarrow>
          let address_part = spec_address fam addr_spec in
          bind_cxx (spec_port addr_spec) (\<lambda>port.
            if port \<le> 0 then Inr None
            else
              let addr = \<lparr> family = fam, sin_port = word_of_int port, sin_addr = replicate (if fam = AF_INET6 then 16 else 4) 0, sin6_flowinfo = 0, sin6_scope_id = 0 \<rparr> in
              if address_part = '''' then Inr (Some addr)
              else (case inet_pton fam address_part of None \<Rightarrow> Inr None | Some a \<Rightarrow> Inr (Some (addr\<lparr> sin_addr := a \<rparr>)))))"

section \<open>The descriptor of a socket\<close>

text \<open>The descriptor and the calls of \<^verbatim>\<open>close\<close> so far.\<close>

record generic_socket =
  sock_fd :: int
  closed_fds :: "int list"

definition generic_socket_close :: "generic_socket \<Rightarrow> generic_socket" where
  "generic_socket_close s =
     (if sock_fd s \<ge> 0 then s\<lparr> closed_fds := closed_fds s @ [sock_fd s], sock_fd := - 1 \<rparr> else s)"

definition generic_socket_set_fd :: "int \<Rightarrow> generic_socket \<Rightarrow> generic_socket" where
  "generic_socket_set_fd f s =
     (if f \<noteq> sock_fd s
      then (if sock_fd s \<ge> 0 then s\<lparr> closed_fds := closed_fds s @ [sock_fd s] \<rparr> else s)\<lparr> sock_fd := f \<rparr>
      else s)"

section \<open>Properties\<close>

lemma show_nat_no_bracket: "CHR ''['' \<notin> set (show_nat n)" "CHR '']'' \<notin> set (show_nat n)"
  using show_nat_digits [of n] by (auto simp: c_isdigit_def)

lemma atoi_show_port: "atoi (show_nat (unat (p :: u16))) = Inr (uint p)"
proof -
  have "uint p < 2 ^ LENGTH(16)"
    by (rule unsigned_less)
  then have "int_range (int (unat p))"
    by (simp add: int_range_def) (use uint_nonnegative [of p] in linarith)
  from atoi_show_int [OF this] show ?thesis
    by (simp add: show_int_def)
qed

lemma find_last_bracket:
  "c \<notin> set b \<Longrightarrow> find_last_of c (c # b) = Some 0"
  using find_last_of_append [of c b "[]"] by simp

text \<open>C40. The text of an address is read back as that address without its flow information and scope, which the text
  does not have. Nothing is read back from the text of an address with port 0, which the code refuses, or of
  another family, which has no text. The system is to read back the address parts that it prints, and to
  print none with brackets, and no IPv4 address with a colon.\<close>

theorem addr_roundtrip:
  assumes "family addr = AF_INET \<or> family addr = AF_INET6 \<longrightarrow>
      inet_pton (family addr) (inet_ntop (family addr) (sin_addr addr)) = Some (sin_addr addr) \<and>
      inet_ntop (family addr) (sin_addr addr) \<noteq> [] \<and>
      set (inet_ntop (family addr) (sin_addr addr)) \<inter> {NUL, CHR ''['', CHR '']''} = {}"
    "family addr = AF_INET \<longrightarrow> CHR '':'' \<notin> set (inet_ntop (family addr) (sin_addr addr))"
  shows "string_to_addr inet_pton (addr_to_string inet_ntop addr) =
    Inr (if (family addr = AF_INET \<or> family addr = AF_INET6) \<and> sin_port addr \<noteq> 0
         then Some (addr\<lparr> sin6_flowinfo := 0, sin6_scope_id := 0 \<rparr>) else None)"
proof (cases "family addr = AF_INET \<or> family addr = AF_INET6")
  case other: False
  then have "addr_to_string inet_ntop addr = []"
    by (auto simp: addr_to_string_def split: sa_family.splits)
  moreover have "string_to_addr inet_pton [] = Inr None"
    by (simp add: string_to_addr_def spec_family_def spec_address_def spec_port_def atoi_def c_str_def digits_value_def int_range_def Let_def)
  ultimately show ?thesis
    using other by simp
next
  case known: True
  define t where "t = inet_ntop (family addr) (sin_addr addr)"
  define n where "n = show_nat (unat (sin_port addr))"
  have t: "t \<noteq> []" "NUL \<notin> set t" "CHR ''['' \<notin> set t" "CHR '']'' \<notin> set t" "inet_pton (family addr) t = Some (sin_addr addr)"
    using assms(1) known by (auto simp: t_def)
  have n: "CHR ''['' \<notin> set n" "CHR '']'' \<notin> set n" "CHR '':'' \<notin> set n" "atoi n = Inr (uint (sin_port addr))"
    by (simp_all add: n_def show_nat_no_bracket show_nat_plain atoi_show_port)
  have port: "uint (sin_port addr) \<le> 0 \<longleftrightarrow> sin_port addr = 0" "word_of_int (uint (sin_port addr)) = sin_port addr"
    by (auto simp: uint_0_iff le_less not_less)
  show ?thesis
  proof (cases "family addr")
    case AF_INET
    then have shown: "addr_to_string inet_ntop addr = t @ CHR '':'' # n"
      by (simp add: addr_to_string_def t_def n_def)
    have colon: "find_last_of CHR '':'' (t @ CHR '':'' # n) = Some (length t)"
      using n by simp
    have "spec_family (t @ CHR '':'' # n) = Some AF_INET"
      using t n find_last_of_None [of "CHR ''[''" "t @ CHR '':'' # n"] find_last_of_None [of "CHR '']''" "t @ CHR '':'' # n"]
      by (simp add: spec_family_def)
    then show ?thesis
      using t n port AF_INET by (simp add: shown string_to_addr_def spec_address_def spec_port_def colon)
  next
    case AF_INET6
    let ?text = "CHR ''['' # t @ CHR '']'' # CHR '':'' # n"
    have shown: "addr_to_string inet_ntop addr = ?text"
      using AF_INET6 by (simp add: addr_to_string_def t_def n_def)
    have pos: "find_last_of CHR ''['' ?text = Some 0" "find_last_of CHR '']'' ?text = Some (length t + 1)"
        "find_last_of CHR '':'' ?text = Some (length t + 2)"
      using t n find_last_bracket [of "CHR ''[''" "t @ CHR '']'' # CHR '':'' # n"]
        find_last_of_append [of "CHR '']''" "CHR '':'' # n" "CHR ''['' # t"] find_last_of_append [of "CHR '':''" n "CHR ''['' # t @ [CHR '']'']"]
      by simp_all
    have "spec_family ?text = Some AF_INET6" "spec_address AF_INET6 ?text = t" "spec_port ?text = Inr (uint (sin_port addr))"
      unfolding spec_family_def spec_address_def spec_port_def pos using t n by simp_all
    then show ?thesis
      using t port AF_INET6 by (simp add: shown string_to_addr_def)
  qed (use known in auto)
qed

theorem addr_roundtrip_witness:
  "string_to_addr (\<lambda>f s. if s = ''fe80::'' then Some (254 # 128 # replicate 14 0) else None) (addr_to_string (\<lambda>f a. ''fe80::'')
     \<lparr> family = AF_INET6, sin_port = 8080, sin_addr = 254 # 128 # replicate 14 0, sin6_flowinfo = 0, sin6_scope_id = 2 \<rparr>) =
   Inr (Some \<lparr> family = AF_INET6, sin_port = 8080, sin_addr = 254 # 128 # replicate 14 0, sin6_flowinfo = 0, sin6_scope_id = 0 \<rparr>)"
  using addr_roundtrip [of "\<lparr> family = AF_INET6, sin_port = 8080, sin_addr = 254 # 128 # replicate 14 0, sin6_flowinfo = 0, sin6_scope_id = 2 \<rparr>"
      "\<lambda>f s. if s = ''fe80::'' then Some (254 # 128 # replicate 14 0) else None" "\<lambda>f a. ''fe80::''"]
  by simp

text \<open>A port that does not fit is accepted, and may become the port zero that the check should refuse.\<close>

lemma port_truncated:
  "string_to_addr inet_pton ''65536'' = Inr (Some \<lparr> family = AF_INET, sin_port = 0, sin_addr = [0, 0, 0, 0], sin6_flowinfo = 0, sin6_scope_id = 0 \<rparr>)"
proof -
  have "digit_char 6 = CHR ''6''" "digit_char 5 = CHR ''5''" "digit_char 3 = CHR ''3''"
    by code_simp+
  then have "show_int 65536 = ''65536''"
    by (simp add: show_int_def show_nat.simps)
  then have "atoi ''65536'' = Inr 65536"
    using atoi_show_int [of 65536] by (simp add: int_range_def)
  moreover have "(word_of_int 65536 :: u16) = 0"
    by (simp add: word_eq_iff_unsigned)
  ultimately show ?thesis
    by (simp add: string_to_addr_def spec_family_def spec_address_def spec_port_def numeral_eq_Suc)
qed

text \<open>A descriptor is closed once: closing again does nothing, and setting another one closes the old.\<close>

lemma generic_socket_close_twice: "generic_socket_close (generic_socket_close s) = generic_socket_close s"
  by (simp add: generic_socket_close_def)

end
