(* ===== verification/Config.thy ===== *)
theory Config
  imports Config_Parser Socket_Addr "HOL-Library.List_Lexorder" "HOL-Library.Char_ord"
begin

text \<open>
  \<^verbatim>\<open>src/config.h\<close>, \<^verbatim>\<open>src/config.cc\<close> and the configuration of the server in \<^verbatim>\<open>src/http_server.cc\<close>: the class
  that derives from the parser, with its directives and blocks. The lambdas in the maps of directives
  are functions on the whole configuration. The pointers \<^verbatim>\<open>current_vhost\<close> and \<^verbatim>\<open>current_location\<close> share
  their objects with the lists of virtual hosts and locations; they are positions in these lists, and
  following a null pointer is an error. Of the classes that hold the configuration of a protocol only
  that of the server has directives, so its map is the only one that is searched before the general one.
\<close>

section \<open>Data\<close>

record http_server_location =
  location_uri :: string
  location_root :: string
  location_handler :: string
  location_index_files :: "string list"

record http_server_vhost =
  vhost_listens :: "(socket_addr \<times> socket_mode) list"
  server_names :: "string list"
  vhost_access_log :: string
  vhost_error_log :: string
  vhost_tls_key_file :: string
  vhost_tls_cert_file :: string
  vhost_tls_cipher_list :: string
  location_list :: "http_server_location list"

record config =
  client_connections :: int
  server_connections :: int
  listen_backlog :: int
  max_headers :: int
  header_buffer_size :: int
  io_buffer_size :: int
  ipc_buffer_size :: int
  log_buffers :: int
  keepalive_timeout :: int
  connection_timeout :: int
  tls_ca_file :: string
  tls_key_file :: string
  tls_cert_file :: string
  tls_cipher_list :: string
  tls_session_timeout :: int
  tls_session_count :: int
  os_user :: string
  os_group :: string
  error_log :: string
  access_log :: string
  pid_file :: string
  config_root :: string
  client_threads :: "(string \<times> nat) list"
  server_threads :: "(string \<times> nat) list"
  proto_threads :: "(string \<times> nat) list"
  proto_listeners :: "(string \<times> socket_addr \<times> socket_mode) list"
  mime_types :: "(string \<times> string) list"
  index_files :: "string list"
  config_block :: "string list list"
  config_line :: "string list"
  current_vhost :: "nat option"
  current_location :: "(nat \<times> nat) option"
  vhost_list :: "http_server_vhost list"

definition new_config :: config where
  "new_config = \<lparr> client_connections = 128, server_connections = 1024, listen_backlog = 128, max_headers = 128,
     header_buffer_size = 8192, io_buffer_size = 8192, ipc_buffer_size = 1048576, log_buffers = 1024,
     keepalive_timeout = 5, connection_timeout = 60, tls_ca_file = '''', tls_key_file = '''', tls_cert_file = '''',
     tls_cipher_list = '''', tls_session_timeout = 7200, tls_session_count = 32768, os_user = '''', os_group = '''',
     error_log = '''', access_log = '''', pid_file = '''', config_root = '''', client_threads = [], server_threads = [],
     proto_threads = [], proto_listeners = [], mime_types = [], index_files = [], config_block = [], config_line = [],
     current_vhost = None, current_location = None, vhost_list = [] \<rparr>"

definition new_vhost :: http_server_vhost where
  "new_vhost = \<lparr> vhost_listens = [], server_names = [], vhost_access_log = '''', vhost_error_log = '''',
     vhost_tls_key_file = '''', vhost_tls_cert_file = '''', vhost_tls_cipher_list = '''', location_list = [] \<rparr>"

definition new_location :: "string \<Rightarrow> http_server_location" where
  "new_location u = \<lparr> location_uri = u, location_root = '''', location_handler = '''', location_index_files = [] \<rparr>"

type_synonym config_function = "config \<Rightarrow> string list \<Rightarrow> config conf"

text \<open>The least and the greatest number of words of a directive with its name; a negative one is no limit.\<close>

type_synonym config_record = "int \<times> int \<times> config_function"
type_synonym block_record = "int \<times> int \<times> string option \<times> config_function"

section \<open>General directives\<close>

definition word_at :: "string list \<Rightarrow> nat \<Rightarrow> string conf" where
  "word_at ws i = conf_of (index_cxx ws i)"

definition str_fn :: "((string \<Rightarrow> string) \<Rightarrow> config \<Rightarrow> config) \<Rightarrow> config_function" where
  "str_fn upd c ws = bind_conf (word_at ws 1) (\<lambda>s. Inr (upd (\<lambda>_. s) c))"

definition int_fn :: "((int \<Rightarrow> int) \<Rightarrow> config \<Rightarrow> config) \<Rightarrow> config_function" where
  "int_fn upd c ws = bind_conf (word_at ws 1) (\<lambda>s. bind_conf (conf_of (atoi s)) (\<lambda>i. Inr (upd (\<lambda>_. i) c)))"

text \<open>The number of threads is an \<^verbatim>\<open>int\<close> that becomes a \<^verbatim>\<open>size_t\<close>.\<close>

definition threads_fn :: "(((string \<times> nat) list \<Rightarrow> (string \<times> nat) list) \<Rightarrow> config \<Rightarrow> config) \<Rightarrow> config_function" where
  "threads_fn upd c ws =
     bind_conf (word_at ws 1) (\<lambda>s.
     bind_conf (word_at ws 2) (\<lambda>n.
     bind_conf (conf_of (atoi n)) (\<lambda>i. Inr (upd (\<lambda>ts. ts @ [(s, nat (i mod 2 ^ 64))]) c))))"

definition protocol_names :: "string list" where
  "protocol_names = [''none'', ''http_client'', ''http_server'']"

definition parse_addr :: "pton \<Rightarrow> string \<Rightarrow> socket_addr conf" where
  "parse_addr inet_pton spec =
     bind_conf (conf_of (string_to_addr inet_pton spec)) (\<lambda>r. case r of None \<Rightarrow> Inl Fatal_Exit | Some addr \<Rightarrow> Inr addr)"

definition proto_listener_fn :: "pton \<Rightarrow> config_function" where
  "proto_listener_fn inet_pton c ws =
     bind_conf (word_at ws 1) (\<lambda>proto.
       if proto \<notin> set protocol_names then Inl Fatal_Exit
       else
         bind_conf (word_at ws 2) (\<lambda>spec.
         bind_conf (parse_addr inet_pton spec) (\<lambda>addr.
           if length ws = 4
           then bind_conf (word_at ws 3) (\<lambda>opt.
                  if opt \<noteq> ''tls'' then Inl Fatal_Exit
                  else Inr (c\<lparr> proto_listeners := proto_listeners c @ [(proto, addr, socket_mode_tls)] \<rparr>))
           else Inr (c\<lparr> proto_listeners := proto_listeners c @ [(proto, addr, socket_mode_plain)] \<rparr>))))"

fun map_assign :: "'k \<Rightarrow> 'v \<Rightarrow> ('k \<times> 'v) list \<Rightarrow> ('k \<times> 'v) list" where
  "map_assign k v [] = [(k, v)]"
| "map_assign k v ((k', v') # kvs) = (if k' = k then (k, v) # kvs else (k', v') # map_assign k v kvs)"

definition mime_type_fn :: config_function where
  "mime_type_fn c ws =
     bind_conf (if 2 < length ws then word_at ws 1 else Inr '''') (\<lambda>mime.
       Inr (c\<lparr> mime_types := fold (\<lambda>ext. map_assign ext mime) (drop 2 ws) (mime_types c) \<rparr>))"

definition config_fn_map :: "pton \<Rightarrow> (string \<times> config_record) list" where
  "config_fn_map inet_pton =
     [(''os_user'', 2, 2, str_fn os_user_update),
      (''os_group'', 2, 2, str_fn os_group_update),
      (''pid_file'', 2, 2, str_fn pid_file_update),
      (''tls_ca_file'', 2, 2, str_fn tls_ca_file_update),
      (''tls_key_file'', 2, 2, str_fn tls_key_file_update),
      (''tls_cert_file'', 2, 2, str_fn tls_cert_file_update),
      (''tls_cipher_list'', 2, 2, str_fn tls_cipher_list_update),
      (''tls_session_timeout'', 2, 2, int_fn tls_session_timeout_update),
      (''tls_session_count'', 2, 2, int_fn tls_session_count_update),
      (''client_connections'', 2, 2, int_fn client_connections_update),
      (''server_connections'', 2, 2, int_fn server_connections_update),
      (''listen_backlog'', 2, 2, int_fn listen_backlog_update),
      (''max_headers'', 2, 2, int_fn max_headers_update),
      (''header_buffer_size'', 2, 2, int_fn header_buffer_size_update),
      (''io_buffer_size'', 2, 2, int_fn io_buffer_size_update),
      (''ipc_buffer_size'', 2, 2, int_fn ipc_buffer_size_update),
      (''log_buffers'', 2, 2, int_fn log_buffers_update),
      (''keepalive_timeout'', 2, 2, int_fn keepalive_timeout_update),
      (''connection_timeout'', 2, 2, int_fn connection_timeout_update),
      (''client_threads'', 3, 3, threads_fn client_threads_update),
      (''server_threads'', 3, 3, threads_fn server_threads_update),
      (''proto_threads'', 3, 3, threads_fn proto_threads_update),
      (''proto_listener'', 3, 4, proto_listener_fn inet_pton),
      (''mime_type'', 3, - 1, mime_type_fn)]"

section \<open>Directives and blocks of the server\<close>

definition with_vhost :: "config \<Rightarrow> (http_server_vhost \<Rightarrow> http_server_vhost) \<Rightarrow> config conf" where
  "with_vhost c f =
     (case current_vhost c of
        None \<Rightarrow> Inl (Broken NullPointer)
      | Some i \<Rightarrow> bind_conf (conf_of (index_cxx (vhost_list c) i)) (\<lambda>v. Inr (c\<lparr> vhost_list := (vhost_list c)[i := f v] \<rparr>)))"

definition with_location :: "config \<Rightarrow> (http_server_location \<Rightarrow> http_server_location) \<Rightarrow> config conf" where
  "with_location c f =
     (case current_location c of
        None \<Rightarrow> Inl (Broken NullPointer)
      | Some (i, j) \<Rightarrow>
          bind_conf (conf_of (index_cxx (vhost_list c) i)) (\<lambda>v.
          bind_conf (conf_of (index_cxx (location_list v) j)) (\<lambda>l.
            Inr (c\<lparr> vhost_list := (vhost_list c)[i := v\<lparr> location_list := (location_list v)[j := f l] \<rparr>] \<rparr>))))"

text \<open>Whether the innermost block is of this kind.\<close>

definition in_block :: "config \<Rightarrow> string \<Rightarrow> bool conf" where
  "in_block c name =
     (if config_block c = [] then Inr False
      else bind_conf (word_at (last (config_block c)) 0) (\<lambda>s. Inr (s = name)))"

definition vhost_str_fn :: "((string \<Rightarrow> string) \<Rightarrow> config \<Rightarrow> config) \<Rightarrow> ((string \<Rightarrow> string) \<Rightarrow> http_server_vhost \<Rightarrow> http_server_vhost) \<Rightarrow> config_function" where
  "vhost_str_fn upd vupd c ws =
     (if config_block c = [] then str_fn upd c ws
      else bind_conf (in_block c ''http_server'') (\<lambda>b.
        if b then bind_conf (word_at ws 1) (\<lambda>s. with_vhost c (vupd (\<lambda>_. s))) else Inl Fatal_Exit))"

definition listen_fn :: "pton \<Rightarrow> config_function" where
  "listen_fn inet_pton c ws =
     bind_conf (in_block c ''http_server'') (\<lambda>b.
       if b then
         bind_conf (word_at ws 1) (\<lambda>spec.
         bind_conf (parse_addr inet_pton spec) (\<lambda>addr.
           if length ws = 3
           then bind_conf (word_at ws 2) (\<lambda>opt.
                  if opt \<noteq> ''tls'' then Inl Fatal_Exit
                  else with_vhost c (\<lambda>v. v\<lparr> vhost_listens := vhost_listens v @ [(addr, socket_mode_tls)] \<rparr>))
           else with_vhost c (\<lambda>v. v\<lparr> vhost_listens := vhost_listens v @ [(addr, socket_mode_plain)] \<rparr>)))
       else Inl Fatal_Exit)"

text \<open>The words that are not there yet are added in their order.\<close>

definition add_new :: "string list \<Rightarrow> string list \<Rightarrow> string list" where
  "add_new ws xs = fold (\<lambda>w xs. if w \<in> set xs then xs else xs @ [w]) ws xs"

definition server_name_fn :: config_function where
  "server_name_fn c ws =
     bind_conf (in_block c ''http_server'') (\<lambda>b.
       if b then with_vhost c (\<lambda>v. v\<lparr> server_names := add_new (drop 1 ws) (server_names v) \<rparr>) else Inl Fatal_Exit)"

definition root_fn :: config_function where
  "root_fn c ws =
     (if config_block c = [] then str_fn config_root_update c ws
      else bind_conf (in_block c ''location'') (\<lambda>b.
        if b then bind_conf (word_at ws 1) (\<lambda>s. with_location c (location_root_update (\<lambda>_. s))) else Inl Fatal_Exit))"

definition index_fn :: config_function where
  "index_fn c ws =
     (if config_block c = [] then Inr (c\<lparr> index_files := add_new (drop 1 ws) (index_files c) \<rparr>)
      else bind_conf (in_block c ''location'') (\<lambda>b.
        if b then with_location c (\<lambda>l. l\<lparr> location_index_files := add_new (drop 1 ws) (location_index_files l) \<rparr>) else Inl Fatal_Exit))"

definition handler_fn :: config_function where
  "handler_fn c ws =
     bind_conf (in_block c ''location'') (\<lambda>b.
       if b then bind_conf (word_at ws 1) (\<lambda>s. with_location c (location_handler_update (\<lambda>_. s))) else Inl Fatal_Exit)"

definition server_config_fn_map :: "pton \<Rightarrow> (string \<times> config_record) list" where
  "server_config_fn_map inet_pton =
     [(''error_log'', 2, 2, vhost_str_fn error_log_update vhost_error_log_update),
      (''access_log'', 2, 2, vhost_str_fn access_log_update vhost_access_log_update),
      (''tls_key_file'', 2, 2, vhost_str_fn tls_key_file_update vhost_tls_key_file_update),
      (''tls_cert_file'', 2, 2, vhost_str_fn tls_cert_file_update vhost_tls_cert_file_update),
      (''tls_cipher_list'', 2, 2, vhost_str_fn tls_cipher_list_update vhost_tls_cipher_list_update),
      (''listen'', 2, 3, listen_fn inet_pton),
      (''server_name'', 2, - 1, server_name_fn),
      (''root'', 2, 2, root_fn),
      (''index'', 2, - 1, index_fn),
      (''handler'', 2, 2, handler_fn)]"

definition http_server_start :: config_function where
  "http_server_start c ws = Inr (c\<lparr> current_vhost := Some (length (vhost_list c)), vhost_list := vhost_list c @ [new_vhost] \<rparr>)"

definition location_start :: config_function where
  "location_start c ws =
     bind_conf (word_at ws 1) (\<lambda>u.
     bind_conf (with_vhost c (\<lambda>v. v\<lparr> location_list := location_list v @ [new_location u] \<rparr>)) (\<lambda>c'.
       Inr (c'\<lparr> current_location := (case current_vhost c of
         None \<Rightarrow> None | Some i \<Rightarrow> Some (i, length (location_list (vhost_list c ! i)))) \<rparr>)))"

definition http_server_finish :: config_function where
  "http_server_finish c ws =
     (case current_vhost c of
        None \<Rightarrow> Inl (Broken NullPointer)
      | Some i \<Rightarrow> bind_conf (conf_of (index_cxx (vhost_list c) i)) (\<lambda>v.
          if length (location_list v) = 0 then Inl Fatal_Exit else Inr (c\<lparr> current_vhost := None \<rparr>)))"

definition location_finish :: config_function where
  "location_finish c ws =
     (case current_location c of
        None \<Rightarrow> Inl (Broken NullPointer)
      | Some (i, j) \<Rightarrow>
          bind_conf (conf_of (index_cxx (vhost_list c) i)) (\<lambda>v.
          bind_conf (conf_of (index_cxx (location_list v) j)) (\<lambda>l.
            if location_root l = '''' \<and> location_handler l = '''' then Inl Fatal_Exit
            else Inr (c\<lparr> current_location := None \<rparr>))))"

definition server_block_start_map :: "(string \<times> block_record) list" where
  "server_block_start_map =
     [(''http_server'', 1, 1, None, http_server_start),
      (''location'', 2, 2, Some ''http_server'', location_start)]"

definition server_block_end_map :: "(string \<times> block_record) list" where
  "server_block_end_map =
     [(''http_server'', 0, 0, None, http_server_finish),
      (''location'', 0, 0, None, location_finish)]"

section \<open>Lookups and callbacks\<close>

text \<open>The general maps of blocks are empty.\<close>

definition lookup_config_fn :: "pton \<Rightarrow> string \<Rightarrow> config_record option" where
  "lookup_config_fn inet_pton key =
     (case map_of (server_config_fn_map inet_pton) key of
        Some rec \<Rightarrow> Some rec
      | None \<Rightarrow> map_of (config_fn_map inet_pton) key)"

definition lookup_block_start_fn :: "string \<Rightarrow> block_record option" where
  "lookup_block_start_fn key = map_of server_block_start_map key"

definition lookup_block_end_fn :: "string \<Rightarrow> block_record option" where
  "lookup_block_end_fn key = map_of server_block_end_map key"

text \<open>The checks of the number of words that directives and blocks share.\<close>

definition args_bad :: "int \<Rightarrow> int \<Rightarrow> nat \<Rightarrow> bool" where
  "args_bad minargs maxargs n \<longleftrightarrow>
     minargs = maxargs \<and> int n \<noteq> minargs \<or> minargs > 0 \<and> int n < minargs \<or> maxargs > 0 \<and> int n > maxargs"

definition config_symbol :: "string \<Rightarrow> config \<Rightarrow> config conf" where
  "config_symbol s c = Inr (c\<lparr> config_line := config_line c @ [s] \<rparr>)"

text \<open>
  The message for a block without its parent names the innermost block, which is read also when there
  is none.
\<close>

definition config_start_block :: "config \<Rightarrow> config conf" where
  "config_start_block c =
     bind_conf (word_at (config_line c) 0) (\<lambda>name.
       case lookup_block_start_fn name of
         None \<Rightarrow> Inl Fatal_Exit
       | Some (minargs, maxargs, parent, fn) \<Rightarrow>
           bind_conf (case parent of None \<Rightarrow> Inr True | Some p \<Rightarrow> in_block c p) (\<lambda>inside.
             if \<not> inside then
               (if config_block c = [] then Inl (Broken OutOfBounds) else Inl Fatal_Exit)
             else if parent = None \<and> length (config_block c) > 0 then Inl Fatal_Exit
             else if args_bad minargs maxargs (length (config_line c)) then Inl Fatal_Exit
             else fn (c\<lparr> config_block := config_block c @ [config_line c], config_line := [] \<rparr>) (config_line c)))"

definition config_end_block :: "config \<Rightarrow> config conf" where
  "config_end_block c =
     (if config_block c = [] then Inl (Broken OutOfBounds)
      else
        bind_conf (word_at (last (config_block c)) 0) (\<lambda>name.
        bind_conf
          (case lookup_block_end_fn name of
             None \<Rightarrow> Inr c
           | Some (minargs, maxargs, parent, fn) \<Rightarrow> fn c (last (config_block c)))
          (\<lambda>c. Inr (c\<lparr> config_block := butlast (config_block c) \<rparr>))))"

definition config_end_statement :: "pton \<Rightarrow> config \<Rightarrow> config conf" where
  "config_end_statement inet_pton c =
     bind_conf
       (if length (config_line c) > 0 then
          bind_conf (word_at (config_line c) 0) (\<lambda>key.
            case lookup_config_fn inet_pton key of
              None \<Rightarrow> Inl Fatal_Exit
            | Some (minargs, maxargs, fn) \<Rightarrow>
                if args_bad minargs maxargs (length (config_line c)) then Inl Fatal_Exit else fn c (config_line c))
        else Inr c)
       (\<lambda>c. Inr (c\<lparr> config_line := [] \<rparr>))"

definition config_handle :: "pton \<Rightarrow> config config_handler" where
  "config_handle inet_pton e c =
     (case e of
        Symbol s \<Rightarrow> config_symbol s c
      | Start_Block \<Rightarrow> config_start_block c
      | End_Block \<Rightarrow> config_end_block c
      | End_Statement \<Rightarrow> config_end_statement inet_pton c
      | Config_Done \<Rightarrow> Inr c)"

lemma config_handle_simps [simp]:
  "config_handle inet_pton (Symbol s) c = config_symbol s c"
  "config_handle inet_pton Start_Block c = config_start_block c"
  "config_handle inet_pton End_Block c = config_end_block c"
  "config_handle inet_pton End_Statement c = config_end_statement inet_pton c"
  "config_handle inet_pton Config_Done c = Inr c"
  by (simp_all add: config_handle_def)

text \<open>
  A file that cannot be read has no contents. The buffer is one byte longer than the file, and that
  byte is zero.
\<close>

definition config_read :: "pton \<Rightarrow> string option \<Rightarrow> config \<Rightarrow> config conf" where
  "config_read inet_pton contents c =
     (case contents of
        None \<Rightarrow> Inl Fatal_Exit
      | Some buf \<Rightarrow>
          bind_conf (config_parse (config_handle inet_pton) (buf @ [NUL]) c) (\<lambda>(ok, c).
            if ok then Inr c else Inl Fatal_Exit))"

definition config_join :: "string list \<Rightarrow> string \<Rightarrow> string" where
  "config_join ws sep = concat (map (\<lambda>i. (if i > 0 then sep else '''') @ ws ! i) [0..<length ws])"

text \<open>
  The extension and the type of a file. A search without a result gives the greatest \<^verbatim>\<open>size_t\<close>, so a dot
  in a path without a slash is not after the slash.
\<close>

definition lookup_mime_type :: "config \<Rightarrow> string \<Rightarrow> string \<times> string" where
  "lookup_mime_type c path =
     (let extension =
        (case (find_last_of CHR ''/'' path, find_last_of CHR ''.'' path) of
           (Some last_slash, Some last_dot) \<Rightarrow> if last_dot > last_slash then Some (drop (last_dot + 1) path) else None
         | _ \<Rightarrow> None);
        found = (case extension of None \<Rightarrow> None | Some e \<Rightarrow> map_of (mime_types c) e)
      in (case extension of None \<Rightarrow> '''' | Some e \<Rightarrow> e,
          case found of
            Some t \<Rightarrow> t
          | None \<Rightarrow> (case map_of (mime_types c) ''default'' of Some t \<Rightarrow> t | None \<Rightarrow> ''application/octet-stream'')))"

definition setting_line :: "string \<Rightarrow> string \<Rightarrow> string" where
  "setting_line name v = name @ v @ '';'' @ [CHR 0x0A]"

text \<open>The types of files are printed in the order of their extensions, the order of the map.\<close>

definition config_to_string :: "ntop \<Rightarrow> config \<Rightarrow> string" where
  "config_to_string inet_ntop c =
     setting_line ''client_connections  '' (show_int (client_connections c)) @
     setting_line ''server_connections  '' (show_int (server_connections c)) @
     setting_line ''listen_backlog      '' (show_int (listen_backlog c)) @
     setting_line ''max_headers         '' (show_int (max_headers c)) @
     setting_line ''header_buffer_size  '' (show_int (header_buffer_size c)) @
     setting_line ''io_buffer_size      '' (show_int (io_buffer_size c)) @
     setting_line ''ipc_buffer_size     '' (show_int (ipc_buffer_size c)) @
     setting_line ''log_buffers         '' (show_int (log_buffers c)) @
     setting_line ''keepalive_timeout   '' (show_int (keepalive_timeout c)) @
     setting_line ''connection_timeout  '' (show_int (connection_timeout c)) @
     setting_line ''error_log           '' (error_log c) @
     setting_line ''access_log          '' (access_log c) @
     setting_line ''pid_file            '' (pid_file c) @
     setting_line ''tls_ca_file         '' (tls_ca_file c) @
     setting_line ''tls_key_file        '' (tls_key_file c) @
     setting_line ''tls_cert_file       '' (tls_cert_file c) @
     setting_line ''tls_cipher_list     '' (tls_cipher_list c) @
     setting_line ''tls_session_timeout '' (show_int (tls_session_timeout c)) @
     setting_line ''tls_session_count   '' (show_int (tls_session_count c)) @
     setting_line ''root                '' (config_root c) @
     concat (map (\<lambda>(t, n). setting_line ''client_threads      '' (t @ '' '' @ show_nat n)) (client_threads c)) @
     concat (map (\<lambda>(t, n). setting_line ''server_threads      '' (t @ '' '' @ show_nat n)) (server_threads c)) @
     concat (map (\<lambda>(proto, addr, mode). setting_line ''proto_listener      ''
       (proto @ '' '' @ addr_to_string inet_ntop addr @ (if mode = socket_mode_tls then '' tls'' else []))) (proto_listeners c)) @
     concat (map (\<lambda>(ext, t). setting_line ''mime_type           '' (ext @ '' '' @ t)) (sort_key fst (mime_types c))) @
     concat (map (setting_line ''index_file          '') (index_files c))"

section \<open>Blocks and current objects belong together\<close>

text \<open>
  The innermost block tells which of the pointers are set, and every virtual host and location that is
  finished has what the program relies on: a location, and a root or a handler.
\<close>

definition complete_location :: "http_server_location \<Rightarrow> bool" where
  "complete_location l \<longleftrightarrow> location_root l \<noteq> [] \<or> location_handler l \<noteq> []"

definition complete_vhost :: "http_server_vhost \<Rightarrow> bool" where
  "complete_vhost v \<longleftrightarrow> location_list v \<noteq> [] \<and> list_all complete_location (location_list v)"

definition block_names :: "config \<Rightarrow> string list" where
  "block_names c = map hd (config_block c)"

fun pointers_fit :: "string list \<Rightarrow> nat option \<Rightarrow> (nat \<times> nat) option \<Rightarrow> http_server_vhost list \<Rightarrow> bool" where
  "pointers_fit names None None vs \<longleftrightarrow> names = [] \<and> list_all complete_vhost vs"
| "pointers_fit names (Some i) None vs \<longleftrightarrow>
     names = [''http_server''] \<and> Suc i = length vs \<and> list_all complete_vhost (butlast vs) \<and>
     list_all complete_location (location_list (last vs))"
| "pointers_fit names (Some i) (Some (i', j)) vs \<longleftrightarrow>
     names = [''http_server'', ''location''] \<and> i' = i \<and> Suc i = length vs \<and> list_all complete_vhost (butlast vs) \<and>
     Suc j = length (location_list (last vs)) \<and> list_all complete_location (butlast (location_list (last vs)))"
| "pointers_fit names None (Some p) vs \<longleftrightarrow> False"

definition pointers_ok :: "config \<Rightarrow> bool" where
  "pointers_ok c \<longleftrightarrow> pointers_fit (block_names c) (current_vhost c) (current_location c) (vhost_list c)"

definition config_inv :: "bool \<Rightarrow> config \<Rightarrow> bool" where
  "config_inv waiting c \<longleftrightarrow> (config_line c \<noteq> [] \<longleftrightarrow> waiting) \<and> list_all (\<lambda>ws. ws \<noteq> []) (config_block c) \<and> pointers_ok c"

text \<open>What a directive needs and keeps. Only a number that does not fit is undefined.\<close>

abbreviation directive_errors :: "config_stop set" where
  "directive_errors \<equiv> {Fatal_Exit, Broken Undefined}"

definition same_blocks :: "config \<Rightarrow> config \<Rightarrow> bool" where
  "same_blocks c c' \<longleftrightarrow> config_block c' = config_block c \<and> config_line c' = config_line c"

definition directive_ok :: "config_record \<Rightarrow> bool" where
  "directive_ok r \<longleftrightarrow>
     (case r of (minargs, maxargs, f) \<Rightarrow>
        \<forall>c ws. list_all (\<lambda>ws. ws \<noteq> []) (config_block c) \<and> pointers_ok c \<and> \<not> args_bad minargs maxargs (length ws) \<longrightarrow>
          outcome directive_errors (\<lambda>c'. same_blocks c c' \<and> pointers_ok c') (f c ws))"

lemma word_at_ok: "i < length ws \<Longrightarrow> word_at ws i = Inr (ws ! i)"
  by (simp add: word_at_def)

lemma atoi_outcome: "(\<And>i. P i) \<Longrightarrow> outcome directive_errors P (conf_of (atoi s))"
  by (auto simp: atoi_def Let_def)

lemma pointers_ok_cong:
  "current_vhost c' = current_vhost c \<Longrightarrow> current_location c' = current_location c \<Longrightarrow> config_block c' = config_block c \<Longrightarrow>
    vhost_list c' = vhost_list c \<Longrightarrow> pointers_ok c' = pointers_ok c"
  by (simp only: pointers_ok_def block_names_def)

lemma args_exact: "\<not> args_bad n n m \<Longrightarrow> int m = n"
  by (simp add: args_bad_def)

lemma args_least: "\<not> args_bad n k m \<Longrightarrow> 0 < n \<Longrightarrow> n \<le> int m"
  by (auto simp: args_bad_def)

text \<open>A directive that changes neither blocks nor virtual hosts.\<close>

definition plain_update :: "('a \<Rightarrow> config \<Rightarrow> config) \<Rightarrow> bool" where
  "plain_update upd \<longleftrightarrow> (\<forall>g c. same_blocks c (upd g c) \<and> current_vhost (upd g c) = current_vhost c \<and>
     current_location (upd g c) = current_location c \<and> vhost_list (upd g c) = vhost_list c)"

lemma plain_updateD:
  assumes "plain_update upd"
  shows "same_blocks c (upd g c) \<and> (pointers_ok (upd g c) \<longleftrightarrow> pointers_ok c)"
proof -
  have "same_blocks c (upd g c)" "current_vhost (upd g c) = current_vhost c" "current_location (upd g c) = current_location c"
      "vhost_list (upd g c) = vhost_list c"
    using assms by (auto simp: plain_update_def)
  then show ?thesis
    by (simp add: same_blocks_def pointers_ok_def block_names_def)
qed

lemma str_fn_ok: "plain_update upd \<Longrightarrow> directive_ok (2, 2, str_fn upd)"
  by (auto simp: directive_ok_def str_fn_def word_at_ok plain_updateD dest: args_exact)

lemma int_fn_ok: "plain_update upd \<Longrightarrow> directive_ok (2, 2, int_fn upd)"
  by (auto simp: directive_ok_def int_fn_def word_at_ok plain_updateD intro!: outcome_bind [OF atoi_outcome] dest!: args_exact)

lemma threads_fn_ok: "plain_update upd \<Longrightarrow> directive_ok (3, 3, threads_fn upd)"
  by (auto simp: directive_ok_def threads_fn_def word_at_ok plain_updateD intro!: outcome_bind [OF atoi_outcome] dest!: args_exact)

lemma spec_port_outcome: "(\<And>i. P i) \<Longrightarrow> outcome directive_errors P (conf_of (spec_port s))"
  using atoi_outcome by (auto simp: spec_port_def split: option.splits)

lemma parse_addr_ok: "outcome directive_errors (\<lambda>_. True) (parse_addr inet_pton spec)"
proof (cases "string_to_addr inet_pton spec")
  case (Inl e)
  then have "spec_port spec = Inl e"
    by (auto simp: string_to_addr_def Let_def bind_cxx_def split: option.splits sum.splits if_splits)
  with Inl spec_port_outcome [of "\<lambda>_. True" spec] show ?thesis
    by (simp add: parse_addr_def)
next
  case (Inr r)
  then show ?thesis
    by (cases r) (simp_all add: parse_addr_def)
qed

lemma proto_listener_fn_ok: "directive_ok (3, 4, proto_listener_fn inet_pton)"
proof -
  have "outcome directive_errors (\<lambda>c'. same_blocks c c' \<and> pointers_ok c') (proto_listener_fn inet_pton c ws)"
    if "pointers_ok c" "\<not> args_bad 3 4 (length ws)" for c ws
  proof -
    have n: "3 \<le> length ws"
      using that(2) by (auto simp: args_bad_def)
    have "pointers_ok (c\<lparr> proto_listeners := x \<rparr>)" "same_blocks c (c\<lparr> proto_listeners := x \<rparr>)" for x
      using that(1) by (simp_all add: same_blocks_def pointers_ok_def block_names_def)
    then show ?thesis
      using n by (auto simp: proto_listener_fn_def word_at_ok intro!: outcome_bind [OF parse_addr_ok])
  qed
  then show ?thesis
    by (auto simp: directive_ok_def)
qed

lemma mime_type_fn_ok: "directive_ok (3, - 1, mime_type_fn)"
  by (auto simp: directive_ok_def mime_type_fn_def word_at_ok same_blocks_def pointers_ok_def block_names_def)

lemma general_directives_ok: "list_all (\<lambda>e. directive_ok (snd e)) (config_fn_map inet_pton)"
  unfolding config_fn_map_def list.pred_inject snd_conv
  by (intro conjI TrueI str_fn_ok int_fn_ok threads_fn_ok proto_listener_fn_ok mime_type_fn_ok)
    (simp_all add: plain_update_def same_blocks_def)

text \<open>The two kinds of blocks, with the objects that are being built.\<close>

lemma in_block_eq:
  assumes "list_all (\<lambda>ws. ws \<noteq> []) (config_block c)"
  shows "in_block c name = Inr (block_names c \<noteq> [] \<and> last (block_names c) = name)"
proof (cases "config_block c" rule: rev_cases)
  case (snoc bs ws)
  then show ?thesis
    using assms by (simp add: in_block_def block_names_def word_at_def index_cxx_def hd_conv_nth)
qed (simp add: in_block_def block_names_def)

lemma pointers_http_server:
  assumes "pointers_ok c" "block_names c \<noteq> []" "last (block_names c) = ''http_server''"
  obtains vs v where "current_vhost c = Some (length vs)" "current_location c = None" "vhost_list c = vs @ [v]"
    "block_names c = [''http_server'']" "list_all complete_vhost vs" "list_all complete_location (location_list v)"
proof (rule pointers_fit.elims(2) [OF assms(1) [unfolded pointers_ok_def]])
  fix names i vs
  assume *: "block_names c = names" "current_vhost c = Some i" "current_location c = None" "vhost_list c = vs"
    "names = [''http_server''] \<and> Suc i = length vs \<and> list_all complete_vhost (butlast vs) \<and> list_all complete_location (location_list (last vs))"
  then obtain xs x where "vs = xs @ [x]"
    by (cases vs rule: rev_cases) auto
  with * show thesis
    by (intro that [of xs x]) auto
qed (use assms(2,3) in auto)

lemma pointers_location:
  assumes "pointers_ok c" "block_names c \<noteq> []" "last (block_names c) = ''location''"
  obtains vs v ls l where "current_vhost c = Some (length vs)" "current_location c = Some (length vs, length ls)"
    "vhost_list c = vs @ [v]" "location_list v = ls @ [l]" "block_names c = [''http_server'', ''location'']"
    "list_all complete_vhost vs" "list_all complete_location ls"
proof (rule pointers_fit.elims(2) [OF assms(1) [unfolded pointers_ok_def]])
  fix names i i' j vs
  assume *: "block_names c = names" "current_vhost c = Some i" "current_location c = Some (i', j)" "vhost_list c = vs"
    "names = [''http_server'', ''location''] \<and> i' = i \<and> Suc i = length vs \<and> list_all complete_vhost (butlast vs) \<and>
      Suc j = length (location_list (last vs)) \<and> list_all complete_location (butlast (location_list (last vs)))"
  then obtain xs x where xs: "vs = xs @ [x]"
    by (cases vs rule: rev_cases) auto
  moreover obtain ls l where "location_list x = ls @ [l]"
    using * xs by (cases "location_list x" rule: rev_cases) auto
  ultimately show thesis
    using * by (intro that [of xs ls x l]) auto
qed (use assms(2,3) in auto)

lemma with_vhost_ok:
  assumes "pointers_ok c" "block_names c \<noteq> []" "last (block_names c) = ''http_server''" "\<And>v. location_list (f v) = location_list v"
  shows "outcome directive_errors (\<lambda>c'. same_blocks c c' \<and> pointers_ok c') (with_vhost c f)"
proof -
  obtain vs v where c: "current_vhost c = Some (length vs)" "current_location c = None" "vhost_list c = vs @ [v]"
      "block_names c = [''http_server'']" "list_all complete_vhost vs" "list_all complete_location (location_list v)"
    using pointers_http_server [OF assms(1-3)] .
  then show ?thesis
    using assms(4) by (simp add: with_vhost_def same_blocks_def pointers_ok_def block_names_def)
qed

lemma with_location_ok:
  assumes "pointers_ok c" "block_names c \<noteq> []" "last (block_names c) = ''location''"
  shows "outcome directive_errors (\<lambda>c'. same_blocks c c' \<and> pointers_ok c') (with_location c f)"
proof -
  obtain vs v ls l where c: "current_vhost c = Some (length vs)" "current_location c = Some (length vs, length ls)"
    "vhost_list c = vs @ [v]" "location_list v = ls @ [l]" "block_names c = [''http_server'', ''location'']"
    "list_all complete_vhost vs" "list_all complete_location ls"
    using pointers_location [OF assms] .
  then show ?thesis
    by (simp add: with_location_def same_blocks_def pointers_ok_def block_names_def)
qed

lemma scoped_ok:
  assumes "list_all (\<lambda>ws. ws \<noteq> []) (config_block c)" "pointers_ok c"
    "block_names c \<noteq> [] \<Longrightarrow> last (block_names c) = name \<Longrightarrow> outcome directive_errors P m"
  shows "outcome directive_errors P (bind_conf (in_block c name) (\<lambda>b. if b then m else Inl Fatal_Exit))"
  using assms by (simp add: in_block_eq)

lemma vhost_str_fn_ok:
  assumes "plain_update upd" "\<And>g v. location_list (vupd g v) = location_list v"
  shows "directive_ok (2, 2, vhost_str_fn upd vupd)"
proof -
  have "outcome directive_errors (\<lambda>c'. same_blocks c c' \<and> pointers_ok c') (vhost_str_fn upd vupd c ws)"
    if "list_all (\<lambda>ws. ws \<noteq> []) (config_block c)" "pointers_ok c" "\<not> args_bad 2 2 (length ws)" for c ws
  proof (cases "config_block c = []")
    case True
    then show ?thesis
      using str_fn_ok [OF assms(1)] that by (auto simp: vhost_str_fn_def directive_ok_def)
  next
    case False
    have "1 < length ws"
      using args_exact [OF that(3)] by simp
    with False show ?thesis
      unfolding vhost_str_fn_def by (auto simp: word_at_ok intro!: scoped_ok that with_vhost_ok assms(2))
  qed
  then show ?thesis
    by (simp add: directive_ok_def)
qed

lemma listen_fn_ok: "directive_ok (2, 3, listen_fn inet_pton)"
proof -
  have "outcome directive_errors (\<lambda>c'. same_blocks c c' \<and> pointers_ok c') (listen_fn inet_pton c ws)"
    if "list_all (\<lambda>ws. ws \<noteq> []) (config_block c)" "pointers_ok c" "\<not> args_bad 2 3 (length ws)" for c ws
  proof -
    have "2 \<le> length ws"
      using that(3) by (auto simp: args_bad_def)
    then show ?thesis
      unfolding listen_fn_def
      by (auto simp: word_at_ok intro!: scoped_ok that with_vhost_ok outcome_bind [OF parse_addr_ok])
  qed
  then show ?thesis
    by (simp add: directive_ok_def)
qed

lemma server_name_fn_ok: "directive_ok (2, - 1, server_name_fn)"
  by (auto simp: directive_ok_def server_name_fn_def intro!: scoped_ok with_vhost_ok)

lemma handler_fn_ok: "directive_ok (2, 2, handler_fn)"
  by (auto simp: directive_ok_def handler_fn_def word_at_ok intro!: scoped_ok with_location_ok dest!: args_exact)

lemma root_fn_ok: "directive_ok (2, 2, root_fn)"
proof -
  have top: "directive_ok (2, 2, str_fn config_root_update)"
    by (rule str_fn_ok) (simp add: plain_update_def same_blocks_def)
  then show ?thesis
    by (auto simp: directive_ok_def root_fn_def word_at_ok intro!: scoped_ok with_location_ok dest!: args_exact)
qed

lemma index_fn_ok: "directive_ok (2, - 1, index_fn)"
proof -
  have "same_blocks c (c\<lparr> index_files := x \<rparr>)" "pointers_ok (c\<lparr> index_files := x \<rparr>) = pointers_ok c" for c x
    by (simp_all add: same_blocks_def pointers_ok_def block_names_def)
  then show ?thesis
    by (auto simp: directive_ok_def index_fn_def intro!: scoped_ok with_location_ok)
qed

lemma server_directives_ok: "list_all (\<lambda>e. directive_ok (snd e)) (server_config_fn_map inet_pton)"
  unfolding server_config_fn_map_def list.pred_inject snd_conv
  by (intro conjI TrueI vhost_str_fn_ok listen_fn_ok server_name_fn_ok root_fn_ok index_fn_ok handler_fn_ok)
    (simp_all add: plain_update_def same_blocks_def)

lemma lookup_config_fn_ok: "lookup_config_fn inet_pton key = Some r \<Longrightarrow> directive_ok r"
  using general_directives_ok [of inet_pton] server_directives_ok [of inet_pton]
  by (fastforce simp: lookup_config_fn_def list_all_iff split: option.splits dest: map_of_SomeD)

section \<open>The callbacks keep the invariant\<close>

lemma end_statement_ok:
  assumes "config_inv True c"
  shows "outcome directive_errors (\<lambda>c'. config_inv False c' \<and> config_block c' = config_block c) (config_end_statement inet_pton c)"
proof -
  have c: "config_line c \<noteq> []" "list_all (\<lambda>ws. ws \<noteq> []) (config_block c)" "pointers_ok c"
    using assms by (simp_all add: config_inv_def)
  have "outcome directive_errors (\<lambda>c'. same_blocks c c' \<and> pointers_ok c')
      (case lookup_config_fn inet_pton (config_line c ! 0) of None \<Rightarrow> Inl Fatal_Exit
       | Some (minargs, maxargs, fn) \<Rightarrow>
           if args_bad minargs maxargs (length (config_line c)) then Inl Fatal_Exit else fn c (config_line c))"
    using lookup_config_fn_ok [of inet_pton "config_line c ! 0"] c(2,3) by (auto simp: directive_ok_def split: option.splits)
  then show ?thesis
    unfolding config_end_statement_def using c
    by (intro outcome_bind [where P = "\<lambda>c'. same_blocks c c' \<and> pointers_ok c'"])
      (auto simp: word_at_ok config_inv_def same_blocks_def pointers_ok_def block_names_def)
qed

lemma start_block_ok:
  assumes "config_inv True c" "config_block c = [] \<longrightarrow> hd (config_line c) \<noteq> ''location''"
  shows "outcome directive_errors (\<lambda>c'. config_inv False c' \<and> config_block c' = config_block c @ [config_line c]) (config_start_block c)"
proof -
  have c: "config_line c \<noteq> []" "list_all (\<lambda>ws. ws \<noteq> []) (config_block c)" "pointers_ok c"
    using assms by (simp_all add: config_inv_def)
  have name: "word_at (config_line c) 0 = Inr (hd (config_line c))"
    using c(1) by (simp add: word_at_ok hd_conv_nth)
  consider "hd (config_line c) = ''http_server''" | "hd (config_line c) = ''location''" | "hd (config_line c) \<notin> {''http_server'', ''location''}"
    by auto
  then show ?thesis
  proof cases
    case 1
    have "pointers_fit [] (current_vhost c) (current_location c) (vhost_list c)" if "config_block c = []"
      using c(3) that by (simp add: pointers_ok_def block_names_def)
    then have "current_vhost c = None" "current_location c = None" "list_all complete_vhost (vhost_list c)" if "config_block c = []"
      using that by (auto elim: pointers_fit.elims)
    with 1 c show ?thesis
      by (auto simp: config_start_block_def name lookup_block_start_fn_def server_block_start_map_def http_server_start_def
          config_inv_def pointers_ok_def block_names_def new_vhost_def)
  next
    case 2
    then have ne: "config_block c \<noteq> []"
      using assms(2) by simp
    show ?thesis
    proof (cases "last (block_names c) = ''http_server'' \<and> length (config_line c) = 2")
      case True
      then obtain vs v where v: "current_vhost c = Some (length vs)" "current_location c = None" "vhost_list c = vs @ [v]"
          "block_names c = [''http_server'']" "list_all complete_vhost vs" "list_all complete_location (location_list v)"
        using pointers_http_server [OF c(3)] ne by (auto simp: block_names_def)
      with True 2 ne c show ?thesis
        by (simp add: config_start_block_def name lookup_block_start_fn_def server_block_start_map_def in_block_eq args_bad_def
            location_start_def word_at_ok with_vhost_def config_inv_def pointers_ok_def block_names_def new_location_def)
    next
      case False
      with 2 ne c show ?thesis
        by (auto simp: config_start_block_def name lookup_block_start_fn_def server_block_start_map_def in_block_eq args_bad_def)
    qed
  next
    case 3
    then show ?thesis
      by (auto simp: config_start_block_def name lookup_block_start_fn_def server_block_start_map_def)
  qed
qed

lemma end_block_ok:
  assumes "config_inv False c" "config_block c \<noteq> []"
  shows "outcome directive_errors (\<lambda>c'. config_inv False c' \<and> config_block c' = butlast (config_block c)) (config_end_block c)"
proof -
  have c: "config_line c = []" "list_all (\<lambda>ws. ws \<noteq> []) (config_block c)" "pointers_ok c"
    using assms by (simp_all add: config_inv_def)
  obtain bs ws where b: "config_block c = bs @ [ws]"
    using assms(2) by (cases "config_block c" rule: rev_cases) auto
  then have ws: "ws \<noteq> []" "word_at ws 0 = Inr (hd ws)" "block_names c = map hd bs @ [hd ws]"
    using c(2) by (auto simp: word_at_def index_cxx_def hd_conv_nth block_names_def)
  consider "hd ws = ''http_server''" | "hd ws = ''location''"
    using c(3) ws(3) by (cases rule: pointers_fit.elims(2) [OF c(3) [unfolded pointers_ok_def]]) (auto simp: append_eq_Cons_conv)
  then show ?thesis
  proof cases
    case 1
    then obtain vs v where v: "current_vhost c = Some (length vs)" "current_location c = None" "vhost_list c = vs @ [v]"
        "block_names c = [''http_server'']" "list_all complete_vhost vs" "list_all complete_location (location_list v)"
      using pointers_http_server [OF c(3)] ws(3) by auto
    with 1 b c ws show ?thesis
      by (auto simp: config_end_block_def lookup_block_end_fn_def server_block_end_map_def http_server_finish_def config_inv_def
          pointers_ok_def block_names_def complete_vhost_def)
  next
    case 2
    then have "block_names c \<noteq> []" "last (block_names c) = ''location''"
      using ws(3) by simp_all
    then obtain vs v ls l where v: "current_vhost c = Some (length vs)" "current_location c = Some (length vs, length ls)"
        "vhost_list c = vs @ [v]" "location_list v = ls @ [l]" "block_names c = [''http_server'', ''location'']"
        "list_all complete_vhost vs" "list_all complete_location ls"
      by (rule pointers_location [OF c(3)])
    with 2 b c ws show ?thesis
      by (auto simp: config_end_block_def lookup_block_end_fn_def server_block_end_map_def location_finish_def config_inv_def
          pointers_ok_def block_names_def complete_location_def)
  qed
qed

lemma start_location_outside: "config_inv True c \<Longrightarrow> config_block c = [] \<Longrightarrow> hd (config_line c) = ''location'' \<Longrightarrow> config_start_block c = Inl (Broken OutOfBounds)"
  by (simp add: config_start_block_def word_at_def index_cxx_def config_inv_def hd_conv_nth lookup_block_start_fn_def
      server_block_start_map_def in_block_def)

lemma outcome_weaken: "outcome A P m \<Longrightarrow> A \<subseteq> B \<Longrightarrow> (\<And>x. P x \<Longrightarrow> Q x) \<Longrightarrow> outcome B Q m"
  by (cases m) auto

interpretation config_reader: config_client "config_handle inet_pton" config_inv "{Fatal_Exit, Broken Undefined, Broken OutOfBounds}"
proof
  fix b c x
  assume "config_inv b c"
  then show "outcome {Fatal_Exit, Broken Undefined, Broken OutOfBounds} (config_inv True) (config_handle inet_pton (Symbol x) c)"
    by (auto simp: config_symbol_def config_inv_def pointers_ok_def block_names_def)
next
  fix c
  assume "config_inv True c"
  then show "outcome {Fatal_Exit, Broken Undefined, Broken OutOfBounds} (config_inv False) (config_handle inet_pton Start_Block c)"
    using start_block_ok [of c] start_location_outside [of c]
    by (cases "config_block c = [] \<and> hd (config_line c) = ''location''") (auto intro: outcome_weaken)
next
  fix c
  assume "config_inv False c"
  then show "outcome {Fatal_Exit, Broken Undefined, Broken OutOfBounds} (config_inv False) (config_handle inet_pton End_Block c)"
    using end_block_ok [of c]
    by (cases "config_block c = []") (auto simp: config_end_block_def intro: outcome_weaken)
next
  fix c
  assume "config_inv True c"
  then show "outcome {Fatal_Exit, Broken Undefined, Broken OutOfBounds} (config_inv False) (config_handle inet_pton End_Statement c)"
    using end_statement_ok [of c inet_pton] by (auto intro: outcome_weaken)
next
  fix c
  assume "config_inv False c"
  then show "outcome {Fatal_Exit, Broken Undefined, Broken OutOfBounds} (config_inv False) (config_handle inet_pton Config_Done c)"
    by simp
qed

lemma new_config_inv: "config_inv False new_config"
  by (simp add: config_inv_def new_config_def pointers_ok_def block_names_def)

text \<open>C17. Whatever the configuration file has, reading it follows no null pointer. When the file is accepted, the
  pointers to the current virtual host and location are those of the blocks that are still open, and
  the virtual hosts that are closed have a location, each with a root or a handler.\<close>

theorem config_read_safe:
  "case config_read inet_pton contents new_config of
     Inl e \<Rightarrow> e = Fatal_Exit \<or> e = Broken Undefined \<or> e = Broken OutOfBounds
   | Inr c \<Rightarrow> pointers_fit (block_names c) (current_vhost c) (current_location c) (vhost_list c)"
proof -
  have "outcome {Fatal_Exit, Broken Undefined, Broken OutOfBounds} pointers_ok (config_read inet_pton contents new_config)"
  proof (cases contents)
    case (Some buf)
    show ?thesis
      unfolding config_read_def Some option.case
      by (rule outcome_bind [OF config_reader.reading_ok [OF new_config_inv]]) (auto simp: config_inv_def)
  qed (simp add: config_read_def)
  then show ?thesis
    by (auto simp: outcome_def pointers_ok_def split: sum.splits)
qed

text \<open>A configuration whose blocks are closed and with no location outside a server.\<close>

fun top_item_ok :: "config_item \<Rightarrow> bool" where
  "top_item_ok (Statement ss) \<longleftrightarrow> True"
| "top_item_ok (Block ss items) \<longleftrightarrow> hd ss \<noteq> ''location''"

lemma run_symbols:
  "run_events (config_handle inet_pton) (map Symbol ss) c = Inr (c\<lparr> config_line := config_line c @ ss \<rparr>)"
  by (induction ss arbitrary: c) (simp_all add: config_symbol_def)

lemma config_inv_line: "config_inv False c \<Longrightarrow> ss \<noteq> [] \<Longrightarrow> config_inv True (c\<lparr> config_line := config_line c @ ss \<rparr>)"
  by (simp add: config_inv_def pointers_ok_def block_names_def)

lemma run_items:
  assumes "\<And>item c. item \<in> set items \<Longrightarrow> config_inv False c \<Longrightarrow> config_block c = bs \<Longrightarrow>
      outcome directive_errors (\<lambda>c'. config_inv False c' \<and> config_block c' = bs) (run_events (config_handle inet_pton) (item_events item) c)"
    "config_inv False c" "config_block c = bs"
  shows "outcome directive_errors (\<lambda>c'. config_inv False c' \<and> config_block c' = bs)
    (run_events (config_handle inet_pton) (concat (map item_events items)) c)"
  using assms
proof (induction items arbitrary: c)
  case (Cons item items)
  show ?case
    unfolding list.map concat.simps run_events_append
    by (rule outcome_bind [OF Cons.prems(1)]) (use Cons.prems Cons.IH in auto)
qed simp

lemma run_item:
  assumes "config_inv False c" "item_ok item" "config_block c = [] \<longrightarrow> top_item_ok item"
  shows "outcome directive_errors (\<lambda>c'. config_inv False c' \<and> config_block c' = config_block c)
    (run_events (config_handle inet_pton) (item_events item) c)"
  using assms
proof (induction item arbitrary: c)
  case (Statement ss)
  then have "config_inv True (c\<lparr> config_line := config_line c @ ss \<rparr>)"
    by (auto intro: config_inv_line)
  from end_statement_ok [OF this, of inet_pton] show ?case
    by (simp add: run_events_append run_symbols) (erule outcome_bind, simp)
next
  case (Block ss items)
  let ?c = "c\<lparr> config_line := config_line c @ ss \<rparr>" and ?bs = "config_block c @ [ss]"
  have inv: "config_inv True ?c" and line: "config_line c = []"
    using config_inv_line [OF Block.prems(1)] Block.prems(1,2) by (simp_all add: config_inv_def)
  have start: "outcome directive_errors (\<lambda>c'. config_inv False c' \<and> config_block c' = ?bs) (config_start_block ?c)"
    using start_block_ok [OF inv] Block.prems(3) line by simp
  have body: "outcome directive_errors (\<lambda>c'. config_inv False c' \<and> config_block c' = ?bs)
      (run_events (config_handle inet_pton) (concat (map item_events items)) c')" if "config_inv False c'" "config_block c' = ?bs" for c'
    using that(1,2)
  proof (intro run_items)
    fix item d
    assume "item \<in> set items" "config_inv False d" "config_block d = ?bs"
    then show "outcome directive_errors (\<lambda>c'. config_inv False c' \<and> config_block c' = ?bs)
        (run_events (config_handle inet_pton) (item_events item) d)"
      using Block.IH [of item d] Block.prems(2) by (auto simp: list_all_iff)
  qed
  have finish: "outcome directive_errors (\<lambda>c'. config_inv False c' \<and> config_block c' = config_block c) (config_end_block c')"
    if "config_inv False c'" "config_block c' = ?bs" for c'
    using end_block_ok [OF that(1)] that(2) by simp
  show ?case
    unfolding item_events.simps run_events_append run_symbols bind_conf_simps run_events.simps config_handle_simps bind_conf_assoc
    using start body finish by (auto intro!: outcome_bind)
qed

lemma c_str_terminated: "NUL \<notin> set t \<Longrightarrow> c_str (t @ [NUL]) = t"
  by (induction t) (auto simp: c_str_def)

text \<open>C18. Reading the text of a configuration whose blocks are all closed and have no location at the top level either ends
  the process with a message or stops at a number that does not fit an \<^verbatim>\<open>int\<close>, or it succeeds; then
  every virtual host has a location and every location a root or a handler.\<close>

theorem config_read_complete:
  assumes "list_all item_ok items" "list_all top_item_ok items"
  shows "case config_read inet_pton (Some (concat (map print_item items))) new_config of
     Inl e \<Rightarrow> e = Fatal_Exit \<or> e = Broken Undefined
   | Inr c \<Rightarrow> list_all complete_vhost (vhost_list c) \<and> current_vhost c = None \<and> current_location c = None"
proof -
  let ?text = "concat (map print_item items)"
  have "NUL \<notin> set ?text"
    using assms(1) print_item_no_NUL by (auto simp: list_all_iff)
  then have "c_str (?text @ [NUL]) = c_str ?text"
    by (simp add: c_str_terminated del: set_concat)
  then have "config_parse (config_handle inet_pton) (?text @ [NUL]) new_config = config_parse (config_handle inet_pton) ?text new_config"
    by (simp only: config_parse_def)
  also have "\<dots> = bind_conf (run_events (config_handle inet_pton) (concat (map item_events items)) new_config) (\<lambda>c. Inr (True, c))"
    using config_read_back [OF assms(1), of "config_handle inet_pton"] by (simp add: run_events_append bind_conf_assoc)
  finally have read: "config_read inet_pton (Some ?text) new_config =
      bind_conf (run_events (config_handle inet_pton) (concat (map item_events items)) new_config) Inr"
    by (simp add: config_read_def bind_conf_assoc)
  have "outcome directive_errors (\<lambda>c. config_inv False c \<and> config_block c = [])
      (run_events (config_handle inet_pton) (concat (map item_events items)) new_config)"
  proof (intro run_items new_config_inv)
    fix item c
    assume "item \<in> set items" "config_inv False c" "config_block c = []"
    then show "outcome directive_errors (\<lambda>c'. config_inv False c' \<and> config_block c' = [])
        (run_events (config_handle inet_pton) (item_events item) c)"
      using run_item [of c item inet_pton] assms by (auto simp: list_all_iff)
  qed (simp add: new_config_def)
  then have "outcome directive_errors (\<lambda>c. config_inv False c \<and> config_block c = []) (config_read inet_pton (Some ?text) new_config)"
    unfolding read by (rule outcome_bind) simp
  moreover have "list_all complete_vhost (vhost_list c) \<and> current_vhost c = None \<and> current_location c = None"
    if "config_inv False c" "config_block c = []" for c
    using that by (cases rule: pointers_fit.cases [of "(block_names c, current_vhost c, current_location c, vhost_list c)"])
      (auto simp: config_inv_def pointers_ok_def block_names_def)
  ultimately show ?thesis
    by (auto simp: outcome_def split: sum.splits)
qed

theorem config_read_complete_witness:
  "case config_read (\<lambda>f s. None) (Some (concat (map print_item [Block [''http_server''] [Block [''location'', ''/''] [Statement [''root'', ''html'']]]])))
     new_config of
     Inl e \<Rightarrow> e = Fatal_Exit \<or> e = Broken Undefined
   | Inr c \<Rightarrow> list_all complete_vhost (vhost_list c) \<and> current_vhost c = None \<and> current_location c = None"
  by (rule config_read_complete) (simp_all add: quotable_def)

text \<open>Two texts that make the program read an element of an empty vector, and one that it accepts although a block is not closed.\<close>

lemma stray_end_block: "config_read (\<lambda>f s. None) (Some (''}'' @ [CHR 0x0A])) new_config = Inl (Broken OutOfBounds)"
  by code_simp

lemma location_outside_server: "config_read (\<lambda>f s. None) (Some (''location / {'' @ [CHR 0x0A])) new_config = Inl (Broken OutOfBounds)"
  by code_simp

lemma open_block_accepted:
  "config_read (\<lambda>f s. None) (Some (''http_server {'' @ [CHR 0x0A])) new_config =
     Inr (new_config\<lparr> config_block := [[''http_server'']], current_vhost := Some 0, vhost_list := [new_vhost] \<rparr>)"
  by code_simp

text \<open>The type of a file is that of its extension when the path has a slash before it, and the default otherwise.\<close>

lemma mime_type_of_extension:
  assumes "CHR ''.'' \<notin> set ext" "CHR ''/'' \<notin> set base" "CHR ''/'' \<notin> set ext" "map_of (mime_types c) ext = Some t"
  shows "lookup_mime_type c (dir @ CHR ''/'' # base @ CHR ''.'' # ext) = (ext, t)"
proof -
  let ?path = "dir @ CHR ''/'' # base @ CHR ''.'' # ext"
  have "find_last_of CHR ''/'' ?path = Some (length dir)"
    using assms by (intro find_last_of_append) auto
  moreover have "find_last_of CHR ''.'' ?path = Some (length (dir @ CHR ''/'' # base))"
    using find_last_of_append [of "CHR ''.''" ext "dir @ CHR ''/'' # base"] assms(1) by simp
  ultimately show ?thesis
    using assms(4) by (simp add: lookup_mime_type_def)
qed

lemma mime_type_without_slash:
  "lookup_mime_type (new_config\<lparr> mime_types := [(''html'', ''text/html'')] \<rparr>) ''index.html'' = ([], ''application/octet-stream'')"
  by (simp add: lookup_mime_type_def)

text \<open>The text of a configuration has lines for index files that the program does not read back.\<close>

lemma index_file_not_read: "lookup_config_fn inet_pton ''index_file'' = None"
  by (simp add: lookup_config_fn_def server_config_fn_map_def config_fn_map_def)

end
