(* ===== verification/Protocol.thy ===== *)
theory Protocol
  imports Config Http_Constants
begin

text \<open>
  \<^verbatim>\<open>src/protocol.cc\<close>, \<^verbatim>\<open>src/protocol_thread.cc\<close>, \<^verbatim>\<open>src/protocol_engine.cc\<close> and \<^verbatim>\<open>src/protocol_connection.h\<close>: what the
  protocols share. Sockets, actions, masks and states register themselves in tables; a thread has a
  mask of the roles it plays; the engine gives out the threads of a role in turn; and a table of
  connections has a list of those that are free. A protocol is known by its name.
\<close>

section \<open>Registration\<close>

text \<open>
  The constructors put the object at the end of a table and into a map, where a name that is there
  already keeps its first object. The position in the table is the default of the number of the object.
\<close>

type_synonym proto_name = "string option \<times> string"

record 'e registry =
  reg_table :: "'e list"
  reg_map :: "(proto_name \<times> 'e) list"

definition register :: "proto_name \<Rightarrow> (nat \<Rightarrow> 'e) \<Rightarrow> 'e registry \<Rightarrow> 'e registry" where
  "register key mk r =
     (let e = mk (length (reg_table r)) in
      r\<lparr> reg_map := map_insert key e (reg_map r), reg_table := reg_table r @ [e] \<rparr>)"

record protocol_sock =
  sock_proto :: "string option"
  sock_name :: string
  sock_flags :: u32
  sock_type :: nat

record 'cb protocol_action =
  action_proto :: "string option"
  action_name :: string
  action_callback :: "'cb option"
  action_num :: nat

record protocol_mask =
  mask_proto :: string
  mask_name :: string
  mask_offset :: nat
  mask_bits :: u32

record 'cb protocol_state =
  state_proto :: "string option"
  state_name :: string
  state_callback :: "'cb option"
  state_num :: nat

definition new_protocol_sock :: "string option \<Rightarrow> string \<Rightarrow> u32 \<Rightarrow> protocol_sock registry \<Rightarrow> protocol_sock registry" where
  "new_protocol_sock proto name fl =
     register (proto, name) (\<lambda>n. \<lparr> sock_proto = proto, sock_name = name, sock_flags = fl, sock_type = n \<rparr>)"

definition new_protocol_action :: "string option \<Rightarrow> string \<Rightarrow> 'cb option \<Rightarrow> 'cb protocol_action registry \<Rightarrow> 'cb protocol_action registry" where
  "new_protocol_action proto name cb =
     register (proto, name) (\<lambda>n. \<lparr> action_proto = proto, action_name = name, action_callback = cb, action_num = n \<rparr>)"

definition new_protocol_mask :: "string \<Rightarrow> string \<Rightarrow> protocol_mask registry \<Rightarrow> protocol_mask registry" where
  "new_protocol_mask proto name =
     register (Some proto, name) (\<lambda>n. \<lparr> mask_proto = proto, mask_name = name, mask_offset = n, mask_bits = push_bit n 1 \<rparr>)"

definition new_protocol_state :: "string option \<Rightarrow> string \<Rightarrow> 'cb option \<Rightarrow> 'cb protocol_state registry \<Rightarrow> 'cb protocol_state registry" where
  "new_protocol_state proto name cb =
     register (proto, name) (\<lambda>n. \<lparr> state_proto = proto, state_name = name, state_callback = cb, state_num = n \<rparr>)"

definition sock_to_string :: "protocol_sock \<Rightarrow> string" where
  "sock_to_string s = (case sock_proto s of None \<Rightarrow> sock_name s | Some p \<Rightarrow> p @ ''_sock_'' @ sock_name s)"

definition action_to_string :: "'cb protocol_action \<Rightarrow> string" where
  "action_to_string a = (case action_proto a of None \<Rightarrow> action_name a | Some p \<Rightarrow> p @ ''_action_'' @ action_name a)"

definition mask_to_string :: "protocol_mask \<Rightarrow> string" where
  "mask_to_string m = mask_proto m @ ''_mask_'' @ mask_name m"

definition state_to_string :: "'cb protocol_state \<Rightarrow> string" where
  "state_to_string s = (case state_proto s of None \<Rightarrow> state_name s | Some p \<Rightarrow> p @ ''_connection_'' @ state_name s)"

record protocol_message =
  msg_action :: int
  connection_num :: int

definition new_protocol_message :: protocol_message where
  "new_protocol_message = \<lparr> msg_action = - 1, connection_num = - 1 \<rparr>"

text \<open>The table of actions is read with a check, which throws an exception that nothing catches.\<close>

definition message_to_string :: "'cb protocol_action list \<Rightarrow> protocol_message \<Rightarrow> string conf" where
  "message_to_string actions msg =
     (if 0 \<le> msg_action msg \<and> nat (msg_action msg) < length actions
      then Inr (action_to_string (actions ! nat (msg_action msg)) @ '' connection-'' @ show_int (connection_num msg))
      else Inl Fatal_Exit)"

section \<open>Thread masks\<close>

fun split_char :: "char \<Rightarrow> string \<Rightarrow> string list" where
  "split_char c [] = [[]]"
| "split_char c (x # xs) = (if x = c then [] # split_char c xs else (case split_char c xs of [] \<Rightarrow> [[x]] | w # ws \<Rightarrow> (x # w) # ws))"

fun find_mask :: "protocol_mask list \<Rightarrow> string \<Rightarrow> string \<Rightarrow> u32" where
  "find_mask [] proto name = 0"
| "find_mask (ent # ents) proto name =
     (if mask_name ent = name \<and> proto = mask_proto ent then mask_bits ent else find_mask ents proto name)"

text \<open>One name of the list, as protocol and mask with a slash between them.\<close>

definition word_to_mask :: "string list \<Rightarrow> protocol_mask list \<Rightarrow> string \<Rightarrow> u32 conf" where
  "word_to_mask protos masks word =
     (case find_sub ''/'' word of
        None \<Rightarrow> Inl Fatal_Exit
      | Some colon \<Rightarrow>
          let proto_name = take colon word; mask_name = drop (colon + 1) word in
          if proto_name \<notin> set protos then Inl Fatal_Exit
          else
            let found = find_mask masks proto_name mask_name in
            if found \<noteq> 0 then Inr found else Inl Fatal_Exit)"

fun words_to_mask :: "string list \<Rightarrow> protocol_mask list \<Rightarrow> string list \<Rightarrow> u32 \<Rightarrow> u32 conf" where
  "words_to_mask protos masks [] thread_mask = Inr thread_mask"
| "words_to_mask protos masks (word # words) thread_mask =
     bind_conf (word_to_mask protos masks word) (\<lambda>found. words_to_mask protos masks words (thread_mask OR found))"

definition string_to_thread_mask :: "string list \<Rightarrow> protocol_mask list \<Rightarrow> string \<Rightarrow> u32 conf" where
  "string_to_thread_mask protos masks str = words_to_mask protos masks (split_char CHR '','' str) 0"

definition mask_word :: "protocol_mask \<Rightarrow> string" where
  "mask_word ent = mask_proto ent @ ''/'' @ mask_name ent"

definition thread_mask_to_string :: "protocol_mask list \<Rightarrow> u32 \<Rightarrow> string" where
  "thread_mask_to_string masks thread_mask =
     foldl (\<lambda>ss ent. if thread_mask AND mask_bits ent \<noteq> 0 then ss @ (if length ss > 0 then '','' else []) @ mask_word ent else ss) [] masks"

definition thread_mask_to_protocols :: "protocol_mask list \<Rightarrow> u32 \<Rightarrow> string list" where
  "thread_mask_to_protocols masks thread_mask =
     foldl (\<lambda>protos ent. if thread_mask AND mask_bits ent \<noteq> 0 \<and> mask_proto ent \<notin> set protos then protos @ [mask_proto ent] else protos) [] masks"

section \<open>Threads of the engine\<close>

text \<open>A thread is its position in \<^verbatim>\<open>threads_all\<close>, which has the masks.\<close>

record engine =
  threads_all :: "u32 list"
  threads_map :: "(u32 \<times> nat list) list"
  threads_next :: "(u32 \<times> nat) list"

definition new_engine :: engine where
  "new_engine = \<lparr> threads_all = [], threads_map = [], threads_next = [] \<rparr>"

definition add_role :: "nat \<Rightarrow> u32 \<Rightarrow> engine \<Rightarrow> engine" where
  "add_role t bits e =
     (let threads = (case map_of (threads_map e) bits of None \<Rightarrow> [] | Some ts \<Rightarrow> ts) in
      e\<lparr> threads_map := map_assign bits (threads @ [t]) (threads_map e),
         threads_next := map_insert bits 0 (threads_next e) \<rparr>)"

definition add_thread :: "protocol_mask list \<Rightarrow> u32 \<Rightarrow> engine \<Rightarrow> engine" where
  "add_thread masks thread_mask e =
     (let t = length (threads_all e) in
      fold (\<lambda>ent e. if thread_mask AND mask_bits ent \<noteq> 0 then add_role t (mask_bits ent) e else e) masks
        (e\<lparr> threads_all := threads_all e @ [thread_mask] \<rparr>))"

text \<open>The thread that is chosen, or a null pointer.\<close>

definition choose_thread :: "u32 \<Rightarrow> engine \<Rightarrow> (nat option \<times> engine) conf" where
  "choose_thread bits e =
     (case (map_of (threads_map e) bits, map_of (threads_next e) bits) of
        (Some threads, Some n) \<Rightarrow>
          if n < length threads
          then Inr (Some (threads ! n), e\<lparr> threads_next := map_assign bits (if n + 1 = length threads then 0 else n + 1) (threads_next e) \<rparr>)
          else Inl Fatal_Exit
      | _ \<Rightarrow> Inr (None, e))"

text \<open>A thread that plays the role itself is its own choice.\<close>

definition thread_choose_thread :: "nat \<Rightarrow> u32 \<Rightarrow> engine \<Rightarrow> (nat option \<times> engine) conf" where
  "thread_choose_thread t bits e =
     (if t < length (threads_all e) \<and> (threads_all e ! t) AND bits \<noteq> 0 then Inr (Some t, e) else choose_thread bits e)"

text \<open>The masks of the threads to start, from the configuration.\<close>

fun get_thread_masks :: "string list \<Rightarrow> protocol_mask list \<Rightarrow> (string \<times> nat) list \<Rightarrow> u32 list conf" where
  "get_thread_masks protos masks [] = Inr []"
| "get_thread_masks protos masks ((str, n) # threads) =
     bind_conf (if n = 0 then Inr [] else bind_conf (string_to_thread_mask protos masks str) (\<lambda>m. Inr (replicate n m))) (\<lambda>ms.
     bind_conf (get_thread_masks protos masks threads) (\<lambda>rest. Inr (ms @ rest)))"

definition get_all_threads_mask :: "string list \<Rightarrow> protocol_mask list \<Rightarrow> (string \<times> nat) list \<Rightarrow> u32 conf" where
  "get_all_threads_mask protos masks threads =
     bind_conf (get_thread_masks protos masks threads) (\<lambda>ms. Inr (foldr (OR) ms 0))"

section \<open>Messages\<close>

text \<open>
  Every thread has a socket, on which other threads put messages for it, and a queue for those that the
  socket had no room for. The handlers of messages are functions of the protocols; they act on the state
  \<open>'s\<close> and may send messages themselves.
\<close>

record mailbox =
  notify :: "protocol_message list"
  message_queue :: "protocol_message list"

record 's thread_net =
  boxes :: "mailbox list"
  net_state :: 's

datatype send_result = Sent | Would_Block | Send_Failed | Short_Write

type_synonym 's message_handler = "string \<Rightarrow> protocol_message \<Rightarrow> 's thread_net \<Rightarrow> 's thread_net conf"

text \<open>The protocol of the action, whose handler the message goes to.\<close>

definition dispatch_message :: "'cb protocol_action list \<Rightarrow> 's message_handler \<Rightarrow> protocol_message \<Rightarrow> 's thread_net \<Rightarrow> 's thread_net conf" where
  "dispatch_message actions handle_message msg s =
     (if msg_action msg < 0 then Inl (Broken OutOfBounds)
      else bind_conf (conf_of (index_cxx actions (nat (msg_action msg)))) (\<lambda>a.
        case action_proto a of None \<Rightarrow> Inl (Broken NullPointer) | Some proto \<Rightarrow> handle_message proto msg s))"

definition put_message :: "nat \<Rightarrow> (mailbox \<Rightarrow> mailbox) \<Rightarrow> 's thread_net \<Rightarrow> 's thread_net conf" where
  "put_message to_thread f s =
     bind_conf (conf_of (index_cxx (boxes s) to_thread)) (\<lambda>box. Inr (s\<lparr> boxes := (boxes s)[to_thread := f box] \<rparr>))"

definition queue_message :: "nat \<Rightarrow> protocol_message \<Rightarrow> 's thread_net \<Rightarrow> 's thread_net conf" where
  "queue_message to_thread msg = put_message to_thread (message_queue_update (\<lambda>q. q @ [msg]))"

text \<open>A thread handles a message to itself at once. A message for another thread is lost when the socket
  fails for another reason than a lack of room.\<close>

definition send_message ::
  "'cb protocol_action list \<Rightarrow> 's message_handler \<Rightarrow> nat \<Rightarrow> nat \<Rightarrow> send_result \<Rightarrow> protocol_message \<Rightarrow> 's thread_net \<Rightarrow> 's thread_net conf" where
  "send_message actions handle_message self to_thread r msg s =
     (if self = to_thread then dispatch_message actions handle_message msg s
      else
        (case r of
           Sent \<Rightarrow> put_message to_thread (notify_update (\<lambda>q. q @ [msg])) s
         | Would_Block \<Rightarrow> queue_message to_thread msg s
         | Send_Failed \<Rightarrow> Inr s
         | Short_Write \<Rightarrow> Inr s))"

datatype recv_result = Recv_Failed | Short_Read | Received

text \<open>The first message on the socket, when the read succeeds.\<close>

definition take_notify :: "nat \<Rightarrow> recv_result \<Rightarrow> 's thread_net \<Rightarrow> (protocol_message option \<times> 's thread_net) conf" where
  "take_notify self r s =
     bind_conf (conf_of (index_cxx (boxes s) self)) (\<lambda>box.
       case (r, notify box) of
         (Received, msg # rest) \<Rightarrow> Inr (Some msg, s\<lparr> boxes := (boxes s)[self := box\<lparr> notify := rest \<rparr>] \<rparr>)
       | _ \<Rightarrow> Inr (None, s))"

fun fold_conf :: "('s \<Rightarrow> 'e \<Rightarrow> 's conf) \<Rightarrow> 's \<Rightarrow> 'e list \<Rightarrow> 's conf" where
  "fold_conf f s [] = Inr s"
| "fold_conf f s (e # es) = bind_conf (f s e) (\<lambda>s. fold_conf f s es)"

text \<open>
  The thread holds the lock of its queue while it handles the messages on it, so that nothing is added
  to the queue in between: the loop is a fold over the queue.
\<close>

definition receive_message ::
  "'cb protocol_action list \<Rightarrow> 's message_handler \<Rightarrow> int \<Rightarrow> nat \<Rightarrow> recv_result \<Rightarrow> 's thread_net \<Rightarrow> 's thread_net conf" where
  "receive_message actions handle_message action_none self r s =
     bind_conf (take_notify self r s) (\<lambda>(received, s).
     bind_conf (case received of
         None \<Rightarrow> Inr s
       | Some msg \<Rightarrow> if msg_action msg = action_none then Inr s else dispatch_message actions handle_message msg s) (\<lambda>s.
     bind_conf (conf_of (index_cxx (boxes s) self)) (\<lambda>box.
       fold_conf (\<lambda>s msg. dispatch_message actions handle_message msg s)
         (s\<lparr> boxes := (boxes s)[self := box\<lparr> message_queue := [] \<rparr>] \<rparr>) (message_queue box))))"

section \<open>Events\<close>

text \<open>
  What a thread does with an object that is ready: the objects of the pollset have the number of a
  socket in the table of sockets, whose protocol has the functions.
\<close>

definition protocol_sock_unix_ipc :: u32 where "protocol_sock_unix_ipc = 2"
definition protocol_sock_tcp_listen :: u32 where "protocol_sock_tcp_listen = 4"
definition protocol_sock_tcp_connection :: u32 where "protocol_sock_tcp_connection = 8"

datatype thread_call = Receive_Message | Handle_Accept string | Handle_Connection string | Timeout_Connection string | No_Call

definition event_call :: "protocol_sock list \<Rightarrow> nat \<Rightarrow> nat \<Rightarrow> thread_call" where
  "event_call socks sock_ipc obj_type =
     (if obj_type = sock_ipc then Receive_Message
      else if obj_type < length socks
      then
        (case sock_proto (socks ! obj_type) of
           None \<Rightarrow> No_Call
         | Some proto \<Rightarrow>
             if sock_flags (socks ! obj_type) AND protocol_sock_tcp_listen \<noteq> 0 then Handle_Accept proto
             else if sock_flags (socks ! obj_type) AND protocol_sock_tcp_connection \<noteq> 0 then Handle_Connection proto
             else No_Call)
      else No_Call)"

definition timeout_call :: "protocol_sock list \<Rightarrow> nat \<Rightarrow> thread_call" where
  "timeout_call socks obj_type =
     (if obj_type < length socks
      then
        (case sock_proto (socks ! obj_type) of
           None \<Rightarrow> No_Call
         | Some proto \<Rightarrow>
             if sock_flags (socks ! obj_type) AND protocol_sock_tcp_connection \<noteq> 0 then Timeout_Connection proto else No_Call)
      else No_Call)"

text \<open>The test whether the connections are looked at for timeouts, with the time of the last check.\<close>

definition check_timeouts :: "config \<Rightarrow> int \<Rightarrow> int \<Rightarrow> bool \<times> int" where
  "check_timeouts cfg current_time timeout_check =
     (if current_time - timeout_check > min (connection_timeout cfg) (keepalive_timeout cfg) then (True, current_time) else (False, timeout_check))"

section \<open>Connections\<close>

text \<open>
  A connection is its position in the table. The functions of the class of connections are parameters;
  they act on the world \<open>'w\<close> too, where the descriptors are.
\<close>

record 'c connection_state =
  connections_all :: "'c list"
  connections_free :: "nat list"

type_synonym ('c, 'w) conn_op = "'c \<Rightarrow> 'w \<Rightarrow> ('c \<times> 'w) cxx"

fun init_connections :: "(nat \<Rightarrow> 'c) \<Rightarrow> ('c, 'w) conn_op \<Rightarrow> nat list \<Rightarrow> 'w \<Rightarrow> ('c list \<times> 'w) cxx" where
  "init_connections fresh conn_init [] w = Inr ([], w)"
| "init_connections fresh conn_init (i # is) w =
     bind_cxx (conn_init (fresh i) w) (\<lambda>(c, w). bind_cxx (init_connections fresh conn_init is w) (\<lambda>(cs, w). Inr (c # cs, w)))"

definition connection_state_init :: "(nat \<Rightarrow> 'c) \<Rightarrow> ('c, 'w) conn_op \<Rightarrow> nat \<Rightarrow> 'w \<Rightarrow> ('c connection_state \<times> 'w) cxx" where
  "connection_state_init fresh conn_init num_connections w =
     bind_cxx (init_connections fresh conn_init [0..<num_connections] w) (\<lambda>(cs, w).
       Inr (\<lparr> connections_all = cs, connections_free = [0..<num_connections] \<rparr>, w))"

definition on_connection :: "('c, 'w) conn_op \<Rightarrow> nat \<Rightarrow> 'c connection_state \<Rightarrow> 'w \<Rightarrow> ('c connection_state \<times> 'w) cxx" where
  "on_connection f i s w =
     bind_cxx (index_cxx (connections_all s) i) (\<lambda>c.
     bind_cxx (f c w) (\<lambda>(c, w). Inr (s\<lparr> connections_all := (connections_all s)[i := c] \<rparr>, w)))"

definition new_connection :: "('c, 'w) conn_op \<Rightarrow> 'c connection_state \<Rightarrow> 'w \<Rightarrow> (nat option \<times> 'c connection_state \<times> 'w) cxx" where
  "new_connection conn_init s w =
     (if length (connections_free s) > 0
      then
        let i = last (connections_free s) in
        bind_cxx (on_connection conn_init i (s\<lparr> connections_free := butlast (connections_free s) \<rparr>) w) (\<lambda>r. Inr (Some i, r))
      else Inr (None, s, w))"

definition free_connection :: "('c, 'w) conn_op \<Rightarrow> nat \<Rightarrow> 'c connection_state \<Rightarrow> 'w \<Rightarrow> ('c connection_state \<times> 'w) cxx" where
  "free_connection conn_free i s w =
     bind_cxx (on_connection conn_free i s w) (\<lambda>(s, w). Inr (s\<lparr> connections_free := connections_free s @ [i] \<rparr>, w))"

text \<open>Closing and aborting a connection are the same here.\<close>

definition close_connection :: "('c, 'w) conn_op \<Rightarrow> ('c, 'w) conn_op \<Rightarrow> nat \<Rightarrow> 'c connection_state \<Rightarrow> 'w \<Rightarrow> ('c connection_state \<times> 'w) cxx" where
  "close_connection conn_close conn_free i s w =
     bind_cxx (on_connection conn_close i s w) (\<lambda>(s, w). free_connection conn_free i s w)"

section \<open>Thread masks and their text\<close>

text \<open>What registration gives for the table of masks, and what the names have to be like.\<close>

definition masks_ok :: "string list \<Rightarrow> protocol_mask list \<Rightarrow> bool" where
  "masks_ok protos masks \<longleftrightarrow> length masks \<le> 32 \<and>
     list_all (\<lambda>(i, ent). mask_bits ent = push_bit i 1) (zip [0..<length masks] masks) \<and>
     distinct (map (\<lambda>ent. (mask_proto ent, mask_name ent)) masks) \<and>
     list_all (\<lambda>ent. mask_proto ent \<in> set protos \<and> CHR '','' \<notin> set (mask_proto ent) \<and> CHR ''/'' \<notin> set (mask_proto ent) \<and>
       CHR '','' \<notin> set (mask_name ent)) masks"

lemma split_char_plain: "c \<notin> set w \<Longrightarrow> split_char c w = [w]"
  by (induction w) auto

lemma split_char_append: "c \<notin> set w \<Longrightarrow> split_char c (w @ c # s) = w # split_char c s"
  by (induction w) auto

lemma split_joined:
  "c \<notin> set w \<Longrightarrow> list_all (\<lambda>v. c \<notin> set v) ws \<Longrightarrow> split_char c (w @ concat (map (Cons c) ws)) = w # ws"
  by (induction ws arbitrary: w) (simp_all add: split_char_plain split_char_append)

lemma to_string_nonempty:
  "ss \<noteq> [] \<Longrightarrow>
    foldl (\<lambda>ss ent. if m AND mask_bits ent \<noteq> 0 then ss @ (if length ss > 0 then '','' else []) @ mask_word ent else ss) ss masks =
    ss @ concat (map (Cons CHR '','') (map mask_word (filter (\<lambda>ent. m AND mask_bits ent \<noteq> 0) masks)))"
  by (induction masks arbitrary: ss) auto

lemma to_string_joined:
  assumes "filter (\<lambda>ent. m AND mask_bits ent \<noteq> 0) masks = ent # ents"
  shows "thread_mask_to_string masks m = mask_word ent @ concat (map (Cons CHR '','') (map mask_word ents))"
  using assms
proof (induction masks)
  case (Cons e masks)
  show ?case
  proof (cases "m AND mask_bits e \<noteq> 0")
    case True
    then have "e = ent" "filter (\<lambda>ent. m AND mask_bits ent \<noteq> 0) masks = ents"
      using Cons.prems by auto
    moreover have "mask_word e \<noteq> []"
      by (simp add: mask_word_def)
    ultimately show ?thesis
      using True to_string_nonempty [of "mask_word e" m masks] by (simp add: thread_mask_to_string_def)
  next
    case False
    then show ?thesis
      using Cons by (simp add: thread_mask_to_string_def)
  qed
qed simp

lemma find_mask_found:
  assumes "distinct (map (\<lambda>ent. (mask_proto ent, mask_name ent)) masks)" "ent \<in> set masks"
  shows "find_mask masks (mask_proto ent) (mask_name ent) = mask_bits ent"
  using assms
proof (induction masks)
  case (Cons e masks)
  have "e = ent" if "mask_name e = mask_name ent" "mask_proto ent = mask_proto e" "ent \<in> set (e # masks)"
    using Cons.prems(1) that by (auto simp: image_iff)
  then show ?case
    using Cons by auto
qed simp

lemma masks_okD:
  assumes "masks_ok protos masks" "i < length masks"
  shows "mask_bits (masks ! i) = push_bit i 1" "i < 32"
  using assms by (auto simp: masks_ok_def list_all_length)

lemma bit_single: "bit (push_bit i 1 :: u32) n \<longleftrightarrow> n = i \<and> i < 32"
  by (auto simp: bit_exp_iff)

lemma mask_bits_nonzero:
  assumes "masks_ok protos masks" "ent \<in> set masks"
  shows "mask_bits ent \<noteq> 0"
proof -
  obtain i where "i < length masks" "ent = masks ! i"
    using assms(2) by (auto simp: in_set_conv_nth)
  then have "bit (mask_bits ent) i"
    using masks_okD [OF assms(1)] by (simp add: bit_single del: push_bit_of_1)
  then show ?thesis
    by auto
qed

lemma word_to_mask_word:
  assumes "masks_ok protos masks" "ent \<in> set masks"
  shows "word_to_mask protos masks (mask_word ent) = Inr (mask_bits ent)"
proof -
  have "CHR ''/'' \<notin> set (mask_proto ent)" "mask_proto ent \<in> set protos"
    using assms by (auto simp: masks_ok_def list_all_iff)
  moreover have "find_mask masks (mask_proto ent) (mask_name ent) = mask_bits ent"
    using assms by (intro find_mask_found) (simp_all add: masks_ok_def)
  ultimately show ?thesis
    using find_char [of "CHR ''/''" "mask_proto ent" "mask_name ent"] mask_bits_nonzero [OF assms]
    by (simp add: word_to_mask_def mask_word_def)
qed

lemma words_to_mask_words:
  assumes "masks_ok protos masks" "set ents \<subseteq> set masks"
  shows "words_to_mask protos masks (map mask_word ents) acc = Inr (foldl (OR) acc (map mask_bits ents))"
  using assms(2) by (induction ents arbitrary: acc) (simp_all add: word_to_mask_word [OF assms(1)])

lemma bit_foldl_or: "bit (foldl (OR) acc xs) n \<longleftrightarrow> bit acc n \<or> (\<exists>x\<in>set xs. bit x n)" for acc :: u32
  by (induction xs arbitrary: acc) (auto simp: bit_or_iff)

lemma and_single_bit:
  fixes m :: u32
  assumes "n < 32"
  shows "m AND push_bit n 1 \<noteq> 0 \<longleftrightarrow> bit m n"
proof -
  have "m AND push_bit n 1 = (if bit m n then push_bit n 1 else 0)"
    by (rule bit_word_eqI) (auto simp: bit_and_iff bit_single simp del: push_bit_of_1)
  moreover have "bit (push_bit n 1 :: u32) n"
    using assms by (simp add: bit_single del: push_bit_of_1)
  ultimately show ?thesis
    by (metis bit_0_eq bot_apply bot_bool_def)
qed

lemma foldl_or_masks:
  assumes "masks_ok protos masks" "\<And>n. bit m n \<Longrightarrow> n < length masks"
  shows "foldl (OR) 0 (map mask_bits (filter (\<lambda>ent. m AND mask_bits ent \<noteq> 0) masks)) = m"
proof (rule bit_word_eqI)
  fix n
  show "bit (foldl (OR) 0 (map mask_bits (filter (\<lambda>ent. m AND mask_bits ent \<noteq> 0) masks))) n \<longleftrightarrow> bit m n"
  proof
    assume "bit (foldl (OR) 0 (map mask_bits (filter (\<lambda>ent. m AND mask_bits ent \<noteq> 0) masks))) n"
    then obtain ent where ent: "ent \<in> set masks" "m AND mask_bits ent \<noteq> 0" "bit (mask_bits ent) n"
      by (auto simp: bit_foldl_or)
    then obtain i where i: "i < length masks" "ent = masks ! i"
      by (auto simp: in_set_conv_nth)
    then have "n = i"
      using ent(3) masks_okD [OF assms(1)] by (auto simp: bit_single simp del: push_bit_of_1)
    then show "bit m n"
      using ent(2) i masks_okD [OF assms(1) i(1)] and_single_bit by (simp del: push_bit_of_1)
  next
    assume "bit m n"
    moreover from this have n: "n < length masks"
      by (rule assms(2))
    ultimately have "m AND mask_bits (masks ! n) \<noteq> 0" "bit (mask_bits (masks ! n)) n"
      using masks_okD [OF assms(1) n] and_single_bit by (simp_all add: bit_single del: push_bit_of_1)
    with n show "bit (foldl (OR) 0 (map mask_bits (filter (\<lambda>ent. m AND mask_bits ent \<noteq> 0) masks))) n"
      by (auto simp: bit_foldl_or intro!: exI [of _ "masks ! n"])
  qed
qed

text \<open>C29. The text of a thread mask is read back as that mask, for every mask that is not empty and has only
  registered roles.\<close>

theorem thread_mask_roundtrip:
  assumes "masks_ok protos masks" "m \<noteq> 0" "\<forall>n. bit m n \<longrightarrow> n < length masks"
  shows "string_to_thread_mask protos masks (thread_mask_to_string masks m) = Inr m"
proof -
  let ?sel = "filter (\<lambda>ent. m AND mask_bits ent \<noteq> 0) masks"
  have m: "foldl (OR) 0 (map mask_bits ?sel) = m"
    using foldl_or_masks [OF assms(1)] assms(3) by blast
  then obtain ent ents where sel: "?sel = ent # ents"
    using assms(2) by (cases ?sel) auto
  have "\<forall>e\<in>set ?sel. CHR '','' \<notin> set (mask_word e)"
    using assms(1) by (auto simp: masks_ok_def list_all_iff mask_word_def)
  then have "split_char CHR '','' (thread_mask_to_string masks m) = map mask_word ?sel"
    unfolding to_string_joined [OF sel] sel using split_joined [of "CHR '',''" "mask_word ent" "map mask_word ents"]
    by (simp add: list_all_iff)
  then have "string_to_thread_mask protos masks (thread_mask_to_string masks m) = words_to_mask protos masks (map mask_word ?sel) 0"
    by (simp add: string_to_thread_mask_def)
  also have "\<dots> = Inr (foldl (OR) 0 (map mask_bits ?sel))"
    by (rule words_to_mask_words [OF assms(1)]) auto
  finally show ?thesis
    by (simp add: m)
qed

definition example_masks :: "protocol_mask registry" where
  "example_masks = new_protocol_mask ''http_server'' ''router'' (new_protocol_mask ''http_server'' ''listener'' \<lparr> reg_table = [], reg_map = [] \<rparr>)"

theorem thread_mask_roundtrip_witness:
  "string_to_thread_mask protocol_names (reg_table example_masks) (thread_mask_to_string (reg_table example_masks) 3) = Inr 3"
proof (rule thread_mask_roundtrip)
  show "masks_ok protocol_names (reg_table example_masks)"
    by code_simp
  show "\<forall>n. bit (3 :: u32) n \<longrightarrow> n < length (reg_table example_masks)"
    by (auto simp: example_masks_def new_protocol_mask_def register_def Let_def bit_numeral_rec bit_1_iff numeral_eq_Suc split: nat.splits)
qed simp

section \<open>Threads are chosen in turn\<close>

definition start_engine :: "protocol_mask list \<Rightarrow> u32 list \<Rightarrow> engine" where
  "start_engine masks ms = fold (add_thread masks) ms new_engine"

fun choose_all :: "u32 list \<Rightarrow> engine \<Rightarrow> (nat option list \<times> engine) conf" where
  "choose_all [] e = Inr ([], e)"
| "choose_all (b # bs) e =
     bind_conf (choose_thread b e) (\<lambda>(t, e). bind_conf (choose_all bs e) (\<lambda>(ts, e). Inr (t # ts, e)))"

text \<open>The threads with a role, in the order in which they were added.\<close>

definition role_threads :: "u32 list \<Rightarrow> u32 \<Rightarrow> nat list" where
  "role_threads ms b = filter (\<lambda>t. ms ! t AND b \<noteq> 0) [0..<length ms]"

definition some_list :: "'a list \<Rightarrow> 'a list option" where
  "some_list xs = (if xs = [] then None else Some xs)"

fun turn_fits :: "nat list option \<Rightarrow> nat option \<Rightarrow> bool" where
  "turn_fits None n \<longleftrightarrow> n = None"
| "turn_fits (Some ts) None \<longleftrightarrow> False"
| "turn_fits (Some ts) (Some n) \<longleftrightarrow> n < length ts"

definition turn_ok :: "engine \<Rightarrow> bool" where
  "turn_ok e \<longleftrightarrow> (\<forall>b. turn_fits (map_of (threads_map e) b) (map_of (threads_next e) b))"

lemma turn_okD: "turn_ok e \<Longrightarrow> turn_fits (map_of (threads_map e) b) (map_of (threads_next e) b)"
  by (simp add: turn_ok_def)

lemma turn_fits_SomeD: "turn_fits (Some ts) n \<Longrightarrow> \<exists>k. n = Some k \<and> k < length ts"
  by (cases n) auto

lemma map_of_map_assign: "map_of (map_assign k v kvs) x = (if x = k then Some v else map_of kvs x)"
  by (induction kvs) auto

lemma add_role_map:
  "map_of (threads_map (add_role t b e)) x =
     (if x = b then Some ((case map_of (threads_map e) b of None \<Rightarrow> [] | Some ts \<Rightarrow> ts) @ [t]) else map_of (threads_map e) x)"
  "map_of (threads_next (add_role t b e)) x = (if x = b \<and> map_of (threads_next e) b = None then Some 0 else map_of (threads_next e) x)"
  by (auto simp: add_role_def Let_def map_of_map_assign map_of_map_insert)

lemma add_role_turn_ok: "turn_ok e \<Longrightarrow> turn_ok (add_role t b e)"
proof -
  assume ok: "turn_ok e"
  have "turn_fits (map_of (threads_map (add_role t b e)) x) (map_of (threads_next (add_role t b e)) x)" for x
    using turn_okD [OF ok, of x] unfolding add_role_map
    by (cases "map_of (threads_map e) x"; cases "map_of (threads_next e) x") auto
  then show ?thesis
    by (simp add: turn_ok_def)
qed

lemma add_roles_map:
  assumes "distinct (map mask_bits masks)"
  shows "map_of (threads_map (fold (\<lambda>ent e. if m AND mask_bits ent \<noteq> 0 then add_role t (mask_bits ent) e else e) masks e)) x =
     (if x \<in> mask_bits ` set masks \<and> m AND x \<noteq> 0 then Some ((case map_of (threads_map e) x of None \<Rightarrow> [] | Some ts \<Rightarrow> ts) @ [t])
      else map_of (threads_map e) x)"
  using assms by (induction masks arbitrary: e) (auto simp: add_role_map split: option.splits)

lemma add_role_next: "\<forall>b. map_of (threads_next e) b \<in> {None, Some 0} \<Longrightarrow> \<forall>x. map_of (threads_next (add_role t b e)) x \<in> {None, Some 0}"
  by (simp add: add_role_map(2))

lemma add_roles_next:
  assumes "\<forall>b. map_of (threads_next e) b \<in> {None, Some 0}"
  shows "\<forall>b. map_of (threads_next (fold (\<lambda>ent e. if m AND mask_bits ent \<noteq> 0 then add_role t (mask_bits ent) e else e) masks e)) b \<in> {None, Some 0}"
  using assms
proof (induction masks arbitrary: e)
  case (Cons ent masks)
  then show ?case
    by (cases "m AND mask_bits ent = 0") (simp_all add: add_role_next del: insert_iff)
qed simp

lemma add_roles_turn_ok:
  "turn_ok e \<Longrightarrow> turn_ok (fold (\<lambda>ent e. if m AND mask_bits ent \<noteq> 0 then add_role t (mask_bits ent) e else e) masks e)"
  by (induction masks arbitrary: e) (auto simp: add_role_turn_ok)

lemma masks_ok_distinct: "masks_ok protos masks \<Longrightarrow> distinct (map mask_bits masks)"
  by (auto simp: distinct_conv_nth masks_okD simp del: push_bit_of_1) (metis bit_single masks_okD)

definition engine_ok :: "protocol_mask list \<Rightarrow> u32 list \<Rightarrow> engine \<Rightarrow> bool" where
  "engine_ok masks ms e \<longleftrightarrow> length (threads_all e) = length ms \<and> turn_ok e \<and> (\<forall>b. map_of (threads_next e) b \<in> {None, Some 0}) \<and>
     (\<forall>b \<in> mask_bits ` set masks. map_of (threads_map e) b = some_list (role_threads ms b))"

lemma start_engine_ok:
  assumes "masks_ok protos masks"
  shows "engine_ok masks ms (start_engine masks ms)"
  unfolding engine_ok_def
proof (induction ms rule: rev_induct)
  case Nil
  then show ?case
    by (simp add: start_engine_def new_engine_def turn_ok_def some_list_def role_threads_def)
next
  case (snoc m ms)
  let ?e = "start_engine masks ms" and ?step = "\<lambda>ent e. if m AND mask_bits ent \<noteq> 0 then add_role (length ms) (mask_bits ent) e else e"
  let ?e1 = "?e\<lparr> threads_all := threads_all ?e @ [m] \<rparr>"
  have step: "start_engine masks (ms @ [m]) = fold ?step masks ?e1"
    using snoc by (simp add: start_engine_def add_thread_def)
  have all: "threads_all (fold ?step masks e) = threads_all e" for e
    by (induction masks arbitrary: e) (simp_all add: add_role_def Let_def)
  have roles: "role_threads (ms @ [m]) b = role_threads ms b @ (if m AND b \<noteq> 0 then [length ms] else [])" for b
    by (auto simp: role_threads_def nth_append intro!: filter_cong)
  have e1: "turn_ok ?e1" "\<forall>b. map_of (threads_next ?e1) b \<in> {None, Some 0}"
    using snoc by (auto simp: turn_ok_def)
  have keep: "turn_ok (fold ?step masks ?e1)" "\<forall>b. map_of (threads_next (fold ?step masks ?e1)) b \<in> {None, Some 0}"
    by (rule add_roles_turn_ok [OF e1(1)], rule add_roles_next [OF e1(2)])
  have "map_of (threads_map (fold ?step masks ?e1)) b = some_list (role_threads (ms @ [m]) b)" if "b \<in> mask_bits ` set masks" for b
  proof -
    have "map_of (threads_map ?e1) b = some_list (role_threads ms b)"
      using snoc that by auto
    then show ?thesis
      using that by (simp add: add_roles_map [OF masks_ok_distinct [OF assms]] roles some_list_def)
  qed
  then show ?case
    unfolding step using keep snoc all by simp
qed

definition in_turn :: "u32 \<Rightarrow> nat list \<Rightarrow> nat \<Rightarrow> u32 list \<Rightarrow> nat option list \<Rightarrow> bool" where
  "in_turn b ts n bs rs \<longleftrightarrow> length rs = length bs \<and>
     (\<forall>i < length bs. bs ! i = b \<longrightarrow> rs ! i = Some (ts ! ((n + count_list (take i bs) b) mod length ts)))"

lemma in_turn_Cons:
  assumes "in_turn b ts n' bs rs" "c = b \<Longrightarrow> r = Some (ts ! (n mod length ts))"
    "\<And>k. (n' + k) mod length ts = (n + (if c = b then 1 else 0) + k) mod length ts"
  shows "in_turn b ts n (c # bs) (r # rs)"
proof -
  have "(r # rs) ! i = Some (ts ! ((n + count_list (take i (c # bs)) b) mod length ts))" if "i < length (c # bs)" "(c # bs) ! i = b" for i
  proof (cases i)
    case 0
    with assms(2) that show ?thesis by simp
  next
    case (Suc j)
    then show ?thesis
      using assms(1,3) that by (auto simp: in_turn_def add.assoc)
  qed
  with assms(1) show ?thesis
    by (simp add: in_turn_def)
qed

lemma choose_all_turn:
  assumes "turn_ok e" "map_of (threads_map e) b = Some ts" "map_of (threads_next e) b = Some n"
  shows "\<exists>rs e'. choose_all bs e = Inr (rs, e') \<and> in_turn b ts n bs rs"
  using assms
proof (induction bs arbitrary: e n)
  case (Cons c bs)
  have n: "n < length ts"
    using turn_okD [OF Cons.prems(1), of b] Cons.prems(2,3) by simp
  show ?case
  proof (cases "map_of (threads_map e) c")
    case None
    then have "choose_thread c e = Inr (None, e)" "c \<noteq> b"
      using Cons.prems by (auto simp: choose_thread_def)
    with Cons.IH [OF Cons.prems] show ?thesis
      by (auto intro!: in_turn_Cons)
  next
    case (Some us)
    then obtain k where k: "map_of (threads_next e) c = Some k" "k < length us"
      using turn_okD [OF Cons.prems(1), of c] turn_fits_SomeD by auto
    let ?k = "if k + 1 = length us then 0 else k + 1" and ?n = "if n + 1 = length ts then 0 else n + 1"
    let ?e = "e\<lparr> threads_next := map_assign c ?k (threads_next e) \<rparr>"
    have choose: "choose_thread c e = Inr (Some (us ! k), ?e)"
      using Some k by (simp add: choose_thread_def)
    have ok: "turn_ok ?e"
      using Cons.prems(1) Some k by (auto simp: turn_ok_def map_of_map_assign)
    have same: "us = ts \<and> k = n" if "c = b"
      using that Some k(1) Cons.prems(2,3) by auto
    have "map_of (threads_next ?e) b = Some (if c = b then ?n else n)"
      using same Cons.prems(3) by (auto simp: map_of_map_assign)
    from Cons.IH [OF ok _ this] Cons.prems(2) obtain rs e' where "choose_all bs ?e = Inr (rs, e')"
        "in_turn b ts (if c = b then ?n else n) bs rs"
      by auto
    moreover have wrap: "Suc (n + k) mod length ts = k mod length ts" if "Suc n = length ts" for k
      using mod_add_self1 [of "length ts" k] by (simp add: that [symmetric])
    moreover from calculation(2) have "in_turn b ts n (c # bs) (Some (us ! k) # rs)"
      by (rule in_turn_Cons) (use same n wrap in auto)
    ultimately show ?thesis
      using choose by auto
  qed
qed (simp add: in_turn_def)

text \<open>C28. However the choices of roles are mixed, the threads that play a role are given out in turn: the request for a role that
  follows \<open>k\<close> earlier requests for it gets the thread at position \<open>k\<close>, modulo their number, of the threads
  that were started with that role. So no thread waits longer than the others take one turn each.\<close>

theorem choose_thread_fair:
  assumes "masks_ok protos masks" "b \<in> mask_bits ` set masks" "role_threads ms b \<noteq> []"
  shows "\<exists>rs e. choose_all bs (start_engine masks ms) = Inr (rs, e) \<and> length rs = length bs \<and>
    (\<forall>i < length bs. bs ! i = b \<longrightarrow>
      rs ! i = Some (role_threads ms b ! (count_list (take i bs) b mod length (role_threads ms b))))"
proof -
  let ?e = "start_engine masks ms"
  have e: "turn_ok ?e" "map_of (threads_map ?e) b = Some (role_threads ms b)" "map_of (threads_next ?e) b \<in> {None, Some 0}"
    using start_engine_ok [OF assms(1), of ms] assms(2,3) by (auto simp: engine_ok_def some_list_def)
  then have "map_of (threads_next ?e) b = Some 0"
    using turn_okD [OF e(1), of b] by auto
  from choose_all_turn [OF e(1,2) this, of bs] show ?thesis
    by (simp add: in_turn_def)
qed

theorem choose_thread_fair_witness:
  "\<exists>rs e. choose_all [2, 1, 2] (start_engine (reg_table example_masks) [3, 2]) = Inr (rs, e) \<and> rs ! 0 = Some 0 \<and> rs ! 2 = Some 1"
proof -
  have masks: "masks_ok protocol_names (reg_table example_masks)" "2 \<in> mask_bits ` set (reg_table example_masks)"
    and roles: "role_threads [3, 2] 2 = [0, 1]" "count_list (take 2 [2, 1, 2]) (2 :: u32) = 1"
    by code_simp+
  obtain rs e where rs: "choose_all [2, 1, 2] (start_engine (reg_table example_masks) [3, 2]) = Inr (rs, e)"
      "\<forall>i < length [2, 1, 2 :: u32]. [2, 1, 2 :: u32] ! i = 2 \<longrightarrow>
        rs ! i = Some (role_threads [3, 2] 2 ! (count_list (take i [2, 1, 2]) (2 :: u32) mod length (role_threads [3, 2] 2)))"
    using choose_thread_fair [OF masks, of "[3, 2]" "[2, 1, 2]"] roles(1) by (metis list.distinct(1))
  have "rs ! 0 = Some 0" "rs ! 2 = Some 1"
    using rs(2) [rule_format, of 0] rs(2) [rule_format, of 2] roles by simp_all
  with rs(1) show ?thesis
    by blast
qed

end
