(* ===== verification/Connection.thy ===== *)
theory Connection
  imports Io_Ring Socket_Addr
begin

text \<open>
  \<^verbatim>\<open>src/connection.cc\<close> and the operations of \<^verbatim>\<open>src/socket_tcp.cc\<close> and \<^verbatim>\<open>src/socket_tls.cc\<close> that it calls: a
  connection of the server or of the client with its socket. The calls of the system are parameters
  that act on a world \<open>'w\<close>; those of the TLS library are too.
\<close>

section \<open>The system\<close>

text \<open>
  Reading and writing are the calls with the loop that repeats them while they would block. The
  options and \<^verbatim>\<open>shutdown\<close> report success.
\<close>

datatype sock_option = TCP_NOPUSH | TCP_NODELAY

record 'w system =
  sys_read :: "int \<Rightarrow> 'w read_op"
  sys_write :: "int \<Rightarrow> 'w write_op"
  sys_setsockopt :: "int \<Rightarrow> sock_option \<Rightarrow> bool \<Rightarrow> 'w \<Rightarrow> bool \<times> 'w"
  sys_shutdown :: "int \<Rightarrow> 'w \<Rightarrow> bool \<times> 'w"
  sys_close :: "int \<Rightarrow> 'w \<Rightarrow> 'w"
  ssl_new :: "'w \<Rightarrow> bool \<times> 'w"
  ssl_do_handshake :: "int \<Rightarrow> 'w \<Rightarrow> int \<times> 'w"
  ssl_read :: "int \<Rightarrow> 'w read_op"
  ssl_write :: "int \<Rightarrow> 'w write_op"

section \<open>Sockets\<close>

text \<open>The two classes differ in the TLS context and session, which are there or not.\<close>

record connected_socket =
  conn_mode :: socket_mode
  conn_fd :: int
  lingering_close :: bool
  nopush_set :: bool
  nodelay_set :: bool
  tls_ctx :: bool
  tls_ssl :: bool

definition new_connected_socket :: "socket_mode \<Rightarrow> connected_socket" where
  "new_connected_socket mode =
     \<lparr> conn_mode = mode, conn_fd = - 1, lingering_close = False, nopush_set = False, nodelay_set = False, tls_ctx = False, tls_ssl = False \<rparr>"

definition socket_set_fd :: "'w system \<Rightarrow> int \<Rightarrow> connected_socket \<Rightarrow> 'w \<Rightarrow> connected_socket \<times> 'w" where
  "socket_set_fd sys desc s w =
     (if desc \<noteq> conn_fd s then (s\<lparr> conn_fd := desc \<rparr>, if conn_fd s \<ge> 0 then sys_close sys (conn_fd s) w else w) else (s, w))"

definition socket_set_context :: "bool \<Rightarrow> connected_socket \<Rightarrow> connected_socket" where
  "socket_set_context ctx s = (case conn_mode s of socket_mode_plain \<Rightarrow> s | socket_mode_tls \<Rightarrow> s\<lparr> tls_ctx := ctx \<rparr>)"

definition socket_accept :: "'w system \<Rightarrow> int \<Rightarrow> connected_socket \<Rightarrow> 'w \<Rightarrow> bool \<times> connected_socket \<times> 'w" where
  "socket_accept sys desc s w =
     (case conn_mode s of
        socket_mode_plain \<Rightarrow> (True, socket_set_fd sys desc s w)
      | socket_mode_tls \<Rightarrow>
          if \<not> tls_ctx s then (False, s, w)
          else
            let (ok, w) = (if tls_ssl s then (True, w) else ssl_new sys w) in
            if \<not> ok then (False, s, w)
            else (True, socket_set_fd sys desc (s\<lparr> tls_ssl := True \<rparr>) w))"

definition socket_do_handshake :: "'w system \<Rightarrow> connected_socket \<Rightarrow> 'w \<Rightarrow> (int \<times> 'w) cxx" where
  "socket_do_handshake sys s w =
     (case conn_mode s of
        socket_mode_plain \<Rightarrow> Inr (0, w)
      | socket_mode_tls \<Rightarrow> if tls_ssl s then Inr (ssl_do_handshake sys (conn_fd s) w) else Inl AssertFailed)"

definition socket_set_nopush :: "'w system \<Rightarrow> bool \<Rightarrow> connected_socket \<Rightarrow> 'w \<Rightarrow> bool \<times> connected_socket \<times> 'w" where
  "socket_set_nopush sys v s w =
     (if nopush_set s = v then (True, s, w)
      else let (ok, w) = sys_setsockopt sys (conn_fd s) TCP_NOPUSH v w in
        if ok then (True, s\<lparr> nopush_set := v \<rparr>, w) else (False, s, w))"

definition socket_set_nodelay :: "'w system \<Rightarrow> bool \<Rightarrow> connected_socket \<Rightarrow> 'w \<Rightarrow> bool \<times> connected_socket \<times> 'w" where
  "socket_set_nodelay sys v s w =
     (if nodelay_set s = v then (True, s, w)
      else let (ok, w) = sys_setsockopt sys (conn_fd s) TCP_NODELAY v w in
        if ok then (True, s\<lparr> nodelay_set := v \<rparr>, w) else (False, s, w))"

text \<open>When the shutdown fails the descriptor is closed and kept.\<close>

definition socket_start_lingering_close :: "'w system \<Rightarrow> connected_socket \<Rightarrow> 'w \<Rightarrow> bool \<times> connected_socket \<times> 'w" where
  "socket_start_lingering_close sys s w =
     (if lingering_close s then (True, s, w)
      else let (ok, w) = sys_shutdown sys (conn_fd s) w in
        if ok then (True, s\<lparr> lingering_close := True \<rparr>, w) else (False, s, sys_close sys (conn_fd s) w))"

definition socket_read :: "'w system \<Rightarrow> connected_socket \<Rightarrow> 'w read_op" where
  "socket_read sys s w buf len =
     (case conn_mode s of
        socket_mode_plain \<Rightarrow> sys_read sys (conn_fd s) w buf len
      | socket_mode_tls \<Rightarrow> if tls_ssl s then ssl_read sys (conn_fd s) w buf len else Inl AssertFailed)"

definition socket_write :: "'w system \<Rightarrow> connected_socket \<Rightarrow> 'w write_op" where
  "socket_write sys s w buf =
     (case conn_mode s of
        socket_mode_plain \<Rightarrow> sys_write sys (conn_fd s) w buf
      | socket_mode_tls \<Rightarrow> if tls_ssl s then ssl_write sys (conn_fd s) w buf else Inl AssertFailed)"

text \<open>The destructor.\<close>

definition socket_destroy :: "'w system \<Rightarrow> connected_socket \<Rightarrow> 'w \<Rightarrow> 'w" where
  "socket_destroy sys s w = (if conn_fd s \<ge> 0 then sys_close sys (conn_fd s) w else w)"

section \<open>Connections\<close>

text \<open>
  The members \<^verbatim>\<open>nopush\<close> and \<^verbatim>\<open>nodelay\<close> are signed bit-fields of one bit, which have the values 0 and -1. The
  accessors for the two addresses return each the other member.
\<close>

definition zero_addr :: socket_addr where
  "zero_addr = \<lparr> family = AF_UNSPEC, sin_port = 0, sin_addr = [], sin6_flowinfo = 0, sin6_scope_id = 0 \<rparr>"

definition bitfield :: "int \<Rightarrow> int" where
  "bitfield v = (if odd v then - 1 else 0)"

record connection =
  conn_id :: int
  last_activity :: int
  local_addr :: socket_addr
  peer_addr :: socket_addr
  sock :: "connected_socket option"
  nopush :: int
  nodelay :: int

definition new_connection_object :: connection where
  "new_connection_object = \<lparr> conn_id = - 1, last_activity = 0, local_addr = zero_addr, peer_addr = zero_addr, sock = None, nopush = 0, nodelay = 0 \<rparr>"

definition conn_close :: "'w system \<Rightarrow> connection \<Rightarrow> 'w \<Rightarrow> connection \<times> 'w" where
  "conn_close sys c w =
     (case sock c of None \<Rightarrow> (c, w) | Some s \<Rightarrow> (c\<lparr> nopush := 0, nodelay := 0, sock := None \<rparr>, socket_destroy sys s w))"

definition conn_reset :: "'w system \<Rightarrow> connection \<Rightarrow> 'w \<Rightarrow> connection \<times> 'w" where
  "conn_reset sys c w =
     (let (c, w) = conn_close sys c w in (c\<lparr> last_activity := 0, local_addr := zero_addr, peer_addr := zero_addr \<rparr>, w))"

definition get_poll_fd :: "connection \<Rightarrow> int" where
  "get_poll_fd c = (case sock c of None \<Rightarrow> - 1 | Some s \<Rightarrow> conn_fd s)"

text \<open>The new socket replaces one that may be there, whose destructor runs.\<close>

definition take_socket :: "'w system \<Rightarrow> connected_socket \<Rightarrow> connection \<Rightarrow> 'w \<Rightarrow> connection \<times> 'w" where
  "take_socket sys s c w =
     (c\<lparr> nopush := 0, nodelay := 0, sock := Some s \<rparr>, case sock c of None \<Rightarrow> w | Some old \<Rightarrow> socket_destroy sys old w)"

definition conn_accept :: "'w system \<Rightarrow> int \<Rightarrow> connection \<Rightarrow> 'w \<Rightarrow> connection \<times> 'w" where
  "conn_accept sys desc c w =
     (let (c, w) = take_socket sys (new_connected_socket socket_mode_plain) c w;
          (ok, s, w) = socket_accept sys desc (new_connected_socket socket_mode_plain) w in
      (c\<lparr> sock := Some s \<rparr>, w))"

definition conn_accept_tls :: "'w system \<Rightarrow> int \<Rightarrow> bool \<Rightarrow> connection \<Rightarrow> 'w \<Rightarrow> connection \<times> 'w" where
  "conn_accept_tls sys desc ctx c w =
     (let (c, w) = take_socket sys (new_connected_socket socket_mode_tls) c w;
          (ok, s, w) = socket_accept sys desc (socket_set_context ctx (new_connected_socket socket_mode_tls)) w in
      (c\<lparr> sock := Some s \<rparr>, w))"

definition conn_set_nopush :: "'w system \<Rightarrow> int \<Rightarrow> connection \<Rightarrow> 'w \<Rightarrow> connection \<times> 'w" where
  "conn_set_nopush sys v c w =
     (case sock c of
        None \<Rightarrow> (c, w)
      | Some s \<Rightarrow>
          if nopush c \<noteq> v
          then let (ok, s, w) = socket_set_nopush sys (v \<noteq> 0) s w in (c\<lparr> sock := Some s, nopush := bitfield v \<rparr>, w)
          else (c, w))"

definition conn_set_nodelay :: "'w system \<Rightarrow> int \<Rightarrow> connection \<Rightarrow> 'w \<Rightarrow> connection \<times> 'w" where
  "conn_set_nodelay sys v c w =
     (case sock c of
        None \<Rightarrow> (c, w)
      | Some s \<Rightarrow>
          if nodelay c \<noteq> v
          then let (ok, s, w) = socket_set_nodelay sys (v \<noteq> 0) s w in (c\<lparr> sock := Some s, nodelay := bitfield v \<rparr>, w)
          else (c, w))"

definition conn_start_lingering_close :: "'w system \<Rightarrow> connection \<Rightarrow> 'w \<Rightarrow> connection \<times> 'w" where
  "conn_start_lingering_close sys c w =
     (case sock c of
        None \<Rightarrow> (c, w)
      | Some s \<Rightarrow> let (ok, s, w) = socket_start_lingering_close sys s w in (c\<lparr> sock := Some s \<rparr>, w))"

definition EIO :: int where "EIO = 5"

definition conn_read :: "'w system \<Rightarrow> connection \<Rightarrow> 'w read_op" where
  "conn_read sys c w buf len = (case sock c of None \<Rightarrow> Inr (io_failed EIO, buf, w) | Some s \<Rightarrow> socket_read sys s w buf len)"

definition conn_write :: "'w system \<Rightarrow> connection \<Rightarrow> 'w write_op" where
  "conn_write sys c w buf = (case sock c of None \<Rightarrow> Inr (io_failed EIO, w) | Some s \<Rightarrow> socket_write sys s w buf)"

definition get_local_addr :: "connection \<Rightarrow> socket_addr" where
  "get_local_addr c = peer_addr c"

definition get_peer_addr :: "connection \<Rightarrow> socket_addr" where
  "get_peer_addr c = local_addr c"

section \<open>Properties\<close>

text \<open>A connection that was closed has no socket, and closing it again closes no descriptor.\<close>

lemma conn_close_twice:
  assumes "conn_close sys c w = (c', w')"
  shows "sock c' = None" "conn_close sys c' w' = (c', w')" "conn_id c' = conn_id c"
  using assms by (auto simp: conn_close_def split: option.splits)

text \<open>
  A value of 1 stored in the bit-field reads back as -1, so the test whether the option has to be changed
  always succeeds for it; the socket, which has its own unsigned member, still makes no second call.
\<close>

lemma nodelay_never_equal:
  assumes "conn_set_nodelay sys 1 c w = (c', w')" "sock c = Some s" "nodelay c \<noteq> 1"
  shows "nodelay c' = - 1"
  using assms by (auto simp: conn_set_nodelay_def bitfield_def split: prod.splits)

text \<open>When the shutdown of a lingering close fails, the descriptor is closed, and it is closed again when the
  connection is closed; by then it may be the descriptor of another connection.\<close>

lemma lingering_double_close:
  assumes "sock c = Some s" "\<not> lingering_close s" "sys_shutdown sys (conn_fd s) w = (False, w1)" "0 \<le> conn_fd s"
  shows "\<exists>c2. conn_start_lingering_close sys c w = (c2, sys_close sys (conn_fd s) w1) \<and>
    (\<forall>w2. snd (conn_close sys c2 w2) = sys_close sys (conn_fd s) w2)"
  using assms by (auto simp: conn_start_lingering_close_def socket_start_lingering_close_def conn_close_def socket_destroy_def)

end
