(* ===== verification/Log_Thread.thy ===== *)
theory Log_Thread
  imports Queue_Atomic "HOL-Library.Multiset"
begin

text \<open>
  \<^verbatim>\<open>src/log_thread.cc\<close>: the thread that writes log lines to a file. Buffers go round between two queues, those that
  are free and those with a line to be written. The queues are the atomic queues of \<^verbatim>\<open>queue_atomic.h\<close>, and the
  proofs use of them what the interpretation of bounded queues gives. A buffer is a number above 0, the null
  pointer of an empty queue is 0, and the memory has the C string that is in each buffer. Output with
  \<^verbatim>\<open>fwrite\<close> is a parameter.
\<close>

section \<open>The thread\<close>

definition LOG_BUFFER_SIZE :: nat where "LOG_BUFFER_SIZE = 1024"

record log_thread =
  log_buffers_free :: "nat queue_atomic"
  log_buffers_inuse :: "nat queue_atomic"
  log_memory :: "nat \<Rightarrow> string"
  log_last_time :: int

text \<open>The error that a buffer does not fit into its queue is only reported.\<close>

fun create_buffers :: "nat list \<Rightarrow> nat queue_atomic \<Rightarrow> nat queue_atomic cxx" where
  "create_buffers [] q = Inr q"
| "create_buffers (p # ps) q = bind_cxx (push_back q p) (\<lambda>(ok, q). create_buffers ps q)"

definition new_log_thread :: "u64 \<Rightarrow> log_thread cxx" where
  "new_log_thread num_buffers =
     bind_cxx (new_queue num_buffers) (\<lambda>free.
     bind_cxx (new_queue num_buffers) (\<lambda>inuse.
     bind_cxx (create_buffers [1..<unat num_buffers + 1] free) (\<lambda>free.
       Inr \<lparr> log_buffers_free = free, log_buffers_inuse = inuse, log_memory = (\<lambda>p. ''''), log_last_time = 0 \<rparr>)))"

text \<open>
  One try to log a line; the first result is false when there is no free buffer and the caller waits to
  try again, the second whether the writer is woken up.
\<close>

definition log_message :: "int \<Rightarrow> string \<Rightarrow> log_thread \<Rightarrow> (bool \<times> bool \<times> log_thread) cxx" where
  "log_message now message t =
     bind_cxx (pop_front (log_buffers_free t)) (\<lambda>(buffer, free).
     let t = t\<lparr> log_buffers_free := free \<rparr> in
     if buffer = 0 then Inr (False, False, t)
     else
       let t = t\<lparr> log_memory := (log_memory t)(buffer := take (LOG_BUFFER_SIZE - 1) (c_str message)) \<rparr> in
       bind_cxx (push_back (log_buffers_inuse t) buffer) (\<lambda>(ok, inuse).
       let t = t\<lparr> log_buffers_inuse := inuse \<rparr> in
       if \<not> ok then Inr (True, False, t)
       else if now \<noteq> log_last_time t then Inr (True, True, t\<lparr> log_last_time := now \<rparr>)
       else Inr (True, False, t)))"

text \<open>The loop of \<^verbatim>\<open>write_logs\<close>, with a bound on the number of lines; \<open>None\<close> when it is not enough.\<close>

fun write_loop :: "(string \<Rightarrow> 'w \<Rightarrow> 'w) \<Rightarrow> nat \<Rightarrow> log_thread \<Rightarrow> 'w \<Rightarrow> (log_thread \<times> 'w) option cxx" where
  "write_loop fwrite 0 t w = Inr None"
| "write_loop fwrite (Suc fuel) t w =
     bind_cxx (pop_front (log_buffers_inuse t)) (\<lambda>(buffer, inuse).
     let t = t\<lparr> log_buffers_inuse := inuse \<rparr> in
     if buffer = 0 then Inr (Some (t, w))
     else
       let w = fwrite (log_memory t buffer) w in
       bind_cxx (push_back (log_buffers_free t) buffer) (\<lambda>(ok, free). write_loop fwrite fuel (t\<lparr> log_buffers_free := free \<rparr>) w))"

definition write_logs :: "(string \<Rightarrow> 'w \<Rightarrow> 'w) \<Rightarrow> log_thread \<Rightarrow> 'w \<Rightarrow> (log_thread \<times> 'w) option cxx" where
  "write_logs fwrite t w = write_loop fwrite (capacity (log_buffers_inuse t) + 1) t w"

text \<open>The buffers that are free at the end are deleted; the result is the buffers for which there was none.\<close>

fun delete_buffers :: "nat \<Rightarrow> nat queue_atomic \<Rightarrow> (nat list \<times> nat \<times> nat queue_atomic) cxx" where
  "delete_buffers 0 q = Inr ([], 0, q)"
| "delete_buffers (Suc n) q =
     bind_cxx (pop_front q) (\<lambda>(buffer, q).
     bind_cxx (delete_buffers n q) (\<lambda>(deleted, errors, q).
       if buffer = 0 then Inr (deleted, errors + 1, q) else Inr (buffer # deleted, errors, q)))"

section \<open>Every buffer is in one queue\<close>

text \<open>At least \<open>k\<close> more buffers can be put into each queue before an offset wraps.\<close>

definition log_ok :: "nat \<Rightarrow> nat \<Rightarrow> log_thread \<Rightarrow> bool" where
  "log_ok n k t \<longleftrightarrow>
     queue_ok k (log_buffers_free t) \<and> queue_ok k (log_buffers_inuse t) \<and>
     capacity (log_buffers_free t) = n \<and> capacity (log_buffers_inuse t) = n \<and>
     mset (contents (log_buffers_free t)) + mset (contents (log_buffers_inuse t)) = mset [1..<n + 1]"

definition pending_lines :: "log_thread \<Rightarrow> string list" where
  "pending_lines t = map (log_memory t) (contents (log_buffers_inuse t))"

lemma queue_ok_le: "queue_ok k q \<Longrightarrow> j \<le> k \<Longrightarrow> queue_ok j q"
  by (auto simp: queue_ok_iff)

lemma log_ok_le: "log_ok n k t \<Longrightarrow> j \<le> k \<Longrightarrow> log_ok n j t"
  using queue_ok_le by (auto simp: log_ok_def)

lemma log_okD:
  assumes "log_ok n k t"
  shows "length (contents (log_buffers_free t)) + length (contents (log_buffers_inuse t)) = n"
    "p \<in> set (contents (log_buffers_free t)) \<Longrightarrow> 0 < p \<and> p \<notin> set (contents (log_buffers_inuse t))"
    "p \<in> set (contents (log_buffers_inuse t)) \<Longrightarrow> 0 < p"
proof -
  have m: "mset (contents (log_buffers_free t) @ contents (log_buffers_inuse t)) = mset [1..<n + 1]"
    using assms by (simp add: log_ok_def)
  from arg_cong [OF this, of size] show "length (contents (log_buffers_free t)) + length (contents (log_buffers_inuse t)) = n"
    by simp
  have "distinct (contents (log_buffers_free t) @ contents (log_buffers_inuse t))"
    using mset_eq_imp_distinct_iff [OF m] by simp
  moreover have "0 < p" if "p \<in> set (contents (log_buffers_free t) @ contents (log_buffers_inuse t))"
    using that unfolding mset_eq_setD [OF m] by auto
  ultimately show "p \<in> set (contents (log_buffers_free t)) \<Longrightarrow> 0 < p \<and> p \<notin> set (contents (log_buffers_inuse t))"
    "p \<in> set (contents (log_buffers_inuse t)) \<Longrightarrow> 0 < p"
    by auto
qed

text \<open>A line is refused only when all buffers have lines to be written.\<close>

lemma log_message_ok:
  assumes "log_ok n (Suc k) t"
  shows "\<exists>woken t'. log_message now message t = Inr (contents (log_buffers_free t) \<noteq> [], woken, t') \<and> log_ok n k t' \<and>
    pending_lines t' = pending_lines t @ (if contents (log_buffers_free t) \<noteq> [] then [take 1023 (c_str message)] else [])"
proof (cases "contents (log_buffers_free t)")
  case Nil
  then have "pop_front (log_buffers_free t) = Inr (0, log_buffers_free t)"
    using assms atomic_fifo.pop_empty by (auto simp: log_ok_def)
  then show ?thesis
    using Nil log_ok_le [OF assms, of k] by (auto simp: log_message_def)
next
  case (Cons p ps)
  obtain free where free: "pop_front (log_buffers_free t) = Inr (p, free)" "queue_ok (Suc k) free" "contents free = ps"
      "capacity free = capacity (log_buffers_free t)"
    using assms atomic_fifo.pop_elem [OF _ Cons] by (auto simp: log_ok_def)
  have p: "0 < p" "p \<notin> set (contents (log_buffers_inuse t))"
    using log_okD(2) [OF assms, of p] Cons by auto
  have "length (contents (log_buffers_inuse t)) < capacity (log_buffers_inuse t)"
    using log_okD(1) [OF assms] Cons assms by (simp add: log_ok_def)
  then obtain inuse where inuse: "push_back (log_buffers_inuse t) p = Inr (True, inuse)" "queue_ok k inuse"
      "contents inuse = contents (log_buffers_inuse t) @ [p]" "capacity inuse = capacity (log_buffers_inuse t)"
    using assms atomic_fifo.push_room [of k "log_buffers_inuse t" p] by (auto simp: log_ok_def)
  define t' where "t' = t\<lparr> log_buffers_free := free, log_memory := (log_memory t)(p := take 1023 (c_str message)), log_buffers_inuse := inuse,
      log_last_time := now \<rparr>"
  have step: "log_message now message t = Inr (True, now \<noteq> log_last_time t, t')"
    using p(1) by (cases "now = log_last_time t") (simp_all add: log_message_def free(1) inuse(1) LOG_BUFFER_SIZE_def t'_def Let_def)
  have "log_ok n k t'"
    using assms Cons free inuse queue_ok_le [OF free(2), of k] by (simp add: log_ok_def t'_def)
  moreover have "pending_lines t' = pending_lines t @ [take 1023 (c_str message)]"
    using p(2) by (simp add: pending_lines_def t'_def inuse(3))
  ultimately show ?thesis
    using step Cons by simp
qed

lemma write_loop_ok:
  assumes "log_ok n k t" "length (contents (log_buffers_inuse t)) < fuel" "length (contents (log_buffers_inuse t)) \<le> k"
  shows "\<exists>t'. write_loop fwrite fuel t w = Inr (Some (t', foldl (\<lambda>w s. fwrite s w) w (pending_lines t))) \<and>
    log_ok n (k - length (contents (log_buffers_inuse t))) t' \<and> contents (log_buffers_inuse t') = []"
  using assms
proof (induction "contents (log_buffers_inuse t)" arbitrary: fuel k t w)
  case Nil
  then obtain fuel' where "fuel = Suc fuel'"
    by (cases fuel) auto
  moreover have "pop_front (log_buffers_inuse t) = Inr (0, log_buffers_inuse t)"
    using Nil atomic_fifo.pop_empty by (metis log_ok_def)
  ultimately show ?case
    using Nil by (simp add: pending_lines_def)
next
  case (Cons p ps)
  then obtain fuel' k' where fuel: "fuel = Suc fuel'" "k = Suc k'"
    by (cases fuel; cases k) auto
  obtain inuse where inuse: "pop_front (log_buffers_inuse t) = Inr (p, inuse)" "queue_ok k inuse" "contents inuse = ps"
      "capacity inuse = capacity (log_buffers_inuse t)"
    using Cons.prems(1) atomic_fifo.pop_elem [OF _ Cons.hyps(2) [symmetric]] by (auto simp: log_ok_def)
  have p: "0 < p"
    using log_okD(3) [OF Cons.prems(1), of p] by (metis Cons.hyps(2) list.set_intros(1))
  have "length (contents (log_buffers_inuse t)) = Suc (length ps)"
    by (simp flip: Cons.hyps(2))
  then have "length (contents (log_buffers_free t)) < capacity (log_buffers_free t)"
    using log_okD(1) [OF Cons.prems(1)] Cons.prems(1) by (simp add: log_ok_def)
  then obtain free where free: "push_back (log_buffers_free t) p = Inr (True, free)" "queue_ok k' free"
      "contents free = contents (log_buffers_free t) @ [p]" "capacity free = capacity (log_buffers_free t)"
    using Cons.prems(1) atomic_fifo.push_room [of k' "log_buffers_free t" p] fuel(2) by (auto simp: log_ok_def)
  let ?t = "t\<lparr> log_buffers_inuse := inuse, log_buffers_free := free \<rparr>"
  have "log_ok n k' ?t"
    using Cons.prems(1) inuse free queue_ok_le [OF inuse(2), of k'] fuel(2) by (simp add: log_ok_def flip: Cons.hyps(2))
  moreover have "length ps < fuel'" "length ps \<le> k'"
    using Cons.prems(2,3) fuel by (simp_all flip: Cons.hyps(2))
  moreover have "pending_lines t = log_memory t p # pending_lines ?t"
    using inuse(3) by (simp add: pending_lines_def flip: Cons.hyps(2))
  ultimately show ?case
    using Cons.hyps(1) [of ?t k' fuel' "fwrite (log_memory t p) w"] inuse free(1) p
    by (simp add: fuel flip: Cons.hyps(2))
qed

section \<open>Runs\<close>

text \<open>
  Runs in which one call ends before the next begins, from whatever threads they come. (The queue is not safe
  for two threads that take from it at the same time, see \<^verbatim>\<open>Queue_Atomic\<close>.)
\<close>

datatype log_op = Log_Line int string | Write_Logs

text \<open>The result has the lines that were taken.\<close>

fun run_log :: "(string \<Rightarrow> 'w \<Rightarrow> 'w) \<Rightarrow> log_op list \<Rightarrow> log_thread \<Rightarrow> 'w \<Rightarrow> (string list \<times> log_thread \<times> 'w) option cxx" where
  "run_log fwrite [] t w = Inr (Some ([], t, w))"
| "run_log fwrite (Log_Line now message # ops) t w =
     bind_cxx (log_message now message t) (\<lambda>(taken, woken, t).
     bind_cxx (run_log fwrite ops t w) (\<lambda>r. Inr (map_option (\<lambda>(ls, t, w). ((if taken then [message] else []) @ ls, t, w)) r)))"
| "run_log fwrite (Write_Logs # ops) t w =
     bind_cxx (write_logs fwrite t w) (\<lambda>r. case r of None \<Rightarrow> Inr None | Some (t, w) \<Rightarrow> run_log fwrite ops t w)"

text \<open>
  What a log promises, over a list of at most \<open>n\<close> lines that wait: the lines that are taken, those that wait at
  the end, and those that were given to \<^verbatim>\<open>fwrite\<close>, in order.
\<close>

fun log_spec :: "nat \<Rightarrow> log_op list \<Rightarrow> string list \<Rightarrow> string list \<times> string list \<times> string list" where
  "log_spec n [] waiting = ([], waiting, [])"
| "log_spec n (Log_Line now message # ops) waiting =
     (if length waiting < n
      then (case log_spec n ops (waiting @ [take 1023 (c_str message)]) of (ls, qs, ws) \<Rightarrow> (message # ls, qs, ws))
      else log_spec n ops waiting)"
| "log_spec n (Write_Logs # ops) waiting = (case log_spec n ops [] of (ls, qs, ws) \<Rightarrow> (ls, qs, waiting @ ws))"

lemma free_buffer_iff: "log_ok n k t \<Longrightarrow> contents (log_buffers_free t) \<noteq> [] \<longleftrightarrow> length (pending_lines t) < n"
  using log_okD(1) [of n k t] by (auto simp: pending_lines_def)

lemma run_log_ok:
  assumes "log_ok n (length ops * (n + 1)) t"
  shows "\<exists>t'. log_ok n 0 t' \<and> (case log_spec n ops (pending_lines t) of (ls, qs, ws) \<Rightarrow>
    run_log fwrite ops t w = Inr (Some (ls, t', foldl (\<lambda>w s. fwrite s w) w ws)) \<and> pending_lines t' = qs)"
  using assms
proof (induction ops arbitrary: t w)
  case Nil
  then show ?case
    by auto
next
  case (Cons op ops)
  let ?k = "length ops * (n + 1)"
  show ?case
  proof (cases op)
    case (Log_Line now message)
    have "log_ok n (Suc ?k) t"
      using log_ok_le [OF Cons.prems, of "Suc ?k"] by simp
    then obtain woken t1 where t1: "log_message now message t = Inr (length (pending_lines t) < n, woken, t1)" "log_ok n ?k t1"
        "pending_lines t1 = pending_lines t @ (if length (pending_lines t) < n then [take 1023 (c_str message)] else [])"
      using log_message_ok [of n ?k t now message] free_buffer_iff [OF Cons.prems] by auto
    with Cons.IH [OF t1(2), of w] show ?thesis
      by (auto simp: Log_Line split: prod.splits)
  next
    case Write_Logs
    let ?l = "length (contents (log_buffers_inuse t))"
    have l: "?l \<le> n" "capacity (log_buffers_inuse t) = n"
      using log_okD(1) [OF Cons.prems] Cons.prems by (simp_all add: log_ok_def)
    then obtain t1 where t1: "write_logs fwrite t w = Inr (Some (t1, foldl (\<lambda>w s. fwrite s w) w (pending_lines t)))"
        "log_ok n (length (op # ops) * (n + 1) - ?l) t1" "contents (log_buffers_inuse t1) = []"
      using write_loop_ok [OF Cons.prems, of "n + 1" fwrite w] by (auto simp: write_logs_def)
    have "log_ok n ?k t1"
      using log_ok_le [OF t1(2), of ?k] l by simp
    from Cons.IH [OF this, of "foldl (\<lambda>w s. fwrite s w) w (pending_lines t)"] show ?thesis
      using t1(1,3) by (simp add: Write_Logs pending_lines_def split: prod.splits)
  qed
qed

lemma create_buffers_ok:
  assumes "queue_ok (length ps + k) q" "length (contents q) + length ps \<le> capacity q"
  shows "\<exists>q'. create_buffers ps q = Inr q' \<and> queue_ok k q' \<and> contents q' = contents q @ ps \<and> capacity q' = capacity q"
  using assms
proof (induction ps arbitrary: q)
  case (Cons p ps)
  then obtain q1 where q1: "push_back q p = Inr (True, q1)" "queue_ok (length ps + k) q1" "contents q1 = contents q @ [p]" "capacity q1 = capacity q"
    using atomic_fifo.push_room [of "length ps + k" q p] by auto
  with Cons.IH [OF q1(2)] Cons.prems(2) show ?case
    by auto
qed simp

lemma new_log_thread_ok:
  assumes "ispow2 num" "num \<le> size_max" "k + 2 * unat num < 2 ^ 48"
  shows "\<exists>t. new_log_thread num = Inr t \<and> log_ok (unat num) k t \<and> pending_lines t = []"
proof -
  obtain q :: "nat queue_atomic" where q: "new_queue num = Inr q" "queue_shape 0 0 0 0 q" "length (vec q) = unat num"
    using new_queue_ok [OF assms(1,2)] by blast
  have c: "contents q = []" "capacity q = unat num"
    by (simp_all add: contents_shape [OF q(2)] queue_shape_offsets [OF q(2)] q(3))
  have ok: "queue_ok (unat num + k) q"
    using q(2,3) assms(3) by (intro queue_okI) auto
  obtain q' where q': "create_buffers [1..<unat num + 1] q = Inr q'" "queue_ok k q'" "contents q' = [1..<unat num + 1]" "capacity q' = unat num"
    using create_buffers_ok [of "[1..<unat num + 1]" k q] ok c by (auto simp del: upt_Suc)
  have "queue_ok k q"
    by (rule queue_ok_le [OF ok]) simp
  then show ?thesis
    using q(1) q' c by (simp add: new_log_thread_def log_ok_def pending_lines_def)
qed

text \<open>
  C26. For calls that do not overlap in time, whatever lines are logged and whenever the thread writes: the queues
  never fail and writing ends. A line is taken exactly when fewer lines wait than there are buffers, and the
  calls of \<^verbatim>\<open>fwrite\<close> are the lines that were taken, each cut to 1023 characters, in the order they
  came in, without those that still wait, whatever \<^verbatim>\<open>fwrite\<close> makes of them. Every buffer is free or has one
  line that waits.
\<close>

theorem log_lines_written:
  assumes "ispow2 num" "num \<le> size_max" "length ops * (unat num + 1) + 2 * unat num < 2 ^ 48"
  shows "\<exists>t0 t. new_log_thread num = Inr t0 \<and> (case log_spec (unat num) ops [] of (lines, waiting, written) \<Rightarrow>
      run_log fwrite ops t0 w = Inr (Some (lines, t, foldl (\<lambda>w s. fwrite s w) w written)) \<and> pending_lines t = waiting) \<and>
    mset (contents (log_buffers_free t)) + mset (contents (log_buffers_inuse t)) = mset [1..<unat num + 1]"
proof -
  obtain t0 where t0: "new_log_thread num = Inr t0" "log_ok (unat num) (length ops * (unat num + 1)) t0" "pending_lines t0 = []"
    using new_log_thread_ok [OF assms] by blast
  show ?thesis
    using run_log_ok [OF t0(2), of fwrite w] t0(1,3) by (auto simp: log_ok_def)
qed

theorem log_lines_written_witness:
  "\<exists>t0 t. new_log_thread 2 = Inr t0 \<and>
     run_log (\<lambda>s w. w @ [s]) [Log_Line 0 ''a'', Log_Line 0 ''b'', Log_Line 1 ''c'', Write_Logs, Log_Line 1 ''d''] t0 [] =
       Inr (Some ([''a'', ''b'', ''d''], t, [''a'', ''b''])) \<and> pending_lines t = [''d''] \<and>
     mset (contents (log_buffers_free t)) + mset (contents (log_buffers_inuse t)) = {#1, 2#}"
proof -
  let ?ops = "[Log_Line 0 ''a'', Log_Line 0 ''b'', Log_Line 1 ''c'', Write_Logs, Log_Line 1 ''d'']"
  have "ispow2 (2 :: u64)" "(2 :: u64) \<le> size_max"
    by (simp_all add: ispow2_def size_max_def)
  moreover have "log_spec (unat (2 :: u64)) ?ops [] = ([''a'', ''b'', ''d''], [''d''], [''a'', ''b''])"
    by (simp add: c_str_def)
  moreover have "[1..<unat (2 :: u64) + 1] = [1, 2]"
    by (simp add: upt_rec)
  then have "mset [1..<unat (2 :: u64) + 1] = {#1, 2#}"
    by simp
  ultimately show ?thesis
    using log_lines_written [of 2 ?ops "\<lambda>s w. w @ [s]" "[]"]
    by (simp del: upt_Suc run_log.simps log_spec.simps)
qed

text \<open>At the end, when all lines have been written, every buffer is deleted once.\<close>

lemma delete_buffers_ok:
  "queue_ok k q \<Longrightarrow> 0 \<notin> set (contents q) \<Longrightarrow> \<exists>q'. delete_buffers (length (contents q)) q = Inr (contents q, 0, q')"
proof (induction "contents q" arbitrary: q)
  case Nil
  then show ?case
    by (simp flip: Nil.hyps)
next
  case (Cons p ps)
  obtain q1 where q1: "pop_front q = Inr (p, q1)" "queue_ok k q1" "contents q1 = ps"
    using atomic_fifo.pop_elem [OF Cons.prems(1) Cons.hyps(2) [symmetric]] by auto
  then show ?case
    using Cons.hyps(1) [of q1] Cons.prems(2) by (auto simp flip: Cons.hyps(2))
qed

end
