(* ===== verification/Http_Location.thy ===== *)
theory Http_Location
  imports Protocol Connection Trie Http_Message Http_Date Log_Thread
begin

text \<open>
  The part of \<^verbatim>\<open>src/http_server.cc\<close> that finds out what a request is for: the default configuration, the
  tables that \<^verbatim>\<open>engine_init\<close> builds from the configuration, the lookup of the virtual host and of the
  location, the translation of the path of the request to a path in the file system, and the
  preparation of the handler and of the response. A class of handlers is an element of \<open>'f\<close>.
\<close>

section \<open>The default configuration\<close>

definition default_location :: "config \<Rightarrow> http_server_location" where
  "default_location c =
     (new_location ''/'')\<lparr> location_root := config_root c, location_handler := ''file'', location_index_files := [''index.html'', ''index.htm''] \<rparr>"

definition stats_location :: http_server_location where
  "stats_location = (new_location ''/stats/'')\<lparr> location_handler := ''stats'' \<rparr>"

definition make_default_vhost :: "config \<Rightarrow> config" where
  "make_default_vhost c =
     c\<lparr> vhost_list := vhost_list c @ [new_vhost\<lparr> server_names := [''default''], location_list := [default_location c, stats_location] \<rparr>] \<rparr>"

text \<open>An address that cannot be decoded is reported and left out.\<close>

definition default_listener :: "pton \<Rightarrow> string \<Rightarrow> config \<Rightarrow> config conf" where
  "default_listener inet_pton spec c =
     bind_conf (conf_of (string_to_addr inet_pton spec)) (\<lambda>r.
       case r of None \<Rightarrow> Inr c | Some addr \<Rightarrow> Inr (c\<lparr> proto_listeners := proto_listeners c @ [(''http_server'', addr, socket_mode_plain)] \<rparr>))"

definition default_mime_types :: "(string \<times> string) list" where
  "default_mime_types = [(''html'', ''text/html''), (''htm'', ''text/html''), (''txt'', ''text/plain''), (''css'', ''text/css''),
     (''js'', ''text/java-script''), (''gif'', ''image/gif''), (''jpeg'', ''image/jpeg''), (''jpg'', ''image/jpeg''), (''png'', ''image/png''),
     (''crt'', ''application/x-x509-ca-cert''), (''default'', ''application/octet-stream'')]"

definition make_default_config :: "pton \<Rightarrow> nat \<Rightarrow> config \<Rightarrow> config conf" where
  "make_default_config inet_pton hardware_concurrency c =
     bind_conf (default_listener inet_pton ''127.0.0.1:8080''
       (c\<lparr> pid_file := ''/tmp/latypus.pid'', listen_backlog := 128, server_connections := 1024, connection_timeout := 60,
          keepalive_timeout := 5, config.max_headers := 128, header_buffer_size := 8192, io_buffer_size := 8192,
          ipc_buffer_size := 1048576, log_buffers := 1024, tls_session_timeout := 7200, tls_session_count := 32768 \<rparr>)) (\<lambda>c.
     bind_conf (default_listener inet_pton ''[]:8080'' c) (\<lambda>c.
       Inr (make_default_vhost
         (c\<lparr> proto_threads := proto_threads c @ [(''http_server/listener'', 1),
               (''http_server/router,http_server/worker,http_server/keepalive'', hardware_concurrency)],
             config_root := ''html'',
             mime_types := foldl (\<lambda>m (k, v). map_assign k v m) (mime_types c) default_mime_types,
             index_files := index_files c @ [''index.html'', ''index.htm''] \<rparr>))))"

section \<open>The tables of the server\<close>

record 'f bound_location = http_server_location +
  handler_factory :: "'f option"

record 'f bound_vhost = http_server_vhost +
  location_trie :: "'f bound_location trie_node"
  access_logged :: bool
  error_logged :: bool

record 'f server_cfg =
  vhosts :: "'f bound_vhost list"
  vhost_map :: "(string \<times> nat) list"
  listens :: "(socket_addr \<times> socket_mode) list"

text \<open>A virtual host with the name \<^verbatim>\<open>default\<close> is made, or the first one is given that name.\<close>

definition default_vhost :: "config \<Rightarrow> config conf" where
  "default_vhost c =
     (let found = (\<exists>v \<in> set (vhost_list c). ''default'' \<in> set (server_names v)) in
      case vhost_list c of
        [] \<Rightarrow> if length (config_root c) > 0 then Inr (make_default_vhost c) else Inl Fatal_Exit
      | v # vs \<Rightarrow> if found then Inr c else Inr (c\<lparr> vhost_list := v\<lparr> server_names := server_names v @ [''default''] \<rparr> # vs \<rparr>))"

definition bind_location :: "(string \<times> 'f) list \<Rightarrow> http_server_location \<Rightarrow> 'f bound_location" where
  "bind_location handler_factory_map l =
     (let l = (if location_handler l = [] then l\<lparr> location_handler := ''file'' \<rparr> else l) in
      http_server_location.extend l \<lparr> handler_factory = map_of handler_factory_map (''http_server_handler_'' @ location_handler l) \<rparr>)"

fun insert_locations :: "'f bound_location list \<Rightarrow> 'f bound_location trie_node \<Rightarrow> 'f bound_location trie_node cxx" where
  "insert_locations [] t = Inr t"
| "insert_locations (l # ls) t = bind_cxx (trie_insert t (location_uri l) (Some l)) (insert_locations ls)"

definition add_listener :: "socket_addr \<times> socket_mode \<Rightarrow> config \<Rightarrow> config" where
  "add_listener l c =
     (let listener = (''http_server'', l) in
      if listener \<in> set (proto_listeners c) then c else c\<lparr> proto_listeners := proto_listeners c @ [listener] \<rparr>)"

definition or_default :: "string \<Rightarrow> string \<Rightarrow> string" where
  "or_default s d = (if length s = 0 then d else s)"

text \<open>
  The log files; one that cannot be opened stops the program. Each has a log thread, whose queues fail an
  assertion when the number of buffers is not a power of two.
\<close>

definition open_log :: "(string \<Rightarrow> bool) \<Rightarrow> int \<Rightarrow> string \<Rightarrow> bool conf" where
  "open_log can_open num_buffers name =
     (if length name > 0 \<and> name \<noteq> ''off''
      then if can_open name then bind_conf (conf_of (new_log_thread (word_of_int num_buffers))) (\<lambda>t. Inr True) else Inl Fatal_Exit
      else Inr False)"

definition init_vhost :: "(string \<times> 'f) list \<Rightarrow> (string \<Rightarrow> bool) \<Rightarrow> http_server_vhost \<Rightarrow> config \<times> 'f server_cfg \<Rightarrow> (config \<times> 'f server_cfg) conf" where
  "init_vhost handler_factory_map can_open v = (\<lambda>(c, cfg).
     let ls = map (bind_location handler_factory_map) (location_list v); n = length (vhosts cfg) in
     bind_conf (conf_of (insert_locations ls new_node)) (\<lambda>t.
     let cfg = cfg\<lparr> vhost_map := foldl (\<lambda>m name. map_insert name n m) (vhost_map cfg) (server_names v) \<rparr>;
         c = fold add_listener (vhost_listens v) c;
         v = v\<lparr> vhost_tls_key_file := or_default (vhost_tls_key_file v) (tls_key_file c),
                vhost_tls_cert_file := or_default (vhost_tls_cert_file v) (tls_cert_file c),
                vhost_tls_cipher_list := or_default (vhost_tls_cipher_list v) (tls_cipher_list c),
                vhost_access_log := or_default (vhost_access_log v) (access_log c),
                vhost_error_log := or_default (vhost_error_log v) (error_log c) \<rparr> in
     bind_conf (open_log can_open (log_buffers c) (vhost_access_log v)) (\<lambda>a.
     bind_conf (open_log can_open (log_buffers c) (vhost_error_log v)) (\<lambda>e.
       Inr (c, cfg\<lparr> vhosts := vhosts cfg @ [http_server_vhost.extend v \<lparr> location_trie = t, access_logged = a, error_logged = e \<rparr>] \<rparr>)))))"

fun init_vhosts :: "(string \<times> 'f) list \<Rightarrow> (string \<Rightarrow> bool) \<Rightarrow> http_server_vhost list \<Rightarrow> config \<times> 'f server_cfg \<Rightarrow> (config \<times> 'f server_cfg) conf" where
  "init_vhosts factories can_open [] s = Inr s"
| "init_vhosts factories can_open (v # vs) s = bind_conf (init_vhost factories can_open v s) (init_vhosts factories can_open vs)"

text \<open>
  The sockets to listen on. The listeners of other protocols are passed over, but the position in the
  list of all listeners is used for the list of the sockets of the server.
\<close>

fun make_listens :: "(socket_addr \<Rightarrow> socket_mode \<Rightarrow> bool) \<Rightarrow> nat \<Rightarrow> (string \<times> socket_addr \<times> socket_mode) list \<Rightarrow> (socket_addr \<times> socket_mode) list \<Rightarrow> (socket_addr \<times> socket_mode) list conf" where
  "make_listens start_listening i [] ls = Inr ls"
| "make_listens start_listening i ((proto, addr, mode) # rest) ls =
     (if proto \<noteq> ''http_server'' then make_listens start_listening (i + 1) rest ls
      else
        let ls = ls @ [(addr, mode)] in
        if i < length ls
        then if start_listening addr mode then make_listens start_listening (i + 1) rest ls else Inl Fatal_Exit
        else Inl (Broken OutOfBounds))"

text \<open>
  The parts of \<^verbatim>\<open>engine_init\<close> that build the tables and the sockets. What stands between them in the source, the
  connection table, is \<open>server_start\<close> of \<^verbatim>\<open>Http_Server\<close>; the TLS contexts are not modelled.
\<close>

definition engine_init ::
  "(string \<times> 'f) list \<Rightarrow> (string \<Rightarrow> bool) \<Rightarrow> (socket_addr \<Rightarrow> socket_mode \<Rightarrow> bool) \<Rightarrow> config \<Rightarrow> (config \<times> 'f server_cfg) conf" where
  "engine_init handler_factory_map can_open start_listening c =
     bind_conf (default_vhost c) (\<lambda>c.
     bind_conf (init_vhosts handler_factory_map can_open (vhost_list c) (c, \<lparr> vhosts = [], vhost_map = [], listens = [] \<rparr>)) (\<lambda>(c, cfg).
     bind_conf (make_listens start_listening 0 (proto_listeners c) []) (\<lambda>ls.
       Inr (c, cfg\<lparr> listens := ls \<rparr>))))"

section \<open>Virtual host, location and path\<close>

definition lookup_vhost :: "'f server_cfg \<Rightarrow> string \<Rightarrow> nat conf" where
  "lookup_vhost cfg server_name =
     (case map_of (vhost_map cfg) server_name of
        Some v \<Rightarrow> Inr v
      | None \<Rightarrow> (case map_of (vhost_map cfg) ''default'' of Some v \<Rightarrow> Inr v | None \<Rightarrow> Inl Fatal_Exit))"

definition request_server_name :: "string option \<Rightarrow> string" where
  "request_server_name host_header =
     (case host_header of
        None \<Rightarrow> ''default''
      | Some h \<Rightarrow> (case find_sub '':'' h of None \<Rightarrow> h | Some colon \<Rightarrow> take colon h))"

record 'f target =
  target_vhost :: nat
  target_location :: "'f bound_location"
  target_factory :: 'f
  path_translated :: string

definition join_root :: "string \<Rightarrow> string \<Rightarrow> string" where
  "join_root root partial_path =
     (if length root > 0 \<and> last root \<noteq> CHR ''/'' \<and> (partial_path = [] \<or> hd partial_path \<noteq> CHR ''/'') then root @ ''/'' @ partial_path
      else root @ partial_path)"

definition translate_path :: "'f server_cfg \<Rightarrow> string \<Rightarrow> string option \<Rightarrow> 'f target conf" where
  "translate_path cfg path host_header =
     bind_conf (lookup_vhost cfg (request_server_name host_header)) (\<lambda>v.
     bind_conf (conf_of (index_cxx (vhosts cfg) v)) (\<lambda>vhost.
     bind_conf (conf_of (trie_find_nearest (location_trie vhost) path)) (\<lambda>(uri_prefix, location).
       case location of
         None \<Rightarrow> Inl (Broken NullPointer)
       | Some l \<Rightarrow>
           if length path < length uri_prefix then Inl (Broken OutOfBounds)
           else
             (case handler_factory l of
                None \<Rightarrow> Inl (Broken NullPointer)
              | Some f \<Rightarrow> Inr \<lparr> target_vhost = v, target_location = l, target_factory = f,
                  path_translated = join_root (location_root l) (drop (length uri_prefix) path) \<rparr>))))"

section \<open>The head of a request\<close>

definition ServerString :: string where "ServerString = ''latypus/0.0.0''"

text \<open>The path is sanitised in the buffer of the request.\<close>

definition sanitize_request :: "http_request \<Rightarrow> (bool \<times> http_request) cxx" where
  "sanitize_request r =
     (case request_path r of
        HNull \<Rightarrow> Inr (False, r)
      | HBuf off n \<Rightarrow>
          bind_cxx (sanitize_path (drop off (chars r))) (\<lambda>(ret, s). Inr (0 \<le> ret, r\<lparr> chars := take off (chars r) @ s \<rparr>)))"

definition init_response :: "int \<Rightarrow> http_response \<Rightarrow> http_response cxx" where
  "init_response current_time resp =
     bind_cxx (response_event (response_reset resp) (SetHttpVersion ''HTTP/1.1'')) (\<lambda>resp.
     bind_cxx (set_header_field resp ''Server'' ServerString) (\<lambda>(ok, resp).
     bind_cxx (to_header_string 32 current_time) (\<lambda>(date, n).
     bind_cxx (set_header_field resp ''Date'' (take n date)) (\<lambda>(ok, resp). Inr resp))))"

text \<open>The target is \<open>None\<close> when the path is refused.\<close>

definition process_request_headers ::
  "'f server_cfg \<Rightarrow> int \<Rightarrow> http_request \<Rightarrow> http_response \<Rightarrow> ('f target option \<times> http_request \<times> http_response) conf" where
  "process_request_headers cfg current_time r resp =
     bind_conf (conf_of (sanitize_request r)) (\<lambda>(ok, r).
       if \<not> ok then Inr (None, r, resp)
       else
         bind_conf (conf_of (c_string_at (chars r) (hs_offset (request_path r)))) (\<lambda>path.
         bind_conf (conf_of (get_header_string r ''Host'')) (\<lambda>host.
         bind_conf (translate_path cfg path host) (\<lambda>t.
         bind_conf (conf_of (init_response current_time resp)) (\<lambda>resp.
           Inr (Some t, r, resp))))))"

section \<open>The tables have every virtual host and location\<close>

fun first_named :: "string \<Rightarrow> http_server_vhost list \<Rightarrow> nat option" where
  "first_named name [] = None"
| "first_named name (v # vs) = (if name \<in> set (server_names v) then Some 0 else map_option Suc (first_named name vs))"

lemma first_named_snoc:
  "first_named name (vs @ [v]) =
     (case first_named name vs of None \<Rightarrow> if name \<in> set (server_names v) then Some (length vs) else None | Some i \<Rightarrow> Some i)"
  by (induction vs) (auto split: option.splits)

lemma first_named_Some:
  "first_named name vs = Some i \<Longrightarrow> i < length vs \<and> name \<in> set (server_names (vs ! i)) \<and> (\<forall>j<i. name \<notin> set (server_names (vs ! j)))"
  by (induction vs arbitrary: i) (auto simp: nth_Cons less_Suc_eq_0_disj split: if_splits)

lemma first_named_None: "first_named name vs = None \<longleftrightarrow> (\<forall>v \<in> set vs. name \<notin> set (server_names v))"
  by (induction vs) auto

definition bound_ok :: "(string \<times> 'f) list \<Rightarrow> http_server_vhost \<Rightarrow> 'f bound_vhost \<Rightarrow> bool" where
  "bound_ok factories v b \<longleftrightarrow> server_names b = server_names v \<and>
     insert_locations (map (bind_location factories) (location_list v)) new_node = Inr (location_trie b)"

definition tables_ok :: "(string \<times> 'f) list \<Rightarrow> http_server_vhost list \<Rightarrow> 'f server_cfg \<Rightarrow> bool" where
  "tables_ok factories vs cfg \<longleftrightarrow> list_all2 (bound_ok factories) vs (vhosts cfg) \<and> (\<forall>name. map_of (vhost_map cfg) name = first_named name vs)"

lemma map_of_insert_names:
  "map_of (foldl (\<lambda>m name. map_insert name n m) kvs names) x =
     (case map_of kvs x of None \<Rightarrow> if x \<in> set names then Some n else None | Some i \<Rightarrow> Some i)"
  by (induction names arbitrary: kvs) (auto simp: map_insert_def map_add_def split: option.splits)

lemma extend_vhost [simp]:
  "server_names (http_server_vhost.extend v m) = server_names v"
  "location_trie (http_server_vhost.extend v \<lparr> location_trie = t, access_logged = a, error_logged = e \<rparr>) = t"
  by (simp_all add: http_server_vhost.defs bound_vhost.defs)

lemma init_vhost_ok:
  assumes "init_vhost factories can_open v (c, cfg) = Inr (c', cfg')" "tables_ok factories vs cfg"
  shows "tables_ok factories (vs @ [v]) cfg'"
proof -
  have len: "length (vhosts cfg) = length vs"
    using assms(2) by (auto simp: tables_ok_def dest: list_all2_lengthD)
  show ?thesis
    using assms by (auto simp: init_vhost_def tables_ok_def Let_def bind_conf_Inr_iff conf_of_Inr_iff map_of_insert_names first_named_snoc
      bound_ok_def len intro!: list_all2_appendI split: option.splits)
qed

lemma init_vhosts_ok:
  "init_vhosts factories can_open us (c, cfg) = Inr (c', cfg') \<Longrightarrow> tables_ok factories vs cfg \<Longrightarrow> tables_ok factories (vs @ us) cfg'"
proof (induction us arbitrary: c cfg vs)
  case (Cons u us)
  then obtain c1 cfg1 where "init_vhost factories can_open u (c, cfg) = Inr (c1, cfg1)" "init_vhosts factories can_open us (c1, cfg1) = Inr (c', cfg')"
    by (auto simp: bind_conf_Inr_iff)
  from Cons.IH [OF this(2) init_vhost_ok [OF this(1) Cons.prems(2)]] show ?case
    by simp
qed simp

text \<open>The virtual hosts that the server has: those of the configuration, or the default one.\<close>

definition served_vhosts :: "config \<Rightarrow> http_server_vhost list" where
  "served_vhosts c = (case default_vhost c of Inl _ \<Rightarrow> [] | Inr c \<Rightarrow> vhost_list c)"

lemma engine_init_tables:
  assumes "engine_init factories can_open start_listening c = Inr (c', cfg)"
  shows "tables_ok factories (served_vhosts c) cfg" "first_named ''default'' (served_vhosts c) \<noteq> None"
proof -
  obtain c1 c2 cfg1 ls where e: "default_vhost c = Inr c1"
      "init_vhosts factories can_open (vhost_list c1) (c1, \<lparr> vhosts = [], vhost_map = [], listens = [] \<rparr>) = Inr (c2, cfg1)"
      "cfg = cfg1\<lparr> listens := ls \<rparr>"
    using assms by (auto simp: engine_init_def bind_conf_Inr_iff)
  have "tables_ok factories [] (\<lparr> vhosts = [], vhost_map = [], listens = [] \<rparr> :: 'a server_cfg)"
    by (simp add: tables_ok_def)
  from init_vhosts_ok [OF e(2) this] show "tables_ok factories (served_vhosts c) cfg"
    by (simp add: e tables_ok_def served_vhosts_def)
  show "first_named ''default'' (served_vhosts c) \<noteq> None"
    using e(1) by (auto simp: served_vhosts_def default_vhost_def make_default_vhost_def first_named_None Let_def split: list.splits if_splits)
qed

section \<open>Requests are translated\<close>

text \<open>A virtual host that has a location for every path, and handlers for its locations.\<close>

definition servable :: "(string \<times> 'f) list \<Rightarrow> http_server_vhost \<Rightarrow> bool" where
  "servable factories v \<longleftrightarrow> (\<exists>l \<in> set (location_list v). location_uri l = ''/'') \<and>
     (\<forall>l \<in> set (location_list v). plain_key (location_uri l) \<and> handler_factory (bind_location factories l) \<noteq> None)"

lemma bind_location_uri [simp]:
  "location_uri (bind_location factories l) = location_uri l" "location_root (bind_location factories l) = location_root l"
  by (simp_all add: bind_location_def http_server_location.defs Let_def)

lemma insert_locations_all: "insert_locations ls t = insert_all (map (\<lambda>l. (location_uri l, l)) ls) t"
  by (induction ls arbitrary: t) (simp_all add: bind_cxx_def split: sum.split)

lemma nearest_location:
  assumes "\<forall>l \<in> set ls. plain_key (location_uri l)" "plain_key path" "hd path = CHR ''/''" "path \<noteq> []" "\<exists>l \<in> set ls. location_uri l = ''/''"
    "insert_locations ls new_node = Inr t"
  shows "\<exists>l \<in> set ls. trie_find_nearest t path = Inr (location_uri l, Some l) \<and> prefix (location_uri l) path \<and>
    (\<forall>k \<in> set ls. prefix (location_uri k) path \<longrightarrow> length (location_uri k) \<le> length (location_uri l))"
proof -
  let ?kvs = "map (\<lambda>l. (location_uri l, l)) ls"
  have plain: "\<forall>kv \<in> set ?kvs. plain_key (fst kv)"
    using assms(1) by auto
  obtain u r where u: "trie_find_nearest t path = Inr (u, r)"
    "case r of Some x \<Rightarrow> u \<noteq> [] \<and> prefix u path \<and> map_of (rev ?kvs) u = Some x \<and>
          (\<forall>kv \<in> set ?kvs. prefix (fst kv) path \<longrightarrow> length (fst kv) \<le> length u)
      | None \<Rightarrow> u = [] \<and> (\<forall>kv \<in> set ?kvs. fst kv \<noteq> [] \<longrightarrow> \<not> prefix (fst kv) path)"
    using location_trie.build_nearest [OF plain assms(2)] assms(6) by (auto simp: insert_locations_all insert_all_build)
  have "prefix ''/'' path"
    using assms(3,4) by (cases path) auto
  then obtain l where l: "r = Some l"
    using u(2) assms(5) by (cases r) auto
  then have "(u, l) \<in> set ?kvs"
    using u(2) by (auto dest!: map_of_SomeD)
  then show ?thesis
    using u l by auto
qed

lemma lookup_vhost_total:
  assumes "tables_ok factories vs cfg" "first_named ''default'' vs \<noteq> None"
  shows "\<exists>i. lookup_vhost cfg name = Inr i \<and> i < length vs \<and>
    first_named (if first_named name vs = None then ''default'' else name) vs = Some i"
  using assms first_named_Some by (fastforce simp: tables_ok_def lookup_vhost_def split: option.splits)

text \<open>
  C13. After \<^verbatim>\<open>engine_init\<close>, when every virtual host has a location \<^verbatim>\<open>/\<close>, its locations have known handlers and
  prefixes of 7-bit characters, the translation of an absolute path of 7-bit characters never fails: the virtual
  host is the first with the name of the request, or the default one when none has it, the location is the
  one with the longest prefix of the path, and the translated path is the root of the location with the rest
  of the path. Without a location \<^verbatim>\<open>/\<close> the server can follow a null pointer: \<open>request_without_location\<close>.
\<close>

theorem translate_path_total:
  assumes "engine_init factories can_open start_listening c = Inr (c', cfg)" "\<forall>v \<in> set (served_vhosts c). servable factories v"
    "plain_key path" "path \<noteq> []" "hd path = CHR ''/''"
  shows "\<exists>t i l. translate_path cfg path host = Inr t \<and>
    first_named (if first_named (request_server_name host) (served_vhosts c) = None then ''default'' else request_server_name host) (served_vhosts c) = Some i \<and>
    l \<in> set (location_list (served_vhosts c ! i)) \<and> prefix (location_uri l) path \<and>
    (\<forall>k \<in> set (location_list (served_vhosts c ! i)). prefix (location_uri k) path \<longrightarrow> length (location_uri k) \<le> length (location_uri l)) \<and>
    path_translated t = join_root (location_root l) (drop (length (location_uri l)) path)"
proof -
  let ?vs = "served_vhosts c"
  note tables = engine_init_tables [OF assms(1)]
  obtain i where i: "lookup_vhost cfg (request_server_name host) = Inr i" "i < length ?vs"
      "first_named (if first_named (request_server_name host) ?vs = None then ''default'' else request_server_name host) ?vs = Some i"
    using lookup_vhost_total [OF tables] by blast
  let ?ls = "map (bind_location factories) (location_list (?vs ! i))"
  have all2: "list_all2 (bound_ok factories) ?vs (vhosts cfg)"
    using tables(1) by (simp add: tables_ok_def)
  have b: "i < length (vhosts cfg)" "insert_locations ?ls new_node = Inr (location_trie (vhosts cfg ! i))"
    using list_all2_lengthD [OF all2] list_all2_nthD [OF all2 i(2)] i(2) by (simp_all add: bound_ok_def)
  have "servable factories (?vs ! i)"
    using assms(2) i(2) by simp
  then have s: "\<forall>l \<in> set ?ls. plain_key (location_uri l)" "\<exists>l \<in> set ?ls. location_uri l = ''/''" "\<forall>l \<in> set ?ls. handler_factory l \<noteq> None"
    by (auto simp: servable_def)
  from nearest_location [OF s(1) assms(3,5,4) s(2) b(2)] obtain l where l: "l \<in> set (location_list (?vs ! i))"
      "trie_find_nearest (location_trie (vhosts cfg ! i)) path = Inr (location_uri l, Some (bind_location factories l))" "prefix (location_uri l) path"
      "\<forall>k \<in> set (location_list (?vs ! i)). prefix (location_uri k) path \<longrightarrow> length (location_uri k) \<le> length (location_uri l)"
    by auto
  have "\<exists>t. translate_path cfg path host = Inr t \<and> path_translated t = join_root (location_root l) (drop (length (location_uri l)) path)"
    using s(3) l b(1) prefix_length_le [OF l(3)] by (auto simp: translate_path_def i(1))
  with i(3) l show ?thesis
    by blast
qed

text \<open>Results that are known to be there.\<close>

lemma case_result:
  "(case x of Inl _ \<Rightarrow> False | Inr y \<Rightarrow> P y) \<longleftrightarrow> (\<exists>y. x = Inr y \<and> P y)"
  "(case x of Inl e \<Rightarrow> Q e | Inr _ \<Rightarrow> False) \<longleftrightarrow> (\<exists>e. x = Inl e \<and> Q e)"
  "(case z of None \<Rightarrow> False | Some y \<Rightarrow> P y) \<longleftrightarrow> (\<exists>y. z = Some y \<and> P y)"
  by (auto split: sum.split option.split)

definition example_config :: config where
  "example_config = new_config\<lparr> config_root := ''/srv/www'' \<rparr>"

definition example_factories :: "(string \<times> nat) list" where
  "example_factories = [(''http_server_handler_file'', 0), (''http_server_handler_stats'', 1)]"

lemma example_init: "\<exists>c cfg. engine_init example_factories (\<lambda>_. True) (\<lambda>_ _. True) example_config = Inr (c, cfg)"
  by (simp add: engine_init_def default_vhost_def example_config_def new_config_def make_default_vhost_def new_vhost_def Let_def init_vhost_def
    open_log_def or_default_def default_location_def stats_location_def new_location_def bind_location_def http_server_location.defs
    trie_insert_def c_str_def child_index_def new_node_def)

lemma example_vhosts: "served_vhosts example_config = vhost_list (make_default_vhost example_config)"
  by (simp add: served_vhosts_def default_vhost_def example_config_def new_config_def)

theorem translate_path_total_witness:
  "\<exists>c cfg t. engine_init example_factories (\<lambda>_. True) (\<lambda>_ _. True) example_config = Inr (c, cfg) \<and>
     translate_path cfg ''/a/b'' None = Inr t \<and> path_translated t = ''/srv/www/a/b''"
proof -
  obtain c cfg where init: "engine_init example_factories (\<lambda>_. True) (\<lambda>_ _. True) example_config = Inr (c, cfg)"
    using example_init by blast
  let ?v = "new_vhost\<lparr> server_names := [''default''], location_list := [default_location example_config, stats_location] \<rparr>"
  have vs: "served_vhosts example_config = [?v]"
    by (simp add: example_vhosts make_default_vhost_def) (simp add: example_config_def new_config_def)
  have "\<forall>v \<in> set (served_vhosts example_config). servable example_factories v"
    unfolding vs by code_simp
  moreover have "plain_key ''/a/b''"
    by code_simp
  ultimately obtain t i l where t: "translate_path cfg ''/a/b'' None = Inr t" "l \<in> set (location_list ([?v] ! i))" "prefix (location_uri l) ''/a/b''"
      "first_named ''default'' [?v] = Some i" "path_translated t = join_root (location_root l) (drop (length (location_uri l)) ''/a/b'')"
    using translate_path_total [OF init, of "''/a/b''" None] by (auto simp: vs request_server_name_def)
  have "l = default_location example_config"
    using t(2-4) by (auto simp: new_vhost_def stats_location_def new_location_def)
  then have "path_translated t = ''/srv/www/a/b''"
    using t(5) by (simp add: default_location_def new_location_def example_config_def new_config_def join_root_def)
  with init t(1) show ?thesis
    by blast
qed

section \<open>Requests stay below the root of their location\<close>

text \<open>
  A path that is a root with more path after it: the root ends at the end of a component, and none of the
  components after it is \<^verbatim>\<open>..\<close>.
\<close>

definition below_root :: "string \<Rightarrow> string \<Rightarrow> bool" where
  "below_root root p \<longleftrightarrow> (\<exists>rest. p = root @ rest \<and> ''..'' \<notin> set (split_char CHR ''/'' rest) \<and>
     (root = [] \<or> rest = [] \<or> last root = CHR ''/'' \<or> hd rest = CHR ''/''))"

lemma split_char_component:
  "w \<in> set (split_char c s) \<Longrightarrow> \<exists>pre post. s = pre @ w @ post \<and> (pre = [] \<or> last pre = c)"
proof (induction s rule: length_induct)
  case (1 s)
  show ?case
  proof (cases "c \<in> set s")
    case False
    then show ?thesis
      using 1 by (intro exI [of _ "[]"]) (simp add: split_char_plain)
  next
    case True
    then obtain a b where ab: "s = a @ c # b" "c \<notin> set a"
      by (blast dest: split_list_first)
    then consider "w = a" | "w \<in> set (split_char c b)"
      using 1 by (auto simp: split_char_append)
    then show ?thesis
    proof cases
      case 2
      with 1(1) [rule_format, of b] ab obtain pre post where "b = pre @ w @ post" "pre = [] \<or> last pre = c"
        by auto
      with ab show ?thesis
        by (intro exI [of _ "a @ c # pre"] exI [of _ post]) auto
    qed (use ab in auto)
  qed
qed

lemma clean_after_slash:
  assumes "clean_path s" "s = a @ w @ b" "a \<noteq> []" "last a = CHR ''/''"
  shows "w \<noteq> ''..''"
proof
  assume "w = ''..''"
  let ?i = "length a - 1"
  have i: "?i + 2 < length s" "s ! ?i = CHR ''/''" "s ! (?i + 1) = CHR ''.''" "s ! (?i + 2) = CHR ''.''"
    using assms(2-4) \<open>w = ''..''\<close> by (auto simp: nth_append last_conv_nth)
  then have "clean_at s (length s) ?i"
    using assms(1) by (simp add: clean_path_def clean_upto_def)
  with i show False
    by (simp add: clean_at_def)
qed

lemma join_root_below:
  assumes "clean_path path" "path = u @ rest" "u \<noteq> []" "last u = CHR ''/''"
  shows "below_root root (join_root root rest)"
proof -
  have rest: "''..'' \<notin> set (split_char CHR ''/'' rest)"
  proof
    assume "''..'' \<in> set (split_char CHR ''/'' rest)"
    then obtain pre post where "rest = pre @ ''..'' @ post" "pre = [] \<or> last pre = CHR ''/''"
      by (blast dest: split_char_component)
    with clean_after_slash [OF assms(1), of "u @ pre" "''..''" post] assms(2-4) show False
      by (cases "pre = []") (auto simp: last_append)
  qed
  then have "''..'' \<notin> set (split_char CHR ''/'' (''/'' @ rest))"
    by simp
  with rest show ?thesis
    unfolding join_root_def below_root_def by (cases "rest = []") (auto intro: exI [of _ "''/'' @ rest"])
qed

text \<open>The entries of the trie are under the prefixes of their locations.\<close>

definition keyed :: "'f bound_location trie_node \<Rightarrow> bool" where
  "keyed t \<longleftrightarrow> (\<forall>ks k l. entry_at t ks = Some (k, Some l) \<longrightarrow> k = ks \<and> location_uri l = ks)"

lemma keyed_insert:
  assumes "keyed t" "plain_key (location_uri l)" "trie_insert t (location_uri l) (Some l) = Inr t'"
  shows "keyed t'"
  unfolding keyed_def
proof (intro allI impI)
  fix ks k l'
  assume e: "entry_at t' ks = Some (k, Some l')"
  have s: "stored_at t' ks = (if ks = location_uri l then Some l else stored_at t ks)" "entry_at t' (location_uri l) = Some (location_uri l, Some l)"
    "ks \<noteq> location_uri l \<Longrightarrow> stored_at t ks \<noteq> None \<Longrightarrow> entry_at t' ks = entry_at t ks"
    using insert_walk_entry_at [OF assms(2), of "(location_uri l, Some l)" t] assms(2,3) by (auto simp: trie_insert_def plain_key_c_str)
  show "k = ks \<and> location_uri l' = ks"
  proof (cases "ks = location_uri l")
    case False
    then have "stored_at t ks = Some l'"
      using e s(1) by simp
    with False s(3) e have "entry_at t ks = Some (k, Some l')"
      by simp
    with assms(1) show ?thesis
      by (simp add: keyed_def)
  qed (use e s(2) in auto)
qed

lemma insert_locations_keyed:
  "insert_locations ls t = Inr t' \<Longrightarrow> keyed t \<Longrightarrow> \<forall>l \<in> set ls. plain_key (location_uri l) \<Longrightarrow> keyed t'"
  by (induction ls arbitrary: t) (auto simp: bind_cxx_Inr_iff intro: keyed_insert)

lemma nearest_on_path:
  "find_nearest_walk p t near = Inr e \<Longrightarrow> e = near \<or> (\<exists>q. prefix q p \<and> q \<noteq> [] \<and> entry_at t q = Some e)"
proof (induction p t near rule: find_nearest_walk.induct)
  case (2 c p v chars near)
  show ?case
  proof (cases "chars (of_char c)")
    case (Some t)
    then have "child_index c = Inr (of_char c)" "find_nearest_walk p t (if snd (entry_of t) \<noteq> None then entry_of t else near) = Inr e"
      using "2.prems" by (auto simp: child_index_def split: if_splits)
    from "2.IH" [OF this(1) Some this(2)] show ?thesis
    proof (elim disjE exE conjE)
      assume "e = (if snd (entry_of t) \<noteq> None then entry_of t else near)"
      then show ?thesis
        using Some by (auto simp: entry_at_Nil intro!: exI [of _ "[c]"] split: if_splits)
    next
      fix q
      assume "prefix q p" "entry_at t q = Some e"
      then show ?thesis
        using Some by (intro disjI2 exI [of _ "c # q"]) simp
    qed
  qed (use "2.prems" in \<open>auto simp: child_index_def split: if_splits\<close>)
qed simp

lemma translate_path_parts:
  assumes "translate_path cfg path host = Inr t" "\<forall>b \<in> set (vhosts cfg). keyed (location_trie b)"
  shows "prefix (location_uri (target_location t)) path" "location_uri (target_location t) \<noteq> []"
    "path_translated t = join_root (location_root (target_location t)) (drop (length (location_uri (target_location t))) path)"
proof -
  obtain v u r where r: "v < length (vhosts cfg)" "trie_find_nearest (location_trie (vhosts cfg ! v)) path = Inr (u, r)"
      "(case r of
         None \<Rightarrow> Inl (Broken NullPointer)
       | Some l \<Rightarrow>
           if length path < length u then Inl (Broken OutOfBounds)
           else
             (case handler_factory l of
                None \<Rightarrow> Inl (Broken NullPointer)
              | Some f \<Rightarrow> Inr \<lparr> target_vhost = v, target_location = l, target_factory = f,
                  path_translated = join_root (location_root l) (drop (length u) path) \<rparr>)) = Inr t"
    using assms(1) by (auto simp: translate_path_def bind_conf_Inr_iff conf_of_Inr_iff index_cxx_Inr_iff)
  then obtain l where l: "r = Some l" "target_location t = l" "path_translated t = join_root (location_root l) (drop (length u) path)"
    by (auto split: option.splits if_splits)
  from nearest_on_path [OF r(2) [unfolded trie_find_nearest_def]] l(1) obtain q where
      "prefix q (c_str path)" "q \<noteq> []" "entry_at (location_trie (vhosts cfg ! v)) q = Some (u, Some l)"
    by auto
  moreover have "keyed (location_trie (vhosts cfg ! v))"
    using r(1) assms(2) by simp
  ultimately have "prefix u (c_str path) \<and> u \<noteq> [] \<and> location_uri l = u"
    unfolding keyed_def by blast
  then have "prefix u path \<and> u \<noteq> [] \<and> location_uri l = u"
    using takeWhile_is_prefix prefix_order.trans unfolding c_str_def by blast
  with l show "prefix (location_uri (target_location t)) path" "location_uri (target_location t) \<noteq> []"
    "path_translated t = join_root (location_root (target_location t)) (drop (length (location_uri (target_location t))) path)"
    by simp_all
qed

lemma engine_init_keyed:
  assumes "engine_init factories can_open start_listening c = Inr (c', cfg)"
    "\<forall>v \<in> set (served_vhosts c). \<forall>l \<in> set (location_list v). plain_key (location_uri l)"
  shows "\<forall>b \<in> set (vhosts cfg). keyed (location_trie b)"
proof -
  have "list_all2 (bound_ok factories) (served_vhosts c) (vhosts cfg)"
    using engine_init_tables(1) [OF assms(1)] by (simp add: tables_ok_def)
  moreover have keyed: "keyed (location_trie b)" if "bound_ok factories v b" "\<forall>l \<in> set (location_list v). plain_key (location_uri l)"
    for v and b :: "'a bound_vhost"
  proof (rule insert_locations_keyed)
    show "insert_locations (map (bind_location factories) (location_list v)) new_node = Inr (location_trie b)"
      using that(1) by (simp add: bound_ok_def)
    show "keyed (new_node :: 'a bound_location trie_node)"
      by (simp add: keyed_def entry_at_new_node)
  qed (use that(2) in simp)
  ultimately show ?thesis
    using assms(2) by (induction rule: list_all2_induct) (simp_all add: keyed)
qed

lemma process_request_headers_path:
  assumes "request_ok r" "process_request_headers cfg now r resp = Inr (Some t, r', resp')"
  shows "\<exists>path host. clean_path path \<and> translate_path cfg path host = Inr t"
proof -
  obtain ok r1 path host where p: "sanitize_request r = Inr (True, r1)" "c_string_at (chars r1) (hs_offset (request_path r1)) = Inr path"
      "translate_path cfg path host = Inr t"
    using assms(2) by (auto simp: process_request_headers_def bind_conf_Inr_iff conf_of_Inr_iff split: if_splits)
  from p(1) obtain off n ret s where s: "request_path r = HBuf off n" "sanitize_path (drop off (chars r)) = Inr (ret, s)" "0 \<le> ret"
      "r1 = r\<lparr> chars := take off (chars r) @ s \<rparr>"
    by (cases "request_path r") (auto simp: sanitize_request_def bind_cxx_Inr_iff)
  have "off \<le> length (chars r)"
    using assms(1) s(1) by (auto simp: request_ok_def hs_ok_def store_ok_def)
  with p(2) have "path = c_str s"
    by (auto simp: s(1,4) c_string_at_def split: if_splits)
  moreover have "clean_path (c_str s)"
    using request_path_sanitised [OF assms(1) s(1)] s(2,3) by auto
  ultimately show ?thesis
    using p(3) by blast
qed

text \<open>
  C3. When \<^verbatim>\<open>process_request_headers\<close> accepts a request and the prefix of the location it is for ends with a
  slash, the translated path is the root of that location with more path after it that has no
  component \<^verbatim>\<open>..\<close>: the request does not leave the root.
\<close>

theorem request_below_root:
  assumes "engine_init factories can_open start_listening c = Inr (c', cfg)"
    "\<forall>v \<in> set (served_vhosts c). \<forall>l \<in> set (location_list v). plain_key (location_uri l)"
    "request_ok r" "process_request_headers cfg now r resp = Inr (Some t, r', resp')"
    "last (location_uri (target_location t)) = CHR ''/''"
  shows "below_root (location_root (target_location t)) (path_translated t)"
proof -
  obtain path host where p: "clean_path path" "translate_path cfg path host = Inr t"
    using process_request_headers_path [OF assms(3,4)] by blast
  note parts = translate_path_parts [OF p(2) engine_init_keyed [OF assms(1,2)]]
  from parts(1) obtain rest where "path = location_uri (target_location t) @ rest"
    by (auto simp: prefix_def)
  with join_root_below [OF p(1) this parts(2) assms(5)] parts(3) show ?thesis
    by simp
qed

definition sample_response_store :: http_response where
  "sample_response_store = \<lparr> parser = blank_parser, chars = replicate 128 NUL, chars_offset = 0, message.max_headers = 8, parse_type = http_parse_none,
     header_list = [], header_map = [], body_start = None, http_version = HNull, overflow = False, reason_phrase = HNull, status_code = 0 \<rparr>"

theorem request_below_root_witness:
  "\<exists>c cfg t r' resp'. engine_init example_factories (\<lambda>_. True) (\<lambda>_ _. True) example_config = Inr (c, cfg) \<and>
     process_request_headers cfg 784111777 sample_request sample_response_store = Inr (Some t, r', resp') \<and>
     below_root ''/srv/www'' (path_translated t)"
proof -
  have "case engine_init example_factories (\<lambda>_. True) (\<lambda>_ _. True) example_config of
      Inl _ \<Rightarrow> False
    | Inr (c, cfg) \<Rightarrow> (case process_request_headers cfg 784111777 sample_request sample_response_store of
        Inr (Some t, r', resp') \<Rightarrow> location_root (target_location t) = ''/srv/www'' \<and> last (location_uri (target_location t)) = CHR ''/'' | _ \<Rightarrow> False)"
    by code_simp
  then obtain c cfg t r' resp' where init: "engine_init example_factories (\<lambda>_. True) (\<lambda>_ _. True) example_config = Inr (c, cfg)"
      and p: "process_request_headers cfg 784111777 sample_request sample_response_store = Inr (Some t, r', resp')"
      and l: "location_root (target_location t) = ''/srv/www''" "last (location_uri (target_location t)) = CHR ''/''"
    by (auto simp: case_result)
  have "\<forall>v \<in> set (served_vhosts example_config). \<forall>l \<in> set (location_list v). plain_key (location_uri l)"
    by code_simp
  from request_below_root [OF init this sample_request_ok p l(2)] init p l(1) show ?thesis
    by auto
qed

text \<open>
  Without the slash at the end a request can leave the root: after the prefix \<^verbatim>\<open>/a\<close> the path \<^verbatim>\<open>/a../secret\<close>, which
  is clean, continues with two dots, and these follow the slash that is put behind the root.
\<close>

definition open_config :: config where
  "open_config = new_config\<lparr> vhost_list := [new_vhost\<lparr> server_names := [''default''],
     location_list := [(new_location ''/a'')\<lparr> location_root := ''/srv/www'' \<rparr>] \<rparr>] \<rparr>"

lemma request_leaves_root:
  "\<exists>c cfg t. engine_init example_factories (\<lambda>_. True) (\<lambda>_ _. True) open_config = Inr (c, cfg) \<and> clean_path ''/a../secret'' \<and>
     translate_path cfg ''/a../secret'' None = Inr t \<and> path_translated t = ''/srv/www/../secret''"
proof -
  have "case engine_init example_factories (\<lambda>_. True) (\<lambda>_ _. True) open_config of
      Inl _ \<Rightarrow> False
    | Inr (c, cfg) \<Rightarrow> (case translate_path cfg ''/a../secret'' None of Inl _ \<Rightarrow> False | Inr t \<Rightarrow> path_translated t = ''/srv/www/../secret'')"
    by code_simp
  moreover have "clean_path ''/a../secret''"
    by (simp add: clean_path_def clean_upto_Suc numeral_nat)
  ultimately show ?thesis
    by (auto simp: case_result)
qed

text \<open>A path that no location is a prefix of makes the server follow a null pointer.\<close>

lemma request_without_location:
  "\<exists>c cfg. engine_init example_factories (\<lambda>_. True) (\<lambda>_ _. True) open_config = Inr (c, cfg) \<and>
     translate_path cfg ''/'' None = Inl (Broken NullPointer)"
proof -
  have "case engine_init example_factories (\<lambda>_. True) (\<lambda>_ _. True) open_config of
      Inl _ \<Rightarrow> False
    | Inr (c, cfg) \<Rightarrow> (case translate_path cfg ''/'' None of Inl e \<Rightarrow> e = Broken NullPointer | Inr t \<Rightarrow> False)"
    by code_simp
  then show ?thesis
    by (auto simp: case_result)
qed

text \<open>A listener of another protocol before one of the server makes \<^verbatim>\<open>engine_init\<close> read past the list of sockets.\<close>

lemma listener_of_another_protocol:
  "make_listens (\<lambda>_ _. True) 0 [(''http_client'', a, m), (''http_server'', b, n)] [] = Inl (Broken OutOfBounds)"
  by simp

end
