(* ===== verification/Http_Server.thy ===== *)
theory Http_Server
  imports Http_Location "HOL-Library.Multiset"
begin

text \<open>
  \<^verbatim>\<open>src/http_server.cc\<close>: the connections of the server and how threads hand them to each other. A
  connection is in the list of free connections, or in the pollset of a thread that waits for events
  on it, or in a message on its way to a thread. The handlers of requests are a parameter, the
  virtual functions of \<^verbatim>\<open>http_server_handler\<close>; they see of the connection the members in \<open>exchange\<close>.
\<close>

section \<open>Roles, actions and states\<close>

text \<open>
  The masks of the client and of the server are in one table. They get there when the program is
  loaded, those of a file in their order; the client is the first of the two files in the library.
  The actions are in one table as well; those of the client, which no message of the server has, are left
  out of it here.
\<close>

definition server_masks :: "protocol_mask registry" where
  "server_masks = foldl (\<lambda>r (proto, name). new_protocol_mask proto name r) \<lparr> reg_table = [], reg_map = [] \<rparr>
     [(''http_client'', ''connect''), (''http_client'', ''worker''), (''http_client'', ''keepalive''),
      (''http_server'', ''listener''), (''http_server'', ''router''), (''http_server'', ''keepalive''), (''http_server'', ''worker'')]"

definition thread_mask_listener :: u32 where "thread_mask_listener = find_mask (reg_table server_masks) ''http_server'' ''listener''"
definition thread_mask_router :: u32 where "thread_mask_router = find_mask (reg_table server_masks) ''http_server'' ''router''"
definition thread_mask_keepalive :: u32 where "thread_mask_keepalive = find_mask (reg_table server_masks) ''http_server'' ''keepalive''"
definition thread_mask_worker :: u32 where "thread_mask_worker = find_mask (reg_table server_masks) ''http_server'' ''worker''"

datatype server_callback = Router_Tls_Handshake | Router_Process_Headers | Worker_Process_Request | Keepalive_Wait_Connection | Linger_Read_Connection

definition server_actions :: "server_callback protocol_action registry" where
  "server_actions = foldl (\<lambda>r (proto, name, cb). new_protocol_action proto name cb r) \<lparr> reg_table = [], reg_map = [] \<rparr>
     [(None, ''none'', None), (Some ''http_server'', ''router_tls_handshake'', Some Router_Tls_Handshake),
      (Some ''http_server'', ''router_process_headers'', Some Router_Process_Headers),
      (Some ''http_server'', ''worker_process_request'', Some Worker_Process_Request),
      (Some ''http_server'', ''keepalive_wait_connection'', Some Keepalive_Wait_Connection),
      (Some ''http_server'', ''linger_read_connection'', Some Linger_Read_Connection)]"

definition action_of :: "server_callback \<Rightarrow> int" where
  "action_of cb = int (length (takeWhile (\<lambda>a. action_callback a \<noteq> Some cb) (reg_table server_actions)))"

datatype conn_state = connection_state_free | connection_state_tls_handshake | connection_state_client_request | connection_state_client_body
  | connection_state_server_response | connection_state_server_body | connection_state_waiting | connection_state_lingering_close

section \<open>Connections\<close>

record exchange =
  buffer :: io_ring_buffer
  request :: http_request
  response :: http_response
  request_has_body :: bool
  response_has_body :: bool
  connection_close :: bool

record 'h http_server_connection = exchange +
  conn :: connection
  conn_state :: conn_state
  handler :: "'h option"

type_synonym ('h, 'w, 'r) handler_op = "'h \<Rightarrow> exchange \<Rightarrow> 'w \<Rightarrow> ('r \<times> 'h \<times> exchange \<times> 'w) cxx"

text \<open>
  A class of handlers. A new handler has been given the virtual host, the location and the path, and its
  function \<^verbatim>\<open>init\<close> has been called.
\<close>

record ('f, 'h, 'w) handler_class =
  new_handler :: "'f target \<Rightarrow> int \<Rightarrow> 'h"
  handle_request :: "('h, 'w, bool) handler_op"
  read_request_body :: "('h, 'w, io_result) handler_op"
  populate_response :: "('h, 'w, bool) handler_op"
  write_response_body :: "('h, 'w, io_result) handler_op"
  end_request :: "('h, 'w, bool) handler_op"
  set_header_length :: "int \<Rightarrow> 'h \<Rightarrow> 'h"
  destroy_handler :: "'h \<Rightarrow> 'w \<Rightarrow> 'w"

record engine_stats =
  connections_accepted :: u64
  connections_aborted :: u64
  connections_closed :: u64
  connections_keepalive :: u64
  connections_linger :: u64
  requests_processed :: u64

definition zero_stats :: engine_stats where
  "zero_stats = \<lparr> connections_accepted = 0, connections_aborted = 0, connections_closed = 0, connections_keepalive = 0,
     connections_linger = 0, requests_processed = 0 \<rparr>"

text \<open>The pollsets have the pairs of a thread and a connection that it waits for.\<close>

record ('h, 'w) server_state =
  pool :: "'h http_server_connection connection_state"
  stats :: engine_stats
  polls :: "(nat \<times> nat) list"
  threads :: engine
  access_log_lines :: "(nat \<times> string) list"
  world :: 'w

type_synonym ('h, 'w) net = "('h, 'w) server_state thread_net"

text \<open>What stays the same while the server runs.\<close>

record ('f, 'h, 'w) server_env =
  env_config :: config
  env_cfg :: "'f server_cfg"
  env_class :: "('f, 'h, 'w) handler_class"
  env_sys :: "'w system"
  env_ntop :: ntop
  env_vhost_of :: "'h \<Rightarrow> nat"

text \<open>
  The thread that handles an event, the time, and what sending will return, for each thread and message
  that is sent while the event is handled.
\<close>

record occasion =
  this_thread :: nat
  current_time :: int
  send_outcome :: "nat \<Rightarrow> protocol_message \<Rightarrow> send_result"

text \<open>
  Sizes of the configuration are \<^verbatim>\<open>int\<close> and are converted to \<^verbatim>\<open>size_t\<close>. A vector that is to become longer
  than it can be throws an exception that nobody catches, which ends the program as a failed assertion does.
\<close>

definition to_size :: "int \<Rightarrow> nat" where
  "to_size x = nat (if x < 0 then x + 2 ^ 64 else x)"

definition check_length :: "int \<Rightarrow> unit cxx" where
  "check_length x = (if to_size x < 2 ^ 63 then Inr () else Inl AssertFailed)"

definition http_server_connection_init :: "('f, 'h, 'w) server_env \<Rightarrow> ('h http_server_connection, 'w) conn_op" where
  "http_server_connection_init E c w =
     (let (k, w) = conn_reset (env_sys E) (conn c) w;
          c = c\<lparr> buffer := ring_reset (buffer c), conn := k, request := request_reset (request c), response := response_reset (response c),
                 request_has_body := False, response_has_body := False, connection_close := True, conn_state := connection_state_free \<rparr> in
      if ring_size (buffer c) = 0
      then
        bind_cxx (ring_resize (buffer c) (word_of_int (io_buffer_size (env_config E)))) (\<lambda>b.
        bind_cxx (check_length (header_buffer_size (env_config E))) (\<lambda>_.
          Inr (c\<lparr> buffer := b,
                  request := message_resize 0 (request c) (to_size (header_buffer_size (env_config E))) (to_size (config.max_headers (env_config E))),
                  response := message_resize 0 (response c) (to_size (header_buffer_size (env_config E))) (to_size (config.max_headers (env_config E))) \<rparr>, w)))
      else Inr (c, w))"

text \<open>The destructor of a handler that the connection no longer has.\<close>

definition release_handler :: "('f, 'h, 'w) server_env \<Rightarrow> 'h option \<Rightarrow> 'w \<Rightarrow> 'w" where
  "release_handler E h w = (case h of None \<Rightarrow> w | Some h \<Rightarrow> destroy_handler (env_class E) h w)"

definition http_server_connection_free :: "('f, 'h, 'w) server_env \<Rightarrow> ('h http_server_connection, 'w) conn_op" where
  "http_server_connection_free E c w = Inr (c\<lparr> conn_state := connection_state_free, handler := None \<rparr>, release_handler E (handler c) w)"

definition http_server_connection_close :: "('f, 'h, 'w) server_env \<Rightarrow> ('h http_server_connection, 'w) conn_op" where
  "http_server_connection_close E c w = (let (k, w) = conn_close (env_sys E) (conn c) w in Inr (c\<lparr> conn := k \<rparr>, w))"

section \<open>Access to the state\<close>

definition with_server :: "(('h, 'w) server_state \<Rightarrow> ('h, 'w) server_state conf) \<Rightarrow> ('h, 'w) net \<Rightarrow> ('h, 'w) net conf" where
  "with_server f s = bind_conf (f (net_state s)) (\<lambda>v. Inr (s\<lparr> net_state := v \<rparr>))"

definition get_conn :: "nat \<Rightarrow> ('h, 'w) net \<Rightarrow> 'h http_server_connection conf" where
  "get_conn i s = conf_of (index_cxx (connections_all (pool (net_state s))) i)"

definition with_conn :: "nat \<Rightarrow> ('h http_server_connection, 'w) conn_op \<Rightarrow> ('h, 'w) net \<Rightarrow> ('h, 'w) net conf" where
  "with_conn i f = with_server (\<lambda>v.
     bind_conf (conf_of (on_connection f i (pool v) (world v))) (\<lambda>(p, w). Inr (v\<lparr> pool := p, world := w \<rparr>)))"

definition set_conn :: "nat \<Rightarrow> ('h http_server_connection \<Rightarrow> 'h http_server_connection) \<Rightarrow> ('h, 'w) net \<Rightarrow> ('h, 'w) net conf" where
  "set_conn i f = with_conn i (\<lambda>c w. Inr (f c, w))"

definition count_stat :: "((u64 \<Rightarrow> u64) \<Rightarrow> engine_stats \<Rightarrow> engine_stats) \<Rightarrow> ('h, 'w) net \<Rightarrow> ('h, 'w) net" where
  "count_stat upd s = s\<lparr> net_state := (net_state s)\<lparr> stats := upd (\<lambda>n. n + 1) (stats (net_state s)) \<rparr> \<rparr>"

definition add_events :: "nat \<Rightarrow> nat \<Rightarrow> ('h, 'w) net \<Rightarrow> ('h, 'w) net" where
  "add_events t i s =
     (if (t, i) \<in> set (polls (net_state s)) then s else s\<lparr> net_state := (net_state s)\<lparr> polls := polls (net_state s) @ [(t, i)] \<rparr> \<rparr>)"

definition remove_events :: "nat \<Rightarrow> nat \<Rightarrow> ('h, 'w) net \<Rightarrow> ('h, 'w) net" where
  "remove_events t i s = s\<lparr> net_state := (net_state s)\<lparr> polls := remove1 (t, i) (polls (net_state s)) \<rparr> \<rparr>"

text \<open>A call of a virtual function of the handler of a connection, with its result.\<close>

definition call_handler :: "('h, 'w, 'r) handler_op \<Rightarrow> nat \<Rightarrow> ('h, 'w) net \<Rightarrow> ('r \<times> ('h, 'w) net) conf" where
  "call_handler f i s =
     bind_conf (get_conn i s) (\<lambda>c.
       case handler c of
         None \<Rightarrow> Inl (Broken NullPointer)
       | Some h \<Rightarrow>
           bind_conf (conf_of (f h (exchange.truncate c) (world (net_state s)))) (\<lambda>(r, h, x, w).
           bind_conf (set_conn i (\<lambda>c. (exchange.extend x (exchange.more c))\<lparr> handler := Some h \<rparr>) (s\<lparr> net_state := (net_state s)\<lparr> world := w \<rparr> \<rparr>)) (\<lambda>s.
             Inr (r, s))))"

section \<open>Closing and forwarding\<close>

definition drop_connection :: "('f, 'h, 'w) server_env \<Rightarrow> nat \<Rightarrow> ('h, 'w) net \<Rightarrow> ('h, 'w) net conf" where
  "drop_connection E i = with_server (\<lambda>v.
     bind_conf (conf_of (Protocol.close_connection (http_server_connection_close E) (http_server_connection_free E) i (pool v) (world v))) (\<lambda>(p, w).
       Inr (v\<lparr> pool := p, world := w \<rparr>)))"

definition server_abort_connection :: "('f, 'h, 'w) server_env \<Rightarrow> nat \<Rightarrow> ('h, 'w) net \<Rightarrow> ('h, 'w) net conf" where
  "server_abort_connection E i s = drop_connection E i (count_stat connections_aborted_update s)"

definition server_close_connection :: "('f, 'h, 'w) server_env \<Rightarrow> nat \<Rightarrow> ('h, 'w) net \<Rightarrow> ('h, 'w) net conf" where
  "server_close_connection E i s = drop_connection E i (count_stat connections_closed_update s)"

definition server_new_connection :: "('f, 'h, 'w) server_env \<Rightarrow> ('h, 'w) net \<Rightarrow> (nat option \<times> ('h, 'w) net) conf" where
  "server_new_connection E s =
     bind_conf (conf_of (new_connection (http_server_connection_init E) (pool (net_state s)) (world (net_state s)))) (\<lambda>(r, p, w).
       Inr (r, s\<lparr> net_state := (net_state s)\<lparr> pool := p, world := w \<rparr> \<rparr>))"

section \<open>Messages\<close>

definition router_tls_handshake :: "occasion \<Rightarrow> nat \<Rightarrow> ('h, 'w) net \<Rightarrow> ('h, 'w) net conf" where
  "router_tls_handshake oc i s =
     bind_conf (set_conn i (\<lambda>c. c\<lparr> conn_state := connection_state_tls_handshake \<rparr>) s) (\<lambda>s. Inr (add_events (this_thread oc) i s))"

definition router_process_headers :: "occasion \<Rightarrow> nat \<Rightarrow> ('h, 'w) net \<Rightarrow> ('h, 'w) net conf" where
  "router_process_headers oc i s =
     bind_conf (set_conn i (\<lambda>c. c\<lparr> request := request_reset (request c), conn_state := connection_state_client_request \<rparr>) s) (\<lambda>s.
       Inr (add_events (this_thread oc) i s))"

definition keepalive_wait_connection :: "occasion \<Rightarrow> nat \<Rightarrow> ('h, 'w) net \<Rightarrow> ('h, 'w) net conf" where
  "keepalive_wait_connection oc i s =
     bind_conf (set_conn i (\<lambda>c. c\<lparr> conn_state := connection_state_waiting \<rparr>) s) (\<lambda>s. Inr (add_events (this_thread oc) i s))"

text \<open>
  The head of the response is written to the start of the buffer. The length is -1 when it does not fit.
  After a handler that failed the connection has been given back, but the function goes on.
\<close>

definition write_response_head :: "http_response \<Rightarrow> io_ring_buffer \<Rightarrow> (int \<times> io_ring_buffer) cxx" where
  "write_response_head resp b =
     bind_cxx (response_to_buffer resp (map (\<lambda>c. char_of (unat c)) (ring b))) (\<lambda>r.
       case r of
         None \<Rightarrow> Inr (- 1, ring_reset b)
       | Some (out, n) \<Rightarrow> Inr (int n, (ring_reset b)\<lparr> ring := map (\<lambda>c. of_nat (of_char c)) out, ring_back := of_nat n \<rparr>))"

definition populate_response_headers :: "('f, 'h, 'w) server_env \<Rightarrow> occasion \<Rightarrow> nat \<Rightarrow> ('h, 'w) net \<Rightarrow> (int \<times> ('h, 'w) net) conf" where
  "populate_response_headers E oc i s =
     bind_conf (call_handler (populate_response (env_class E)) i s) (\<lambda>(ok, s).
     bind_conf (if \<not> ok then server_abort_connection E i s else Inr s) (\<lambda>s.
     bind_conf (get_conn i s) (\<lambda>c.
     bind_conf (conf_of (write_response_head (response c) (buffer c))) (\<lambda>(n, b).
       case handler c of
         None \<Rightarrow> Inl (Broken NullPointer)
       | Some h \<Rightarrow>
           bind_conf (set_conn i (\<lambda>c. c\<lparr> buffer := b, handler := Some (set_header_length (env_class E) n h) \<rparr>) s) (\<lambda>s.
             if n < 0
             then bind_conf (server_abort_connection E i (remove_events (this_thread oc) i s)) (\<lambda>s. Inr (n, s))
             else Inr (n, s))))))"

definition respond_state :: "'h http_server_connection \<Rightarrow> 'h http_server_connection" where
  "respond_state c = c\<lparr> conn_state := (if response_has_body c then connection_state_server_body else connection_state_server_response) \<rparr>"

text \<open>The part of the body that came with the head is in the buffer; it is moved to the start.\<close>

definition take_body_start :: "'h http_server_connection \<Rightarrow> 'h http_server_connection cxx" where
  "take_body_start c =
     bind_cxx (case body_start (request c) of
         None \<Rightarrow> Inr []
       | Some (off, n) \<Rightarrow> read_range (ring (buffer c)) off n) (\<lambda>src.
     bind_cxx (ring_set (buffer c) src) (\<lambda>b. Inr (c\<lparr> buffer := b, conn_state := connection_state_client_body \<rparr>)))"

definition worker_process_request :: "('f, 'h, 'w) server_env \<Rightarrow> occasion \<Rightarrow> nat \<Rightarrow> ('h, 'w) net \<Rightarrow> ('h, 'w) net conf" where
  "worker_process_request E oc i s =
     bind_conf (call_handler (handle_request (env_class E)) i s) (\<lambda>(ok, s).
     bind_conf (get_conn i s) (\<lambda>c.
       if \<not> ok then server_abort_connection E i s
       else if request_has_body c
       then bind_conf (with_conn i (\<lambda>c w. bind_cxx (take_body_start c) (\<lambda>c. Inr (c, w))) s) (\<lambda>s. Inr (add_events (this_thread oc) i s))
       else
         bind_conf (populate_response_headers E oc i s) (\<lambda>(n, s).
           if n > 0
           then bind_conf (set_conn i respond_state s) (\<lambda>s. Inr (add_events (this_thread oc) i s))
           else server_abort_connection E i s)))"

definition linger_read_connection :: "('f, 'h, 'w) server_env \<Rightarrow> occasion \<Rightarrow> nat \<Rightarrow> ('h, 'w) net \<Rightarrow> ('h, 'w) net conf" where
  "linger_read_connection E oc i s =
     bind_conf (with_conn i (\<lambda>c w. let (k, w) = conn_start_lingering_close (env_sys E) (conn c) w in
         Inr (c\<lparr> conn_state := connection_state_lingering_close, conn := k \<rparr>, w)) s) (\<lambda>s.
       Inr (add_events (this_thread oc) i s))"

definition call_action :: "('f, 'h, 'w) server_env \<Rightarrow> occasion \<Rightarrow> server_callback \<Rightarrow> nat \<Rightarrow> ('h, 'w) net \<Rightarrow> ('h, 'w) net conf" where
  "call_action E oc cb =
     (case cb of
        Router_Tls_Handshake \<Rightarrow> router_tls_handshake oc
      | Router_Process_Headers \<Rightarrow> router_process_headers oc
      | Worker_Process_Request \<Rightarrow> worker_process_request E oc
      | Keepalive_Wait_Connection \<Rightarrow> keepalive_wait_connection oc
      | Linger_Read_Connection \<Rightarrow> linger_read_connection E oc)"

definition handle_message :: "('f, 'h, 'w) server_env \<Rightarrow> occasion \<Rightarrow> string \<Rightarrow> protocol_message \<Rightarrow> ('h, 'w) net \<Rightarrow> ('h, 'w) net conf" where
  "handle_message E oc proto msg s =
     (if connection_num msg < 0 then Inl (Broken OutOfBounds)
      else
        let i = nat (connection_num msg) in
        bind_conf (set_conn i (\<lambda>c. c\<lparr> conn := (conn c)\<lparr> last_activity := current_time oc \<rparr> \<rparr>) s) (\<lambda>s.
        bind_conf (conf_of (index_cxx (reg_table server_actions) (nat (msg_action msg)))) (\<lambda>a.
          case action_callback a of None \<Rightarrow> Inl (Broken NullPointer) | Some cb \<Rightarrow> call_action E oc cb i s)))"

section \<open>Forwarding\<close>

definition forward_connection :: "('f, 'h, 'w) server_env \<Rightarrow> occasion \<Rightarrow> u32 \<Rightarrow> server_callback \<Rightarrow> nat \<Rightarrow> ('h, 'w) net \<Rightarrow> ('h, 'w) net conf" where
  "forward_connection E oc bits cb i s =
     bind_conf (thread_choose_thread (this_thread oc) bits (threads (net_state s))) (\<lambda>(dest, e).
     let s = s\<lparr> net_state := (net_state s)\<lparr> threads := e \<rparr> \<rparr> in
     bind_conf (get_conn i s) (\<lambda>c.
       case dest of
         Some to_thread \<Rightarrow>
           let msg = \<lparr> msg_action = action_of cb, connection_num = conn_id (conn c) \<rparr> in
           send_message (reg_table server_actions) (handle_message E oc) (this_thread oc) to_thread (send_outcome oc to_thread msg) msg s
       | None \<Rightarrow> server_abort_connection E i s))"

definition dispatch_connection :: "('f, 'h, 'w) server_env \<Rightarrow> occasion \<Rightarrow> nat \<Rightarrow> ('h, 'w) net \<Rightarrow> ('h, 'w) net conf" where
  "dispatch_connection E oc = forward_connection E oc thread_mask_router Router_Process_Headers"

definition dispatch_connection_tls :: "('f, 'h, 'w) server_env \<Rightarrow> occasion \<Rightarrow> nat \<Rightarrow> ('h, 'w) net \<Rightarrow> ('h, 'w) net conf" where
  "dispatch_connection_tls E oc = forward_connection E oc thread_mask_router Router_Tls_Handshake"

definition work_connection :: "('f, 'h, 'w) server_env \<Rightarrow> occasion \<Rightarrow> nat \<Rightarrow> ('h, 'w) net \<Rightarrow> ('h, 'w) net conf" where
  "work_connection E oc = forward_connection E oc thread_mask_worker Worker_Process_Request"

definition keepalive_connection :: "('f, 'h, 'w) server_env \<Rightarrow> occasion \<Rightarrow> nat \<Rightarrow> ('h, 'w) net \<Rightarrow> ('h, 'w) net conf" where
  "keepalive_connection E oc i s =
     bind_conf (with_conn i (\<lambda>c w. let (k, w) = conn_set_nodelay (env_sys E) 1 (conn c) w in
         Inr (c\<lparr> buffer := ring_reset (buffer c), conn := k \<rparr>, w)) s) (\<lambda>s.
       forward_connection E oc thread_mask_keepalive Keepalive_Wait_Connection i (count_stat connections_keepalive_update s))"

definition linger_connection :: "('f, 'h, 'w) server_env \<Rightarrow> occasion \<Rightarrow> nat \<Rightarrow> ('h, 'w) net \<Rightarrow> ('h, 'w) net conf" where
  "linger_connection E oc i s =
     forward_connection E oc thread_mask_keepalive Linger_Read_Connection i (count_stat connections_linger_update s)"

section \<open>States\<close>

text \<open>Reading from and writing to the socket of a connection through its buffer.\<close>

definition read_socket :: "('f, 'h, 'w) server_env \<Rightarrow> nat \<Rightarrow> ('h, 'w) net \<Rightarrow> (io_result \<times> ('h, 'w) net) conf" where
  "read_socket E i s =
     bind_conf (get_conn i s) (\<lambda>c.
     bind_conf (conf_of (ring_buffer_read (conn_read (env_sys E) (conn c)) (buffer c) (world (net_state s)))) (\<lambda>(result, b, w).
     bind_conf (set_conn i (\<lambda>c. c\<lparr> buffer := b \<rparr>) (s\<lparr> net_state := (net_state s)\<lparr> world := w \<rparr> \<rparr>)) (\<lambda>s. Inr (result, s))))"

definition write_socket :: "('f, 'h, 'w) server_env \<Rightarrow> nat \<Rightarrow> ('h, 'w) net \<Rightarrow> (io_result \<times> ('h, 'w) net) conf" where
  "write_socket E i s =
     bind_conf (get_conn i s) (\<lambda>c.
     bind_conf (conf_of (ring_buffer_write (conn_write (env_sys E) (conn c)) (buffer c) (world (net_state s)))) (\<lambda>(result, b, w).
     bind_conf (set_conn i (\<lambda>c. c\<lparr> buffer := b \<rparr>) (s\<lparr> net_state := (net_state s)\<lparr> world := w \<rparr> \<rparr>)) (\<lambda>s. Inr (result, s))))"

definition abort_polled :: "('f, 'h, 'w) server_env \<Rightarrow> occasion \<Rightarrow> nat \<Rightarrow> ('h, 'w) net \<Rightarrow> ('h, 'w) net conf" where
  "abort_polled E oc i s = server_abort_connection E i (remove_events (this_thread oc) i s)"

definition close_polled :: "('f, 'h, 'w) server_env \<Rightarrow> occasion \<Rightarrow> nat \<Rightarrow> ('h, 'w) net \<Rightarrow> ('h, 'w) net conf" where
  "close_polled E oc i s = server_close_connection E i (remove_events (this_thread oc) i s)"

definition handle_state_tls_handshake :: "('f, 'h, 'w) server_env \<Rightarrow> occasion \<Rightarrow> nat \<Rightarrow> ('h, 'w) net \<Rightarrow> ('h, 'w) net conf" where
  "handle_state_tls_handshake E oc i s =
     bind_conf (get_conn i s) (\<lambda>c.
       case sock (conn c) of
         None \<Rightarrow> Inl (Broken NullPointer)
       | Some k \<Rightarrow>
           bind_conf (conf_of (socket_do_handshake (env_sys E) k (world (net_state s)))) (\<lambda>(ret, w).
           let s = s\<lparr> net_state := (net_state s)\<lparr> world := w \<rparr> \<rparr> in
           if ret = 0 then dispatch_connection E oc i s
           else if ret = 3 then Inr (add_events (this_thread oc) i s)
           else if ret = 2 then Inr (add_events (this_thread oc) i s)
           else close_polled E oc i s))"

text \<open>The characters of the buffer, as the parser reads them.\<close>

definition ring_chars :: "io_ring_buffer \<Rightarrow> string" where
  "ring_chars b = map (\<lambda>c. char_of (unat c)) (ring b)"

definition parse_request :: "int \<Rightarrow> ('h http_server_connection, 'w) conn_op" where
  "parse_request n c w =
     bind_cxx (request_parse (ring_chars (buffer c)) (unat (ring_back (buffer c) - word_of_int n)) (nat n) (request c)) (\<lambda>(m, r).
       Inr (c\<lparr> request := r, buffer := (buffer c)\<lparr> ring_front := ring_front (buffer c) + word_of_int n \<rparr> \<rparr>, w))"

definition accept_request :: "('f, 'h, 'w) server_env \<Rightarrow> occasion \<Rightarrow> nat \<Rightarrow> ('h, 'w) net \<Rightarrow> (bool \<times> ('h, 'w) net) conf" where
  "accept_request E oc i s =
     bind_conf (get_conn i s) (\<lambda>c.
     bind_conf (process_request_headers (env_cfg E) (current_time oc) (request c) (response c)) (\<lambda>(t, r, resp).
     bind_conf (with_conn i (\<lambda>c w.
         let c = c\<lparr> request := r, response := resp \<rparr> in
         case t of
           None \<Rightarrow> Inr (c, w)
         | Some t \<Rightarrow> Inr (c\<lparr> handler := Some (new_handler (env_class E) t (current_time oc)) \<rparr>, release_handler E (handler c) w)) s) (\<lambda>s.
       Inr (t \<noteq> None, s))))"

definition handle_state_client_request :: "('f, 'h, 'w) server_env \<Rightarrow> occasion \<Rightarrow> nat \<Rightarrow> ('h, 'w) net \<Rightarrow> ('h, 'w) net conf" where
  "handle_state_client_request E oc i s =
     bind_conf (get_conn i s) (\<lambda>c.
       if ring_bytes_writable (buffer c) = 0 then abort_polled E oc i s
       else
         bind_conf (read_socket E i s) (\<lambda>(result, s).
         bind_conf (get_conn i s) (\<lambda>c.
           if has_error result then abort_polled E oc i s
           else if io_result.size result = 0 \<and> ring_back (buffer c) = 0 then close_polled E oc i s
           else
             bind_conf (with_conn i (parse_request (io_result.size result)) s) (\<lambda>s.
             bind_conf (get_conn i s) (\<lambda>c.
               if parser_is_finished (parser (request c))
               then
                 bind_conf (accept_request E oc i s) (\<lambda>(ok, s).
                   if \<not> ok then abort_polled E oc i s
                   else work_connection E oc i (remove_events (this_thread oc) i s))
               else if request_has_error (request c) then abort_polled E oc i s
               else Inr s)))))"

definition handle_state_client_body :: "('f, 'h, 'w) server_env \<Rightarrow> occasion \<Rightarrow> nat \<Rightarrow> ('h, 'w) net \<Rightarrow> ('h, 'w) net conf" where
  "handle_state_client_body E oc i s =
     bind_conf (call_handler (read_request_body (env_class E)) i s) (\<lambda>(result, s).
       if has_error result then abort_polled E oc i s
       else if io_result.size result = 0
       then
         bind_conf (populate_response_headers E oc i s) (\<lambda>(n, s).
         bind_conf (set_conn i respond_state s) (\<lambda>s. Inr (add_events (this_thread oc) i s)))
       else Inr s)"

text \<open>Writing what is in the buffer; \<open>None\<close> when the state handler returns here.\<close>

definition flush_buffer :: "('f, 'h, 'w) server_env \<Rightarrow> occasion \<Rightarrow> nat \<Rightarrow> ('h, 'w) net \<Rightarrow> (bool \<times> ('h, 'w) net) conf" where
  "flush_buffer E oc i s =
     bind_conf (get_conn i s) (\<lambda>c.
       if ring_bytes_readable (buffer c) > 0
       then
         bind_conf (write_socket E i s) (\<lambda>(result, s).
           if has_error result then bind_conf (abort_polled E oc i s) (\<lambda>s. Inr (False, s))
           else Inr (io_result.size result = 0, s))
       else Inr (True, s))"

text \<open>The line of the access log; the buffer for the address has 32 bytes, and the line is cut to 1022 characters.\<close>

definition access_log_line :: "ntop \<Rightarrow> int \<Rightarrow> 'h http_server_connection \<Rightarrow> string cxx" where
  "access_log_line inet_ntop now c =
     bind_cxx (to_log_string 32 now) (\<lambda>(date, n).
     bind_cxx (hstring_chars (chars (request c)) (request_method (request c))) (\<lambda>meth.
     bind_cxx (hstring_chars (chars (request c)) (request_path (request c))) (\<lambda>path.
     bind_cxx (hstring_chars (chars (request c)) (http_version (request c))) (\<lambda>version.
     let addr = get_peer_addr (conn c);
         addr_text = (if family addr = AF_INET \<or> family addr = AF_INET6 then inet_ntop (family addr) (sin_addr addr) else []) in
     if family addr \<noteq> AF_INET \<and> family addr \<noteq> AF_INET6 \<or> length addr_text \<ge> 32 then Inl Undefined
     else
       Inr (take 1022 (addr_text @ '' - - '' @ c_str date @ '' '' @ [CHR 0x22] @ c_str meth @ '' '' @ c_str path @ '' '' @ c_str version @
         [CHR 0x22] @ '' '' @ show_int (status_code (response c)) @ '' 0'' @ [CHR 0x0A]))))))"

definition finished_request :: "('f, 'h, 'w) server_env \<Rightarrow> occasion \<Rightarrow> nat \<Rightarrow> ('h, 'w) net \<Rightarrow> ('h, 'w) net conf" where
  "finished_request E oc i s =
     (let s = count_stat requests_processed_update s in
      bind_conf (get_conn i s) (\<lambda>c.
        case handler c of
          None \<Rightarrow> Inr s
        | Some h \<Rightarrow>
            bind_conf (conf_of (index_cxx (vhosts (env_cfg E)) (env_vhost_of E h))) (\<lambda>v.
              if access_logged v
              then bind_conf (conf_of (access_log_line (env_ntop E) (current_time oc) c)) (\<lambda>line.
                     Inr (s\<lparr> net_state := (net_state s)\<lparr> access_log_lines := access_log_lines (net_state s) @ [(env_vhost_of E h, line)] \<rparr> \<rparr>))
              else Inr s)))"

text \<open>The end of a response; \<open>finish\<close> is what is done for statistics and log.\<close>

definition end_response ::
  "('f, 'h, 'w) server_env \<Rightarrow> occasion \<Rightarrow> (('h, 'w) net \<Rightarrow> ('h, 'w) net conf) \<Rightarrow> nat \<Rightarrow> ('h, 'w) net \<Rightarrow> ('h, 'w) net conf" where
  "end_response E oc finish i s =
     bind_conf (call_handler (end_request (env_class E)) i s) (\<lambda>(ok, s).
     bind_conf (get_conn i s) (\<lambda>c.
       if \<not> ok then abort_polled E oc i s
       else
         bind_conf (finish s) (\<lambda>s.
           if connection_close c then close_polled E oc i s
           else keepalive_connection E oc i (remove_events (this_thread oc) i s))))"

definition handle_state_server_response :: "('f, 'h, 'w) server_env \<Rightarrow> occasion \<Rightarrow> nat \<Rightarrow> ('h, 'w) net \<Rightarrow> ('h, 'w) net conf" where
  "handle_state_server_response E oc i s =
     bind_conf (flush_buffer E oc i s) (\<lambda>(go_on, s).
       if go_on then end_response E oc (\<lambda>s. Inr (count_stat requests_processed_update s)) i s else Inr s)"

definition handle_state_server_body :: "('f, 'h, 'w) server_env \<Rightarrow> occasion \<Rightarrow> nat \<Rightarrow> ('h, 'w) net \<Rightarrow> ('h, 'w) net conf" where
  "handle_state_server_body E oc i s =
     bind_conf (get_conn i s) (\<lambda>c.
     bind_conf (if response_has_body c then call_handler (write_response_body (env_class E)) i s else Inr (io_size 0, s)) (\<lambda>(body_result, s).
       if has_error body_result then abort_polled E oc i s
       else
         bind_conf (flush_buffer E oc i s) (\<lambda>(go_on, s).
           if go_on then end_response E oc (finished_request E oc i) i s else Inr s)))"

definition handle_state_waiting :: "('f, 'h, 'w) server_env \<Rightarrow> occasion \<Rightarrow> nat \<Rightarrow> ('h, 'w) net \<Rightarrow> ('h, 'w) net conf" where
  "handle_state_waiting E oc i s = dispatch_connection E oc i (remove_events (this_thread oc) i s)"

definition handle_state_lingering_close :: "('f, 'h, 'w) server_env \<Rightarrow> occasion \<Rightarrow> nat \<Rightarrow> ('h, 'w) net \<Rightarrow> ('h, 'w) net conf" where
  "handle_state_lingering_close E oc i s =
     bind_conf (set_conn i (\<lambda>c. c\<lparr> buffer := ring_reset (buffer c) \<rparr>) s) (\<lambda>s.
     bind_conf (read_socket E i s) (\<lambda>(result, s).
       if has_error result then close_polled E oc i s else Inr s))"

section \<open>Events\<close>

definition call_state :: "('f, 'h, 'w) server_env \<Rightarrow> occasion \<Rightarrow> conn_state \<Rightarrow> nat \<Rightarrow> ('h, 'w) net \<Rightarrow> ('h, 'w) net conf" where
  "call_state E oc st =
     (case st of
        connection_state_free \<Rightarrow> abort_polled E oc
      | connection_state_tls_handshake \<Rightarrow> handle_state_tls_handshake E oc
      | connection_state_client_request \<Rightarrow> handle_state_client_request E oc
      | connection_state_client_body \<Rightarrow> handle_state_client_body E oc
      | connection_state_server_response \<Rightarrow> handle_state_server_response E oc
      | connection_state_server_body \<Rightarrow> handle_state_server_body E oc
      | connection_state_waiting \<Rightarrow> handle_state_waiting E oc
      | connection_state_lingering_close \<Rightarrow> handle_state_lingering_close E oc)"

text \<open>The socket has failed in one of three ways, or is ready.\<close>

definition handle_connection :: "('f, 'h, 'w) server_env \<Rightarrow> occasion \<Rightarrow> bool \<Rightarrow> nat \<Rightarrow> ('h, 'w) net \<Rightarrow> ('h, 'w) net conf" where
  "handle_connection E oc failed i s =
     (if failed then close_polled E oc i s
      else
        bind_conf (set_conn i (\<lambda>c. c\<lparr> conn := (conn c)\<lparr> last_activity := current_time oc \<rparr> \<rparr>) s) (\<lambda>s.
        bind_conf (get_conn i s) (\<lambda>c. call_state E oc (conn_state c) i s)))"

definition timeout_connection :: "('f, 'h, 'w) server_env \<Rightarrow> occasion \<Rightarrow> nat \<Rightarrow> ('h, 'w) net \<Rightarrow> ('h, 'w) net conf" where
  "timeout_connection E oc i s =
     bind_conf (get_conn i s) (\<lambda>c.
     let idle = current_time oc - last_activity (conn c) in
     if conn_state c = connection_state_free then Inr s
     else if conn_state c \<in> {connection_state_client_request, connection_state_client_body, connection_state_server_response, connection_state_server_body}
     then if idle > connection_timeout (env_config E) then linger_connection E oc i (remove_events (this_thread oc) i s) else Inr s
     else if conn_state c = connection_state_lingering_close
     then if idle > connection_timeout (env_config E) then abort_polled E oc i s else Inr s
     else if conn_state c = connection_state_waiting
     then if idle > keepalive_timeout (env_config E) then close_polled E oc i s else Inr s
     else Inr s)"

text \<open>One connection that was accepted, with its addresses. Without a free connection the descriptor is closed.\<close>

definition handle_accepted ::
  "('f, 'h, 'w) server_env \<Rightarrow> occasion \<Rightarrow> socket_mode \<Rightarrow> bool \<Rightarrow> int \<Rightarrow> socket_addr \<Rightarrow> socket_addr \<Rightarrow> ('h, 'w) net \<Rightarrow> ('h, 'w) net conf" where
  "handle_accepted E oc mode ctx desc peer own s =
     bind_conf (server_new_connection E s) (\<lambda>(r, s).
       case r of
         None \<Rightarrow> Inr (s\<lparr> net_state := (net_state s)\<lparr> world := sys_close (env_sys E) desc (world (net_state s)) \<rparr> \<rparr>)
       | Some i \<Rightarrow>
           bind_conf (with_conn i (\<lambda>c w.
             let (k, w) = (case mode of socket_mode_plain \<Rightarrow> conn_accept (env_sys E) desc (conn c) w
                                      | socket_mode_tls \<Rightarrow> conn_accept_tls (env_sys E) desc ctx (conn c) w) in
             Inr (c\<lparr> conn := k\<lparr> local_addr := peer, peer_addr := own \<rparr> \<rparr>, w)) s) (\<lambda>s.
           let s = count_stat connections_accepted_update s in
           (case mode of socket_mode_plain \<Rightarrow> dispatch_connection E oc i s | socket_mode_tls \<Rightarrow> dispatch_connection_tls E oc i s)))"

text \<open>The loop that accepts connections; the list has those until \<^verbatim>\<open>accept\<close> fails.\<close>

definition handle_accept ::
  "('f, 'h, 'w) server_env \<Rightarrow> occasion \<Rightarrow> socket_mode \<Rightarrow> bool \<Rightarrow> (int \<times> socket_addr \<times> socket_addr) list \<Rightarrow> ('h, 'w) net \<Rightarrow> ('h, 'w) net conf" where
  "handle_accept E oc mode ctx accepted s = fold_conf (\<lambda>s (desc, peer, own). handle_accepted E oc mode ctx desc peer own s) s accepted"

section \<open>Runs\<close>

text \<open>
  What \<^verbatim>\<open>protocol_thread::mainloop\<close> does with an event, in the thread of the occasion. Events of a connection
  come from the pollset: there are none for a connection that the thread does not wait for.
\<close>

datatype server_event = Ev_Message recv_result | Ev_Accept socket_mode bool "(int \<times> socket_addr \<times> socket_addr) list" | Ev_Connection bool nat | Ev_Timeout nat

definition server_step :: "('f, 'h, 'w) server_env \<Rightarrow> ('h, 'w) net \<Rightarrow> occasion \<times> server_event \<Rightarrow> ('h, 'w) net conf" where
  "server_step E s = (\<lambda>(oc, ev).
     if this_thread oc < length (boxes s)
     then
       (case ev of
          Ev_Message r \<Rightarrow> receive_message (reg_table server_actions) (handle_message E oc) 0 (this_thread oc) r s
        | Ev_Accept mode ctx accepted \<Rightarrow> handle_accept E oc mode ctx accepted s
        | Ev_Connection failed i \<Rightarrow> if (this_thread oc, i) \<in> set (polls (net_state s)) then handle_connection E oc failed i s else Inr s
        | Ev_Timeout i \<Rightarrow> if (this_thread oc, i) \<in> set (polls (net_state s)) then timeout_connection E oc i s else Inr s)
     else Inr s)"

definition server_run :: "('f, 'h, 'w) server_env \<Rightarrow> (occasion \<times> server_event) list \<Rightarrow> ('h, 'w) net \<Rightarrow> ('h, 'w) net conf" where
  "server_run E evs s = fold_conf (server_step E) s evs"

text \<open>The connections before the first initialisation, and the state of an engine with threads that have the given masks.\<close>

definition fresh_connection :: "nat \<Rightarrow> 'h http_server_connection" where
  "fresh_connection i =
     \<lparr> buffer = ring_new 0,
        request = \<lparr> parser = blank_parser, chars = [], chars_offset = 0, message.max_headers = 0, parse_type = http_parse_none, header_list = [],
          header_map = [], body_start = None, http_version = HNull, overflow = False, request_method = HNull, request_uri = HNull,
          fragment = HNull, request_path = HNull, query_string = HNull \<rparr>,
        response = \<lparr> parser = blank_parser, chars = [], chars_offset = 0, message.max_headers = 0, parse_type = http_parse_none, header_list = [],
          header_map = [], body_start = None, http_version = HNull, overflow = False, reason_phrase = HNull, status_code = 0 \<rparr>,
        request_has_body = False, response_has_body = False, connection_close = False,
        conn = new_connection_object\<lparr> conn_id := int i \<rparr>, conn_state = connection_state_free, handler = None \<rparr>"

definition server_start :: "('f, 'h, 'w) server_env \<Rightarrow> u32 list \<Rightarrow> 'w \<Rightarrow> ('h, 'w) net conf" where
  "server_start E thread_masks w =
     bind_conf (conf_of (check_length (server_connections (env_config E)))) (\<lambda>_.
     bind_conf (conf_of (connection_state_init fresh_connection (http_server_connection_init E) (to_size (server_connections (env_config E))) w)) (\<lambda>(p, w).
       Inr \<lparr> boxes = replicate (length thread_masks) \<lparr> notify = [], message_queue = [] \<rparr>,
         net_state = \<lparr> pool = p, stats = zero_stats, polls = [], threads = start_engine (reg_table server_masks) thread_masks,
           access_log_lines = [], world = w \<rparr> \<rparr>))"

end
