(* ===== verification/Server_Ownership.thy ===== *)
theory Server_Ownership
  imports Http_Server
begin

text \<open>
  Every connection of the server has one owner: it is free, or in the pollset of one thread, or in one
  message. The places a connection can be in are a multiset, and the operations of the server move a
  connection from one place to another. What this needs of the handlers and of the system is a locale;
  the main part of it is that the head of a response fits into the buffer, since the server frees a
  connection twice when it does not.
\<close>

section \<open>Places\<close>

abbreviation conns :: "('h, 'w) net \<Rightarrow> 'h http_server_connection list" where
  "conns s \<equiv> connections_all (pool (net_state s))"

abbreviation free_list :: "('h, 'w) net \<Rightarrow> nat list" where
  "free_list s \<equiv> connections_free (pool (net_state s))"

abbreviation poll_list :: "('h, 'w) net \<Rightarrow> (nat \<times> nat) list" where
  "poll_list s \<equiv> polls (net_state s)"

definition mail :: "mailbox \<Rightarrow> protocol_message multiset" where
  "mail b = mset (notify b) + mset (message_queue b)"

text \<open>The messages under way, with the threads they are for.\<close>

definition msgs :: "mailbox list \<Rightarrow> (nat \<times> protocol_message) multiset" where
  "msgs bs = (\<Sum>t < length bs. image_mset (Pair t) (mail (bs ! t)))"

abbreviation msg_conn :: "nat \<times> protocol_message \<Rightarrow> nat" where
  "msg_conn tm \<equiv> nat (connection_num (snd tm))"

text \<open>The connections, with those of messages that were taken out of a mailbox and those in hand.\<close>

definition places :: "(nat \<times> protocol_message) multiset \<Rightarrow> nat multiset \<Rightarrow> ('h, 'w) net \<Rightarrow> nat multiset" where
  "places Ms K s = mset (free_list s) + image_mset snd (mset (poll_list s)) + image_mset msg_conn (Ms + msgs (boxes s)) + K"

definition counted :: "bool \<Rightarrow> nat multiset \<Rightarrow> nat \<Rightarrow> bool" where
  "counted exact A n \<longleftrightarrow> A \<subseteq># mset [0..<n] \<and> (exact \<longrightarrow> A = mset [0..<n])"

lemma msgs_update:
  assumes "t < length bs"
  shows "msgs (bs[t := b]) + image_mset (Pair t) (mail (bs ! t)) = msgs bs + image_mset (Pair t) (mail b)"
proof -
  let ?f = "\<lambda>bs t. image_mset (Pair t) (mail (bs ! t))"
  have "msgs (bs[t := b]) = image_mset (Pair t) (mail b) + (\<Sum>u \<in> {..<length bs} - {t}. ?f (bs[t := b]) u)"
    unfolding msgs_def using assms by (subst sum.remove [of _ t]) simp_all
  also have "(\<Sum>u \<in> {..<length bs} - {t}. ?f (bs[t := b]) u) = (\<Sum>u \<in> {..<length bs} - {t}. ?f bs u)"
    by (rule sum.cong) auto
  moreover have "msgs bs = ?f bs t + (\<Sum>u \<in> {..<length bs} - {t}. ?f bs u)"
    unfolding msgs_def using assms by (subst sum.remove [of _ t]) simp_all
  ultimately show ?thesis
    by (simp add: ac_simps)
qed


section \<open>Changes of one connection\<close>

definition put_conn :: "nat \<Rightarrow> 'h http_server_connection \<Rightarrow> 'w \<Rightarrow> ('h, 'w) net \<Rightarrow> ('h, 'w) net" where
  "put_conn i c w s =
     s\<lparr> net_state := (net_state s)\<lparr> pool := (pool (net_state s))\<lparr> connections_all := (conns s)[i := c] \<rparr>, world := w \<rparr> \<rparr>"

lemma put_conn_simps [simp]:
  "conns (put_conn i c w s) = (conns s)[i := c]" "free_list (put_conn i c w s) = free_list s" "poll_list (put_conn i c w s) = poll_list s"
  "boxes (put_conn i c w s) = boxes s" "threads (net_state (put_conn i c w s)) = threads (net_state s)" "world (net_state (put_conn i c w s)) = w"
  by (simp_all add: put_conn_def)

lemma get_conn_Inr: "get_conn i s = Inr c \<longleftrightarrow> i < length (conns s) \<and> c = conns s ! i"
  by (auto simp: get_conn_def conf_of_Inr_iff index_cxx_Inr_iff)

lemma with_conn_Inr:
  "with_conn i f s = Inr s' \<longleftrightarrow> (\<exists>c w. i < length (conns s) \<and> f (conns s ! i) (world (net_state s)) = Inr (c, w) \<and> s' = put_conn i c w s)"
  by (auto simp: with_conn_def with_server_def on_connection_def bind_conf_Inr_iff conf_of_Inr_iff bind_cxx_Inr_iff index_cxx_Inr_iff put_conn_def)

lemma set_conn_Inr: "set_conn i f s = Inr s' \<longleftrightarrow> i < length (conns s) \<and> s' = put_conn i (f (conns s ! i)) (world (net_state s)) s"
  by (auto simp: set_conn_def with_conn_Inr)

lemma put_conn_twice [simp]: "put_conn i c' w' (put_conn i c w s) = put_conn i c' w' s"
  by (simp add: put_conn_def)

lemma call_handler_Inr:
  assumes "call_handler f i s = Inr (r, s')"
  shows "\<exists>h h' x w. i < length (conns s) \<and> handler (conns s ! i) = Some h \<and>
    f h (exchange.truncate (conns s ! i)) (world (net_state s)) = Inr (r, h', x, w) \<and>
    s' = put_conn i ((exchange.extend x (exchange.more (conns s ! i)))\<lparr> handler := Some h' \<rparr>) w s"
proof -
  obtain h where h: "i < length (conns s)" "handler (conns s ! i) = Some h"
    using assms by (cases "handler (conns s ! i)") (auto simp: call_handler_def bind_conf_Inr_iff get_conn_Inr)
  then obtain h' x w where "f h (exchange.truncate (conns s ! i)) (world (net_state s)) = Inr (r, h', x, w)"
      "s' = put_conn i ((exchange.extend x (exchange.more (conns s ! i)))\<lparr> handler := Some h' \<rparr>) w s"
    using assms by (auto simp: call_handler_def bind_conf_Inr_iff get_conn_Inr conf_of_Inr_iff set_conn_Inr put_conn_def)
  with h show ?thesis
    by blast
qed

lemma extended_simps [simp]:
  fixes c :: "'h http_server_connection"
  shows "conn (exchange.extend x (exchange.more c)) = conn c" "conn_state (exchange.extend x (exchange.more c)) = conn_state c"
    "buffer (exchange.extend x (exchange.more c)) = buffer x" "response (exchange.extend x (exchange.more c)) = response x"
  by (cases c; cases x; simp add: exchange.defs)+

lemma truncate_simps [simp]: "buffer (exchange.truncate c) = buffer c" "response (exchange.truncate c) = response c"
  by (cases c; simp add: exchange.defs)+

section \<open>The sizes stay the same\<close>

lemma put_line_length: "put_line out n l = Inr (Some (out', n')) \<Longrightarrow> length out' = length out"
  by (auto simp: put_line_def write_range_def bind_cxx_Inr_iff split: if_splits)

lemma put_headers_length: "put_headers b out n hs = Inr (Some (out', n')) \<Longrightarrow> length out' = length out"
  by (induction b out n hs rule: put_headers.induct)
    (auto simp: bind_cxx_Inr_iff dest: put_line_length split: option.splits prod.splits)

lemma response_to_buffer_length: "response_to_buffer r out = Inr (Some (out', n)) \<Longrightarrow> length out' = length out"
  by (auto simp: response_to_buffer_def put_rest_def bind_cxx_Inr_iff dest!: put_line_length put_headers_length split: if_splits option.splits prod.splits)

lemma write_response_head_length:
  "write_response_head resp b = Inr (n, b') \<Longrightarrow> length (ring b') = length (ring b)"
  by (auto simp: write_response_head_def bind_cxx_Inr_iff ring_reset_def dest!: response_to_buffer_length split: option.splits)

lemma write_range_length: "write_range xs off ys = Inr zs \<Longrightarrow> length zs = length xs"
  by (auto simp: write_range_def split: if_splits)

lemma alloc_string_sizes:
  "alloc_string m str = Inr (m', h) \<Longrightarrow> length (chars m') = length (chars m) \<and> message.max_headers m' = message.max_headers m"
  by (auto simp: alloc_string_def bind_cxx_Inr_iff dest!: write_range_length split: if_splits)

lemma add_field_sizes: "add_field m name v = Inr (ok, m') \<Longrightarrow> length (chars m') = length (chars m)"
  by (auto simp: add_field_def bind_cxx_Inr_iff Let_def dest!: write_range_length split: if_splits)

lemma join_field_sizes: "join_field m i v = Inr (ok, m') \<Longrightarrow> length (chars m') = length (chars m)"
  by (auto simp: join_field_def bind_cxx_Inr_iff Let_def dest!: write_range_length split: if_splits prod.splits option.splits)

lemma set_header_field_sizes:
  "set_header_field m name v = Inr (ok, m') \<Longrightarrow> length (chars m') = length (chars m) \<and> message.max_headers m' = message.max_headers m"
  using set_header_field_frame [of m name v ok m']
  by (auto simp: set_header_field_def same_rest_def bind_cxx_Inr_iff dest: add_field_sizes join_field_sizes split: if_splits option.splits)

lemma init_response_sizes:
  assumes "init_response now resp = Inr resp'"
  shows "length (chars resp') = length (chars resp)" "message.max_headers resp' = message.max_headers resp"
  using assms by (auto simp: init_response_def response_event_def bind_cxx_Inr_iff response_reset_def message_clear_def
    dest!: alloc_string_sizes set_header_field_sizes)

text \<open>The parts of the state that the owners are read from.\<close>

definition same_places :: "('h, 'w) net \<Rightarrow> ('h, 'w) net \<Rightarrow> bool" where
  "same_places s s' \<longleftrightarrow> conns s' = conns s \<and> free_list s' = free_list s \<and> poll_list s' = poll_list s \<and> boxes s' = boxes s \<and>
     threads (net_state s') = threads (net_state s)"

text \<open>A connection that was dropped has no handler and is the last in the list of free connections.\<close>

lemma drop_handler: "drop_connection E i s = Inr s' \<Longrightarrow> i < length (conns s') \<Longrightarrow> handler (conns s' ! i) = None"
  by (auto simp: drop_connection_def with_server_def Protocol.close_connection_def free_connection_def on_connection_def bind_conf_Inr_iff
      conf_of_Inr_iff bind_cxx_Inr_iff index_cxx_Inr_iff http_server_connection_free_def)

lemma drop_frees:
  assumes "i < length (conns s)"
  shows "\<exists>s'. drop_connection E i s = Inr s' \<and> free_list s' = free_list s @ [i] \<and> poll_list s' = poll_list s \<and> length (conns s') = length (conns s)"
  using assms by (auto simp: drop_connection_def with_server_def Protocol.close_connection_def free_connection_def on_connection_def Let_def
    http_server_connection_close_def http_server_connection_free_def split: prod.splits)

section \<open>The actions\<close>

lemma actions_listed:
  "map (\<lambda>a. (action_proto a, action_callback a)) (reg_table server_actions) =
     [(None, None), (Some ''http_server'', Some Router_Tls_Handshake), (Some ''http_server'', Some Router_Process_Headers),
      (Some ''http_server'', Some Worker_Process_Request), (Some ''http_server'', Some Keepalive_Wait_Connection),
      (Some ''http_server'', Some Linger_Read_Connection)]"
  by code_simp

lemma action_numbers:
  "action_of Router_Tls_Handshake = 1" "action_of Router_Process_Headers = 2" "action_of Worker_Process_Request = 3"
  "action_of Keepalive_Wait_Connection = 4" "action_of Linger_Read_Connection = 5"
  by code_simp+

lemma action_table:
  shows "0 < action_of cb" "index_cxx (reg_table server_actions) (nat (action_of cb)) = Inr a \<Longrightarrow> action_callback a = Some cb"
    "\<exists>a. index_cxx (reg_table server_actions) (nat (action_of cb)) = Inr a \<and> action_proto a = Some ''http_server''"
proof -
  let ?f = "\<lambda>a. (action_proto a, action_callback a)" and ?n = "nat (action_of cb)"
  have n: "length (reg_table server_actions) = 6"
    using arg_cong [OF actions_listed, of length] by simp
  have "?n < 6" and nth: "map ?f (reg_table server_actions) ! ?n = (Some ''http_server'', Some cb)"
    unfolding actions_listed by (cases cb; simp add: action_numbers)+
  then have "?f (reg_table server_actions ! ?n) = (Some ''http_server'', Some cb)"
    using n by simp
  with \<open>?n < 6\<close> n show "index_cxx (reg_table server_actions) ?n = Inr a \<Longrightarrow> action_callback a = Some cb"
    "\<exists>a. index_cxx (reg_table server_actions) ?n = Inr a \<and> action_proto a = Some ''http_server''"
    by (auto simp: index_cxx_Inr_iff)
  show "0 < action_of cb"
    by (cases cb) (simp_all add: action_numbers)
qed

section \<open>What the server relies on\<close>

text \<open>The sizes of the buffers of a connection, which stay the same.\<close>

definition sizes :: "'a exchange_scheme \<Rightarrow> nat \<times> nat \<times> nat" where
  "sizes x = (length (ring (buffer x)), length (chars (response x)), message.max_headers (response x))"

definition role :: "engine \<Rightarrow> u32 \<Rightarrow> nat \<Rightarrow> bool" where
  "role e bits t \<longleftrightarrow> t < length (threads_all e) \<and> (threads_all e ! t) AND bits \<noteq> 0"

text \<open>The threads that are listed for a role have it.\<close>

definition roles_ok :: "engine \<Rightarrow> bool" where
  "roles_ok e \<longleftrightarrow> (\<forall>bits ts. map_of (threads_map e) bits = Some ts \<longrightarrow> (\<forall>t \<in> set ts. role e bits t))"

locale http_server_parts =
  fixes E :: "('f, 'h, 'w) server_env"
    and ready :: "'h \<Rightarrow> http_response \<Rightarrow> bool"
    and Z :: "nat \<times> nat \<times> nat"
  assumes buffer_size: "(of_nat (fst Z) :: u64) \<noteq> 0"
    and read_length: "sys_read (env_sys E) d w b n = Inr (r, b', w') \<Longrightarrow> length b' = length b"
    and ssl_read_length: "ssl_read (env_sys E) d w b n = Inr (r, b', w') \<Longrightarrow> length b' = length b"
    and handle_sizes: "handle_request (env_class E) h x w = Inr (ok, h', x', w') \<Longrightarrow> sizes x' = sizes x"
    and read_body_sizes: "read_request_body (env_class E) h x w = Inr (io, h', x', w') \<Longrightarrow> sizes x' = sizes x"
    and populate_sizes: "populate_response (env_class E) h x w = Inr (ok, h', x', w') \<Longrightarrow> sizes x' = sizes x"
    and write_body_sizes: "write_response_body (env_class E) h x w = Inr (io, h', x', w') \<Longrightarrow> sizes x' = sizes x"
    and end_sizes: "end_request (env_class E) h x w = Inr (ok, h', x', w') \<Longrightarrow> sizes x' = sizes x"
    and new_ready: "init_response now resp = Inr resp' \<Longrightarrow> (length (chars resp), message.max_headers resp) = snd Z \<Longrightarrow>
      ready (new_handler (env_class E) t now) resp'"
    and handle_ready: "handle_request (env_class E) h x w = Inr (ok, h', x', w') \<Longrightarrow> sizes x = Z \<Longrightarrow> ready h (response x) \<Longrightarrow> ready h' (response x')"
    and read_body_ready: "read_request_body (env_class E) h x w = Inr (io, h', x', w') \<Longrightarrow> sizes x = Z \<Longrightarrow> ready h (response x) \<Longrightarrow> ready h' (response x')"
    and populate_fits: "populate_response (env_class E) h x w = Inr (ok, h', x', w') \<Longrightarrow> sizes x = Z \<Longrightarrow> ready h (response x) \<Longrightarrow>
      write_response_head (response x') (buffer x') = Inr (len, rb) \<Longrightarrow> 0 < len"
begin

definition conn_ok :: "nat \<Rightarrow> 'h http_server_connection \<Rightarrow> bool" where
  "conn_ok i c \<longleftrightarrow> conn_id (conn c) = int i \<and> sizes c = Z"

definition ready_conn :: "'h http_server_connection \<Rightarrow> bool" where
  "ready_conn c \<longleftrightarrow> (\<forall>h. handler c = Some h \<longrightarrow> ready h (response c))"

definition polled_ok :: "engine \<Rightarrow> nat \<Rightarrow> 'h http_server_connection \<Rightarrow> bool" where
  "polled_ok e t c \<longleftrightarrow> t < length (threads_all e) \<and> (conn_state c = connection_state_tls_handshake \<longrightarrow> role e thread_mask_router t) \<and>
     (conn_state c = connection_state_client_body \<longrightarrow> ready_conn c)"

definition action_ok :: "engine \<Rightarrow> nat \<Rightarrow> server_callback \<Rightarrow> 'h http_server_connection \<Rightarrow> bool" where
  "action_ok e t cb c \<longleftrightarrow> t < length (threads_all e) \<and> (cb = Router_Tls_Handshake \<longrightarrow> role e thread_mask_router t) \<and>
     (cb = Worker_Process_Request \<longrightarrow> ready_conn c)"

definition msg_ok :: "('h, 'w) net \<Rightarrow> nat \<times> protocol_message \<Rightarrow> bool" where
  "msg_ok s tm \<longleftrightarrow> 0 \<le> connection_num (snd tm) \<and>
     (\<exists>cb. msg_action (snd tm) = action_of cb \<and> action_ok (threads (net_state s)) (fst tm) cb (conns s ! msg_conn tm))"

definition owned :: "bool \<Rightarrow> (nat \<times> protocol_message) multiset \<Rightarrow> nat multiset \<Rightarrow> ('h, 'w) net \<Rightarrow> bool" where
  "owned exact Ms K s \<longleftrightarrow>
     counted exact (places Ms K s) (length (conns s)) \<and>
     (\<forall>i < length (conns s). conn_ok i (conns s ! i)) \<and>
     (\<forall>(t, i) \<in> set (poll_list s). polled_ok (threads (net_state s)) t (conns s ! i)) \<and>
     (\<forall>tm \<in># Ms + msgs (boxes s). msg_ok s tm) \<and>
     length (boxes s) = length (threads_all (threads (net_state s))) \<and> roles_ok (threads (net_state s))"

lemma invD:
  assumes "owned exact Ms K s"
  shows "counted exact (places Ms K s) (length (conns s))" "\<And>i. i < length (conns s) \<Longrightarrow> conn_ok i (conns s ! i)"
    "\<And>t i. (t, i) \<in> set (poll_list s) \<Longrightarrow> polled_ok (threads (net_state s)) t (conns s ! i)"
    "\<And>tm. tm \<in># Ms + msgs (boxes s) \<Longrightarrow> msg_ok s tm"
    "length (boxes s) = length (threads_all (threads (net_state s)))" "roles_ok (threads (net_state s))"
  using assms by (auto simp: owned_def)

text \<open>A connection is in one place.\<close>

lemma count_places:
  assumes "owned exact Ms K s"
  shows "count (places Ms K s) i \<le> 1" "\<not> i < length (conns s) \<Longrightarrow> count (places Ms K s) i = 0"
proof -
  have "count (places Ms K s) i \<le> count (mset [0..<length (conns s)]) i"
    using invD(1) [OF assms] by (simp add: counted_def mset_subset_eq_count)
  also have "\<dots> = (if i < length (conns s) then 1 else 0)"
    by (simp add: distinct_count_atmost_1 count_mset_0_iff)
  finally show "count (places Ms K s) i \<le> 1" "\<not> i < length (conns s) \<Longrightarrow> count (places Ms K s) i = 0"
    by (simp_all split: if_splits)
qed

lemma mset_two: "a \<noteq> b \<Longrightarrow> a \<in> set xs \<Longrightarrow> b \<in> set xs \<Longrightarrow> {# a, b #} \<subseteq># mset xs"
  by (simp add: insert_subset_eq_iff in_diff_count)

lemma one_place:
  assumes "owned exact Ms K s"
  shows "count (mset (free_list s)) i + count (image_mset snd (mset (poll_list s))) i + count (image_mset msg_conn (Ms + msgs (boxes s))) i + count K i \<le> 1"
    "0 < count (mset (free_list s)) i + count (image_mset snd (mset (poll_list s))) i + count (image_mset msg_conn (Ms + msgs (boxes s))) i + count K i \<Longrightarrow>
      i < length (conns s)"
proof -
  have "count (places Ms K s) i = count (mset (free_list s)) i + count (image_mset snd (mset (poll_list s))) i +
      count (image_mset msg_conn (Ms + msgs (boxes s))) i + count K i"
    by (simp add: places_def)
  with count_places [OF assms, of i]
  show "count (mset (free_list s)) i + count (image_mset snd (mset (poll_list s))) i + count (image_mset msg_conn (Ms + msgs (boxes s))) i + count K i \<le> 1"
    "0 < count (mset (free_list s)) i + count (image_mset snd (mset (poll_list s))) i + count (image_mset msg_conn (Ms + msgs (boxes s))) i + count K i \<Longrightarrow>
      i < length (conns s)"
    by linarith+
qed

lemma count_image: "x \<in># A \<Longrightarrow> 1 \<le> count (image_mset f A) (f x)"
  by (rule count_greater_eq_one_iff [THEN iffD2]) simp

lemma count_polled: "(t, i) \<in> set xs \<Longrightarrow> 1 \<le> count (image_mset snd (mset xs)) i"
  using count_image [of "(t, i)" "mset xs" snd] by simp

lemma in_hand:
  assumes "owned exact Ms K s" "i \<in># K"
  shows "i < length (conns s)" "(t, i) \<notin> set (poll_list s)" "tm \<in># Ms + msgs (boxes s) \<Longrightarrow> msg_conn tm \<noteq> i"
proof -
  have k: "1 \<le> count K i"
    using assms(2) by simp
  note le = one_place(1) [OF assms(1), of i]
  show "i < length (conns s)"
    using k one_place(2) [OF assms(1), of i] by linarith
  show "(t, i) \<notin> set (poll_list s)"
    using k le count_polled [of t i "poll_list s"] by linarith
  show "msg_conn tm \<noteq> i" if "tm \<in># Ms + msgs (boxes s)"
  proof
    assume "msg_conn tm = i"
    with count_image [OF that, of msg_conn] have "1 \<le> count (image_mset msg_conn (Ms + msgs (boxes s))) i"
      by metis
    with k le show False
      by linarith
  qed
qed

lemma in_pollset:
  assumes "owned exact Ms K s" "(t, i) \<in> set (poll_list s)"
  shows "i < length (conns s)" "(u, i) \<in> set (poll_list s) \<Longrightarrow> u = t" "tm \<in># Ms + msgs (boxes s) \<Longrightarrow> msg_conn tm \<noteq> i"
proof -
  note k = count_polled [OF assms(2)]
  note le = one_place(1) [OF assms(1), of i]
  show n: "i < length (conns s)"
    using k one_place(2) [OF assms(1), of i] by linarith
  show "u = t" if "(u, i) \<in> set (poll_list s)"
  proof (rule ccontr)
    assume "u \<noteq> t"
    then have "image_mset snd {# (u, i), (t, i) #} \<subseteq># image_mset snd (mset (poll_list s))"
      by (intro image_mset_subseteq_mono mset_two that assms(2)) simp
    then have "count (image_mset snd {# (u, i), (t, i) #}) i \<le> count (image_mset snd (mset (poll_list s))) i"
      by (rule mset_subset_eq_count)
    moreover have "count (image_mset snd {# (u, i), (t, i) #}) i = 2"
      by simp
    ultimately show False
      using le by linarith
  qed
  show "msg_conn tm \<noteq> i" if "tm \<in># Ms + msgs (boxes s)"
  proof
    assume "msg_conn tm = i"
    with count_image [OF that, of msg_conn] have "1 \<le> count (image_mset msg_conn (Ms + msgs (boxes s))) i"
      by metis
    with k le show False
      by linarith
  qed
qed

lemma inv_put:
  assumes "owned exact Ms K s" "conn_ok i c" "\<And>t. (t, i) \<in> set (poll_list s) \<Longrightarrow> polled_ok (threads (net_state s)) t c"
    "\<And>tm. tm \<in># Ms + msgs (boxes s) \<Longrightarrow> msg_conn tm \<noteq> i"
  shows "owned exact Ms K (put_conn i c w s)"
  unfolding owned_def
proof (intro conjI)
  show "counted exact (places Ms K (put_conn i c w s)) (length (conns (put_conn i c w s)))"
    using invD(1) [OF assms(1)] by (simp add: places_def)
  show "\<forall>j < length (conns (put_conn i c w s)). conn_ok j (conns (put_conn i c w s) ! j)"
  proof (intro allI impI)
    fix j
    assume "j < length (conns (put_conn i c w s))"
    then show "conn_ok j (conns (put_conn i c w s) ! j)"
      using invD(2) [OF assms(1), of j] assms(2) by (cases "j = i") simp_all
  qed
  show "\<forall>(t, j) \<in> set (poll_list (put_conn i c w s)). polled_ok (threads (net_state (put_conn i c w s))) t (conns (put_conn i c w s) ! j)"
  proof (intro ballI, clarify)
    fix t j
    assume "(t, j) \<in> set (poll_list (put_conn i c w s))"
    then show "polled_ok (threads (net_state (put_conn i c w s))) t (conns (put_conn i c w s) ! j)"
      using invD(3) [OF assms(1), of t j] in_pollset(1) [OF assms(1), of t j] assms(3) by (cases "j = i") simp_all
  qed
  show "\<forall>tm \<in># Ms + msgs (boxes (put_conn i c w s)). msg_ok (put_conn i c w s) tm"
    using invD(4) [OF assms(1)] assms(4) by (force simp: msg_ok_def)
qed (use invD(5,6) [OF assms(1)] in simp_all)

lemma inv_put_hand:
  assumes "owned exact Ms K s" "i \<in># K" "conn_ok i c"
  shows "owned exact Ms K (put_conn i c w s)"
  using inv_put [OF assms(1,3)] in_hand [OF assms(1,2)] by blast

lemma inv_put_polled:
  assumes "owned exact Ms K s" "(t, i) \<in> set (poll_list s)" "conn_ok i c" "polled_ok (threads (net_state s)) t c"
  shows "owned exact Ms K (put_conn i c w s)"
  using inv_put [OF assms(1,3)] in_pollset [OF assms(1,2)] assms(4) by blast

lemma inv_same: "owned exact Ms K s \<Longrightarrow> same_places s s' \<Longrightarrow> owned exact Ms K s'"
  by (simp add: owned_def same_places_def places_def msg_ok_def)

text \<open>Moves of a connection between hand, free list and pollset.\<close>

lemma inv_remove_events:
  assumes "owned exact Ms K s" "(t, i) \<in> set (poll_list s)"
  shows "owned exact Ms (add_mset i K) (remove_events t i s)"
proof -
  have "image_mset snd (mset (poll_list s)) = add_mset i (image_mset snd (mset (poll_list s) - {# (t, i) #}))"
    using assms(2) by (metis image_mset_add_mset insert_DiffM set_mset_mset snd_conv)
  then have "places Ms (add_mset i K) (remove_events t i s) = places Ms K s"
    by (simp add: places_def remove_events_def)
  then show ?thesis
    using assms(1) by (auto simp: owned_def remove_events_def msg_ok_def dest: notin_set_remove1)
qed

lemma inv_add_events:
  assumes "owned exact Ms (add_mset i K) s" "polled_ok (threads (net_state s)) t (conns s ! i)"
  shows "owned exact Ms K (add_events t i s)"
proof -
  have new: "(t, i) \<notin> set (poll_list s)"
    using in_hand(2) [OF assms(1)] by simp
  then have "places Ms K (add_events t i s) = places Ms (add_mset i K) s"
    by (simp add: places_def add_events_def)
  then show ?thesis
    using assms new by (auto simp: owned_def add_events_def msg_ok_def)
qed

lemma close_keeps: "conn_close sys k w = (k', w') \<Longrightarrow> conn_id k' = conn_id k"
  by (auto simp: conn_close_def split: option.splits)

lemma inv_drop_connection:
  assumes "owned exact Ms (add_mset i K) s" "drop_connection E i s = Inr s'"
  shows "owned exact Ms K s'"
proof -
  have i: "i < length (conns s)" and ok: "conn_ok i (conns s ! i)"
    using in_hand(1) [OF assms(1)] invD(2) [OF assms(1)] by simp_all
  obtain k w where k: "conn_close (env_sys E) (conn (conns s ! i)) (world (net_state s)) = (k, w)"
    by fastforce
  let ?c = "(conns s ! i)\<lparr> conn := k, conn_state := connection_state_free, handler := None \<rparr>"
  let ?s = "put_conn i ?c (release_handler E (handler (conns s ! i)) w) s"
  have s': "conns s' = conns ?s" "free_list s' = free_list s @ [i]" "poll_list s' = poll_list ?s" "boxes s' = boxes ?s"
      "threads (net_state s') = threads (net_state ?s)"
    using assms(2) i k
    by (auto simp: drop_connection_def with_server_def Protocol.close_connection_def free_connection_def on_connection_def
      http_server_connection_close_def http_server_connection_free_def)
  have "owned exact Ms (add_mset i K) ?s"
    using inv_put_hand [OF assms(1)] ok close_keeps [OF k] by (simp add: conn_ok_def sizes_def)
  then show ?thesis
    unfolding owned_def places_def msg_ok_def s' by simp
qed

lemma same_count_stat: "same_places s (count_stat upd s)"
  by (simp add: same_places_def count_stat_def)

lemma inv_abort: "owned exact Ms (add_mset i K) s \<Longrightarrow> server_abort_connection E i s = Inr s' \<Longrightarrow> owned exact Ms K s'"
  unfolding server_abort_connection_def by (rule inv_drop_connection [OF inv_same [OF _ same_count_stat]])

lemma inv_close: "owned exact Ms (add_mset i K) s \<Longrightarrow> server_close_connection E i s = Inr s' \<Longrightarrow> owned exact Ms K s'"
  unfolding server_close_connection_def by (rule inv_drop_connection [OF inv_same [OF _ same_count_stat]])

text \<open>A connection in hand is changed and then polled.\<close>

lemma inv_put_add:
  assumes "owned exact Ms (add_mset i K) s" "conn_ok i c" "polled_ok (threads (net_state s)) t c"
  shows "owned exact Ms K (add_events t i (put_conn i c w s))"
  using inv_add_events [OF inv_put_hand [OF assms(1) _ assms(2)]] in_hand(1) [OF assms(1)] assms(3) by simp

lemma hand_ok: "owned exact Ms (add_mset i K) s \<Longrightarrow> i < length (conns s) \<and> conn_ok i (conns s ! i)"
  using in_hand(1) [of exact Ms "add_mset i K" s i] invD(2) [of exact Ms "add_mset i K" s i] by simp

lemma lingering_keeps: "conn_start_lingering_close sys k w = (k', w') \<Longrightarrow> conn_id k' = conn_id k"
  by (auto simp: conn_start_lingering_close_def split: option.splits prod.splits)

lemma populate_response_headers_ok:
  assumes "populate_response_headers E oc i s = Inr (n, s')" "sizes (conns s ! i) = Z" "ready_conn (conns s ! i)"
  shows "\<exists>c w. s' = put_conn i c w s \<and> conn c = conn (conns s ! i) \<and> conn_state c = conn_state (conns s ! i) \<and> sizes c = Z \<and> 0 < n"
proof -
  obtain ok s1 s2 where p: "call_handler (populate_response (env_class E)) i s = Inr (ok, s1)"
      "(if \<not> ok then server_abort_connection E i s1 else Inr s1) = Inr s2" "handler (conns s2 ! i) \<noteq> None" "i < length (conns s2)"
    using assms(1) by (auto simp: populate_response_headers_def bind_conf_Inr_iff get_conn_Inr split: option.splits prod.splits)
  have ok
  proof (rule ccontr)
    assume "\<not> ok"
    with p(2) have "drop_connection E i (count_stat connections_aborted_update s1) = Inr s2"
      by (simp add: server_abort_connection_def)
    from drop_handler [OF this p(4)] p(3) show False by simp
  qed
  then have s2: "s2 = s1"
    using p(2) by simp
  obtain h h' x w where c: "i < length (conns s)" "handler (conns s ! i) = Some h"
      "populate_response (env_class E) h (exchange.truncate (conns s ! i)) (world (net_state s)) = Inr (ok, h', x, w)"
      "s1 = put_conn i ((exchange.extend x (exchange.more (conns s ! i)))\<lparr> handler := Some h' \<rparr>) w s"
    using call_handler_Inr [OF p(1)] by blast
  have x: "sizes x = Z"
    using populate_sizes [OF c(3)] assms(2) by (simp add: sizes_def)
  obtain b where b: "write_response_head (response x) (buffer x) = Inr (n, b)"
      "s' = put_conn i ((conns s1 ! i)\<lparr> buffer := b, handler := Some (set_header_length (env_class E) n h') \<rparr>) w s \<or> n < 0"
    using assms(1) p(1) \<open>ok\<close> c(1,4)
    by (auto simp: populate_response_headers_def bind_conf_Inr_iff get_conn_Inr conf_of_Inr_iff set_conn_Inr split: if_splits)
  have "0 < n"
    using populate_fits [OF c(3) _ _ b(1)] assms(2,3) c(2) by (simp add: sizes_def ready_conn_def)
  let ?c = "(exchange.extend x (exchange.more (conns s ! i)))\<lparr> buffer := b, handler := Some (set_header_length (env_class E) n h') \<rparr>"
  have "s' = put_conn i ?c w s"
    using b(2) \<open>0 < n\<close> c(1,4) by simp
  with \<open>0 < n\<close> write_response_head_length [OF b(1)] x show ?thesis
    by (intro exI [of _ ?c] exI [of _ w]) (simp add: sizes_def)
qed

lemma take_body_start_keeps:
  assumes "take_body_start c = Inr c'"
  shows "sizes c' = sizes c" "conn c' = conn c" "handler c' = handler c" "response c' = response c" "conn_state c' = connection_state_client_body"
  using assms by (auto simp: take_body_start_def bind_cxx_Inr_iff ring_set_def sizes_def write_range_def split: if_splits)

lemma inv_worker:
  assumes "owned exact Ms (add_mset i K) s" "ready_conn (conns s ! i)" "this_thread oc < length (threads_all (threads (net_state s)))"
    "worker_process_request E oc i s = Inr s'"
  shows "owned exact Ms K s'"
proof -
  note ok = hand_ok [OF assms(1)]
  obtain r s1 where r: "call_handler (handle_request (env_class E)) i s = Inr (r, s1)"
    using assms(4) by (auto simp: worker_process_request_def bind_conf_Inr_iff)
  obtain h h' x w where h: "handler (conns s ! i) = Some h"
      "handle_request (env_class E) h (exchange.truncate (conns s ! i)) (world (net_state s)) = Inr (r, h', x, w)"
      "s1 = put_conn i ((exchange.extend x (exchange.more (conns s ! i)))\<lparr> handler := Some h' \<rparr>) w s"
    using call_handler_Inr [OF r] by blast
  have z: "sizes (exchange.truncate (conns s ! i)) = Z"
    using ok by (simp add: conn_ok_def sizes_def)
  have c1: "conn_ok i (conns s1 ! i)" "ready_conn (conns s1 ! i)"
    using ok handle_sizes [OF h(2)] handle_ready [OF h(2) z] assms(2) h(1,3) z by (simp_all add: conn_ok_def sizes_def ready_conn_def)
  have s1: "owned exact Ms (add_mset i K) s1" "threads (net_state s1) = threads (net_state s)"
    using inv_put_hand [OF assms(1), of i "conns s1 ! i" w] c1(1) h(3) ok by simp_all
  have i1: "i < length (conns s1)"
    using hand_ok [OF s1(1)] by simp
  consider (abort) "server_abort_connection E i s1 = Inr s'"
    | (body) c w where "take_body_start (conns s1 ! i) = Inr c" "s' = add_events (this_thread oc) i (put_conn i c w s1)"
    | (respond) n s2 where "populate_response_headers E oc i s1 = Inr (n, s2)"
        "(if n > 0 then bind_conf (set_conn i respond_state s2) (\<lambda>s. Inr (add_events (this_thread oc) i s)) else server_abort_connection E i s2) = Inr s'"
    using assms(4) r i1
    by (auto simp: worker_process_request_def bind_conf_Inr_iff get_conn_Inr with_conn_Inr bind_cxx_Inr_iff split: if_splits)
  then show ?thesis
  proof cases
    case abort
    then show ?thesis
      by (rule inv_abort [OF s1(1)])
  next
    case body
    then show ?thesis
      using inv_put_add [OF s1(1), of c "this_thread oc" w] take_body_start_keeps [OF body(1)] c1 assms(3) s1(2)
      by (simp add: conn_ok_def polled_ok_def ready_conn_def)
  next
    case respond
    obtain c w where c: "s2 = put_conn i c w s1" "conn c = conn (conns s1 ! i)" "sizes c = Z" "0 < n"
      using populate_response_headers_ok [OF respond(1)] c1 by (auto simp: conn_ok_def)
    then have "s' = add_events (this_thread oc) i (put_conn i (respond_state c) w s1)"
      using respond(2) i1 by (auto simp: bind_conf_Inr_iff set_conn_Inr)
    then show ?thesis
      using inv_put_add [OF s1(1), of "respond_state c" "this_thread oc" w] c c1 assms(3) s1(2)
      by (simp add: conn_ok_def polled_ok_def respond_state_def sizes_def)
  qed
qed

lemma inv_call_action:
  assumes "owned exact Ms (add_mset i K) s" "action_ok (threads (net_state s)) (this_thread oc) cb (conns s ! i)" "call_action E oc cb i s = Inr s'"
  shows "owned exact Ms K s'"
proof (cases cb)
  case Worker_Process_Request
  then show ?thesis
    using inv_worker [OF assms(1), of oc s'] assms(2,3) by (simp add: action_ok_def call_action_def)
next
  case Linger_Read_Connection
  obtain k w where k: "conn_start_lingering_close (env_sys E) (conn (conns s ! i)) (world (net_state s)) = (k, w)"
    by fastforce
  let ?c = "(conns s ! i)\<lparr> conn_state := connection_state_lingering_close, conn := k \<rparr>"
  have "s' = add_events (this_thread oc) i (put_conn i ?c w s)"
    using assms(3) k by (auto simp: Linger_Read_Connection call_action_def linger_read_connection_def bind_conf_Inr_iff with_conn_Inr)
  then show ?thesis
    using inv_put_add [OF assms(1), of ?c "this_thread oc" w] hand_ok [OF assms(1)] assms(2) lingering_keeps [OF k]
    by (simp add: conn_ok_def sizes_def polled_ok_def action_ok_def)
qed (use inv_put_add [OF assms(1)] hand_ok [OF assms(1)] assms(2,3) in
  \<open>auto simp: call_action_def router_tls_handshake_def router_process_headers_def keepalive_wait_connection_def bind_conf_Inr_iff set_conn_Inr
     conn_ok_def sizes_def polled_ok_def action_ok_def\<close>)

section \<open>Messages and forwarding\<close>

text \<open>The connection of a message that is being handled, and back.\<close>

lemma message_to_hand:
  "owned exact (add_mset tm Ms) K s \<Longrightarrow> owned exact Ms (add_mset (msg_conn tm) K) s \<and> msg_ok s tm"
  by (simp add: owned_def places_def)

lemma hand_to_message:
  "owned exact Ms (add_mset i K) s \<Longrightarrow> msg_conn tm = i \<Longrightarrow> msg_ok s tm \<Longrightarrow> owned exact (add_mset tm Ms) K s"
  by (simp add: owned_def places_def)

lemma inv_handle_message:
  assumes "owned exact (add_mset (this_thread oc, m) Ms) K s" "handle_message E oc proto m s = Inr s'"
  shows "owned exact Ms K s'"
proof -
  let ?i = "nat (connection_num m)"
  have hand: "owned exact Ms (add_mset ?i K) s" and m: "msg_ok s (this_thread oc, m)"
    using message_to_hand [OF assms(1)] by simp_all
  from m obtain cb where cb: "msg_action m = action_of cb" "action_ok (threads (net_state s)) (this_thread oc) cb (conns s ! ?i)"
    by (auto simp: msg_ok_def)
  let ?c = "(conns s ! ?i)\<lparr> conn := (conn (conns s ! ?i))\<lparr> last_activity := current_time oc \<rparr> \<rparr>"
  let ?s = "put_conn ?i ?c (world (net_state s)) s"
  note ok = hand_ok [OF hand]
  have s: "owned exact Ms (add_mset ?i K) ?s"
    using inv_put_hand [OF hand] ok by (simp add: conn_ok_def sizes_def)
  have "call_action E oc cb ?i ?s = Inr s'"
    using assms(2) action_table [of cb] cb(1)
    by (auto simp: handle_message_def bind_conf_Inr_iff set_conn_Inr conf_of_Inr_iff Let_def split: if_splits option.splits)
  moreover have "action_ok (threads (net_state ?s)) (this_thread oc) cb (conns ?s ! ?i)"
    using cb(2) ok by (simp add: action_ok_def ready_conn_def)
  ultimately show ?thesis
    using inv_call_action [OF s] by blast
qed

lemma inv_dispatch_message:
  assumes "owned exact (add_mset (this_thread oc, m) Ms) K s" "dispatch_message (reg_table server_actions) (handle_message E oc) m s = Inr s'"
  shows "owned exact Ms K s'"
proof -
  obtain proto where "handle_message E oc proto m s = Inr s'"
    using assms(2) by (auto simp: dispatch_message_def bind_conf_Inr_iff split: if_splits option.splits)
  with assms(1) show ?thesis
    by (rule inv_handle_message)
qed

lemma inv_put_message:
  assumes "owned exact (add_mset (u, m) Ms) K s" "put_message u f s = Inr s'" "\<And>b. mail (f b) = add_mset m (mail b)"
  shows "owned exact Ms K s'"
proof -
  have u: "u < length (boxes s)" and s': "s' = s\<lparr> boxes := (boxes s)[u := f (boxes s ! u)] \<rparr>"
    using assms(2) by (auto simp: put_message_def bind_conf_Inr_iff conf_of_Inr_iff index_cxx_Inr_iff)
  have "msgs (boxes s') = add_mset (u, m) (msgs (boxes s))"
    using msgs_update [OF u, of "f (boxes s ! u)"] by (simp add: s' assms(3))
  then show ?thesis
    using assms(1) by (simp add: owned_def places_def msg_ok_def s')
qed

lemma mail_put: "mail (notify_update (\<lambda>q. q @ [m]) b) = add_mset m (mail b)" "mail (message_queue_update (\<lambda>q. q @ [m]) b) = add_mset m (mail b)"
  by (simp_all add: mail_def)

lemma owned_lost: "owned False (add_mset tm Ms) K s \<Longrightarrow> owned False Ms K s"
  by (auto simp: owned_def places_def counted_def intro: subset_mset.order_trans [rotated])

lemma inv_send_message:
  assumes "owned exact (add_mset (u, m) Ms) K s"
    "send_message (reg_table server_actions) (handle_message E oc) (this_thread oc) u r m s = Inr s'"
    "exact \<Longrightarrow> r \<in> {Sent, Would_Block}"
  shows "owned exact Ms K s'"
proof (cases "u = this_thread oc")
  case True
  with assms(1,2) show ?thesis
    by (auto simp: send_message_def intro: inv_dispatch_message)
next
  case other: False
  show ?thesis
  proof (cases exact)
    case True
    with other assms(3) show ?thesis
      using inv_put_message [OF assms(1) _ mail_put(1)] inv_put_message [OF assms(1) _ mail_put(2)] assms(2)
      by (auto simp: send_message_def queue_message_def)
  next
    case False
    with other show ?thesis
      using inv_put_message [OF assms(1) _ mail_put(1)] inv_put_message [OF assms(1) _ mail_put(2)] owned_lost [of "(u, m)" Ms K s] assms(1,2)
      by (cases r) (auto simp: send_message_def queue_message_def)
  qed
qed

lemma choose_thread_role:
  assumes "thread_choose_thread t bits e = Inr (d, e')" "roles_ok e"
  shows "threads_all e' = threads_all e" "threads_map e' = threads_map e" "d = Some u \<Longrightarrow> role e bits u"
  using assms by (auto simp: thread_choose_thread_def choose_thread_def roles_ok_def role_def split: if_splits option.splits)

lemma inv_forward:
  assumes "owned exact Ms (add_mset i K) s" "forward_connection E oc bits cb i s = Inr s'"
    "cb = Router_Tls_Handshake \<Longrightarrow> bits = thread_mask_router" "cb = Worker_Process_Request \<Longrightarrow> ready_conn (conns s ! i)"
    "\<And>t m. exact \<Longrightarrow> send_outcome oc t m \<in> {Sent, Would_Block}"
  shows "owned exact Ms K s'"
proof -
  obtain d e where d: "thread_choose_thread (this_thread oc) bits (threads (net_state s)) = Inr (d, e)"
    using assms(2) by (auto simp: forward_connection_def bind_conf_Inr_iff)
  note roles = choose_thread_role [OF d invD(6) [OF assms(1)]]
  let ?s = "s\<lparr> net_state := (net_state s)\<lparr> threads := e \<rparr> \<rparr>"
  note ok = hand_ok [OF assms(1)]
  have s: "owned exact Ms (add_mset i K) ?s"
    using assms(1) roles(1,2) by (simp add: owned_def places_def msg_ok_def polled_ok_def action_ok_def role_def roles_ok_def)
  show ?thesis
  proof (cases d)
    case None
    then have "server_abort_connection E i ?s = Inr s'"
      using assms(2) d by (auto simp: forward_connection_def bind_conf_Inr_iff Let_def)
    then show ?thesis
      by (rule inv_abort [OF s])
  next
    case (Some u)
    let ?m = "\<lparr> msg_action = action_of cb, connection_num = int i \<rparr>"
    have "role (threads (net_state ?s)) bits u"
      using roles(1,3) Some by (simp add: role_def)
    then have "msg_ok ?s (u, ?m)"
      using assms(3,4) by (auto simp: msg_ok_def action_ok_def role_def intro!: exI [of _ cb])
    with hand_to_message [OF s, of "(u, ?m)"] have "owned exact (add_mset (u, ?m) Ms) K ?s"
      by simp
    moreover have "send_message (reg_table server_actions) (handle_message E oc) (this_thread oc) u (send_outcome oc u ?m) ?m ?s = Inr s'"
      using assms(2) d Some ok by (auto simp: forward_connection_def bind_conf_Inr_iff get_conn_Inr conn_ok_def Let_def)
    ultimately show ?thesis
      using assms(5) by (rule inv_send_message)
  qed
qed

end

end
