(* ===== verification/Server_Steps.thy ===== *)
theory Server_Steps
  imports Server_Ownership
begin

text \<open>
  The events of \<^verbatim>\<open>src/http_server.cc\<close> keep the owners of the connections: a thread that is told of a
  connection in its pollset, of a timeout, of a message or of a new connection leaves every connection
  with at most one owner, and with exactly one when no message is lost.
\<close>

section \<open>Folds and roles\<close>

lemma fold_conf_inv:
  assumes "fold_conf f s es = Inr s'" "P s" "\<And>s e s'. e \<in> set es \<Longrightarrow> P s \<Longrightarrow> f s e = Inr s' \<Longrightarrow> P s'"
  shows "P s'"
  using assms by (induction es arbitrary: s) (auto simp: bind_conf_Inr_iff)

lemma add_role_all [simp]: "threads_all (add_role t b e) = threads_all e"
  by (simp add: add_role_def Let_def)

lemma add_roles_all: "threads_all (fold (\<lambda>ent e. if m AND mask_bits ent \<noteq> 0 then add_role t (mask_bits ent) e else e) masks e) = threads_all e"
  by (induction masks arbitrary: e) simp_all

lemma add_role_roles: "roles_ok e \<Longrightarrow> role e b t \<Longrightarrow> roles_ok (add_role t b e)"
  by (cases "map_of (threads_map e) b") (auto simp: roles_ok_def add_role_map role_def split: if_splits)

lemma add_roles_roles:
  assumes "roles_ok e" "t < length (threads_all e)" "threads_all e ! t = m"
  shows "roles_ok (fold (\<lambda>ent e. if m AND mask_bits ent \<noteq> 0 then add_role t (mask_bits ent) e else e) masks e)"
  using assms by (induction masks arbitrary: e) (auto simp: add_role_roles role_def)

lemma start_engine_roles:
  "length (threads_all (start_engine masks ms)) = length ms \<and> roles_ok (start_engine masks ms)"
proof (induction ms rule: rev_induct)
  case (snoc m ms)
  let ?e = "(start_engine masks ms)\<lparr> threads_all := threads_all (start_engine masks ms) @ [m] \<rparr>"
  have "roles_ok ?e"
    using snoc by (auto simp: roles_ok_def role_def nth_append split: if_splits)
  then show ?case
    using add_roles_roles [of ?e "length ms" m masks] snoc by (simp add: start_engine_def add_thread_def add_roles_all nth_append)
qed (simp add: start_engine_def new_engine_def roles_ok_def)

lemma ring_read_length:
  assumes "ring_buffer_read read b r = Inr (res, b', r')" "\<And>r buf n res buf' r'. read r buf n = Inr (res, buf', r') \<Longrightarrow> length buf' = length buf"
  shows "length (ring b') = length (ring b)"
  using assms(1) by (auto simp: ring_buffer_read_def Let_def bind_cxx_Inr_iff dest!: assms(2) split: if_splits)

section \<open>Connections in a pollset\<close>

context http_server_parts
begin

lemma polled:
  assumes "owned exact Ms K s" "(t, i) \<in> set (poll_list s)"
  shows "i < length (conns s)" "conn_ok i (conns s ! i)" "polled_ok (threads (net_state s)) t (conns s ! i)"
  using in_pollset(1) [OF assms] invD(2,3) [OF assms(1)] assms(2) by blast+

lemma inv_abort_polled:
  "owned exact Ms K s \<Longrightarrow> (this_thread oc, i) \<in> set (poll_list s) \<Longrightarrow> abort_polled E oc i s = Inr s' \<Longrightarrow> owned exact Ms K s'"
  unfolding abort_polled_def by (rule inv_abort [OF inv_remove_events])

lemma inv_close_polled:
  "owned exact Ms K s \<Longrightarrow> (this_thread oc, i) \<in> set (poll_list s) \<Longrightarrow> close_polled E oc i s = Inr s' \<Longrightarrow> owned exact Ms K s'"
  unfolding close_polled_def by (rule inv_close [OF inv_remove_events])

text \<open>A change that keeps the number, the sizes and the state of a connection.\<close>

definition keeps :: "'h http_server_connection \<Rightarrow> 'h http_server_connection \<Rightarrow> bool" where
  "keeps c c' \<longleftrightarrow> conn_id (conn c') = conn_id (conn c) \<and> sizes c' = sizes c \<and> conn_state c' = conn_state c \<and>
     (conn_state c = connection_state_client_body \<longrightarrow> ready_conn c \<longrightarrow> ready_conn c')"

lemma inv_keeps:
  assumes "owned exact Ms K s" "(t, i) \<in> set (poll_list s)" "keeps (conns s ! i) c"
  shows "owned exact Ms K (put_conn i c w s)"
  using inv_put_polled [OF assms(1,2)] polled [OF assms(1,2)] assms(3) by (simp add: keeps_def conn_ok_def polled_ok_def)

lemma same_world: "same_places s (s\<lparr> net_state := (net_state s)\<lparr> world := w \<rparr> \<rparr>)"
  by (simp add: same_places_def)

lemma same_trans: "same_places s s1 \<Longrightarrow> same_places s1 s2 \<Longrightarrow> same_places s s2"
  by (simp add: same_places_def)

lemma same_refl: "same_places s s"
  by (simp add: same_places_def)

lemma conn_read_length:
  "conn_read (env_sys E) k w b n = Inr (r, b', w') \<Longrightarrow> length b' = length b"
  by (auto simp: conn_read_def socket_read_def dest: read_length ssl_read_length split: option.splits socket_mode.splits if_splits)

lemmas ring_buffer_read_length = ring_read_length [OF _ conn_read_length]

lemma ring_buffer_write_length:
  assumes "ring_buffer_write f b w = Inr (r, b', w')"
  shows "length (ring b') = length (ring b)"
  using assms by (auto simp: ring_buffer_write_def Let_def bind_cxx_Inr_iff split: if_splits)

lemma put_conn_world: "put_conn i c w (s\<lparr> net_state := (net_state s)\<lparr> world := w' \<rparr> \<rparr>) = put_conn i c w s"
  by (simp add: put_conn_def)

text \<open>Reading and writing change the buffer of the connection only.\<close>

lemma read_socket_keeps:
  assumes "read_socket E i s = Inr (r, s')"
  shows "\<exists>c w. s' = put_conn i c w s \<and> keeps (conns s ! i) c"
proof -
  obtain b w where b: "ring_buffer_read (conn_read (env_sys E) (conn (conns s ! i))) (buffer (conns s ! i)) (world (net_state s)) = Inr (r, b, w)"
      "s' = put_conn i ((conns s ! i)\<lparr> buffer := b \<rparr>) w s"
    using assms by (auto simp: read_socket_def bind_conf_Inr_iff get_conn_Inr conf_of_Inr_iff set_conn_Inr put_conn_world)
  with ring_buffer_read_length [OF b(1)] show ?thesis
    by (intro exI [of _ "(conns s ! i)\<lparr> buffer := b \<rparr>"] exI [of _ w]) (simp add: keeps_def sizes_def ready_conn_def)
qed

lemma write_socket_keeps:
  assumes "write_socket E i s = Inr (r, s')"
  shows "\<exists>c w. s' = put_conn i c w s \<and> keeps (conns s ! i) c"
proof -
  obtain b w where b: "ring_buffer_write (conn_write (env_sys E) (conn (conns s ! i))) (buffer (conns s ! i)) (world (net_state s)) = Inr (r, b, w)"
      "s' = put_conn i ((conns s ! i)\<lparr> buffer := b \<rparr>) w s"
    using assms by (auto simp: write_socket_def bind_conf_Inr_iff get_conn_Inr conf_of_Inr_iff set_conn_Inr put_conn_world)
  with ring_buffer_write_length [OF b(1)] show ?thesis
    by (intro exI [of _ "(conns s ! i)\<lparr> buffer := b \<rparr>"] exI [of _ w]) (simp add: keeps_def sizes_def ready_conn_def)
qed

text \<open>So does a call of the handler, when the handler keeps the sizes.\<close>

lemma call_handler_keeps:
  assumes "call_handler f i s = Inr (r, s')" "\<And>h x w r h' x' w'. f h x w = Inr (r, h', x', w') \<Longrightarrow> sizes x' = sizes x"
    "\<And>h x w r h' x' w'. conn_state (conns s ! i) = connection_state_client_body \<Longrightarrow> f h x w = Inr (r, h', x', w') \<Longrightarrow> sizes x = Z \<Longrightarrow>
      ready h (response x) \<Longrightarrow> ready h' (response x')"
    "sizes (conns s ! i) = Z"
  shows "\<exists>c w. s' = put_conn i c w s \<and> keeps (conns s ! i) c"
proof -
  obtain h h' x w where h: "handler (conns s ! i) = Some h"
      "f h (exchange.truncate (conns s ! i)) (world (net_state s)) = Inr (r, h', x, w)"
      "s' = put_conn i ((exchange.extend x (exchange.more (conns s ! i)))\<lparr> handler := Some h' \<rparr>) w s"
    using call_handler_Inr [OF assms(1)] by blast
  have z: "sizes (exchange.truncate (conns s ! i)) = Z"
    using assms(4) by (simp add: sizes_def)
  have "keeps (conns s ! i) ((exchange.extend x (exchange.more (conns s ! i)))\<lparr> handler := Some h' \<rparr>)"
    using assms(2) [OF h(2)] assms(3) [OF _ h(2) z] assms(4) h(1) z by (simp add: keeps_def sizes_def ready_conn_def)
  with h(3) show ?thesis
    by blast
qed

lemma end_request_keeps:
  assumes "call_handler (end_request (env_class E)) i s = Inr (r, s')" "sizes (conns s ! i) = Z"
    "conn_state (conns s ! i) \<noteq> connection_state_client_body"
  shows "\<exists>c w. s' = put_conn i c w s \<and> keeps (conns s ! i) c"
  using assms(1) by (rule call_handler_keeps) (use assms(2,3) in \<open>auto dest: end_sizes\<close>)

lemma write_body_keeps:
  assumes "call_handler (write_response_body (env_class E)) i s = Inr (r, s')" "sizes (conns s ! i) = Z"
    "conn_state (conns s ! i) \<noteq> connection_state_client_body"
  shows "\<exists>c w. s' = put_conn i c w s \<and> keeps (conns s ! i) c"
  using assms(1) by (rule call_handler_keeps) (use assms(2,3) in \<open>auto dest: write_body_sizes\<close>)

lemma read_body_keeps:
  assumes "call_handler (read_request_body (env_class E)) i s = Inr (r, s')" "sizes (conns s ! i) = Z"
  shows "\<exists>c w. s' = put_conn i c w s \<and> keeps (conns s ! i) c"
  using assms(1) by (rule call_handler_keeps) (use assms(2) in \<open>auto dest: read_body_sizes read_body_ready\<close>)

lemma flush_buffer_keeps:
  assumes "owned exact Ms K s" "(this_thread oc, i) \<in> set (poll_list s)" "flush_buffer E oc i s = Inr (go_on, s')"
  shows "owned exact Ms K s'" "go_on \<Longrightarrow> (this_thread oc, i) \<in> set (poll_list s') \<and> conn_state (conns s' ! i) = conn_state (conns s ! i)"
proof -
  note i = polled(1) [OF assms(1,2)]
  have "owned exact Ms K s' \<and> (go_on \<longrightarrow> (this_thread oc, i) \<in> set (poll_list s') \<and> conn_state (conns s' ! i) = conn_state (conns s ! i))"
  proof (cases "ring_bytes_readable (buffer (conns s ! i)) > 0")
    case True
    then obtain r s1 where r: "write_socket E i s = Inr (r, s1)"
        "(if has_error r then bind_conf (abort_polled E oc i s1) (\<lambda>s. Inr (False, s)) else Inr (io_result.size r = 0, s1)) = Inr (go_on, s')"
      using assms(3) i by (auto simp: flush_buffer_def bind_conf_Inr_iff get_conn_Inr)
    obtain c w where c: "s1 = put_conn i c w s" "keeps (conns s ! i) c"
      using write_socket_keeps [OF r(1)] by blast
    have s1: "owned exact Ms K s1" "(this_thread oc, i) \<in> set (poll_list s1)" "conn_state (conns s1 ! i) = conn_state (conns s ! i)"
      using inv_keeps [OF assms(1,2) c(2)] assms(2) c i by (simp_all add: keeps_def)
    show ?thesis
      using r(2) s1 inv_abort_polled [OF s1(1,2)] by (auto simp: bind_conf_Inr_iff split: if_splits)
  next
    case False
    then show ?thesis
      using assms i by (auto simp: flush_buffer_def bind_conf_Inr_iff get_conn_Inr)
  qed
  then show "owned exact Ms K s'" "go_on \<Longrightarrow> (this_thread oc, i) \<in> set (poll_list s') \<and> conn_state (conns s' ! i) = conn_state (conns s ! i)"
    by blast+
qed

text \<open>No message is lost.\<close>

definition sends :: "bool \<Rightarrow> occasion \<Rightarrow> bool" where
  "sends exact oc \<longleftrightarrow> (exact \<longrightarrow> (\<forall>t m. send_outcome oc t m \<in> {Sent, Would_Block}))"

lemma inv_send_hand:
  assumes "owned exact Ms (add_mset i K) s" "forward_connection E oc bits cb i s = Inr s'" "sends exact oc"
    "cb = Router_Tls_Handshake \<Longrightarrow> bits = thread_mask_router" "cb = Worker_Process_Request \<Longrightarrow> ready_conn (conns s ! i)"
  shows "owned exact Ms K s'"
  using inv_forward [OF assms(1,2,4,5)] assms(3) by (simp add: sends_def)

lemma nodelay_keeps: "conn_set_nodelay sys v k w = (k', w') \<Longrightarrow> conn_id k' = conn_id k"
  by (auto simp: conn_set_nodelay_def split: option.splits prod.splits if_splits)

lemma inv_keepalive:
  assumes "owned exact Ms (add_mset i K) s" "keepalive_connection E oc i s = Inr s'" "sends exact oc"
  shows "owned exact Ms K s'"
proof -
  note ok = hand_ok [OF assms(1)]
  obtain k w where k: "conn_set_nodelay (env_sys E) 1 (conn (conns s ! i)) (world (net_state s)) = (k, w)"
    by fastforce
  let ?c = "(conns s ! i)\<lparr> buffer := ring_reset (buffer (conns s ! i)), conn := k \<rparr>"
  have "forward_connection E oc thread_mask_keepalive Keepalive_Wait_Connection i (count_stat connections_keepalive_update (put_conn i ?c w s)) = Inr s'"
    using assms(2) k by (auto simp: keepalive_connection_def bind_conf_Inr_iff with_conn_Inr)
  moreover have "owned exact Ms (add_mset i K) (put_conn i ?c w s)"
    using inv_put_hand [OF assms(1)] ok nodelay_keeps [OF k] by (simp add: conn_ok_def sizes_def ring_reset_def)
  ultimately show ?thesis
    using inv_send_hand [OF inv_same [OF _ same_count_stat] _ assms(3)] by blast
qed

lemma inv_linger:
  assumes "owned exact Ms (add_mset i K) s" "linger_connection E oc i s = Inr s'" "sends exact oc"
  shows "owned exact Ms K s'"
  by (rule inv_send_hand [OF inv_same [OF assms(1) same_count_stat] assms(2) [unfolded linger_connection_def] assms(3)]) simp_all

lemma finished_request_same: "finished_request E oc i s = Inr s' \<Longrightarrow> same_places s s'"
  by (auto simp: finished_request_def Let_def bind_conf_Inr_iff same_places_def count_stat_def split: option.splits if_splits)

lemma inv_end_response:
  assumes "owned exact Ms K s" "(this_thread oc, i) \<in> set (poll_list s)" "conn_state (conns s ! i) \<noteq> connection_state_client_body"
    "end_response E oc finish i s = Inr s'" "\<And>s s'. finish s = Inr s' \<Longrightarrow> same_places s s'" "sends exact oc"
  shows "owned exact Ms K s'"
proof -
  obtain ok s1 where h: "call_handler (end_request (env_class E)) i s = Inr (ok, s1)"
    using assms(4) by (auto simp: end_response_def bind_conf_Inr_iff)
  have "sizes (conns s ! i) = Z"
    using polled(2) [OF assms(1,2)] by (simp add: conn_ok_def)
  then obtain c w where c: "s1 = put_conn i c w s" "keeps (conns s ! i) c"
    using end_request_keeps [OF h] assms(3) by blast
  have s1: "owned exact Ms K s1" "(this_thread oc, i) \<in> set (poll_list s1)"
    using inv_keeps [OF assms(1,2) c(2)] assms(2) c by simp_all
  show ?thesis
  proof (cases ok)
    case False
    then show ?thesis
      using assms(4) h inv_abort_polled [OF s1] by (auto simp: end_response_def bind_conf_Inr_iff)
  next
    case True
    then obtain s2 where s2: "finish s1 = Inr s2"
        "(if connection_close (conns s1 ! i) then close_polled E oc i s2 else keepalive_connection E oc i (remove_events (this_thread oc) i s2)) = Inr s'"
      using assms(4) h by (auto simp: end_response_def bind_conf_Inr_iff get_conn_Inr)
    have "owned exact Ms K s2" "(this_thread oc, i) \<in> set (poll_list s2)"
      using inv_same [OF s1(1) assms(5) [OF s2(1)]] assms(5) [OF s2(1)] s1(2) by (simp_all add: same_places_def)
    then show ?thesis
      using s2(2) inv_close_polled [of exact Ms K s2 oc i s'] inv_keepalive [OF inv_remove_events _ assms(6), of Ms K s2 "this_thread oc" i s']
      by (simp split: if_splits)
  qed
qed

section \<open>The states\<close>

lemma inv_server_response:
  assumes "owned exact Ms K s" "(this_thread oc, i) \<in> set (poll_list s)" "conn_state (conns s ! i) = connection_state_server_response"
    "handle_state_server_response E oc i s = Inr s'" "sends exact oc"
  shows "owned exact Ms K s'"
proof -
  obtain go_on s1 where f: "flush_buffer E oc i s = Inr (go_on, s1)"
      "(if go_on then end_response E oc (\<lambda>s. Inr (count_stat requests_processed_update s)) i s1 else Inr s1) = Inr s'"
    using assms(4) by (auto simp: handle_state_server_response_def bind_conf_Inr_iff)
  note k = flush_buffer_keeps [OF assms(1,2) f(1)]
  show ?thesis
  proof (cases go_on)
    case True
    then have r: "end_response E oc (\<lambda>s. Inr (count_stat requests_processed_update s)) i s1 = Inr s'"
      using f(2) by simp
    show ?thesis
      by (rule inv_end_response [OF k(1) _ _ r _ assms(5)]) (use k(2) True assms(3) same_count_stat in auto)
  qed (use f(2) k(1) in simp)
qed

lemma inv_server_body:
  assumes "owned exact Ms K s" "(this_thread oc, i) \<in> set (poll_list s)" "conn_state (conns s ! i) = connection_state_server_body"
    "handle_state_server_body E oc i s = Inr s'" "sends exact oc"
  shows "owned exact Ms K s'"
proof -
  note p = polled [OF assms(1,2)]
  obtain r s1 where r: "(if response_has_body (conns s ! i) then call_handler (write_response_body (env_class E)) i s else Inr (io_size 0, s)) = Inr (r, s1)"
      "(if has_error r then abort_polled E oc i s1
        else bind_conf (flush_buffer E oc i s1) (\<lambda>(go_on, s). if go_on then end_response E oc (finished_request E oc i) i s else Inr s)) = Inr s'"
    using assms(4) p(1) by (auto simp: handle_state_server_body_def bind_conf_Inr_iff get_conn_Inr split: if_splits)
  have s1: "owned exact Ms K s1 \<and> (this_thread oc, i) \<in> set (poll_list s1) \<and> conn_state (conns s1 ! i) = connection_state_server_body"
  proof (cases "response_has_body (conns s ! i)")
    case True
    then obtain c w where "s1 = put_conn i c w s" "keeps (conns s ! i) c"
      using write_body_keeps [of i s r s1] r(1) p(2) assms(3) by (auto simp: conn_ok_def)
    then show ?thesis
      using inv_keeps [OF assms(1,2)] assms(2,3) p(1) by (auto simp: keeps_def)
  qed (use r(1) assms in auto)
  show ?thesis
  proof (cases "has_error r")
    case True
    with r(2) s1 show ?thesis
      using inv_abort_polled by auto
  next
    case False
    then obtain go_on s2 where f: "flush_buffer E oc i s1 = Inr (go_on, s2)"
        "(if go_on then end_response E oc (finished_request E oc i) i s2 else Inr s2) = Inr s'"
      using r(2) by (auto simp: bind_conf_Inr_iff)
    have s2: "owned exact Ms K s2" "go_on \<Longrightarrow> (this_thread oc, i) \<in> set (poll_list s2) \<and> conn_state (conns s2 ! i) = connection_state_server_body"
      using flush_buffer_keeps [OF _ _ f(1), of exact Ms K] s1 by auto
    show ?thesis
    proof (cases go_on)
      case True
      then have r: "end_response E oc (finished_request E oc i) i s2 = Inr s'"
        using f(2) by simp
      show ?thesis
        by (rule inv_end_response [OF s2(1) _ _ r finished_request_same assms(5)]) (use s2(2) True in simp_all)
    qed (use f(2) s2(1) in simp)
  qed
qed

text \<open>The handshake is done by a router, so the connection stays in its pollset.\<close>

lemma dispatch_to_self:
  assumes "dispatch_connection E oc i s = Inr s'" "role (threads (net_state s)) thread_mask_router (this_thread oc)"
    "(this_thread oc, i) \<in> set (poll_list s)" "conn_ok i (conns s ! i)" "i < length (conns s)"
  shows "\<exists>c. s' = put_conn i c (world (net_state s)) s \<and> conn_ok i c \<and> conn_state c = connection_state_client_request"
proof -
  let ?m = "\<lparr> msg_action = action_of Router_Process_Headers, connection_num = int i \<rparr>"
  let ?c = "(conns s ! i)\<lparr> conn := (conn (conns s ! i))\<lparr> last_activity := current_time oc \<rparr>,
    request := request_reset (request (conns s ! i)), conn_state := connection_state_client_request \<rparr>"
  have "thread_choose_thread (this_thread oc) thread_mask_router (threads (net_state s)) = Inr (Some (this_thread oc), threads (net_state s))"
    using assms(2) by (simp add: thread_choose_thread_def role_def)
  then have "dispatch_message (reg_table server_actions) (handle_message E oc) ?m s = Inr s'"
    using assms(1,4,5) by (simp add: dispatch_connection_def forward_connection_def send_message_def bind_conf_Inr_iff get_conn_Inr conn_ok_def)
  then obtain a where "index_cxx (reg_table server_actions) (nat (action_of Router_Process_Headers)) = Inr a"
      "handle_message E oc ''http_server'' ?m s = Inr s'"
    using action_table(3) [of Router_Process_Headers]
    by (auto simp: dispatch_message_def bind_conf_Inr_iff conf_of_Inr_iff split: if_splits)
  then have "s' = put_conn i ?c (world (net_state s)) s"
    using action_table(2) [of Router_Process_Headers a] assms(3,5)
    by (auto simp: handle_message_def bind_conf_Inr_iff conf_of_Inr_iff set_conn_Inr call_action_def router_process_headers_def add_events_def Let_def
      split: option.splits)
  then show ?thesis
    using assms(4) by (intro exI [of _ ?c]) (simp add: conn_ok_def sizes_def)
qed

lemma inv_tls_handshake:
  assumes "owned exact Ms K s" "(this_thread oc, i) \<in> set (poll_list s)" "conn_state (conns s ! i) = connection_state_tls_handshake"
    "handle_state_tls_handshake E oc i s = Inr s'"
  shows "owned exact Ms K s'"
proof -
  note p = polled [OF assms(1,2)]
  obtain w where s': "dispatch_connection E oc i (s\<lparr> net_state := (net_state s)\<lparr> world := w \<rparr> \<rparr>) = Inr s' \<or>
      add_events (this_thread oc) i (s\<lparr> net_state := (net_state s)\<lparr> world := w \<rparr> \<rparr>) = s' \<or>
      close_polled E oc i (s\<lparr> net_state := (net_state s)\<lparr> world := w \<rparr> \<rparr>) = Inr s'"
    using assms(4) by (auto simp: handle_state_tls_handshake_def bind_conf_Inr_iff Let_def split: option.splits if_splits)
  let ?s = "s\<lparr> net_state := (net_state s)\<lparr> world := w \<rparr> \<rparr>"
  have s: "owned exact Ms K ?s" "(this_thread oc, i) \<in> set (poll_list ?s)"
    using inv_same [OF assms(1) same_world] assms(2) by simp_all
  note p = polled [OF s]
  have role: "role (threads (net_state ?s)) thread_mask_router (this_thread oc)"
    using p(3) assms(3) by (simp add: polled_ok_def)
  from s' consider "dispatch_connection E oc i ?s = Inr s'" | "s' = ?s" | "close_polled E oc i ?s = Inr s'"
    using s(2) by (auto simp: add_events_def)
  then show ?thesis
  proof cases
    case 1
    then obtain c where "s' = put_conn i c (world (net_state ?s)) ?s" "conn_ok i c" "conn_state c = connection_state_client_request"
      using dispatch_to_self [OF _ role s(2) p(2,1)] by blast
    then show ?thesis
      using inv_put_polled [OF s] p(3) by (simp add: polled_ok_def)
  next
    case 3
    then show ?thesis
      by (rule inv_close_polled [OF s])
  qed (use s(1) in simp)
qed

lemma inv_waiting:
  assumes "owned exact Ms K s" "(this_thread oc, i) \<in> set (poll_list s)" "handle_state_waiting E oc i s = Inr s'" "sends exact oc"
  shows "owned exact Ms K s'"
  by (rule inv_send_hand [OF inv_remove_events [OF assms(1,2)] assms(3) [unfolded handle_state_waiting_def dispatch_connection_def] assms(4)]) simp_all

lemma inv_lingering_close:
  assumes "owned exact Ms K s" "(this_thread oc, i) \<in> set (poll_list s)" "handle_state_lingering_close E oc i s = Inr s'"
  shows "owned exact Ms K s'"
proof -
  let ?c = "(conns s ! i)\<lparr> buffer := ring_reset (buffer (conns s ! i)) \<rparr>"
  let ?s = "put_conn i ?c (world (net_state s)) s"
  have "keeps (conns s ! i) ?c"
    by (simp add: keeps_def sizes_def ready_conn_def ring_reset_def)
  with inv_keeps [OF assms(1,2)] have s: "owned exact Ms K ?s" "(this_thread oc, i) \<in> set (poll_list ?s)"
    using assms(2) by simp_all
  obtain r s1 where r: "read_socket E i ?s = Inr (r, s1)" "(if has_error r then close_polled E oc i s1 else Inr s1) = Inr s'"
    using assms(3) by (auto simp: handle_state_lingering_close_def bind_conf_Inr_iff set_conn_Inr)
  obtain c w where c: "s1 = put_conn i c w ?s" "keeps (conns ?s ! i) c"
    using read_socket_keeps [OF r(1)] by blast
  then have "owned exact Ms K s1" "(this_thread oc, i) \<in> set (poll_list s1)"
    using inv_keeps [OF s c(2)] s(2) by simp_all
  then show ?thesis
    using r(2) inv_close_polled by (auto split: if_splits)
qed

lemma inv_client_body:
  assumes "owned exact Ms K s" "(this_thread oc, i) \<in> set (poll_list s)" "conn_state (conns s ! i) = connection_state_client_body"
    "handle_state_client_body E oc i s = Inr s'"
  shows "owned exact Ms K s'"
proof -
  note p = polled [OF assms(1,2)]
  obtain r s1 where r: "call_handler (read_request_body (env_class E)) i s = Inr (r, s1)"
      "(if has_error r then abort_polled E oc i s1
        else if io_result.size r = 0
        then bind_conf (populate_response_headers E oc i s1) (\<lambda>(n, s).
          bind_conf (set_conn i respond_state s) (\<lambda>s. Inr (add_events (this_thread oc) i s)))
        else Inr s1) = Inr s'"
    using assms(4) by (auto simp: handle_state_client_body_def bind_conf_Inr_iff)
  obtain c w where c: "s1 = put_conn i c w s" "keeps (conns s ! i) c"
    using read_body_keeps [OF r(1)] p(2) by (auto simp: conn_ok_def)
  have s1: "owned exact Ms K s1" "(this_thread oc, i) \<in> set (poll_list s1)"
    using inv_keeps [OF assms(1,2) c(2)] assms(2) c(1) by simp_all
  note p1 = polled [OF s1]
  have st: "conn_state (conns s1 ! i) = connection_state_client_body"
    using c p(1) assms(3) by (simp add: keeps_def)
  then have rdy: "ready_conn (conns s1 ! i)"
    using p1(3) by (simp add: polled_ok_def)
  show ?thesis
  proof (cases "\<not> has_error r \<and> io_result.size r = 0")
    case True
    then obtain n s2 where n: "populate_response_headers E oc i s1 = Inr (n, s2)"
        "s' = add_events (this_thread oc) i (put_conn i (respond_state (conns s2 ! i)) (world (net_state s2)) s2)"
      using r(2) by (auto simp: bind_conf_Inr_iff set_conn_Inr)
    obtain c w where c2: "s2 = put_conn i c w s1" "conn c = conn (conns s1 ! i)" "sizes c = Z"
      using populate_response_headers_ok [OF n(1)] p1(2) rdy by (auto simp: conn_ok_def)
    then have "s' = put_conn i (respond_state c) w s1"
      using n(2) s1(2) p1(1) by (simp add: add_events_def)
    then show ?thesis
      using inv_put_polled [OF s1, of "respond_state c" w] p1 c2
      by (simp add: conn_ok_def polled_ok_def respond_state_def sizes_def)
  next
    case False
    then show ?thesis
      using r(2) s1 inv_abort_polled [OF s1] by (auto split: if_splits)
  qed
qed

text \<open>A request that is complete goes to a worker with a new handler and the head of the response begun.\<close>

lemma process_request_headers_response:
  assumes "process_request_headers cfg now r resp = Inr (t, r', resp')"
  shows "t = None \<and> resp' = resp \<or> t \<noteq> None \<and> init_response now resp = Inr resp'"
  using assms by (auto simp: process_request_headers_def bind_conf_Inr_iff conf_of_Inr_iff split: if_splits)

lemma accept_request_keeps:
  assumes "accept_request E oc i s = Inr (ok, s')" "sizes (conns s ! i) = Z" "conn_state (conns s ! i) \<noteq> connection_state_client_body"
  shows "\<exists>c w. s' = put_conn i c w s \<and> keeps (conns s ! i) c \<and> (ok \<longrightarrow> ready_conn c)"
proof -
  let ?c = "conns s ! i"
  let ?h = "\<lambda>t. case t of None \<Rightarrow> handler ?c | Some t \<Rightarrow> Some (new_handler (env_class E) t (current_time oc))"
  obtain t r resp w where t: "process_request_headers (env_cfg E) (current_time oc) (request ?c) (response ?c) = Inr (t, r, resp)" "ok = (t \<noteq> None)"
      "s' = put_conn i (?c\<lparr> request := r, response := resp, handler := ?h t \<rparr>) w s"
    using assms(1) by (auto simp: accept_request_def bind_conf_Inr_iff get_conn_Inr with_conn_Inr Let_def split: option.splits)
  have resp: "length (chars resp) = length (chars (response ?c))" "message.max_headers resp = message.max_headers (response ?c)"
    using process_request_headers_response [OF t(1)] init_response_sizes by auto
  have "ready (new_handler (env_class E) x (current_time oc)) resp" if "t = Some x" for x
    using process_request_headers_response [OF t(1)] that new_ready assms(2) by (auto simp: sizes_def)
  then show ?thesis
    using t(2,3) resp assms(3) by (auto simp: keeps_def sizes_def ready_conn_def)
qed

lemma parse_request_keeps:
  "parse_request n c w = Inr (c', w') \<Longrightarrow> conn_state c \<noteq> connection_state_client_body \<Longrightarrow> keeps c c'"
  by (auto simp: parse_request_def bind_cxx_Inr_iff keeps_def sizes_def)

lemma inv_parsed:
  assumes "owned exact Ms K s" "(this_thread oc, i) \<in> set (poll_list s)" "conn_state (conns s ! i) = connection_state_client_request"
    "bind_conf (accept_request E oc i s) (\<lambda>(ok, s).
       if \<not> ok then abort_polled E oc i s else work_connection E oc i (remove_events (this_thread oc) i s)) = Inr s'" "sends exact oc"
  shows "owned exact Ms K s'"
proof -
  note p = polled [OF assms(1,2)]
  obtain ok s1 where a: "accept_request E oc i s = Inr (ok, s1)"
      "(if \<not> ok then abort_polled E oc i s1 else work_connection E oc i (remove_events (this_thread oc) i s1)) = Inr s'"
    using assms(4) by (auto simp: bind_conf_Inr_iff)
  obtain c w where c: "s1 = put_conn i c w s" "keeps (conns s ! i) c" "ok \<longrightarrow> ready_conn c"
    using accept_request_keeps [OF a(1)] p(2) assms(3) by (auto simp: conn_ok_def)
  have s1: "owned exact Ms K s1" "(this_thread oc, i) \<in> set (poll_list s1)"
    using inv_keeps [OF assms(1,2) c(2)] assms(2) c(1) by simp_all
  show ?thesis
  proof (cases ok)
    case True
    then have w: "forward_connection E oc thread_mask_worker Worker_Process_Request i (remove_events (this_thread oc) i s1) = Inr s'"
      using a(2) by (simp add: work_connection_def)
    show ?thesis
      by (rule inv_send_hand [OF inv_remove_events [OF s1] w assms(5)]) (use c p(1) True in \<open>simp_all add: remove_events_def\<close>)
  qed (use a(2) inv_abort_polled [OF s1] in simp)
qed

lemma inv_client_request:
  assumes "owned exact Ms K s" "(this_thread oc, i) \<in> set (poll_list s)" "conn_state (conns s ! i) = connection_state_client_request"
    "handle_state_client_request E oc i s = Inr s'" "sends exact oc"
  shows "owned exact Ms K s'"
proof -
  have at: "owned exact Ms K (put_conn i c w s) \<and> (this_thread oc, i) \<in> set (poll_list (put_conn i c w s)) \<and>
      conn_state (conns (put_conn i c w s) ! i) = connection_state_client_request"
    if "owned exact Ms K s" "(this_thread oc, i) \<in> set (poll_list s)" "conn_state (conns s ! i) = connection_state_client_request"
      "keeps (conns s ! i) c" for c w and s :: "('h, 'w) net"
    using inv_keeps [OF that(1,2,4), of w] that(2,3,4) polled(1) [OF that(1,2)] by (simp add: keeps_def)
  show ?thesis
  proof (cases "ring_bytes_writable (buffer (conns s ! i)) = 0")
    case True
    then show ?thesis
      using assms(4) inv_abort_polled [OF assms(1,2)] polled(1) [OF assms(1,2)] by (simp add: handle_state_client_request_def get_conn_def)
  next
    case False
    let ?tail = "\<lambda>(c :: 'h http_server_connection) s. if parser_is_finished (parser (request c))
      then bind_conf (accept_request E oc i s) (\<lambda>(ok, s).
        if \<not> ok then abort_polled E oc i s else work_connection E oc i (remove_events (this_thread oc) i s))
      else if request_has_error (request c) then abort_polled E oc i s else Inr s"
    from False obtain r s1 where r: "read_socket E i s = Inr (r, s1)"
        "(if has_error r then abort_polled E oc i s1
          else if io_result.size r = 0 \<and> ring_back (buffer (conns s1 ! i)) = 0 then close_polled E oc i s1
          else bind_conf (with_conn i (parse_request (io_result.size r)) s1) (\<lambda>s. bind_conf (get_conn i s) (\<lambda>c. ?tail c s))) = Inr s'"
      using assms(4) by (auto simp: handle_state_client_request_def bind_conf_Inr_iff get_conn_Inr)
    have s1: "owned exact Ms K s1" "(this_thread oc, i) \<in> set (poll_list s1)" "conn_state (conns s1 ! i) = connection_state_client_request"
      using read_socket_keeps [OF r(1)] at [OF assms(1-3)] by auto
    from r(2) consider "abort_polled E oc i s1 = Inr s'" | "close_polled E oc i s1 = Inr s'"
      | "bind_conf (with_conn i (parse_request (io_result.size r)) s1) (\<lambda>s. bind_conf (get_conn i s) (\<lambda>c. ?tail c s)) = Inr s'"
      by (cases "has_error r"; cases "io_result.size r = 0 \<and> ring_back (buffer (conns s1 ! i)) = 0") simp_all
    then show ?thesis
    proof cases
      case bound: 3
      obtain s2 c where 3: "with_conn i (parse_request (io_result.size r)) s1 = Inr s2" "?tail c s2 = Inr s'"
        using bound [unfolded bind_conf_Inr_iff [of "with_conn i (parse_request (io_result.size r)) s1"]]
        unfolding bind_conf_Inr_iff [of "get_conn i _"]
        by (elim exE conjE) (rule that)
      obtain c' w where k: "parse_request (io_result.size r) (conns s1 ! i) (world (net_state s1)) = Inr (c', w)" and s2': "s2 = put_conn i c' w s1"
        using 3(1) by (auto simp: with_conn_Inr)
      have k: "keeps (conns s1 ! i) c'"
        using parse_request_keeps [OF k] s1(3) by simp
      have s2: "owned exact Ms K s2" "(this_thread oc, i) \<in> set (poll_list s2)" "conn_state (conns s2 ! i) = connection_state_client_request"
        using at [OF s1 k, of w] s2' by simp_all
      show ?thesis
        using 3(2) inv_abort_polled [OF s2(1,2)] s2(1) inv_parsed [OF s2 _ assms(5)] by (simp split: if_splits)
    qed (use inv_abort_polled [OF s1(1,2)] inv_close_polled [OF s1(1,2)] in auto)
  qed
qed

section \<open>Events\<close>

lemma inv_call_state:
  assumes "owned exact Ms K s" "(this_thread oc, i) \<in> set (poll_list s)" "call_state E oc (conn_state (conns s ! i)) i s = Inr s'" "sends exact oc"
  shows "owned exact Ms K s'"
  using assms(3)
  by (cases "conn_state (conns s ! i)")
    (auto simp: call_state_def assms(4) intro: inv_abort_polled [OF assms(1,2)] inv_tls_handshake [OF assms(1,2)] inv_client_request [OF assms(1,2)]
      inv_client_body [OF assms(1,2)] inv_server_response [OF assms(1,2)] inv_server_body [OF assms(1,2)] inv_waiting [OF assms(1,2)]
      inv_lingering_close [OF assms(1,2)])

lemma inv_handle_connection:
  assumes "owned exact Ms K s" "(this_thread oc, i) \<in> set (poll_list s)" "handle_connection E oc failed i s = Inr s'" "sends exact oc"
  shows "owned exact Ms K s'"
proof (cases failed)
  case True
  then show ?thesis
    using assms(3) inv_close_polled [OF assms(1,2)] by (simp add: handle_connection_def)
next
  case False
  let ?c = "(conns s ! i)\<lparr> conn := (conn (conns s ! i))\<lparr> last_activity := current_time oc \<rparr> \<rparr>"
  let ?s = "put_conn i ?c (world (net_state s)) s"
  have k: "keeps (conns s ! i) ?c"
    by (simp add: keeps_def sizes_def ready_conn_def)
  have s: "owned exact Ms K ?s" "(this_thread oc, i) \<in> set (poll_list ?s)"
    using inv_keeps [OF assms(1,2) k] assms(2) by simp_all
  have "call_state E oc (conn_state (conns ?s ! i)) i ?s = Inr s'"
    using assms(3) False by (auto simp: handle_connection_def bind_conf_Inr_iff set_conn_Inr get_conn_Inr)
  then show ?thesis
    using inv_call_state [OF s] assms(4) by blast
qed

lemma timeout_cases:
  "i < length (conns s) \<Longrightarrow>
   timeout_connection E oc i s \<in> {Inr s, linger_connection E oc i (remove_events (this_thread oc) i s), abort_polled E oc i s, close_polled E oc i s}"
  by (simp add: timeout_connection_def get_conn_def Let_def)

lemma inv_timeout:
  assumes "owned exact Ms K s" "(this_thread oc, i) \<in> set (poll_list s)" "timeout_connection E oc i s = Inr s'" "sends exact oc"
  shows "owned exact Ms K s'"
proof -
  consider "s' = s" | "linger_connection E oc i (remove_events (this_thread oc) i s) = Inr s'" | "abort_polled E oc i s = Inr s'"
    | "close_polled E oc i s = Inr s'"
    using assms(3) timeout_cases [OF polled(1) [OF assms(1,2)], of oc] by auto
  then show ?thesis
  proof cases
    case 2
    then show ?thesis
      by (rule inv_linger [OF inv_remove_events [OF assms(1,2)] _ assms(4)])
  qed (use assms(1) inv_abort_polled [OF assms(1,2)] inv_close_polled [OF assms(1,2)] in simp_all)
qed

lemma msgs_cleared:
  assumes "t < length bs" "mail (bs ! t) = mset ms + mail b"
  shows "msgs bs = image_mset (Pair t) (mset ms) + msgs (bs[t := b])"
  using msgs_update [OF assms(1), of b] assms(2) by (simp add: add.commute)

lemma owned_cong:
  assumes "conns s' = conns s" "free_list s' = free_list s" "poll_list s' = poll_list s" "threads (net_state s') = threads (net_state s)"
    "length (boxes s') = length (boxes s)" "bs = boxes s'" "Ms' + msgs bs = Ms + msgs (boxes s)"
  shows "owned exact Ms' K s' \<longleftrightarrow> owned exact Ms K s"
  using assms by (simp only: owned_def places_def msg_ok_def)

lemma inv_taken:
  assumes "owned exact Ms K s" "t < length (boxes s)" "mail (boxes s ! t) = mset ms + mail b"
  shows "owned exact (image_mset (Pair t) (mset ms) + Ms) K (s\<lparr> boxes := (boxes s)[t := b] \<rparr>)"
proof -
  have "image_mset (Pair t) (mset ms) + Ms + msgs ((boxes s)[t := b]) = Ms + msgs (boxes s)"
    using msgs_cleared [OF assms(2,3)] by (simp add: ac_simps)
  from owned_cong [of "s\<lparr> boxes := (boxes s)[t := b] \<rparr>" s, OF _ _ _ _ _ _ this] assms(1) show ?thesis
    by simp
qed

lemma inv_messages:
  assumes "owned exact (image_mset (Pair (this_thread oc)) (mset ms) + Ms) K s"
    "fold_conf (\<lambda>s msg. dispatch_message (reg_table server_actions) (handle_message E oc) msg s) s ms = Inr s'"
  shows "owned exact Ms K s'"
  using assms
proof (induction ms arbitrary: s)
  case (Cons m ms)
  then obtain s1 where s1: "dispatch_message (reg_table server_actions) (handle_message E oc) m s = Inr s1"
      "fold_conf (\<lambda>s msg. dispatch_message (reg_table server_actions) (handle_message E oc) msg s) s1 ms = Inr s'"
    by (auto simp: bind_conf_Inr_iff)
  have "owned exact (add_mset (this_thread oc, m) (image_mset (Pair (this_thread oc)) (mset ms) + Ms)) K s"
    using Cons.prems(1) by simp
  then show ?case
    using Cons.IH [OF inv_dispatch_message [OF _ s1(1)] s1(2)] by blast
qed simp

lemma inv_receive:
  assumes "owned exact Ms K s" "receive_message (reg_table server_actions) (handle_message E oc) 0 (this_thread oc) r s = Inr s'"
  shows "owned exact Ms K s'"
proof -
  let ?t = "this_thread oc"
  obtain got s1 s2 where s: "take_notify ?t r s = Inr (got, s1)"
      "(case got of None \<Rightarrow> Inr s1 | Some msg \<Rightarrow> if msg_action msg = 0 then Inr s1
         else dispatch_message (reg_table server_actions) (handle_message E oc) msg s1) = Inr s2" "?t < length (boxes s2)"
      "fold_conf (\<lambda>s msg. dispatch_message (reg_table server_actions) (handle_message E oc) msg s)
         (s2\<lparr> boxes := (boxes s2)[?t := (boxes s2 ! ?t)\<lparr> message_queue := [] \<rparr>] \<rparr>) (message_queue (boxes s2 ! ?t)) = Inr s'"
    using assms(2) by (auto simp: receive_message_def bind_conf_Inr_iff conf_of_Inr_iff index_cxx_Inr_iff)
  have "owned exact Ms K s2"
  proof (cases got)
    case None
    then have "s2 = s"
      using s(1,2) by (cases r; cases "notify (boxes s ! ?t)") (auto simp: take_notify_def bind_conf_Inr_iff conf_of_Inr_iff index_cxx_Inr_iff)
    with assms(1) show ?thesis by simp
  next
    case (Some m)
    then obtain rest where m: "notify (boxes s ! ?t) = m # rest" "?t < length (boxes s)"
        "s1 = s\<lparr> boxes := (boxes s)[?t := (boxes s ! ?t)\<lparr> notify := rest \<rparr>] \<rparr>"
      using s(1) by (cases r) (auto simp: take_notify_def bind_conf_Inr_iff conf_of_Inr_iff index_cxx_Inr_iff split: list.splits)
    have s1: "owned exact (add_mset (?t, m) Ms) K s1"
      using inv_taken [OF assms(1) m(2), of "[m]" "(boxes s ! ?t)\<lparr> notify := rest \<rparr>"] m(1,3) by (simp add: mail_def)
    then obtain cb where "msg_action m = action_of cb"
      using message_to_hand by (fastforce simp: msg_ok_def)
    then have "dispatch_message (reg_table server_actions) (handle_message E oc) m s1 = Inr s2"
      using s(2) Some action_table(1) [of cb] by simp
    then show ?thesis
      by (rule inv_dispatch_message [OF s1])
  qed
  from inv_messages [OF inv_taken [OF this s(3)] s(4)] show ?thesis
    by (simp add: mail_def)
qed

text \<open>A new connection comes from the free list; its buffers are there already.\<close>

lemma conn_reset_keeps: "conn_reset sys k w = (k', w') \<Longrightarrow> conn_id k' = conn_id k"
  by (auto simp: conn_reset_def conn_close_def split: option.splits)

lemma init_keeps:
  assumes "http_server_connection_init E c w = Inr (c', w')" "conn_ok i c"
  shows "conn_ok i c'"
proof -
  obtain k w1 where k: "conn_reset (env_sys E) (conn c) w = (k, w1)"
    by fastforce
  have "ring_size (ring_reset (buffer c)) \<noteq> 0"
    using assms(2) buffer_size by (auto simp: conn_ok_def sizes_def ring_size_def ring_reset_def)
  then show ?thesis
    using assms k conn_reset_keeps [OF k]
    by (auto simp: http_server_connection_init_def conn_ok_def sizes_def ring_reset_def response_reset_def message_clear_def)
qed

lemma inv_new_connection:
  assumes "owned exact Ms K s" "server_new_connection E s = Inr (r, s')"
  shows "case r of None \<Rightarrow> owned exact Ms K s' | Some i \<Rightarrow> owned exact Ms (add_mset i K) s'"
proof (cases "free_list s = []")
  case True
  then have "r = None" "same_places s s'"
    using assms(2) by (auto simp: server_new_connection_def new_connection_def bind_conf_Inr_iff conf_of_Inr_iff same_places_def)
  then show ?thesis
    using inv_same [OF assms(1)] by simp
next
  case False
  let ?i = "last (free_list s)"
  let ?s = "s\<lparr> net_state := (net_state s)\<lparr> pool := (pool (net_state s))\<lparr> connections_free := butlast (free_list s) \<rparr> \<rparr> \<rparr>"
  obtain c w where c: "http_server_connection_init E (conns s ! ?i) (world (net_state s)) = Inr (c, w)" "r = Some ?i" "s' = put_conn ?i c w ?s"
    using assms(2) False
    by (auto simp: server_new_connection_def new_connection_def on_connection_def Let_def bind_conf_Inr_iff bind_cxx_Inr_iff conf_of_Inr_iff
      index_cxx_Inr_iff put_conn_def)
  have "mset (free_list s) = add_mset ?i (mset (butlast (free_list s)))"
    using False by (metis append_butlast_last_id mset.simps(1) mset.simps(2) mset_append union_mset_add_mset_right add_0_right)
  then have s: "owned exact Ms (add_mset ?i K) ?s"
    using assms(1) by (simp add: owned_def places_def msg_ok_def)
  note ok = hand_ok [OF s]
  have "conn_ok ?i c"
    using init_keeps [OF c(1)] ok by simp
  then show ?thesis
    using inv_put_hand [OF s] c(2,3) by simp
qed

lemma accept_keeps: "conn_accept sys desc k w = (k', w') \<Longrightarrow> conn_id k' = conn_id k"
  by (auto simp: conn_accept_def take_socket_def split: option.splits prod.splits)

lemma accept_tls_keeps: "conn_accept_tls sys desc ctx k w = (k', w') \<Longrightarrow> conn_id k' = conn_id k"
  by (auto simp: conn_accept_tls_def take_socket_def split: option.splits prod.splits)

lemma inv_handle_accepted:
  assumes "owned exact Ms K s" "handle_accepted E oc mode ctx desc peer own s = Inr s'" "sends exact oc"
  shows "owned exact Ms K s'"
proof -
  obtain r s1 where r: "server_new_connection E s = Inr (r, s1)"
    using assms(2) by (auto simp: handle_accepted_def bind_conf_Inr_iff)
  note new = inv_new_connection [OF assms(1) r]
  show ?thesis
  proof (cases r)
    case None
    then have "same_places s1 s'"
      using assms(2) r by (auto simp: handle_accepted_def bind_conf_Inr_iff same_places_def)
    then show ?thesis
      using new None inv_same by simp
  next
    case (Some i)
    then have s1: "owned exact Ms (add_mset i K) s1"
      using new by simp
    note ok = hand_ok [OF s1]
    obtain k w where k: "(case mode of socket_mode_plain \<Rightarrow> conn_accept (env_sys E) desc (conn (conns s1 ! i)) (world (net_state s1))
        | socket_mode_tls \<Rightarrow> conn_accept_tls (env_sys E) desc ctx (conn (conns s1 ! i)) (world (net_state s1))) = (k, w)"
      by fastforce
    let ?c = "(conns s1 ! i)\<lparr> conn := k\<lparr> local_addr := peer, peer_addr := own \<rparr> \<rparr>"
    let ?s = "count_stat connections_accepted_update (put_conn i ?c w s1)"
    have "conn_id k = conn_id (conn (conns s1 ! i))"
      using k accept_keeps accept_tls_keeps by (cases mode) auto
    then have s: "owned exact Ms (add_mset i K) ?s"
      using inv_same [OF inv_put_hand [OF s1] same_count_stat] ok by (simp add: conn_ok_def sizes_def)
    have f: "(case mode of socket_mode_plain \<Rightarrow> dispatch_connection E oc i ?s | socket_mode_tls \<Rightarrow> dispatch_connection_tls E oc i ?s) = Inr s'"
      using assms(2) r Some k ok by (cases mode) (auto simp: handle_accepted_def bind_conf_Inr_iff with_conn_Inr Let_def)
    show ?thesis
    proof (cases mode)
      case socket_mode_plain
      then show ?thesis
        using f inv_send_hand [OF s _ assms(3), of thread_mask_router Router_Process_Headers s'] by (simp add: dispatch_connection_def)
    next
      case socket_mode_tls
      then show ?thesis
        using f inv_send_hand [OF s _ assms(3), of thread_mask_router Router_Tls_Handshake s'] by (simp add: dispatch_connection_tls_def)
    qed
  qed
qed

lemma inv_handle_accept:
  assumes "owned exact Ms K s" "handle_accept E oc mode ctx accepted s = Inr s'" "sends exact oc"
  shows "owned exact Ms K s'"
  using assms(2) unfolding handle_accept_def
  by (rule fold_conf_inv [where P = "owned exact Ms K", OF _ assms(1)]) (use assms(3) in \<open>auto intro: inv_handle_accepted\<close>)

section \<open>Runs\<close>

lemma inv_step:
  assumes "owned exact Ms K s" "server_step E s (oc, ev) = Inr s'" "sends exact oc"
  shows "owned exact Ms K s'"
proof (cases ev)
  case (Ev_Message r)
  then show ?thesis
    using assms inv_receive [OF assms(1)] by (auto simp: server_step_def split: if_splits)
next
  case (Ev_Accept mode ctx accepted)
  then show ?thesis
    using assms inv_handle_accept [OF assms(1) _ assms(3)] by (auto simp: server_step_def split: if_splits)
next
  case (Ev_Connection failed i)
  then show ?thesis
    using assms inv_handle_connection [OF assms(1) _ _ assms(3)] by (auto simp: server_step_def split: if_splits)
next
  case (Ev_Timeout i)
  then show ?thesis
    using assms inv_timeout [OF assms(1) _ _ assms(3)] by (auto simp: server_step_def split: if_splits)
qed

lemma inv_run:
  assumes "owned exact Ms K s" "server_run E evs s = Inr s'" "\<forall>(oc, ev) \<in> set evs. sends exact oc"
  shows "owned exact Ms K s'"
  using assms(2) unfolding server_run_def
  by (rule fold_conf_inv [where P = "owned exact Ms K", OF _ assms(1)]) (use assms(3) in \<open>auto intro: inv_step\<close>)

text \<open>At the start every connection is free.\<close>

lemma init_fresh:
  assumes "http_server_connection_init E (fresh_connection i) w = Inr (c, w')" "roundpow2 (word_of_int (io_buffer_size (env_config E)) :: u64) = Inr n"
    "Z = (unat n, to_size (header_buffer_size (env_config E)), to_size (config.max_headers (env_config E)))"
  shows "conn_ok i c"
  unfolding conn_ok_def sizes_def unfolding assms(3) using assms(1,2)
  by (auto simp: http_server_connection_init_def fresh_connection_def new_connection_object_def conn_reset_def conn_close_def ring_reset_def ring_new_def
    ring_size_def ring_resize_def vector_resize_def message_resize_def response_reset_def message_clear_def
    bind_cxx_Inr_iff)

lemma init_connections_ok:
  assumes "init_connections fresh_connection (http_server_connection_init E) is w = Inr (ks, w')"
    "roundpow2 (word_of_int (io_buffer_size (env_config E)) :: u64) = Inr n"
    "Z = (unat n, to_size (header_buffer_size (env_config E)), to_size (config.max_headers (env_config E)))"
  shows "list_all2 conn_ok is ks"
  using assms(1)
proof (induction "is" arbitrary: w ks)
  case (Cons i "is")
  then obtain c w1 ks1 where "http_server_connection_init E (fresh_connection i) w = Inr (c, w1)"
      "init_connections fresh_connection (http_server_connection_init E) is w1 = Inr (ks1, w')" "ks = c # ks1"
    by (auto simp: bind_cxx_Inr_iff)
  then show ?case
    using Cons.IH init_fresh [OF _ assms(2,3)] by simp
qed simp

lemma inv_start:
  assumes "server_start E masks w = Inr s" "roundpow2 (word_of_int (io_buffer_size (env_config E)) :: u64) = Inr n"
    "Z = (unat n, to_size (header_buffer_size (env_config E)), to_size (config.max_headers (env_config E)))"
  shows "owned True {#} {#} s"
proof -
  let ?n = "to_size (server_connections (env_config E))"
  obtain ks w' where ks: "init_connections fresh_connection (http_server_connection_init E) [0..<?n] w = Inr (ks, w')"
      "conns s = ks" "free_list s = [0..<?n]" "poll_list s = []" "boxes s = replicate (length masks) \<lparr> notify = [], message_queue = [] \<rparr>"
      "threads (net_state s) = start_engine (reg_table server_masks) masks"
    using assms(1) by (auto simp: server_start_def connection_state_init_def bind_conf_Inr_iff conf_of_Inr_iff bind_cxx_Inr_iff)
  have ok: "list_all2 conn_ok [0..<?n] ks"
    using init_connections_ok [OF ks(1) assms(2,3)] .
  then have n: "length ks = ?n"
    using list_all2_lengthD by fastforce
  have "msgs (boxes s) = {#}"
    unfolding msgs_def ks(5) by (rule sum.neutral) (simp add: mail_def)
  then show ?thesis
    using ks(2-6) n list_all2_nthD [OF ok] start_engine_roles by (simp add: owned_def places_def counted_def)
qed

end

end
