(* ===== verification/Http_Handlers.thy ===== *)
theory Http_Handlers
  imports Http_Server Http_Constants
begin

text \<open>
  The handlers of requests: \<^verbatim>\<open>src/http_server_handler_file.cc\<close>, which answers with a file,
  \<^verbatim>\<open>src/http_server_handler_func.cc\<close>, which answers with the result of a function of the application, and
  \<^verbatim>\<open>src/http_server_handler_stats.cc\<close>, which answers with the state of the engines. The system calls on files,
  the functions of the application and the list of engines are arguments.
\<close>

section \<open>Members\<close>

datatype body_reader = No_Reader | Buffer_Reader | File_Reader

record http_server_handler =
  h_vhost :: nat
  h_location :: http_server_location
  h_path_translated :: string
  h_current_time :: int
  h_header_length :: int

text \<open>The members that each of the three classes declares; the buffer is \<^verbatim>\<open>error_buffer\<close> or \<^verbatim>\<open>response_buffer\<close>.\<close>

record response_handler = http_server_handler +
  h_http_version :: int
  h_request_method :: int
  mime_type :: string
  status_text :: string
  h_reader :: body_reader
  body_buffer :: io_buffer
  h_status_code :: int
  content_length :: int
  total_written :: int

record file_stat =
  st_mode :: u32
  st_size :: int
  st_mtime :: int

record file_handler = response_handler +
  open_path :: string
  file_resource :: io_file
  open_err :: int
  stat_err :: int
  stat_result :: file_stat
  last_modified :: int
  if_modified_since :: int

text \<open>
  A function that an application binds gets a pointer to the connection and returns the text of the body. The model has
  the functions that only read the connection, as the one that \<^verbatim>\<open>app/neta.cc\<close> binds; one that changes the response or
  the buffer behind the handler's back is outside of it.
\<close>

type_synonym 'w http_server_function = "exchange \<Rightarrow> 'w \<Rightarrow> (string \<times> 'w) cxx"

text \<open>
  The system calls on files return an error number, which is 0 on success; \<open>fs_open\<close> and \<open>fs_read\<close> return
  a negative number on failure and the error number.
\<close>

record 'w file_system =
  fs_stat :: "string \<Rightarrow> 'w \<Rightarrow> int \<times> file_stat \<times> 'w"
  fs_open :: "string \<Rightarrow> int \<Rightarrow> int \<Rightarrow> 'w \<Rightarrow> int \<times> int \<times> 'w"
  fs_read :: "int \<Rightarrow> byte list \<Rightarrow> nat \<Rightarrow> 'w \<Rightarrow> int \<times> int \<times> byte list \<times> 'w"
  fs_close :: "int \<Rightarrow> 'w \<Rightarrow> 'w"

text \<open>What the statistics are printed from, for each engine.\<close>

record engine_view =
  view_listens :: "string list"
  view_threads :: "(nat \<times> u32) list"
  view_total :: nat
  view_free :: nat
  view_stats :: engine_stats

record 'w handler_env =
  he_config :: config
  he_constants :: constants
  he_files :: "'w file_system"
  he_masks :: "protocol_mask list"
  he_engines :: "'w \<Rightarrow> engine_view list"
  he_vhosts :: "http_server_vhost list"

section \<open>Steps that the classes share\<close>

definition HTTPStatusCodeOK_value :: int where "HTTPStatusCodeOK_value = status_value HTTPStatusCodeOK"
definition HTTPStatusCodeNotModified_value :: int where "HTTPStatusCodeNotModified_value = status_value HTTPStatusCodeNotModified"

lemma status_values [simp]: "HTTPStatusCodeOK_value = 200" "HTTPStatusCodeNotModified_value = 304"
  by (simp_all add: HTTPStatusCodeOK_value_def HTTPStatusCodeNotModified_value_def)

text \<open>The version and the method are looked up by \<^verbatim>\<open>const char*\<close>, which may not be null.\<close>

definition request_types :: "constants \<Rightarrow> http_request \<Rightarrow> 'a response_handler_scheme \<Rightarrow> 'a response_handler_scheme cxx" where
  "request_types C r h =
     bind_cxx (show_c_string r (http_version r)) (\<lambda>v.
     bind_cxx (show_c_string r (request_method r)) (\<lambda>m.
       Inr (h\<lparr> h_http_version := get_version_type C v, h_request_method := get_method_type C m \<rparr>)))"

definition set_status_text :: "constants \<Rightarrow> 'a response_handler_scheme \<Rightarrow> 'a response_handler_scheme cxx" where
  "set_status_text C h = (case get_status_text C (h_status_code h) of None \<Rightarrow> Inl Undefined | Some t \<Rightarrow> Inr (h\<lparr> status_text := t \<rparr>))"

definition to_bytes :: "string \<Rightarrow> byte list" where
  "to_bytes s = map (\<lambda>c. of_nat (of_char c)) s"

definition method_allowed :: "int \<Rightarrow> bool" where
  "method_allowed m \<longleftrightarrow> m = method_value HTTPMethodGET \<or> m = method_value HTTPMethodHEAD"

definition c_tolower :: "char \<Rightarrow> char" where
  "c_tolower c = (if 65 \<le> (of_char c :: nat) \<and> (of_char c :: nat) \<le> 90 then char_of ((of_char c :: nat) + 32) else c)"

definition strcasecmp_equal :: "string \<Rightarrow> string \<Rightarrow> bool" where
  "strcasecmp_equal a b \<longleftrightarrow> map c_tolower a = map c_tolower b"

definition has_body :: "'a response_handler_scheme \<Rightarrow> bool" where
  "has_body h =
     (if h_request_method h = method_value HTTPMethodGET then h_status_code h \<noteq> HTTPStatusCodeNotModified_value
      else h_request_method h \<noteq> method_value HTTPMethodHEAD)"

definition closes :: "int \<Rightarrow> string option \<Rightarrow> bool" where
  "closes version connection_str =
     (if version = version_value HTTPVersion10 then \<not> (case connection_str of None \<Rightarrow> False | Some s \<Rightarrow> strcasecmp_equal s ''keep-alive'')
      else if version = version_value HTTPVersion11 then (case connection_str of None \<Rightarrow> False | Some s \<Rightarrow> strcasecmp_equal s ''close'')
      else True)"

definition set_field :: "string \<Rightarrow> string \<Rightarrow> http_response \<Rightarrow> http_response cxx" where
  "set_field name v resp = bind_cxx (set_header_field resp name v) (\<lambda>(ok, resp). Inr resp)"

text \<open>The header \<^verbatim>\<open>Connection\<close> of the response.\<close>

definition connection_field :: "int \<Rightarrow> string option \<Rightarrow> bool \<Rightarrow> http_response \<Rightarrow> http_response cxx" where
  "connection_field version connection_str close resp =
     (if version = version_value HTTPVersion10
      then if (case connection_str of None \<Rightarrow> False | Some s \<Rightarrow> strcasecmp_equal s ''keep-alive'') then set_field ''Connection'' ''keep-alive'' resp else Inr resp
      else if version = version_value HTTPVersion11 then set_field ''Connection'' (if close then ''close'' else ''keep-alive'') resp
      else Inr resp)"

text \<open>\<^verbatim>\<open>populate_response\<close>; the function \<open>extra\<close> sets the headers that only the class for files has.\<close>

definition populate :: "(http_response \<Rightarrow> http_response cxx) \<Rightarrow> 'a response_handler_scheme \<Rightarrow> exchange \<Rightarrow> exchange cxx" where
  "populate extra h x =
     (let x = x\<lparr> response_has_body := has_body h \<rparr> in
      bind_cxx (get_header_string (request x) ''Connection'') (\<lambda>connection_str.
      let x = x\<lparr> connection_close := closes (h_http_version h) connection_str, request_has_body := False \<rparr> in
      bind_cxx (response_event (response x) (SetStatusCode (h_status_code h))) (\<lambda>resp.
      bind_cxx (response_event resp (SetReasonPhrase (status_text h))) (\<lambda>resp.
      bind_cxx (if h_status_code h \<noteq> HTTPStatusCodeNotModified_value
          then bind_cxx (set_field ''Content-Type'' (mime_type h) resp)
            (set_field ''Content-Length'' (take 31 (show_nat (nat (content_length h mod 2 ^ 64)))))
          else Inr resp) (\<lambda>resp.
      bind_cxx (extra resp) (\<lambda>resp.
      bind_cxx (connection_field (h_http_version h) connection_str (connection_close x) resp) (\<lambda>resp.
        Inr (x\<lparr> response := resp \<rparr>))))))))"

text \<open>The result is put into the buffer, which is made larger when it has to be.\<close>

definition respond_with :: "string \<Rightarrow> 'a response_handler_scheme \<Rightarrow> 'a response_handler_scheme cxx" where
  "respond_with result h =
     bind_cxx (if length (io_buffer.buffer (body_buffer h)) < length result then io_buffer_resize (body_buffer h) (of_nat (length result)) else Inr (body_buffer h)) (\<lambda>b.
     bind_cxx (io_buffer_set b (to_bytes result)) (\<lambda>b.
       Inr (h\<lparr> body_buffer := b, content_length := int (length result), h_reader := Buffer_Reader \<rparr>)))"

text \<open>A \<^verbatim>\<open>buffer_read\<close> from the reader into the buffer of the connection.\<close>

definition file_reader :: "'w file_system \<Rightarrow> io_file \<Rightarrow> 'w read_op" where
  "file_reader fs f w buf len = (let (r, buf, w) = file_read (fs_read fs) f buf len w in Inr (r, buf, w))"

definition response_init :: "'a response_handler_scheme \<Rightarrow> 'a response_handler_scheme" where
  "response_init h =
     h\<lparr> h_reader := No_Reader, body_buffer := io_buffer_reset (body_buffer h), mime_type := [], status_text := [], h_status_code := 0,
        content_length := 0, total_written := 0 \<rparr>"

section \<open>Functions of the application\<close>

definition func_handle_request :: "'w handler_env \<Rightarrow> 'w http_server_function \<Rightarrow> (response_handler, 'w, bool) handler_op" where
  "func_handle_request H fn h x w =
     bind_cxx (request_types (he_constants H) (request x) h) (\<lambda>h.
     let h = h\<lparr> h_status_code := (if method_allowed (h_request_method h) then HTTPStatusCodeOK_value else status_value HTTPStatusCodeMethodNotAllowed) \<rparr> in
     bind_cxx (set_status_text (he_constants H) h) (\<lambda>h.
     bind_cxx (fn x w) (\<lambda>(fn_result, w).
     bind_cxx (respond_with fn_result (h\<lparr> mime_type := ''text/plain'' \<rparr>)) (\<lambda>h. Inr (True, h, x, w)))))"

definition text_populate_response :: "(response_handler, 'w, bool) handler_op" where
  "text_populate_response h x w = bind_cxx (populate Inr h x) (\<lambda>x. Inr (True, h, x, w))"

definition text_write_response_body :: "(response_handler, 'w, io_result) handler_op" where
  "text_write_response_body h x w =
     (case h_reader h of
        No_Reader \<Rightarrow> Inr (io_size 0, h, x, w)
      | _ \<Rightarrow> bind_cxx (ring_buffer_read io_buffer_read (buffer x) (body_buffer h)) (\<lambda>(r, b, rb). Inr (r, h\<lparr> body_buffer := rb \<rparr>, x\<lparr> buffer := b \<rparr>, w)))"

section \<open>Statistics\<close>

abbreviation endl :: string where
  "endl \<equiv> [CHR 0x0A]"

definition show_u64 :: "u64 \<Rightarrow> string" where
  "show_u64 n = show_nat (unat n)"

definition stats_engine :: "protocol_mask list \<Rightarrow> nat \<times> engine_view \<Rightarrow> string" where
  "stats_engine masks = (\<lambda>(engine_num, e).
     ''http-engine-'' @ show_nat engine_num @ endl @
     ''  listens '' @ show_nat (length (view_listens e)) @ endl @
     concat (map (\<lambda>l. ''    '' @ l @ endl) (view_listens e)) @
     ''  threads '' @ show_nat (length (view_threads e)) @ endl @
     concat (map (\<lambda>(t, m). ''    '' @ show_nat t @ '' '' @ thread_mask_to_string masks m @ endl) (view_threads e)) @
     ''  connections'' @ endl @
     ''    total      '' @ show_nat (view_total e) @ endl @
     ''    free       '' @ show_nat (view_free e) @ endl @
     ''    inuse      '' @ show_nat (size_sub (view_total e) (view_free e)) @ endl @
     ''    accepts    '' @ show_u64 (connections_accepted (view_stats e)) @ endl @
     ''    closes     '' @ show_u64 (connections_closed (view_stats e)) @ endl @
     ''    aborts     '' @ show_u64 (connections_aborted (view_stats e)) @ endl @
     ''    keepalives '' @ show_u64 (connections_keepalive (view_stats e)) @ endl @
     ''    lingers    '' @ show_u64 (connections_linger (view_stats e)) @ endl @
     ''    requests   '' @ show_u64 (requests_processed (view_stats e)) @ endl)"

definition stats_location_lines :: "nat \<times> http_server_location \<Rightarrow> string" where
  "stats_location_lines = (\<lambda>(n, l).
     ''    location-'' @ show_nat n @ endl @
     ''      uri     '' @ location_uri l @ endl @
     (if length (location_root l) > 0 then ''      root    '' @ location_root l @ endl else []) @
     (if length (location_handler l) > 0 then ''      handler '' @ location_handler l @ endl else []) @
     (if length (location_index_files l) > 0 then ''      index   '' @ config_join (location_index_files l) '' '' @ endl else []))"

definition stats_vhost :: "nat \<times> http_server_vhost \<Rightarrow> string" where
  "stats_vhost = (\<lambda>(n, v).
     ''http-vhost-'' @ show_nat n @ endl @
     ''  server_names'' @ endl @
     concat (map (\<lambda>s. ''    '' @ s @ endl) (server_names v)) @
     ''  locations'' @ endl @
     concat (map stats_location_lines (enumerate 0 (location_list v))))"

definition stats_text :: "'w handler_env \<Rightarrow> 'w \<Rightarrow> string" where
  "stats_text H w =
     concat (map (stats_engine (he_masks H)) (enumerate 0 (he_engines H w))) @ endl @
     concat (map stats_vhost (enumerate 0 (he_vhosts H))) @ endl"

definition stats_handle_request :: "'w handler_env \<Rightarrow> (response_handler, 'w, bool) handler_op" where
  "stats_handle_request H h x w =
     bind_cxx (request_types (he_constants H) (request x) h) (\<lambda>h.
     let h = h\<lparr> h_status_code := (if method_allowed (h_request_method h) then HTTPStatusCodeOK_value else status_value HTTPStatusCodeMethodNotAllowed) \<rparr> in
     bind_cxx (set_status_text (he_constants H) h) (\<lambda>h.
     bind_cxx (respond_with (stats_text H w) (h\<lparr> mime_type := ''text/plain'' \<rparr>)) (\<lambda>h. Inr (True, h, x, w))))"

section \<open>Files\<close>

definition S_IFDIR :: u32 where "S_IFDIR = 0x4000"
definition S_IFREG :: u32 where "S_IFREG = 0x8000"
definition ENOENT :: int where "ENOENT = 2"
definition EACCES :: int where "EACCES = 13"

definition error_status :: "int \<Rightarrow> int option" where
  "error_status err =
     (if err = EACCES then Some (status_value HTTPStatusCodeForbidden)
      else if err = ENOENT then Some (status_value HTTPStatusCodeNotFound)
      else if err \<noteq> 0 then Some (status_value HTTPStatusCodeInternalServerError)
      else None)"

definition index_path :: "string \<Rightarrow> string \<Rightarrow> string" where
  "index_path path index = (if length path > 0 \<and> last path = CHR ''/'' then path @ index else path @ ''/'' @ index)"

text \<open>The first index file that is there, with the last result of \<^verbatim>\<open>stat\<close>.\<close>

fun find_index :: "'w file_system \<Rightarrow> string \<Rightarrow> string list \<Rightarrow> file_stat \<Rightarrow> 'w \<Rightarrow> string option \<times> file_stat \<times> 'w" where
  "find_index fs path [] st w = (None, st, w)"
| "find_index fs path (index # rest) st w =
     (let (err, st, w) = fs_stat fs (c_str (index_path path index)) w in
      if err = 0 then (Some (index_path path index), st, w) else find_index fs path rest st w)"

definition open_found :: "'w handler_env \<Rightarrow> int \<Rightarrow> int \<Rightarrow> file_handler \<Rightarrow> 'w \<Rightarrow> int \<times> file_handler \<times> 'w" where
  "open_found H oflag perm h w =
     (let (err, f, w) = file_open (fs_close (he_files H)) (fs_open (he_files H)) (file_resource h) (open_path h) oflag perm w;
          h = h\<lparr> file_resource := f, open_err := err \<rparr> in
      case error_status err of
        Some code \<Rightarrow> (code, h, w)
      | None \<Rightarrow> (HTTPStatusCodeOK_value, h\<lparr> last_modified := st_mtime (stat_result h) \<rparr>, w))"

definition open_resource :: "'w handler_env \<Rightarrow> int \<Rightarrow> int \<Rightarrow> file_handler \<Rightarrow> 'w \<Rightarrow> int \<times> file_handler \<times> 'w" where
  "open_resource H oflag perm h w =
     (let (err, st, w) = fs_stat (he_files H) (c_str (h_path_translated h)) w;
          h = h\<lparr> open_path := h_path_translated h, stat_err := err, stat_result := st \<rparr> in
      case error_status err of
        Some code \<Rightarrow> (code, h, w)
      | None \<Rightarrow>
          if st_mode st AND S_IFDIR \<noteq> 0
          then
            let (found, st, w) = find_index (he_files H) (h_path_translated h)
                  (if length (location_index_files (h_location h)) > 0 then location_index_files (h_location h) else index_files (he_config H)) st w;
                h = h\<lparr> stat_result := st \<rparr> in
            (case found of
               None \<Rightarrow> (status_value HTTPStatusCodeForbidden, h, w)
             | Some path \<Rightarrow> open_found H oflag perm (h\<lparr> open_path := path \<rparr>) w)
          else if st_mode st AND S_IFREG = 0 then (status_value HTTPStatusCodeForbidden, h, w)
          else open_found H oflag perm h w)"

definition error_page :: "int \<Rightarrow> string \<Rightarrow> string" where
  "error_page code text_string =
     ''<html>'' @ CRLF @
     ''<head><title>'' @ show_int code @ '' '' @ text_string @ ''</title></head>'' @ CRLF @
     ''<body>'' @ CRLF @
     ''<h1>'' @ show_int code @ '' '' @ text_string @ ''</h1>'' @ CRLF @
     ''</body>'' @ CRLF @
     ''</html>'' @ CRLF"

text \<open>\<^verbatim>\<open>snprintf\<close> writes what fits and a terminator, and returns the length of the whole text.\<close>

definition create_error_response :: "file_handler \<Rightarrow> (nat \<times> file_handler) cxx" where
  "create_error_response h =
     (let b = io_buffer_reset (body_buffer h); page = error_page (h_status_code h) (c_str (status_text h)) in
      bind_cxx (if io_buffer.buffer b = [] then Inr (io_buffer.buffer b)
          else write_range (io_buffer.buffer b) 0 (to_bytes (take (length (io_buffer.buffer b) - 1) page @ [NUL]))) (\<lambda>buf.
      bind_cxx (set_length (b\<lparr> io_buffer.buffer := buf \<rparr>) (length page)) (\<lambda>b.
        Inr (length page, h\<lparr> body_buffer := b, mime_type := ''text/html'' \<rparr>))))"

definition file_init :: "'w handler_env \<Rightarrow> file_handler \<Rightarrow> 'w \<Rightarrow> file_handler \<times> 'w" where
  "file_init H h w =
     (let (f, w) = file_close (fs_close (he_files H)) (file_resource h) w in
      ((response_init h)\<lparr> open_path := [], file_resource := f, open_err := 0, stat_err := 0, last_modified := 0, if_modified_since := 0 \<rparr>, w))"

text \<open>The request is for a change since a date.\<close>

definition check_modified :: "http_request \<Rightarrow> file_handler \<Rightarrow> file_handler cxx" where
  "check_modified r h =
     (if h_status_code h = HTTPStatusCodeOK_value
      then
        bind_cxx (get_header_string r ''If-Modified-Since'') (\<lambda>str.
          case str of
            None \<Rightarrow> Inr h
          | Some str \<Rightarrow>
              bind_cxx (date_parse str) (\<lambda>(ok, tod).
              let h = h\<lparr> if_modified_since := tod \<rparr> in
                Inr (if last_modified h \<le> if_modified_since h then h\<lparr> h_status_code := HTTPStatusCodeNotModified_value \<rparr> else h)))
      else Inr h)"

definition choose_reader :: "'w handler_env \<Rightarrow> file_handler \<Rightarrow> file_handler cxx" where
  "choose_reader H h =
     (if h_status_code h = HTTPStatusCodeOK_value
      then Inr (h\<lparr> mime_type := snd (lookup_mime_type (he_config H) (open_path h)), content_length := st_size (stat_result h), h_reader := File_Reader \<rparr>)
      else if h_status_code h = HTTPStatusCodeNotModified_value then Inr (h\<lparr> content_length := 0, h_reader := No_Reader \<rparr>)
      else bind_cxx (create_error_response h) (\<lambda>(n, h). Inr (h\<lparr> content_length := int n, h_reader := Buffer_Reader \<rparr>)))"

definition O_RDONLY :: int where "O_RDONLY = 0"

definition file_handle_request :: "'w handler_env \<Rightarrow> (file_handler, 'w, bool) handler_op" where
  "file_handle_request H h x w =
     bind_cxx (request_types (he_constants H) (request x) h) (\<lambda>h.
     let (code, h, w) = (if method_allowed (h_request_method h) then open_resource H O_RDONLY 0 h w
                         else (status_value HTTPStatusCodeMethodNotAllowed, h, w)) in
     bind_cxx (check_modified (request x) (h\<lparr> h_status_code := code \<rparr>)) (\<lambda>h.
     bind_cxx (set_status_text (he_constants H) h) (\<lambda>h.
     bind_cxx (choose_reader H h) (\<lambda>h. Inr (True, h, x, w)))))"

definition last_modified_field :: "file_handler \<Rightarrow> http_response \<Rightarrow> http_response cxx" where
  "last_modified_field h resp =
     (if h_status_code h = HTTPStatusCodeOK_value \<or> h_status_code h = HTTPStatusCodeNotModified_value
      then bind_cxx (to_header_string 32 (last_modified h)) (\<lambda>(date, n). set_field ''Last-Modified'' (take n date) resp)
      else Inr resp)"

definition file_populate_response :: "(file_handler, 'w, bool) handler_op" where
  "file_populate_response h x w = bind_cxx (populate (last_modified_field h) h x) (\<lambda>x. Inr (True, h, x, w))"

definition file_write_response_body :: "'w handler_env \<Rightarrow> (file_handler, 'w, io_result) handler_op" where
  "file_write_response_body H h x w =
     (case h_reader h of
        No_Reader \<Rightarrow> Inr (io_size 0, h, x, w)
      | Buffer_Reader \<Rightarrow>
          bind_cxx (ring_buffer_read io_buffer_read (buffer x) (body_buffer h)) (\<lambda>(r, b, rb). Inr (r, h\<lparr> body_buffer := rb \<rparr>, x\<lparr> buffer := b \<rparr>, w))
      | File_Reader \<Rightarrow>
          bind_cxx (ring_buffer_read (file_reader (he_files H) (file_resource h)) (buffer x) w) (\<lambda>(r, b, w). Inr (r, h, x\<lparr> buffer := b \<rparr>, w)))"

definition file_end_request :: "'w handler_env \<Rightarrow> (file_handler, 'w, bool) handler_op" where
  "file_end_request H h x w =
     (let (f, w) = file_close (fs_close (he_files H)) (file_resource h) w in Inr (True, h\<lparr> file_resource := f \<rparr>, x, w))"

section \<open>The classes\<close>

datatype 'w handler_factory = File_Factory | Stats_Factory | Func_Factory "'w http_server_function"

datatype 'w server_handler = File_Handler file_handler | Stats_Handler response_handler | Func_Handler "'w http_server_function" response_handler

text \<open>The constructors; a new handler has a buffer of the given size and no file.\<close>

definition new_response_handler :: "nat \<Rightarrow> 'f target \<Rightarrow> int \<Rightarrow> response_handler" where
  "new_response_handler buffer_size t now =
     \<lparr> h_vhost = target_vhost t, h_location = http_server_location.truncate (target_location t), h_path_translated = path_translated t,
        h_current_time = now, h_header_length = 0, h_http_version = 0, h_request_method = 0, mime_type = [], status_text = [],
        h_reader = No_Reader, body_buffer = io_buffer_new\<lparr> io_buffer.buffer := replicate buffer_size 0 \<rparr>, h_status_code = 0, content_length = 0,
        total_written = 0 \<rparr>"

definition new_file_handler :: "'f target \<Rightarrow> int \<Rightarrow> file_handler" where
  "new_file_handler t now =
     response_handler.extend (new_response_handler 1024 t now)
       \<lparr> open_path = [], file_resource = \<lparr> fd = - 1 \<rparr>, open_err = 0, stat_err = 0,
          stat_result = \<lparr> st_mode = 0, st_size = 0, st_mtime = 0 \<rparr>, last_modified = 0, if_modified_since = 0 \<rparr>"

definition new_server_handler :: "'w handler_factory target \<Rightarrow> int \<Rightarrow> 'w server_handler" where
  "new_server_handler t now =
     (case target_factory t of
        File_Factory \<Rightarrow> File_Handler (new_file_handler t now)
      | Stats_Factory \<Rightarrow> Stats_Handler (new_response_handler 8192 t now)
      | Func_Factory fn \<Rightarrow> Func_Handler fn (new_response_handler 1024 t now))"

text \<open>The virtual functions.\<close>

definition wrap_result :: "('a \<Rightarrow> 'w server_handler) \<Rightarrow> ('r \<times> 'a \<times> exchange \<times> 'w) cxx \<Rightarrow> ('r \<times> 'w server_handler \<times> exchange \<times> 'w) cxx" where
  "wrap_result wrap r = bind_cxx r (\<lambda>(a, h, x, w). Inr (a, wrap h, x, w))"

definition server_handle_request :: "'w handler_env \<Rightarrow> ('w server_handler, 'w, bool) handler_op" where
  "server_handle_request H h x w =
     (case h of
        File_Handler h \<Rightarrow> wrap_result File_Handler (file_handle_request H h x w)
      | Stats_Handler h \<Rightarrow> wrap_result Stats_Handler (stats_handle_request H h x w)
      | Func_Handler fn h \<Rightarrow> wrap_result (Func_Handler fn) (func_handle_request H fn h x w))"

definition server_read_request_body :: "('w server_handler, 'w, io_result) handler_op" where
  "server_read_request_body h x w = Inr (io_size 0, h, x, w)"

definition server_populate_response :: "('w server_handler, 'w, bool) handler_op" where
  "server_populate_response h x w =
     (case h of
        File_Handler h \<Rightarrow> wrap_result File_Handler (file_populate_response h x w)
      | Stats_Handler h \<Rightarrow> wrap_result Stats_Handler (text_populate_response h x w)
      | Func_Handler fn h \<Rightarrow> wrap_result (Func_Handler fn) (text_populate_response h x w))"

definition server_write_response_body :: "'w handler_env \<Rightarrow> ('w server_handler, 'w, io_result) handler_op" where
  "server_write_response_body H h x w =
     (case h of
        File_Handler h \<Rightarrow> wrap_result File_Handler (file_write_response_body H h x w)
      | Stats_Handler h \<Rightarrow> wrap_result Stats_Handler (text_write_response_body h x w)
      | Func_Handler fn h \<Rightarrow> wrap_result (Func_Handler fn) (text_write_response_body h x w))"

definition server_end_request :: "'w handler_env \<Rightarrow> ('w server_handler, 'w, bool) handler_op" where
  "server_end_request H h x w =
     (case h of File_Handler h \<Rightarrow> wrap_result File_Handler (file_end_request H h x w) | _ \<Rightarrow> Inr (True, h, x, w))"

definition server_set_header_length :: "int \<Rightarrow> 'w server_handler \<Rightarrow> 'w server_handler" where
  "server_set_header_length n h =
     (case h of
        File_Handler h \<Rightarrow> File_Handler (h\<lparr> h_header_length := n \<rparr>)
      | Stats_Handler h \<Rightarrow> Stats_Handler (h\<lparr> h_header_length := n \<rparr>)
      | Func_Handler fn h \<Rightarrow> Func_Handler fn (h\<lparr> h_header_length := n \<rparr>))"

definition server_destroy_handler :: "'w handler_env \<Rightarrow> 'w server_handler \<Rightarrow> 'w \<Rightarrow> 'w" where
  "server_destroy_handler H h w =
     (case h of File_Handler h \<Rightarrow> snd (file_close (fs_close (he_files H)) (file_resource h) w) | _ \<Rightarrow> w)"

definition server_handlers :: "'w handler_env \<Rightarrow> ('w handler_factory, 'w server_handler, 'w) handler_class" where
  "server_handlers H =
     \<lparr> new_handler = new_server_handler, handle_request = server_handle_request H, read_request_body = server_read_request_body,
        populate_response = server_populate_response, write_response_body = server_write_response_body H, end_request = server_end_request H,
        set_header_length = server_set_header_length, destroy_handler = server_destroy_handler H \<rparr>"

definition handler_vhost :: "'w server_handler \<Rightarrow> nat" where
  "handler_vhost h = (case h of File_Handler h \<Rightarrow> h_vhost h | Stats_Handler h \<Rightarrow> h_vhost h | Func_Handler fn h \<Rightarrow> h_vhost h)"

section \<open>The codes of the answers\<close>

definition server_codes :: "int list" where
  "server_codes = [200, 304, 403, 404, 405, 500]"

lemma status_texts: "list_all (\<lambda>c. case get_status_text filled c of None \<Rightarrow> False | Some t \<Rightarrow> length t \<le> 64) server_codes"
  by code_simp

lemma set_status_text_ok:
  assumes "set_status_text filled h = Inr h'" "h_status_code h \<in> set server_codes"
  shows "\<exists>t. h' = h\<lparr> status_text := t \<rparr> \<and> length t \<le> 64"
  using assms(1) bspec [OF status_texts [unfolded list_all_iff] assms(2)] by (auto simp: set_status_text_def split: option.splits)

lemma codes_range: "c \<in> set server_codes \<Longrightarrow> 0 \<le> c \<and> c < 1000"
  by (auto simp: server_codes_def)

lemma request_types_keeps: "request_types C r h = Inr h' \<Longrightarrow> \<exists>v m. h' = h\<lparr> h_http_version := v, h_request_method := m \<rparr>"
  by (auto simp: request_types_def bind_cxx_Inr_iff)

lemma open_found_code: "open_found H oflag perm h w = (code, h', w') \<Longrightarrow> code \<in> set server_codes"
  by (auto simp: open_found_def error_status_def server_codes_def Let_def split: prod.splits if_splits)

lemma open_resource_code: "open_resource H oflag perm h w = (code, h', w') \<Longrightarrow> code \<in> set server_codes"
  by (auto simp: open_resource_def error_status_def server_codes_def Let_def dest: open_found_code split: prod.splits if_splits option.splits)

lemma check_modified_code:
  "check_modified r h = Inr h' \<Longrightarrow> h_status_code h \<in> set server_codes \<Longrightarrow> h_status_code h' \<in> set server_codes"
  by (auto simp: check_modified_def bind_cxx_Inr_iff server_codes_def Let_def split: if_splits option.splits)

section \<open>What the handler for files answers\<close>

text \<open>The constructors resize their buffers to the sizes of new handlers.\<close>

lemma new_buffers:
  "io_buffer_resize io_buffer_new 1024 = Inr (io_buffer_new\<lparr> io_buffer.buffer := replicate 1024 0 \<rparr>)"
  "io_buffer_resize io_buffer_new 8192 = Inr (io_buffer_new\<lparr> io_buffer.buffer := replicate 8192 0 \<rparr>)"
proof -
  have r: "roundpow2 (1024 :: u64) = Inr 1024" "roundpow2 (8192 :: u64) = Inr 8192" "unat (1024 :: u64) = 1024" "unat (8192 :: u64) = 8192"
    by code_simp+
  show "io_buffer_resize io_buffer_new 1024 = Inr (io_buffer_new\<lparr> io_buffer.buffer := replicate 1024 0 \<rparr>)"
    "io_buffer_resize io_buffer_new 8192 = Inr (io_buffer_new\<lparr> io_buffer.buffer := replicate 8192 0 \<rparr>)"
    by (simp_all add: io_buffer_resize_def io_buffer_new_def vector_resize_def r)
qed

definition index_names :: "'w handler_env \<Rightarrow> file_handler \<Rightarrow> string list" where
  "index_names H h = (if length (location_index_files (h_location h)) > 0 then location_index_files (h_location h) else index_files (he_config H))"

text \<open>The files that may be opened for a handler.\<close>

definition candidates :: "'w handler_env \<Rightarrow> file_handler \<Rightarrow> string set" where
  "candidates H h = insert (h_path_translated h) (index_path (h_path_translated h) ` set (index_names H h))"

lemma find_index_member: "find_index fs path names st w = (Some p, st', w') \<Longrightarrow> p \<in> index_path path ` set names"
  by (induction names arbitrary: st w) (auto simp: Let_def split: prod.splits if_splits)

text \<open>A file was opened, and it is the one of the handler.\<close>

definition opened :: "'w file_system \<Rightarrow> file_handler \<Rightarrow> bool" where
  "opened fs h \<longleftrightarrow> (\<exists>w e w'. fs_open fs (c_str (open_path h)) O_RDONLY 0 w = (fd (file_resource h), e, w') \<and> (fd (file_resource h) < 0 \<longrightarrow> e = 0))"

lemma open_found_ok:
  assumes "open_found H O_RDONLY 0 h w = (200, h', w')"
  shows "opened (he_files H) h' \<and> open_path h' = open_path h \<and> h_path_translated h' = h_path_translated h \<and> h_location h' = h_location h \<and>
    last_modified h' = st_mtime (stat_result h)"
proof -
  obtain f w1 where f: "file_close (fs_close (he_files H)) (file_resource h) w = (f, w1)"
    by fastforce
  obtain d e w2 where o: "fs_open (he_files H) (c_str (open_path h)) O_RDONLY 0 w1 = (d, e, w2)"
    using prod_cases3 by blast
  show ?thesis
    using assms f o by (auto simp: open_found_def file_open_def error_status_def opened_def Let_def split: if_splits) blast+
qed

lemma open_resource_ok:
  assumes "open_resource H O_RDONLY 0 h w = (200, h', w')"
  shows "opened (he_files H) h' \<and> open_path h' \<in> candidates H h"
proof -
  obtain err st w1 where st: "fs_stat (he_files H) (c_str (h_path_translated h)) w = (err, st, w1)"
    using prod_cases3 by blast
  obtain found st2 w2 where ix: "find_index (he_files H) (h_path_translated h) (index_names H h) st w1 = (found, st2, w2)"
    using prod_cases3 by blast
  let ?h = "h\<lparr> open_path := h_path_translated h, stat_err := err, stat_result := st \<rparr>"
  have "error_status err = None"
    using assms st by (auto simp: open_resource_def error_status_def Let_def split: option.splits if_splits)
  then consider path where "found = Some path" "open_found H O_RDONLY 0 (?h\<lparr> stat_result := st2, open_path := path \<rparr>) w2 = (200, h', w')"
    | "open_found H O_RDONLY 0 ?h w1 = (200, h', w')"
    using assms st ix by (auto simp: open_resource_def index_names_def Let_def split: option.splits if_splits)
  then show ?thesis
  proof cases
    case 1
    then show ?thesis
      using open_found_ok [OF 1(2)] find_index_member ix by (fastforce simp: candidates_def)
  next
    case 2
    then show ?thesis
      using open_found_ok [OF 2] by (simp add: candidates_def)
  qed
qed

lemma error_page_length: "length (error_page code t) = 77 + 2 * length (show_int code) + 2 * length t"
  by (simp add: error_page_def)

lemma to_bytes_simps [simp]: "length (to_bytes s) = length s" "to_bytes (s @ t) = to_bytes s @ to_bytes t"
  by (simp_all add: to_bytes_def)

text \<open>The page of an error is in the buffer, where it is read from.\<close>

definition has_page :: "file_handler \<Rightarrow> string \<Rightarrow> bool" where
  "has_page h page \<longleftrightarrow> buffer_offset (body_buffer h) = 0 \<and> buffer_length (body_buffer h) = length page \<and>
     take (length page) (io_buffer.buffer (body_buffer h)) = to_bytes page \<and> content_length h = int (length page) \<and> h_reader h = Buffer_Reader"

lemma error_response_ok:
  assumes "create_error_response h = Inr (n, h')" "length (error_page (h_status_code h) (c_str (status_text h))) < length (io_buffer.buffer (body_buffer h))"
  shows "n = length (error_page (h_status_code h) (c_str (status_text h)))"
    "has_page (h'\<lparr> content_length := int n, h_reader := Buffer_Reader \<rparr>) (error_page (h_status_code h) (c_str (status_text h)))"
    "h_status_code h' = h_status_code h" "status_text h' = status_text h" "open_path h' = open_path h" "file_resource h' = file_resource h"
proof -
  let ?page = "error_page (h_status_code h) (c_str (status_text h))"
  let ?b = "io_buffer.buffer (body_buffer h)"
  have ne: "?b \<noteq> []" and le: "length ?page \<le> length ?b - 1"
    using assms(2) by auto
  then have w: "write_range ?b 0 (to_bytes (take (length ?b - 1) ?page @ [NUL])) = Inr (overwrite ?b 0 (to_bytes (?page @ [NUL])))"
    using assms(2) by (simp add: write_range_def)
  have t: "take (length ?page) (overwrite ?b 0 (to_bytes (?page @ [NUL]))) = to_bytes ?page"
    by (simp add: overwrite_def)
  have l: "length (overwrite ?b 0 (to_bytes (?page @ [NUL]))) = length ?b"
    using assms(2) by (simp add: overwrite_def)
  show "n = length ?page" "has_page (h'\<lparr> content_length := int n, h_reader := Buffer_Reader \<rparr>) ?page"
      "h_status_code h' = h_status_code h" "status_text h' = status_text h" "open_path h' = open_path h" "file_resource h' = file_resource h"
    using assms ne w t l by (auto simp: create_error_response_def io_buffer_reset_def set_length_def has_page_def Let_def)
qed

lemma set_status_text_keeps:
  "set_status_text C h = Inr h' \<Longrightarrow> \<exists>t. h' = h\<lparr> status_text := t \<rparr>"
  by (auto simp: set_status_text_def split: option.splits)

lemma check_modified_cases:
  assumes "check_modified r h = Inr h'"
  shows "\<exists>d code. h' = h\<lparr> if_modified_since := d, h_status_code := code \<rparr> \<and> (code = h_status_code h \<or> h_status_code h = 200 \<and> code = 304)"
proof -
  have same: ?thesis if "h' = h"
    using that by (intro exI [of _ "if_modified_since h"] exI [of _ "h_status_code h"]) simp
  show ?thesis
  proof (cases "h_status_code h = 200")
    case True
    then obtain str where s: "(case str of None \<Rightarrow> Inr h
        | Some str \<Rightarrow> bind_cxx (date_parse str) (\<lambda>(ok, tod).
            Inr (if last_modified h \<le> tod then h\<lparr> if_modified_since := tod, h_status_code := 304 \<rparr> else h\<lparr> if_modified_since := tod \<rparr>))) = Inr h'"
      using assms by (auto simp: check_modified_def Let_def bind_cxx_Inr_iff [of "get_header_string _ _"] cong: if_cong)
    show ?thesis
    proof (cases str)
      case (Some z)
      then obtain d where d: "h' = (if last_modified h \<le> d then h\<lparr> if_modified_since := d, h_status_code := 304 \<rparr> else h\<lparr> if_modified_since := d \<rparr>)"
        using s by (fastforce simp: bind_cxx_Inr_iff)
      show ?thesis
        using True by (intro exI [of _ d] exI [of _ "if last_modified h \<le> d then 304 else 200"]) (simp add: d)
    qed (use s same in simp)
  qed (use assms same in \<open>simp add: check_modified_def\<close>)
qed

lemma find_index_code: "open_resource H oflag perm h w = (code, h', w') \<Longrightarrow> code \<noteq> 304"
  by (auto simp: open_resource_def open_found_def error_status_def Let_def split: prod.splits if_splits option.splits)

lemma open_resource_buffer: "open_resource H oflag perm h w = (code, h', w') \<Longrightarrow> body_buffer h' = body_buffer h"
  by (auto simp: open_resource_def open_found_def Let_def split: prod.splits if_splits option.splits)

lemma short_page:
  assumes "code \<in> set server_codes" "get_status_text filled code = Some t"
  shows "length (error_page code (c_str t)) < 1024"
proof -
  have "list_all (\<lambda>c. length (show_int c) = 3) server_codes"
    by code_simp
  then have "length (show_int code) = 3"
    using assms(1) by (simp add: list_all_iff)
  moreover have "length t \<le> 64"
    using bspec [OF status_texts [unfolded list_all_iff] assms(1)] assms(2) by simp
  moreover have "length (c_str t) \<le> length t"
    by (simp add: c_str_def length_takeWhile_le)
  ultimately show ?thesis
    by (simp add: error_page_length)
qed

text \<open>
  C9. What the handler for files answers: with 200 it has opened the file of the request or one of the index
  files below it, and sends that; with 304 it has opened it and sends nothing; with any other code, which is
  one of 403, 404, 405 and 500, it sends the page for that code, and announces its length.
\<close>

theorem file_answers:
  assumes "file_handle_request H h x w = Inr (ok, h', x', w')" "he_constants H = filled" "1024 \<le> length (io_buffer.buffer (body_buffer h))"
  shows "h_status_code h' = 200 \<and> opened (he_files H) h' \<and> open_path h' \<in> candidates H h \<and> h_reader h' = File_Reader \<and> content_length h' = st_size (stat_result h') \<or>
    h_status_code h' = 304 \<and> opened (he_files H) h' \<and> open_path h' \<in> candidates H h \<and> h_reader h' = No_Reader \<and> content_length h' = 0 \<or>
    h_status_code h' \<in> {403, 404, 405, 500} \<and> has_page h' (error_page (h_status_code h') (c_str (status_text h')))"
proof -
  obtain h1 where h1: "request_types filled (request x) h = Inr h1"
    using assms(1,2) by (auto simp: file_handle_request_def bind_cxx_Inr_iff)
  obtain code h2 w2 where o: "(if method_allowed (h_request_method h1) then open_resource H O_RDONLY 0 h1 w else (405, h1, w)) = (code, h2, w2)"
    using prod_cases3 by blast
  then obtain h3 h4 where p: "check_modified (request x) (h2\<lparr> h_status_code := code \<rparr>) = Inr h3" "set_status_text filled h3 = Inr h4" "choose_reader H h4 = Inr h'"
    using assms(1,2) h1 by (auto simp: file_handle_request_def Let_def bind_cxx_Inr_iff cong: if_cong)
  obtain v m where hv: "h1 = h\<lparr> h_http_version := v, h_request_method := m \<rparr>"
    using request_types_keeps [OF h1] by blast
  have cand: "candidates H h1 = candidates H h" "body_buffer h1 = body_buffer h"
    by (simp_all add: hv candidates_def index_names_def)
  have code: "code \<in> set server_codes" "code \<noteq> 304" "body_buffer h2 = body_buffer h"
    "code = 200 \<Longrightarrow> opened (he_files H) h2 \<and> open_path h2 \<in> candidates H h"
    using o cand open_resource_code [of H O_RDONLY 0 h1 w] find_index_code [of H O_RDONLY 0 h1 w] open_resource_buffer [of H O_RDONLY 0 h1 w]
      open_resource_ok [of H h1 w] by (auto simp: server_codes_def split: if_splits)
  obtain d c where h3: "h3 = h2\<lparr> if_modified_since := d, h_status_code := c \<rparr>" "c = code \<or> code = 200 \<and> c = 304"
    using check_modified_cases [OF p(1)] by auto
  obtain t where h4: "h4 = h3\<lparr> status_text := t \<rparr>" "get_status_text filled c = Some t"
    using p(2) h3(1) by (auto simp: set_status_text_def split: option.splits)
  have c: "c \<in> set server_codes"
    using h3(2) code(1) by (auto simp: server_codes_def)
  consider "c = 200" | "c = 304" | "c \<in> {403, 404, 405, 500}"
    using c by (auto simp: server_codes_def)
  then show ?thesis
  proof cases
    case 1
    then have "code = 200"
      using h3(2) by auto
    moreover have "h' = h4\<lparr> mime_type := snd (lookup_mime_type (he_config H) (open_path h4)), content_length := st_size (stat_result h4), h_reader := File_Reader \<rparr>"
      using p(3) 1 h3(1) h4(1) by (simp add: choose_reader_def)
    ultimately show ?thesis
      using 1 code(4) h3(1) h4(1) by (simp add: opened_def)
  next
    case 2
    then have "code = 200"
      using h3(2) code(2) by auto
    moreover have "h' = h4\<lparr> content_length := 0, h_reader := No_Reader \<rparr>"
      using p(3) 2 h3(1) h4(1) by (simp add: choose_reader_def)
    ultimately show ?thesis
      using 2 code(4) h3(1) h4(1) by (simp add: opened_def)
  next
    case 3
    then obtain n h5 where e: "create_error_response h4 = Inr (n, h5)" "h' = h5\<lparr> content_length := int n, h_reader := Buffer_Reader \<rparr>"
      using p(3) h3 h4(1) by (auto simp: choose_reader_def bind_cxx_Inr_iff)
    have "length (error_page (h_status_code h4) (c_str (status_text h4))) < length (io_buffer.buffer (body_buffer h4))"
      using short_page [OF c h4(2)] assms(3) code(3) h3(1) h4(1) by simp
    from error_response_ok [OF e(1) this] show ?thesis
      using e(2) 3 h3(1) h4(1) by simp
  qed
qed

definition get_exchange :: "http_response \<Rightarrow> exchange" where
  "get_exchange resp =
     \<lparr> buffer = ring_new 0,
        request = (blank_request (''GET'' @ NUL # ''HTTP/1.1'' @ [NUL]))\<lparr> chars_offset := 13, request_method := HBuf 0 3, http_version := HBuf 4 8 \<rparr>,
        response = resp, request_has_body = False, response_has_body = False, connection_close = True \<rparr>"

definition one_file :: "unit file_system" where
  "one_file = \<lparr> fs_stat = (\<lambda>path w. if path = ''/www/index.html'' then (0, \<lparr> st_mode = 0x81A4, st_size = 5, st_mtime = 0 \<rparr>, w)
       else if path = ''/www/'' then (0, \<lparr> st_mode = 0x41ED, st_size = 0, st_mtime = 0 \<rparr>, w) else (ENOENT, \<lparr> st_mode = 0, st_size = 0, st_mtime = 0 \<rparr>, w)),
     fs_open = (\<lambda>path fl md w. if path = ''/www/index.html'' then (3, 0, w) else (- 1, ENOENT, w)), fs_read = (\<lambda>d b n w. (0, 0, b, w)), fs_close = (\<lambda>d w. w) \<rparr>"

definition one_file_handlers :: "unit handler_env" where
  "one_file_handlers = \<lparr> he_config = new_config\<lparr> index_files := [''index.htm'', ''index.html''] \<rparr>, he_constants = filled, he_files = one_file, he_masks = [],
     he_engines = (\<lambda>w. []), he_vhosts = [] \<rparr>"

definition root_target :: "unit handler_factory target" where
  "root_target = \<lparr> target_vhost = 0,
     target_location = \<lparr> location_uri = ''/'', location_root = ''/www'', location_handler = ''file'', location_index_files = [], handler_factory = Some File_Factory \<rparr>,
     target_factory = File_Factory, path_translated = ''/www/'' \<rparr>"

lemma index_run:
  "case file_handle_request one_file_handlers (new_file_handler root_target 0) (get_exchange sample_response_store) () of
     Inl e \<Rightarrow> False
   | Inr (ok, h', x', w') \<Rightarrow> h_status_code h' = 200 \<and> open_path h' = ''/www/index.html''"
  by code_simp

theorem file_answers_witness:
  "\<exists>ok h' x' w'. file_handle_request one_file_handlers (new_file_handler root_target 0) (get_exchange sample_response_store) () = Inr (ok, h', x', w') \<and>
     open_path h' = ''/www/index.html'' \<and> opened one_file h' \<and> h_reader h' = File_Reader"
proof -
  obtain ok h' x' w' where r: "file_handle_request one_file_handlers (new_file_handler root_target 0) (get_exchange sample_response_store) () = Inr (ok, h', x', w')"
      "h_status_code h' = 200" "open_path h' = ''/www/index.html''"
    using index_run by (auto split: sum.splits prod.splits)
  have "1024 \<le> length (io_buffer.buffer (body_buffer (new_file_handler root_target 0)))"
    by (simp add: new_file_handler_def new_response_handler_def response_handler.defs)
  from file_answers [OF r(1) _ this] r show ?thesis
    by (auto simp: one_file_handlers_def)
qed

text \<open>The file is closed once: at the end of the request, or when the handler goes away before that.\<close>

theorem file_closed_once:
  assumes "file_end_request H h x w = Inr (ok, h', x', w')"
  shows "fd (file_resource h') < 0 \<and> w' = server_destroy_handler H (File_Handler h) w \<and> server_destroy_handler H (File_Handler h') w' = w'"
  using assms by (auto simp: file_end_request_def server_destroy_handler_def file_close_def Let_def split: if_splits prod.splits)

end
