(* ===== verification/Response_Size.thy ===== *)
theory Response_Size
  imports Server_Ownership Http_Handlers
begin

text \<open>
  The head of a response that a handler of \<^verbatim>\<open>Http_Handlers\<close> prepares is short: it is bounded by what the
  handlers add to the buffer of the response, so that it fits into the buffer of the connection. This and
  that the handlers keep the sizes of the buffers is what the server relies on.
\<close>

section \<open>The weight of the fields\<close>

definition weight :: "(hstring \<times> hstring) list \<Rightarrow> nat" where
  "weight kvs = sum_list (map (\<lambda>(k, v). hstring_len k + hstring_len v + 2) kvs)"

text \<open>
  At most \<open>n\<close> characters are used in the buffer, there are at most \<open>k\<close> fields, and the strings of the head
  are not longer than the part of the buffer that is used.
\<close>

definition head_ok :: "nat \<Rightarrow> nat \<Rightarrow> http_response \<Rightarrow> bool" where
  "head_ok n k m \<longleftrightarrow> chars_offset m \<le> n \<and> length (header_list m) \<le> k \<and>
     hstring_len (http_version m) + hstring_len (reason_phrase m) + weight (header_list m) \<le> chars_offset m \<and> weight (header_map m) \<le> chars_offset m"

lemma head_ok_mono: "head_ok n k m \<Longrightarrow> n \<le> n' \<Longrightarrow> k \<le> k' \<Longrightarrow> head_ok n' k' m"
  by (simp add: head_ok_def)

lemma weight_simps [simp]:
  "weight [] = 0" "weight (kv # kvs) = hstring_len (fst kv) + hstring_len (snd kv) + 2 + weight kvs" "weight (xs @ ys) = weight xs + weight ys"
  by (simp_all add: weight_def split: prod.split)

lemma hstring_len_simps [simp]: "hstring_len HNull = 0" "hstring_len (HBuf off n) = n"
  by (simp_all add: hstring_len_def)

lemma weight_member: "i < length kvs \<Longrightarrow> hstring_len (snd (kvs ! i)) \<le> weight kvs"
  by (induction kvs arbitrary: i) (auto simp: nth_Cons split: nat.splits intro!: le_SucI trans_le_add2)

lemma weight_update: "weight (kvs[i := (fst (kvs ! i), v)]) \<le> weight kvs + hstring_len v"
  by (induction kvs arbitrary: i) (auto split: nat.splits)

lemma weight_update_key: "i < length kvs \<Longrightarrow> kvs ! i = (k, u) \<Longrightarrow> weight (kvs[i := (k, v)]) \<le> weight kvs + hstring_len v"
  using weight_update [of kvs i v] by simp

lemma add_field_head:
  fixes m :: http_response
  assumes "add_field m name v = Inr (ok, m')" "head_ok n k m"
  shows "head_ok (n + length name + length v + 2) (k + 1) m'"
  using assms by (auto simp: add_field_def bind_cxx_Inr_iff Let_def head_ok_def split: if_splits)

lemma join_field_head:
  fixes m :: http_response
  assumes "join_field m i v = Inr (ok, m')" "head_ok n k m"
  shows "head_ok (2 * n + length v + 3) k m'"
proof -
  obtain key orig where ko: "header_map m ! i = (key, orig)"
    by fastforce
  consider "m' = m\<lparr> overflow := True \<rparr>"
    | j b where "i < length (header_map m)" "header_map m ! i = (key, orig)"
        "m' = m\<lparr> chars := b, chars_offset := Suc (Suc (Suc (chars_offset m + (hstring_len orig + length v)))),
           header_list := (header_list m)[j := (fst (header_list m ! j), HBuf (chars_offset m) (hstring_len orig + length v + 2))],
           header_map := (header_map m)[i := (key, HBuf (chars_offset m) (hstring_len orig + length v + 2))] \<rparr>"
    using assms(1) ko by (auto simp: join_field_def bind_cxx_Inr_iff index_cxx_Inr_iff Let_def split: if_splits option.splits)
  then show ?thesis
  proof cases
    case 1
    then show ?thesis
      using assms(2) by (simp add: head_ok_def)
  next
    case 2
    have "hstring_len orig \<le> weight (header_map m)"
      using weight_member [OF 2(1)] 2(2) by simp
    then show ?thesis
      using assms(2) weight_update [of "header_list m" j "HBuf (chars_offset m) (hstring_len orig + length v + 2)"]
        weight_update_key [OF 2(1,2), of "HBuf (chars_offset m) (hstring_len orig + length v + 2)"]
      by (simp add: head_ok_def 2(3))
  qed
qed

lemma set_header_field_head:
  fixes m :: http_response
  assumes "set_header_field m name v = Inr (ok, m')" "head_ok n k m"
  shows "head_ok (2 * n + length name + length v + 3) (k + 1) m'"
proof -
  consider "m' = m\<lparr> overflow := True \<rparr>" | "add_field m name v = Inr (ok, m')" | i where "join_field m i v = Inr (ok, m')"
    using assms(1) by (auto simp: set_header_field_def bind_cxx_Inr_iff split: if_splits option.splits)
  then show ?thesis
  proof cases
    case 1
    then show ?thesis
      using assms(2) by (simp add: head_ok_def)
  next
    case 2
    then show ?thesis
      using head_ok_mono [OF add_field_head [OF 2 assms(2)]] by simp
  next
    case 3
    then show ?thesis
      using head_ok_mono [OF join_field_head [OF 3 assms(2)]] by simp
  qed
qed

section \<open>Printing a short head\<close>

lemma hstring_chars_length: "hstring_chars b h = Inr s \<Longrightarrow> length s = hstring_len h"
  by (auto simp: hstring_chars_def read_range_def split: hstring.splits if_splits)

lemma put_line_fits:
  assumes "put_line out n l = Inr r" "n + length l < length out"
  shows "\<exists>out'. r = Some (out', n + length l) \<and> length out' = length out"
  using assms by (auto simp: put_line_def size_sub_def bind_cxx_Inr_iff dest: write_range_length split: if_splits)

lemma put_headers_fits:
  assumes "put_headers b out n kvs = Inr r" "n + weight kvs + 2 * length kvs < length out"
  shows "\<exists>out'. r = Some (out', n + weight kvs + 2 * length kvs) \<and> length out' = length out"
  using assms
proof (induction kvs arbitrary: out n)
  case (Cons kv kvs)
  obtain k v where kv: "kv = (k, v)"
    by fastforce
  obtain s t l where st: "hstring_chars b k = Inr s" "hstring_chars b v = Inr t" "put_line out n (s @ '': '' @ t @ CRLF) = Inr l"
      "(case l of None \<Rightarrow> Inr None | Some (out, len) \<Rightarrow> put_headers b out len kvs) = Inr r"
    using Cons.prems(1) by (auto simp: kv bind_cxx_Inr_iff)
  have len: "length (s @ '': '' @ t @ CRLF) = hstring_len k + hstring_len v + 4"
    using hstring_chars_length [OF st(1)] hstring_chars_length [OF st(2)] by simp
  then obtain out' where "l = Some (out', n + (hstring_len k + hstring_len v + 4))" "length out' = length out"
    using put_line_fits [OF st(3)] Cons.prems(2) by (auto simp: kv)
  moreover have sum: "n + weight (kv # kvs) + 2 * length (kv # kvs) = n + (hstring_len k + hstring_len v + 4) + weight kvs + 2 * length kvs"
    by (simp add: kv)
  ultimately show ?case
    using st(4) Cons.IH [of out' "n + (hstring_len k + hstring_len v + 4)"] Cons.prems(2) unfolding sum by simp
qed auto

lemma show_nat_short: "n < 1000 \<Longrightarrow> length (show_nat n) \<le> 3"
  by (subst show_nat.simps, simp) (subst show_nat.simps, simp, subst show_nat.simps, simp)

lemma response_to_buffer_fits:
  assumes "response_to_buffer m out = Inr r" "head_ok n k m" "n + 2 * k + 9 < length out" "http_version m \<noteq> HNull" "reason_phrase m \<noteq> HNull"
    "0 \<le> status_code m" "status_code m < 1000"
  shows "\<exists>out' len. r = Some (out', len) \<and> 0 < len"
proof -
  obtain v p l where vp: "hstring_chars (chars m) (http_version m) = Inr v" "hstring_chars (chars m) (reason_phrase m) = Inr p"
      "put_line out 0 (v @ '' '' @ show_int (status_code m) @ '' '' @ p @ CRLF) = Inr l" "put_rest m l = Inr r"
    using assms(1,4,5) by (auto simp: response_to_buffer_def bind_cxx_Inr_iff)
  let ?line = "v @ '' '' @ show_int (status_code m) @ '' '' @ p @ CRLF"
  have "length ?line \<le> hstring_len (http_version m) + hstring_len (reason_phrase m) + 7"
    using hstring_chars_length [OF vp(1)] hstring_chars_length [OF vp(2)] show_nat_short [of "nat (status_code m)"] assms(6,7)
    by (simp add: show_int_def)
  then have line: "length ?line + weight (header_list m) + 2 * length (header_list m) + 2 < length out"
    using assms(2,3) by (auto simp: head_ok_def)
  then obtain out1 where o1: "l = Some (out1, length ?line)" "length out1 = length out"
    using put_line_fits [OF vp(3)] by auto
  then obtain q where q: "put_headers (chars m) out1 (length ?line) (header_list m) = Inr q"
      "(case q of None \<Rightarrow> Inr None | Some (out, len) \<Rightarrow> put_line out len CRLF) = Inr r"
    using vp(4) by (auto simp: put_rest_def bind_cxx_Inr_iff)
  obtain out2 where o2: "q = Some (out2, length ?line + weight (header_list m) + 2 * length (header_list m))" "length out2 = length out"
    using put_headers_fits [OF q(1)] line o1(2) by auto
  then show ?thesis
    using put_line_fits [of out2 "length ?line + weight (header_list m) + 2 * length (header_list m)" CRLF r] q(2) line by auto
qed

lemma write_response_head_fits:
  assumes "write_response_head m b = Inr (len, b')" "head_ok n k m" "n + 2 * k + 9 < length (ring b)" "http_version m \<noteq> HNull" "reason_phrase m \<noteq> HNull"
    "0 \<le> status_code m" "status_code m < 1000"
  shows "0 < len"
proof -
  obtain r where r: "response_to_buffer m (map (\<lambda>c. char_of (unat c)) (ring b)) = Inr r"
    using assms(1) by (auto simp: write_response_head_def bind_cxx_Inr_iff)
  obtain out' l where "r = Some (out', l)" "0 < l"
    using response_to_buffer_fits [OF r assms(2)] assms(3-7) by auto
  then show ?thesis
    using assms(1) r by (simp add: write_response_head_def)
qed

section \<open>Setting up a response\<close>

definition resp_keeps :: "http_response \<Rightarrow> http_response \<Rightarrow> bool" where
  "resp_keeps m m' \<longleftrightarrow> length (chars m') = length (chars m) \<and> message.max_headers m' = message.max_headers m \<and> http_version m' = http_version m \<and>
     reason_phrase m' = reason_phrase m \<and> status_code m' = status_code m"

lemma resp_keeps_refl [simp]: "resp_keeps m m"
  by (simp add: resp_keeps_def)

lemma resp_keeps_trans: "resp_keeps m m1 \<Longrightarrow> resp_keeps m1 m2 \<Longrightarrow> resp_keeps m m2"
  by (simp add: resp_keeps_def)

lemma more_response: "message.more m' = message.more m \<Longrightarrow> reason_phrase m' = reason_phrase m \<and> status_code m' = status_code (m :: http_response)"
  by (cases m; cases m'; simp)

lemma set_header_field_keeps:
  fixes m :: http_response
  assumes "set_header_field m name v = Inr (ok, m')"
  shows "resp_keeps m m'"
  using set_header_field_sizes [OF assms] set_header_field_frame [OF assms] more_response [of m' m] by (simp add: resp_keeps_def same_rest_def)

lemma set_field_ok:
  assumes "set_field name v m = Inr m'"
  shows "resp_keeps m m'" "head_ok n k m \<Longrightarrow> head_ok (2 * n + length name + length v + 3) (k + 1) m'"
  using assms set_header_field_keeps set_header_field_head by (auto simp: set_field_def bind_cxx_Inr_iff)

lemma alloc_string_head:
  assumes "alloc_string m str = Inr (m', h)"
  shows "length (chars m') = length (chars m)" "message.max_headers m' = message.max_headers m" "header_list m' = header_list m"
    "header_map m' = header_map m" "http_version m' = http_version m" "message.more m' = message.more m"
    "chars_offset m' = chars_offset m + (if h = HNull then 0 else length str + 1)" "hstring_len h \<le> length str"
    "chars_offset m + length str + 1 \<le> length (chars m) \<Longrightarrow> h \<noteq> HNull"
  using assms by (auto simp: alloc_string_def bind_cxx_Inr_iff message_bytes_writable_def size_sub_def dest!: write_range_length split: if_splits)

lemma set_reason_ok:
  assumes "response_event m (SetReasonPhrase str) = Inr m'"
  shows "length (chars m') = length (chars m)" "message.max_headers m' = message.max_headers m" "http_version m' = http_version m" "status_code m' = status_code m"
    "head_ok n k m \<Longrightarrow> head_ok (n + length str + 1) k m'"
    "head_ok n k m \<Longrightarrow> n + length str + 1 \<le> length (chars m) \<Longrightarrow> reason_phrase m' \<noteq> HNull"
proof -
  obtain m1 h where a: "alloc_string m str = Inr (m1, h)" and m': "m' = m1\<lparr> reason_phrase := h \<rparr>"
    using assms by (auto simp: response_event_def bind_cxx_Inr_iff)
  note f = alloc_string_head [OF a] more_response [OF alloc_string_head(6) [OF a]]
  show "length (chars m') = length (chars m)" "message.max_headers m' = message.max_headers m" "http_version m' = http_version m" "status_code m' = status_code m"
    using f m' by simp_all
  show "head_ok (n + length str + 1) k m'" if "head_ok n k m"
    using that f(3,4,5,7,8) m' by (auto simp: head_ok_def split: if_splits)
  show "reason_phrase m' \<noteq> HNull" if "head_ok n k m" "n + length str + 1 \<le> length (chars m)"
    using that f(9) m' by (simp add: head_ok_def)
qed

lemma header_date_length: "to_header_string 32 now = Inr (date, n) \<Longrightarrow> length (take n date) \<le> 29"
  by (auto simp: to_header_string_def Let_def bind_cxx_Inr_iff)

text \<open>The head that \<^verbatim>\<open>process_request_headers\<close> begins.\<close>

lemma init_response_head:
  assumes "init_response now resp = Inr resp'" "256 \<le> length (chars resp)"
  shows "head_ok 116 2 resp'" "http_version resp' \<noteq> HNull"
proof -
  let ?m = "response_reset resp"
  obtain m1 h where v: "alloc_string ?m ''HTTP/1.1'' = Inr (m1, h)"
    using assms(1) by (auto simp: init_response_def response_event_def bind_cxx_Inr_iff)
  let ?m1 = "m1\<lparr> http_version := h \<rparr>"
  obtain ok m2 date n ok' where m2: "set_header_field ?m1 ''Server'' ServerString = Inr (ok, m2)" "to_header_string 32 now = Inr (date, n)"
      "set_header_field m2 ''Date'' (take n date) = Inr (ok', resp')"
    using assms(1) v by (auto simp: init_response_def response_event_def bind_cxx_Inr_iff)
  note f = alloc_string_head [OF v] more_response [OF alloc_string_head(6) [OF v]]
  have "chars_offset ?m = 0" "length (chars ?m) = length (chars resp)" "header_list ?m = []" "header_map ?m = []" "reason_phrase ?m = HNull"
    by (simp_all add: response_reset_def message_clear_def)
  then have "head_ok 9 0 ?m1" "h \<noteq> HNull"
    using f assms(2) by (auto simp: head_ok_def)
  then have "head_ok 40 1 m2"
    using set_header_field_head [OF m2(1)] head_ok_mono [of _ _ m2 40 1] by (fastforce simp: ServerString_def)
  then show "head_ok 116 2 resp'"
    using set_header_field_head [OF m2(3)] head_ok_mono [of _ _ resp' 116 2] header_date_length [OF m2(2)] by fastforce
  show "http_version resp' \<noteq> HNull"
    using set_header_field_keeps [OF m2(1)] set_header_field_keeps [OF m2(3)] \<open>h \<noteq> HNull\<close> by (simp add: resp_keeps_def)
qed

definition fits :: "'a response_handler_scheme \<Rightarrow> bool" where
  "fits h \<longleftrightarrow> length (status_text h) \<le> 64 \<and> length (mime_type h) \<le> 256 \<and> 0 \<le> h_status_code h \<and> h_status_code h < 1000"

lemma connection_field_ok:
  assumes "connection_field version str close m = Inr m'"
  shows "resp_keeps m m'" "head_ok n k m \<Longrightarrow> head_ok (2 * n + 23) (k + 1) m'"
proof -
  have "connection_field version str close m \<in> {Inr m, set_field ''Connection'' ''keep-alive'' m, set_field ''Connection'' ''close'' m}"
    by (simp add: connection_field_def)
  then consider "m' = m" | v where "set_field ''Connection'' v m = Inr m'" "length v \<le> 10"
    using assms by fastforce
  then have "resp_keeps m m' \<and> (head_ok n k m \<longrightarrow> head_ok (2 * n + 23) (k + 1) m')"
  proof cases
    case 2
    then show ?thesis
      using set_field_ok(1) [OF 2(1)] head_ok_mono [OF set_field_ok(2) [OF 2(1), of n k], of "2 * n + 23" "k + 1"] by simp
  qed (auto elim: head_ok_mono)
  then show "resp_keeps m m'" "head_ok n k m \<Longrightarrow> head_ok (2 * n + 23) (k + 1) m'"
    by blast+
qed

lemma last_modified_field_ok:
  assumes "last_modified_field h m = Inr m'"
  shows "resp_keeps m m'" "head_ok n k m \<Longrightarrow> head_ok (2 * n + 45) (k + 1) m'"
proof -
  consider "m' = m" | date d where "to_header_string 32 (last_modified h) = Inr (date, d)" "set_field ''Last-Modified'' (take d date) m = Inr m'"
    using assms by (auto simp: last_modified_field_def bind_cxx_Inr_iff split: if_splits)
  then have "resp_keeps m m' \<and> (head_ok n k m \<longrightarrow> head_ok (2 * n + 45) (k + 1) m')"
  proof cases
    case 2
    then show ?thesis
      using set_field_ok(1) [OF 2(2)] head_ok_mono [OF set_field_ok(2) [OF 2(2), of n k], of "2 * n + 45" "k + 1"] header_date_length [OF 2(1)]
      by simp
  qed (auto elim: head_ok_mono)
  then show "resp_keeps m m'" "head_ok n k m \<Longrightarrow> head_ok (2 * n + 45) (k + 1) m'"
    by blast+
qed

definition content_fields :: "'a response_handler_scheme \<Rightarrow> http_response \<Rightarrow> http_response cxx" where
  "content_fields h resp =
     (if h_status_code h \<noteq> HTTPStatusCodeNotModified_value
      then bind_cxx (set_field ''Content-Type'' (mime_type h) resp)
        (set_field ''Content-Length'' (take 31 (show_nat (nat (content_length h mod 2 ^ 64)))))
      else Inr resp)"

lemma content_fields_ok:
  assumes "content_fields h m = Inr m'"
  shows "resp_keeps m m'" "fits h \<Longrightarrow> head_ok n k m \<Longrightarrow> head_ok (4 * n + 590) (k + 2) m'"
proof -
  consider "m' = m" | m1 v where "set_field ''Content-Type'' (mime_type h) m = Inr m1" "set_field ''Content-Length'' v m1 = Inr m'" "length v \<le> 31"
    using assms(1) by (auto simp: content_fields_def bind_cxx_Inr_iff split: if_splits)
  then have "resp_keeps m m' \<and> (fits h \<longrightarrow> head_ok n k m \<longrightarrow> head_ok (4 * n + 590) (k + 2) m')"
  proof cases
    case 2
    show ?thesis
    proof (intro conjI impI)
      show "resp_keeps m m'"
        using set_field_ok(1) [OF 2(1)] set_field_ok(1) [OF 2(2)] by (rule resp_keeps_trans)
      assume f: "fits h" and "head_ok n k m"
      from set_field_ok(2) [OF 2(2) set_field_ok(2) [OF 2(1) this(2)]] show "head_ok (4 * n + 590) (k + 2) m'"
        by (rule head_ok_mono) (use f 2(3) in \<open>simp_all add: fits_def\<close>)
    qed
  qed (auto elim: head_ok_mono)
  then show "resp_keeps m m'" "fits h \<Longrightarrow> head_ok n k m \<Longrightarrow> head_ok (4 * n + 590) (k + 2) m'"
    by blast+
qed

lemma populate_parts:
  assumes "populate extra h x = Inr x'"
  obtains m1 m2 m3 m4 str where "response_event ((response x)\<lparr> status_code := h_status_code h \<rparr>) (SetReasonPhrase (status_text h)) = Inr m1"
    "content_fields h m1 = Inr m2" "extra m2 = Inr m3" "connection_field (h_http_version h) str (closes (h_http_version h) str) m3 = Inr m4"
    "response x' = m4" "buffer x' = buffer x"
  using assms unfolding populate_def content_fields_def [symmetric]
  by (auto simp: Let_def bind_cxx_Inr_iff response_event_def [of _ "SetStatusCode _"])

definition extra_ok :: "(http_response \<Rightarrow> http_response cxx) \<Rightarrow> bool" where
  "extra_ok extra \<longleftrightarrow> (\<forall>m m'. extra m = Inr m' \<longrightarrow> resp_keeps m m' \<and> (\<forall>n k. head_ok n k m \<longrightarrow> head_ok (2 * n + 45) (k + 1) m'))"

lemma extra_okD:
  assumes "extra_ok extra" "extra m = Inr m'"
  shows "resp_keeps m m'" "head_ok n k m \<Longrightarrow> head_ok (2 * n + 45) (k + 1) m'"
  using assms by (auto simp: extra_ok_def)

lemma no_extra_ok: "extra_ok Inr"
  by (auto simp: extra_ok_def elim: head_ok_mono)

lemma last_modified_extra_ok: "extra_ok (last_modified_field h)"
  unfolding extra_ok_def by (blast intro: last_modified_field_ok)

lemma populate_sizes:
  assumes "populate extra h x = Inr x'" "extra_ok extra"
  shows "sizes x' = sizes x"
proof -
  obtain m1 m2 m3 m4 str where p: "response_event ((response x)\<lparr> status_code := h_status_code h \<rparr>) (SetReasonPhrase (status_text h)) = Inr m1"
      "content_fields h m1 = Inr m2" "extra m2 = Inr m3" "connection_field (h_http_version h) str (closes (h_http_version h) str) m3 = Inr m4"
      "response x' = m4" "buffer x' = buffer x"
    using populate_parts [OF assms(1)] .
  show ?thesis
    using content_fields_ok(1) [OF p(2)] extra_okD(1) [OF assms(2) p(3)] connection_field_ok(1) [OF p(4)] set_reason_ok(1,2) [OF p(1)] p(5,6)
    by (simp add: resp_keeps_def sizes_def)
qed

text \<open>A response that was begun and then set up by a handler fits.\<close>

lemma populate_ok:
  assumes "populate extra h x = Inr x'" "extra_ok extra" "fits h" "256 \<le> length (chars (response x))" "head_ok 116 2 (response x)"
    "http_version (response x) \<noteq> HNull"
  shows "head_ok 5400 6 (response x')" "http_version (response x') \<noteq> HNull" "reason_phrase (response x') \<noteq> HNull"
    "status_code (response x') = h_status_code h" "buffer x' = buffer x"
proof -
  obtain m1 m2 m3 m4 str where p: "response_event ((response x)\<lparr> status_code := h_status_code h \<rparr>) (SetReasonPhrase (status_text h)) = Inr m1"
      "content_fields h m1 = Inr m2" "extra m2 = Inr m3" "connection_field (h_http_version h) str (closes (h_http_version h) str) m3 = Inr m4"
      "response x' = m4" "buffer x' = buffer x"
    using populate_parts [OF assms(1)] .
  note r = set_reason_ok [OF p(1)]
  have h0: "head_ok 116 2 ((response x)\<lparr> status_code := h_status_code h \<rparr>)"
    using assms(5) by (simp add: head_ok_def)
  have h1: "head_ok 181 2 m1" "reason_phrase m1 \<noteq> HNull"
    using head_ok_mono [OF r(5) [OF h0], of 181 2] r(6) [OF h0] assms(3,4) by (simp_all add: fits_def)
  have keeps: "resp_keeps m1 m4"
    using content_fields_ok(1) [OF p(2)] extra_okD(1) [OF assms(2) p(3)] connection_field_ok(1) [OF p(4)] by (blast intro: resp_keeps_trans)
  have "head_ok (2 * (2 * (4 * 181 + 590) + 45) + 23) (2 + 2 + 1 + 1) m4"
    by (rule connection_field_ok(2) [OF p(4) extra_okD(2) [OF assms(2) p(3) content_fields_ok(2) [OF p(2) assms(3) h1(1)]]])
  then show "head_ok 5400 6 (response x')"
    unfolding p(5) by (rule head_ok_mono) simp_all
  show "http_version (response x') \<noteq> HNull" "reason_phrase (response x') \<noteq> HNull" "status_code (response x') = h_status_code h"
      "buffer x' = buffer x"
    using keeps r(3,4) h1(2) assms(6) p(5,6) by (simp_all add: resp_keeps_def)
qed

end
