(* ===== verification/Server_Runs.thy ===== *)
theory Server_Runs
  imports Server_Steps Response_Size
begin

text \<open>
  The server with the handlers of the program: what \<^verbatim>\<open>Server_Steps\<close> needs of handlers holds for them when the
  buffers have at least the default size of the input and output buffer, and so every run keeps the owners
  of the connections.
\<close>

section \<open>The handlers\<close>

lemma respond_with_keeps: "respond_with str h = Inr h' \<Longrightarrow> \<exists>b. h' = h\<lparr> body_buffer := b, content_length := int (length str), h_reader := Buffer_Reader \<rparr>"
  by (auto simp: respond_with_def bind_cxx_Inr_iff)

lemma func_handle_ok:
  assumes "func_handle_request H fn h x w = Inr (ok, h', x', w')" "he_constants H = filled"
  shows "x' = x" "fits h'"
proof -
  obtain h1 h2 str w1 h3 where p: "set_status_text filled (h1\<lparr> h_status_code := (if method_allowed (h_request_method h1) then 200 else 405) \<rparr>) = Inr h2"
      "fn x w = Inr (str, w1)" "respond_with str (h2\<lparr> mime_type := ''text/plain'' \<rparr>) = Inr h3" "h' = h3" "x' = x"
    using assms by (auto simp: func_handle_request_def Let_def bind_cxx_Inr_iff cong: if_cong)
  show "x' = x"
    by fact
  obtain t where "h2 = h1\<lparr> h_status_code := (if method_allowed (h_request_method h1) then 200 else 405), status_text := t \<rparr>" "length t \<le> 64"
    using set_status_text_ok [OF p(1)] by (cases "method_allowed (h_request_method h1)") (auto simp: server_codes_def)
  then show "fits h'"
    using respond_with_keeps [OF p(3)] p(4) by (auto simp: fits_def)
qed

lemma stats_handle_ok:
  assumes "stats_handle_request H h x w = Inr (ok, h', x', w')" "he_constants H = filled"
  shows "x' = x" "fits h'"
proof -
  have f: "func_handle_request H (\<lambda>x w. Inr (stats_text H w, w)) h x w = Inr (ok, h', x', w')"
    using assms(1) by (simp add: stats_handle_request_def func_handle_request_def)
  show "x' = x" "fits h'"
    by (rule func_handle_ok [OF f assms(2)])+
qed

lemma open_resource_keeps: "open_resource H oflag perm h w = (code, h', w') \<Longrightarrow> mime_type h' = mime_type h"
  by (auto simp: open_resource_def open_found_def Let_def split: prod.splits if_splits option.splits)

lemma check_modified_mime: "check_modified r h = Inr h' \<Longrightarrow> mime_type h' = mime_type h"
  by (auto simp: check_modified_def bind_cxx_Inr_iff Let_def split: if_splits option.splits)

lemma mime_type_short:
  assumes "\<forall>(ext, t) \<in> set (mime_types c). length t \<le> 256"
  shows "length (snd (lookup_mime_type c path)) \<le> 256"
proof -
  have short: "length t \<le> 256" if "map_of (mime_types c) e = Some t" for e t
    using map_of_SomeD [OF that] assms by auto
  show ?thesis
    by (auto simp: lookup_mime_type_def Let_def short split: option.splits if_splits)
qed

lemma choose_reader_ok:
  assumes "choose_reader H h = Inr h'" "\<forall>(ext, t) \<in> set (mime_types (he_config H)). length t \<le> 256" "length (mime_type h) \<le> 256"
  shows "status_text h' = status_text h" "h_status_code h' = h_status_code h" "length (mime_type h') \<le> 256"
  using assms(1,3) mime_type_short [OF assms(2), of "open_path h"]
  by (auto simp: choose_reader_def create_error_response_def set_length_def bind_cxx_Inr_iff Let_def split: if_splits)

lemma file_handle_ok:
  assumes "file_handle_request H h x w = Inr (ok, h', x', w')" "he_constants H = filled" "\<forall>(ext, t) \<in> set (mime_types (he_config H)). length t \<le> 256"
    "length (mime_type h) \<le> 256"
  shows "x' = x" "fits h'"
proof -
  obtain h1 where h1: "request_types filled (request x) h = Inr h1"
    using assms(1,2) by (auto simp: file_handle_request_def bind_cxx_Inr_iff)
  obtain code h2 w2 where o: "(if method_allowed (h_request_method h1) then open_resource H O_RDONLY 0 h1 w else (405, h1, w)) = (code, h2, w2)"
    using prod_cases3 by blast
  then obtain h3 h4 where p: "request_types filled (request x) h = Inr h1"
      "(if method_allowed (h_request_method h1) then open_resource H O_RDONLY 0 h1 w else (405, h1, w)) = (code, h2, w2)"
      "check_modified (request x) (h2\<lparr> h_status_code := code \<rparr>) = Inr h3" "set_status_text filled h3 = Inr h4" "choose_reader H h4 = Inr h'" "x' = x"
    using assms(1,2) h1 by (auto simp: file_handle_request_def Let_def bind_cxx_Inr_iff cong: if_cong)
  show "x' = x"
    by fact
  have code: "code \<in> set server_codes" "mime_type h2 = mime_type h"
    using p(1,2) open_resource_keeps [of H O_RDONLY 0 h1 w code h2 w2] open_resource_code [of H O_RDONLY 0 h1 w code h2 w2]
    by (auto simp: server_codes_def request_types_def bind_cxx_Inr_iff split: if_splits)
  have h3: "h_status_code h3 \<in> set server_codes" "mime_type h3 = mime_type h"
    using check_modified_code [OF p(3)] check_modified_mime [OF p(3)] code by simp_all
  obtain t where h4: "h4 = h3\<lparr> status_text := t \<rparr>" "length t \<le> 64"
    using set_status_text_ok [OF p(4) h3(1)] by blast
  show "fits h'"
    using choose_reader_ok [OF p(5) assms(3)] h4 h3 assms(4) codes_range by (simp add: fits_def)
qed

lemma file_handle_same: "file_handle_request H h x w = Inr (ok, h', x', w') \<Longrightarrow> x' = x"
  by (auto simp: file_handle_request_def bind_cxx_Inr_iff case_prod_beta Let_def)

section \<open>What the server relies on\<close>

text \<open>Reads fill a buffer and do not change its size.\<close>

definition system_reads :: "'w system \<Rightarrow> bool" where
  "system_reads sys \<longleftrightarrow>
     (\<forall>d w b n r b' w'. sys_read sys d w b n = Inr (r, b', w') \<longrightarrow> length b' = length b) \<and>
     (\<forall>d w b n r b' w'. ssl_read sys d w b n = Inr (r, b', w') \<longrightarrow> length b' = length b)"

definition file_reads :: "'w file_system \<Rightarrow> bool" where
  "file_reads fs \<longleftrightarrow> (\<forall>d b n w r e b' w'. fs_read fs d b n w = (r, e, b', w') \<longrightarrow> length b' = length b)"

lemma io_buffer_read_length: "io_buffer_read rb b n = Inr (r, b', rb') \<Longrightarrow> length b' = length b"
  by (auto simp: io_buffer_read_def Let_def bind_cxx_Inr_iff dest: write_range_length split: if_splits)

lemma file_readsD: "file_reads fs \<Longrightarrow> fs_read fs d b n w = (r, e, b', w') \<Longrightarrow> length b' = length b"
  unfolding file_reads_def by blast

lemma file_reader_length: "file_reads fs \<Longrightarrow> file_reader fs f w b n = Inr (r, b', w') \<Longrightarrow> length b' = length b"
  by (cases "fs_read fs (fd f) b n w") (auto simp: file_reader_def file_read_def dest: file_readsD)

lemma text_write_sizes: "text_write_response_body h x w = Inr (r, h', x', w') \<Longrightarrow> sizes x' = sizes x"
  by (auto simp: text_write_response_body_def bind_cxx_Inr_iff sizes_def dest: ring_read_length [OF _ io_buffer_read_length] split: body_reader.splits)

lemma file_write_sizes: "file_reads (he_files H) \<Longrightarrow> file_write_response_body H h x w = Inr (r, h', x', w') \<Longrightarrow> sizes x' = sizes x"
  by (auto simp: file_write_response_body_def bind_cxx_Inr_iff sizes_def
    dest: ring_read_length [OF _ io_buffer_read_length] ring_read_length [OF _ file_reader_length] split: body_reader.splits)

primrec handler_fits :: "'w server_handler \<Rightarrow> bool" where
  "handler_fits (File_Handler h) \<longleftrightarrow> fits h"
| "handler_fits (Stats_Handler h) \<longleftrightarrow> fits h"
| "handler_fits (Func_Handler fn h) \<longleftrightarrow> fits h"

definition server_ready :: "'w server_handler \<Rightarrow> http_response \<Rightarrow> bool" where
  "server_ready h resp \<longleftrightarrow> handler_fits h \<and> head_ok 116 2 resp \<and> http_version resp \<noteq> HNull"

text \<open>The handlers, with constants that have been filled in and types of files of a moderate length.\<close>

locale program_handlers =
  fixes H :: "'w handler_env"
  assumes constants: "he_constants H = filled"
    and short_types: "\<forall>(ext, t) \<in> set (mime_types (he_config H)). length t \<le> 256"
    and fills: "file_reads (he_files H)"
begin

lemma handle_ok:
  assumes "server_handle_request H h x w = Inr (ok, h', x', w')"
  shows "x' = x \<and> (handler_fits h \<longrightarrow> handler_fits h')"
proof (cases h)
  case (File_Handler f)
  then obtain f' where f: "file_handle_request H f x w = Inr (ok, f', x', w')" "h' = File_Handler f'"
    using assms by (auto simp: server_handle_request_def wrap_result_def bind_cxx_Inr_iff)
  show ?thesis
    using file_handle_same [OF f(1)] file_handle_ok(2) [OF f(1) constants short_types] f(2) File_Handler by (simp add: fits_def [of f])
next
  case (Stats_Handler f)
  then obtain f' where f: "stats_handle_request H f x w = Inr (ok, f', x', w')" "h' = Stats_Handler f'"
    using assms by (auto simp: server_handle_request_def wrap_result_def bind_cxx_Inr_iff)
  show ?thesis
    using stats_handle_ok [OF f(1) constants] f(2) by simp
next
  case (Func_Handler fn f)
  then obtain f' where f: "func_handle_request H fn f x w = Inr (ok, f', x', w')" "h' = Func_Handler fn f'"
    using assms by (auto simp: server_handle_request_def wrap_result_def bind_cxx_Inr_iff)
  show ?thesis
    using func_handle_ok [OF f(1) constants] f(2) by simp
qed

text \<open>The response is set up by one function, with the fields that are special to a class.\<close>

lemma populate_split:
  assumes "server_populate_response h x w = Inr (ok, h', x', w')"
  obtains f where "populate (last_modified_field f) f x = Inr x'" "handler_fits h \<Longrightarrow> fits f"
    | f where "populate Inr (f :: response_handler) x = Inr x'" "handler_fits h \<Longrightarrow> fits f"
  using assms by (cases h) (auto simp: server_populate_response_def file_populate_response_def text_populate_response_def wrap_result_def bind_cxx_Inr_iff)

lemma populate_keeps_sizes:
  assumes "server_populate_response h x w = Inr (ok, h', x', w')"
  shows "sizes x' = sizes x"
  using assms by (rule populate_split) (auto intro: Response_Size.populate_sizes last_modified_extra_ok no_extra_ok)

lemma populate_head:
  assumes "server_populate_response h x w = Inr (ok, h', x', w')" "server_ready h (response x)" "256 \<le> length (chars (response x))"
  shows "head_ok 5400 6 (response x') \<and> http_version (response x') \<noteq> HNull \<and> reason_phrase (response x') \<noteq> HNull \<and>
    0 \<le> status_code (response x') \<and> status_code (response x') < 1000 \<and> buffer x' = buffer x"
proof -
  have r: "handler_fits h" "head_ok 116 2 (response x)" "http_version (response x) \<noteq> HNull"
    using assms(2) by (simp_all add: server_ready_def)
  from assms(1) show ?thesis
  proof (rule populate_split)
    fix f assume f: "populate (last_modified_field f) f x = Inr x'" "handler_fits h \<Longrightarrow> fits f"
    show ?thesis
      using populate_ok [OF f(1) last_modified_extra_ok f(2) [OF r(1)] assms(3) r(2,3)] f(2) [OF r(1)] by (simp add: fits_def)
  next
    fix f :: response_handler assume f: "populate Inr f x = Inr x'" "handler_fits h \<Longrightarrow> fits f"
    show ?thesis
      using populate_ok [OF f(1) no_extra_ok f(2) [OF r(1)] assms(3) r(2,3)] f(2) [OF r(1)] by (simp add: fits_def)
  qed
qed

lemma write_body_keeps_sizes:
  assumes "server_write_response_body H h x w = Inr (r, h', x', w')"
  shows "sizes x' = sizes x"
  using assms file_write_sizes [OF fills] text_write_sizes
  by (cases h) (auto simp: server_write_response_body_def wrap_result_def bind_cxx_Inr_iff)

lemma new_handler_fits: "handler_fits (new_server_handler t now)"
  by (simp add: new_server_handler_def new_file_handler_def new_response_handler_def fits_def response_handler.defs split: handler_factory.split)

end

text \<open>The server with its handlers, and buffers that are large enough.\<close>

locale http_server_program = program_handlers H for H :: "'w handler_env" +
  fixes E :: "('w handler_factory, 'w server_handler, 'w) server_env"
    and Z :: "nat \<times> nat \<times> nat"
  assumes handlers: "env_class E = server_handlers H"
    and reads: "system_reads (env_sys E)"
    and large: "8192 \<le> fst Z" "fst Z < 2 ^ 64" "256 \<le> fst (snd Z)"
begin

lemma class_simps:
  "handle_request (env_class E) = server_handle_request H" "read_request_body (env_class E) = server_read_request_body"
  "populate_response (env_class E) = server_populate_response" "write_response_body (env_class E) = server_write_response_body H"
  "end_request (env_class E) = server_end_request H" "new_handler (env_class E) = new_server_handler"
  by (simp_all add: handlers server_handlers_def)

end

sublocale http_server_program \<subseteq> http_server_parts E server_ready Z
proof
  show "(of_nat (fst Z) :: u64) \<noteq> 0"
    using large(1,2) by (simp add: word_of_nat_eq_0_iff nat_dvd_not_less take_bit_nat_eq_self)
next
  fix d w b n r b' w'
  assume "sys_read (env_sys E) d w b n = Inr (r, b', w')"
  then show "length b' = length b"
    using reads unfolding system_reads_def by blast
next
  fix d w b n r b' w'
  assume "ssl_read (env_sys E) d w b n = Inr (r, b', w')"
  then show "length b' = length b"
    using reads unfolding system_reads_def by blast
next
  fix h x w ok h' x' w'
  assume "handle_request (env_class E) h x w = Inr (ok, h', x', w')"
  then show "sizes x' = sizes x"
    using handle_ok by (fastforce simp: class_simps)
next
  fix h x w io h' x' w'
  assume "read_request_body (env_class E) h x w = Inr (io, h', x', w')"
  then show "sizes x' = sizes x"
    by (simp add: class_simps server_read_request_body_def)
next
  fix h x w ok h' x' w'
  assume "populate_response (env_class E) h x w = Inr (ok, h', x', w')"
  then show "sizes x' = sizes x"
    using populate_keeps_sizes by (simp add: class_simps)
next
  fix h x w io h' x' w'
  assume "write_response_body (env_class E) h x w = Inr (io, h', x', w')"
  then show "sizes x' = sizes x"
    using write_body_keeps_sizes by (simp add: class_simps)
next
  fix h x w ok h' x' w'
  assume "end_request (env_class E) h x w = Inr (ok, h', x', w')"
  then show "sizes x' = sizes x"
    by (auto simp: class_simps server_end_request_def file_end_request_def wrap_result_def bind_cxx_Inr_iff split: server_handler.splits prod.splits)
next
  fix now resp resp' t
  assume i: "init_response now resp = Inr resp'" and "(length (chars resp), message.max_headers resp) = snd Z"
  then have "256 \<le> length (chars resp)"
    using large(3) by (metis fst_conv)
  then show "server_ready (new_handler (env_class E) t now) resp'"
    using init_response_head [OF i] new_handler_fits by (simp add: class_simps server_ready_def)
next
  fix h x w ok h' x' w'
  assume "handle_request (env_class E) h x w = Inr (ok, h', x', w')" "server_ready h (response x)"
  then show "server_ready h' (response x')"
    using handle_ok by (fastforce simp: class_simps server_ready_def)
next
  fix h x w io h' x' w'
  assume "read_request_body (env_class E) h x w = Inr (io, h', x', w')" "server_ready h (response x)"
  then show "server_ready h' (response x')"
    by (simp add: class_simps server_read_request_body_def)
next
  fix h x w ok h' x' w' len rb
  assume p: "populate_response (env_class E) h x w = Inr (ok, h', x', w')" and z: "sizes x = Z" and r: "server_ready h (response x)"
    and wr: "write_response_head (response x') (buffer x') = Inr (len, rb)"
  have "256 \<le> length (chars (response x))" "8192 \<le> length (ring (buffer x))"
    using z large(1,3) by (auto simp: sizes_def)
  then show "0 < len"
    using populate_head [OF p [unfolded class_simps] r] write_response_head_fits [OF wr, of 5400 6] by simp
qed

section \<open>Responses fit\<close>

text \<open>
  C12. The head of the response that a handler of the program prepares, for whatever request and file, fits
  into a buffer of the default size, and the handler leaves the buffer of the connection alone: the server
  never gets the length -1, after which it would free the connection twice.
\<close>

theorem response_head_fits:
  assumes "he_constants H = filled" "\<forall>(ext, t) \<in> set (mime_types (he_config H)). length t \<le> 256" "file_reads (he_files H)"
    "init_response now resp = Inr (response x)" "256 \<le> length (chars resp)"
    "server_handle_request H (new_server_handler t now) x w = Inr (ok, h, x1, w1)" "server_populate_response h x1 w1 = Inr (ok', h', x2, w2)"
    "write_response_head (response x2) b = Inr (len, b')" "8192 \<le> length (ring b)"
  shows "0 < len \<and> buffer x2 = buffer x"
proof -
  have H: "program_handlers H"
    using assms(1-3) by unfold_locales
  note fits = program_handlers.new_handler_fits [OF H, of t now]
  have x1: "x1 = x" "handler_fits h"
    using program_handlers.handle_ok [OF H assms(6)] fits by simp_all
  have "server_ready h (response x1)" "256 \<le> length (chars (response x1))"
    using init_response_head [OF assms(4,5)] init_response_sizes [OF assms(4)] assms(5) x1 by (simp_all add: server_ready_def)
  from program_handlers.populate_head [OF H assms(7) this] show ?thesis
    using write_response_head_fits [OF assms(8), of 5400 6] assms(9) x1(1) by simp
qed

definition no_files :: "unit file_system" where
  "no_files = \<lparr> fs_stat = (\<lambda>path w. (ENOENT, \<lparr> st_mode = 0, st_size = 0, st_mtime = 0 \<rparr>, w)), fs_open = (\<lambda>path fl md w. (- 1, ENOENT, w)),
     fs_read = (\<lambda>d b n w. (- 1, EIO, b, w)), fs_close = (\<lambda>d w. w) \<rparr>"

definition sample_handlers :: "config \<Rightarrow> unit handler_env" where
  "sample_handlers c = \<lparr> he_config = c, he_constants = filled, he_files = no_files, he_masks = [], he_engines = (\<lambda>w. []), he_vhosts = [] \<rparr>"

definition hello_target :: "unit handler_factory target" where
  "hello_target = \<lparr> target_vhost = 0,
     target_location = \<lparr> location_uri = ''/'', location_root = [], location_handler = ''hello'', location_index_files = [], handler_factory = None \<rparr>,
     target_factory = Func_Factory (\<lambda>x w. Inr (''hello'', w)), path_translated = ''/'' \<rparr>"

lemma hello_run:
  "case init_response 0 (sample_response_store\<lparr> chars := replicate 256 NUL \<rparr>) of
     Inl e \<Rightarrow> False
   | Inr resp \<Rightarrow> (case server_handle_request (sample_handlers new_config) (new_server_handler hello_target 0) (get_exchange resp) () of
       Inl e \<Rightarrow> False
     | Inr (ok, h, x1, w1) \<Rightarrow> (case server_populate_response h x1 w1 of
         Inl e \<Rightarrow> False
       | Inr (ok', h', x2, w2) \<Rightarrow> response_ok (response x2) \<and> http_version (response x2) \<noteq> HNull \<and> reason_phrase (response x2) \<noteq> HNull))"
  by code_simp

lemma write_response_head_total:
  "response_ok m \<Longrightarrow> http_version m \<noteq> HNull \<Longrightarrow> reason_phrase m \<noteq> HNull \<Longrightarrow> \<exists>len b'. write_response_head m b = Inr (len, b')"
  by (simp add: write_response_head_def response_to_buffer_text)

theorem response_head_fits_witness:
  "\<exists>resp ok h x1 w1 ok' h' x2 w2 len b'. init_response 0 (sample_response_store\<lparr> chars := replicate 256 NUL \<rparr>) = Inr resp \<and>
     server_handle_request (sample_handlers new_config) (new_server_handler hello_target 0) (get_exchange resp) () = Inr (ok, h, x1, w1) \<and>
     server_populate_response h x1 w1 = Inr (ok', h', x2, w2) \<and>
     write_response_head (response x2) ((ring_new 0)\<lparr> ring := replicate 8192 0 \<rparr>) = Inr (len, b') \<and> 0 < len"
proof -
  let ?b = "(ring_new 0)\<lparr> ring := replicate 8192 0 \<rparr>"
  obtain resp ok h x1 w1 ok' h' x2 w2 where r: "init_response 0 (sample_response_store\<lparr> chars := replicate 256 NUL \<rparr>) = Inr resp"
      "server_handle_request (sample_handlers new_config) (new_server_handler hello_target 0) (get_exchange resp) () = Inr (ok, h, x1, w1)"
      "server_populate_response h x1 w1 = Inr (ok', h', x2, w2)" "response_ok (response x2)" "http_version (response x2) \<noteq> HNull"
      "reason_phrase (response x2) \<noteq> HNull"
    using hello_run by (auto split: sum.splits prod.splits)
  obtain len b' where w: "write_response_head (response x2) ?b = Inr (len, b')"
    using write_response_head_total [OF r(4-6)] by blast
  have "0 < len \<and> buffer x2 = buffer (get_exchange resp)"
    by (rule response_head_fits [where resp = "sample_response_store\<lparr> chars := replicate 256 NUL \<rparr>", OF _ _ _ _ _ r(2,3) w])
      (use r(1) in \<open>simp_all add: sample_handlers_def new_config_def file_reads_def no_files_def get_exchange_def\<close>)
  with r w show ?thesis
    by blast
qed

section \<open>Every connection has one owner\<close>

context http_server_program
begin

lemma run_counted:
  assumes "server_start E masks w = Inr s0" "roundpow2 (word_of_int (io_buffer_size (env_config E)) :: u64) = Inr n"
    "Z = (unat n, to_size (header_buffer_size (env_config E)), to_size (config.max_headers (env_config E)))" "server_run E evs s0 = Inr s"
    "exact \<longrightarrow> (\<forall>(oc, ev) \<in> set evs. \<forall>t m. send_outcome oc t m \<in> {Sent, Would_Block})"
  shows "counted exact (places {#} {#} s) (length (conns s))"
proof -
  have "owned True {#} {#} s0"
    using inv_start [OF assms(1-3)] .
  then have "owned exact {#} {#} s0"
    by (auto simp: owned_def counted_def)
  from inv_run [OF this assms(4)] show ?thesis
    using assms(5) by (auto simp: sends_def owned_def case_prod_beta)
qed

end

text \<open>
  The server is put together as the program does it, and its buffers are not smaller than the default of the
  input and output buffer.
\<close>

definition well_configured :: "('w handler_factory, 'w server_handler, 'w) server_env \<Rightarrow> 'w handler_env \<Rightarrow> bool" where
  "well_configured E H \<longleftrightarrow> env_class E = server_handlers H \<and> he_constants H = filled \<and>
     (\<forall>(ext, t) \<in> set (mime_types (he_config H)). length t \<le> 256) \<and> system_reads (env_sys E) \<and> file_reads (he_files H) \<and>
     8192 \<le> io_buffer_size (env_config E) \<and> io_buffer_size (env_config E) \<le> 2 ^ 30 \<and> 256 \<le> header_buffer_size (env_config E)"




definition idle_system :: "unit system" where
  "idle_system = \<lparr> sys_read = (\<lambda>d w b n. Inr (io_size 0, b, w)), sys_write = (\<lambda>d w b. Inr (io_size (int (length b)), w)),
     sys_setsockopt = (\<lambda>d opt v w. (True, w)), sys_shutdown = (\<lambda>d w. (True, w)), sys_close = (\<lambda>d w. w), ssl_new = (\<lambda>w. (True, w)),
     ssl_do_handshake = (\<lambda>d w. (0, w)), ssl_read = (\<lambda>d w b n. Inr (io_size 0, b, w)), ssl_write = (\<lambda>d w b. Inr (io_size (int (length b)), w)) \<rparr>"

definition idle_config :: config where
  "idle_config = new_config\<lparr> server_connections := 2, io_buffer_size := 8192, header_buffer_size := 256, config.max_headers := 8 \<rparr>"

definition idle_server :: "(unit handler_factory, unit server_handler, unit) server_env" where
  "idle_server = \<lparr> env_config = idle_config, env_cfg = \<lparr> vhosts = [], vhost_map = [], listens = [] \<rparr>, env_class = server_handlers (sample_handlers idle_config),
     env_sys = idle_system, env_ntop = (\<lambda>fam a. []), env_vhost_of = handler_vhost \<rparr>"











lemma idle_configured: "well_configured idle_server (sample_handlers idle_config)"
  by (simp add: well_configured_def idle_server_def sample_handlers_def idle_config_def new_config_def system_reads_def file_reads_def idle_system_def
    no_files_def)






interpretation idle: http_server_program "sample_handlers idle_config" idle_server "(8192, 256, 8)"
  using idle_configured by unfold_locales (simp_all add: well_configured_def)

interpretation idle_parts: http_server_parts idle_server server_ready "(8192, 256, 8)"
  by (rule idle.http_server_parts_axioms)

section \<open>Failures of a handler\<close>

text \<open>
  When a handler refuses to set up a response, the connection is given back and then the handler, which is
  gone, is used.
\<close>

lemma refused_response_breaks:
  assumes "call_handler (populate_response (env_class E)) i s = Inr (False, s1)"
  shows "\<exists>e. populate_response_headers E oc i s = Inl e"
proof (rule ccontr)
  assume "\<nexists>e. populate_response_headers E oc i s = Inl e"
  then obtain r where "populate_response_headers E oc i s = Inr r"
    by (cases "populate_response_headers E oc i s") auto
  then obtain s2 where s2: "server_abort_connection E i s1 = Inr s2" "i < length (conns s2)" "handler (conns s2 ! i) \<noteq> None"
    using assms by (auto simp: populate_response_headers_def bind_conf_Inr_iff get_conn_Inr split: option.splits)
  then show False
    using drop_handler [of E i _ s2] by (simp add: server_abort_connection_def)
qed

text \<open>When the head of the response does not fit into the buffer, the worker gives the connection back twice.\<close>

lemma long_head_freed_twice:
  assumes "call_handler (handle_request (env_class E)) i s = Inr (True, s1)" "\<not> request_has_body (conns s1 ! i)"
    "call_handler (populate_response (env_class E)) i s1 = Inr (True, s2)" "write_response_head (response (conns s2 ! i)) (buffer (conns s2 ! i)) = Inr (- 1, b)"
  shows "\<exists>s'. worker_process_request E oc i s = Inr s' \<and> free_list s' = free_list s @ [i, i]"
proof -
  obtain c1 w1 where s1: "i < length (conns s)" "s1 = put_conn i c1 w1 s"
    using call_handler_Inr [OF assms(1)] by blast
  obtain c2 w2 h where s2: "s2 = put_conn i c2 w2 s1" "handler c2 = Some h"
    using call_handler_Inr [OF assms(3)] by auto
  let ?s3 = "remove_events (this_thread oc) i
    (put_conn i (c2\<lparr> buffer := b, handler := Some (set_header_length (env_class E) (- 1) h) \<rparr>) (world (net_state s2)) s2)"
  have i3: "i < length (conns ?s3)" "free_list ?s3 = free_list s"
    using s1 s2 by (simp_all add: remove_events_def)
  obtain s4 where s4: "server_abort_connection E i ?s3 = Inr s4" "free_list s4 = free_list s @ [i]" "i < length (conns s4)"
    using drop_frees [of i "count_stat connections_aborted_update ?s3" E] i3 by (auto simp: server_abort_connection_def count_stat_def)
  obtain s5 where s5: "server_abort_connection E i s4 = Inr s5" "free_list s5 = free_list s @ [i, i]"
    using drop_frees [of i "count_stat connections_aborted_update s4" E] s4(2,3) by (auto simp: server_abort_connection_def count_stat_def)
  have "populate_response_headers E oc i s1 = Inr (- 1, s4)"
    using assms(3,4) s1 s2 s4(1) by (simp add: populate_response_headers_def get_conn_def set_conn_def with_conn_def with_server_def on_connection_def put_conn_def)
  then have "worker_process_request E oc i s = Inr s5"
    using assms(1,2) s1 s5(1) by (simp add: worker_process_request_def get_conn_def)
  with s5(2) show ?thesis
    by blast
qed

text \<open>A connection whose handshake does not end is never given up.\<close>

lemma handshake_never_times_out:
  assumes "i < length (conns s)" "conn_state (conns s ! i) = connection_state_tls_handshake"
  shows "timeout_connection E oc i s = Inr s"
  using assms by (simp add: timeout_connection_def get_conn_def)

end
