(* ===== verification/Http_Client.thy ===== *)
theory Http_Client
  imports Http_Handlers Url
begin

text \<open>
  \<^verbatim>\<open>src/http_client.cc\<close>, with \<^verbatim>\<open>src/resolver.cc\<close> and the functions of the sockets that connect to a host. The
  application submits requests; a connection has a list of them, connects to the host of the first one,
  sends it and reads its response, and goes on with the next one. The handlers of responses belong to
  the requests and are shared with the application, so that they are kept in a table and the requests and
  connections have their numbers.
\<close>

section \<open>Finding and connecting to a host\<close>

text \<open>
  The result of \<^verbatim>\<open>gethostbyname\<close> is the family and the bytes of the first address. The family of the result
  is always that of IPv4. The port of an IPv6 address is at the place of that of an IPv4 address, but
  the address itself is not: four bytes that were set to zero are before it.
\<close>

definition resolver_lookup :: "(string \<Rightarrow> (sa_family \<times> byte list) option) \<Rightarrow> string \<Rightarrow> int \<Rightarrow> (bool \<times> socket_addr) cxx" where
  "resolver_lookup gethostbyname name p =
     (let first_port = word_of_int p in
      bind_cxx (if p = 0
          then (case find_last_of CHR '':'' name of
                  None \<Rightarrow> Inr (name, p)
                | Some colon \<Rightarrow> bind_cxx (atoi (drop (colon + 1) name)) (\<lambda>p. Inr (take colon name, p)))
          else Inr (name, p)) (\<lambda>(name, p).
        case gethostbyname (c_str name) of
          None \<Rightarrow> Inr (False, \<lparr> family = AF_INET, sin_port = first_port, sin_addr = [0, 0, 0, 0], sin6_flowinfo = 0, sin6_scope_id = 0 \<rparr>)
        | Some (AF_INET, bytes) \<Rightarrow> Inr (True, \<lparr> family = AF_INET, sin_port = word_of_int p, sin_addr = bytes, sin6_flowinfo = 0, sin6_scope_id = 0 \<rparr>)
        | Some (AF_INET6, bytes) \<Rightarrow> Inr (True, \<lparr> family = AF_INET, sin_port = word_of_int p, sin_addr = [0, 0, 0, 0], sin6_flowinfo = 0, sin6_scope_id = 0 \<rparr>)
        | Some (_, bytes) \<Rightarrow> Inr (False, \<lparr> family = AF_INET, sin_port = first_port, sin_addr = [0, 0, 0, 0], sin6_flowinfo = 0, sin6_scope_id = 0 \<rparr>)))"

text \<open>
  The calls that only a client makes: a new descriptor, negative when there is none, and the start of a
  connection, which reports whether it has succeeded or is in progress.
\<close>

record 'w client_calls =
  sys_socket :: "sa_family \<Rightarrow> 'w \<Rightarrow> int \<times> 'w"
  sys_connect :: "int \<Rightarrow> socket_addr \<Rightarrow> 'w \<Rightarrow> bool \<times> 'w"
  sys_getsockname :: "int \<Rightarrow> 'w \<Rightarrow> socket_addr option"
  sys_gethostbyname :: "string \<Rightarrow> (sa_family \<times> byte list) option"

definition socket_connect_to_host :: "'w system \<Rightarrow> 'w client_calls \<Rightarrow> socket_addr \<Rightarrow> connected_socket \<Rightarrow> 'w \<Rightarrow> bool \<times> connected_socket \<times> 'w" where
  "socket_connect_to_host sys calls addr s w =
     (let (ok, s, w) =
        (case conn_mode s of
           socket_mode_plain \<Rightarrow> (True, s, w)
         | socket_mode_tls \<Rightarrow>
             if \<not> tls_ctx s then (False, s, w)
             else let (ok, w) = (if tls_ssl s then (True, w) else ssl_new sys w) in
               if ok then (True, s\<lparr> tls_ssl := True \<rparr>, w) else (False, s, w)) in
      if \<not> ok then (False, s, w)
      else
        let (desc, w) = sys_socket calls (family addr) w in
        if desc < 0 then (False, s, w)
        else
          let (s, w) = socket_set_fd sys desc s w;
              (ok, w) = sys_connect calls desc addr w in
          (ok, s, w))"

definition conn_connect_to_host :: "'w system \<Rightarrow> 'w client_calls \<Rightarrow> socket_addr \<Rightarrow> connection \<Rightarrow> 'w \<Rightarrow> bool \<times> connection \<times> 'w" where
  "conn_connect_to_host sys calls addr c w =
     (let (c, w) = take_socket sys (new_connected_socket socket_mode_plain) c w;
          (ok, s, w) = socket_connect_to_host sys calls addr (new_connected_socket socket_mode_plain) w in
      (ok, c\<lparr> sock := Some s \<rparr>, w))"

definition conn_connect_to_host_tls :: "'w system \<Rightarrow> 'w client_calls \<Rightarrow> socket_addr \<Rightarrow> bool \<Rightarrow> connection \<Rightarrow> 'w \<Rightarrow> bool \<times> connection \<times> 'w" where
  "conn_connect_to_host_tls sys calls addr ctx c w =
     (let (c, w) = take_socket sys (new_connected_socket socket_mode_tls) c w;
          (ok, s, w) = socket_connect_to_host sys calls addr (socket_set_context ctx (new_connected_socket socket_mode_tls)) w in
      (ok, c\<lparr> sock := Some s \<rparr>, w))"

section \<open>Roles, actions and states\<close>

text \<open>The masks are in the table that the server has its masks in.\<close>

definition client_masks :: "protocol_mask registry" where
  "client_masks = server_masks"

definition client_mask_connect :: u32 where "client_mask_connect = find_mask (reg_table client_masks) ''http_client'' ''connect''"
definition client_mask_worker :: u32 where "client_mask_worker = find_mask (reg_table client_masks) ''http_client'' ''worker''"
definition client_mask_keepalive :: u32 where "client_mask_keepalive = find_mask (reg_table client_masks) ''http_client'' ''keepalive''"

datatype client_callback = Connect_Host | Process_Tls_Handshake | Process_Next_Request | Client_Keepalive_Wait

definition client_actions :: "client_callback protocol_action registry" where
  "client_actions = foldl (\<lambda>r (proto, name, cb). new_protocol_action proto name cb r) \<lparr> reg_table = [], reg_map = [] \<rparr>
     [(None, ''none'', None), (Some ''http_client'', ''connect_host'', Some Connect_Host),
      (Some ''http_client'', ''process_tls_handshake'', Some Process_Tls_Handshake),
      (Some ''http_client'', ''process_next_request'', Some Process_Next_Request),
      (Some ''http_client'', ''keepalive_wait_connection'', Some Client_Keepalive_Wait)]"

definition client_action_of :: "client_callback \<Rightarrow> int" where
  "client_action_of cb = int (length (takeWhile (\<lambda>a. action_callback a \<noteq> Some cb) (reg_table client_actions)))"

datatype client_conn_state = Client_Free | Client_Tls_Handshake | Client_Request | Client_Body | Client_Server_Response | Client_Server_Body | Client_Waiting

section \<open>Requests and connections\<close>

record http_client_request =
  req_method :: HTTPMethod
  req_url :: url
  req_handler :: nat

record http_client_connection = exchange +
  cl_conn :: connection
  cl_state :: client_conn_state
  cl_handler :: "nat option"
  remote_host :: string
  url_requests :: "http_client_request list"
  cl_requests_processed :: int

type_synonym ('h, 'w, 'r) client_op = "'h \<Rightarrow> http_client_connection \<Rightarrow> 'w \<Rightarrow> ('r \<times> 'h \<times> http_client_connection \<times> 'w) cxx"

record ('h, 'w) client_handler_class =
  init_handler :: "int \<Rightarrow> 'h \<Rightarrow> 'h"
  populate_request :: "('h, 'w, bool) client_op"
  write_request_body :: "('h, 'w, io_result) client_op"
  handle_response :: "('h, 'w, bool) client_op"
  read_response_body :: "('h, 'w, io_result) client_op"
  end_client_request :: "('h, 'w, bool) client_op"

text \<open>
  The state of the engine. The map has for each host the connections that were made for it; no function
  takes a connection out of it.
\<close>

record ('h, 'w) client_engine =
  cl_pool :: "http_client_connection connection_state"
  connections_host_map :: "(string \<times> nat list) list"
  cl_polls :: "(nat \<times> nat) list"
  cl_threads :: engine
  cl_handlers :: "'h list"
  cl_world :: 'w

type_synonym ('h, 'w) client_net = "('h, 'w) client_engine thread_net"

record ('h, 'w) client_env =
  ce_config :: config
  ce_class :: "('h, 'w) client_handler_class"
  ce_constants :: constants
  ce_sys :: "'w system"
  ce_calls :: "'w client_calls"
  ce_ssl_ctx :: bool

definition client_connection_init :: "('h, 'w) client_env \<Rightarrow> (http_client_connection, 'w) conn_op" where
  "client_connection_init E c w =
     (let (k, w) = conn_reset (ce_sys E) (cl_conn c) w;
          c = c\<lparr> buffer := ring_reset (buffer c), cl_conn := k, request := request_reset (request c), response := response_reset (response c),
                 request_has_body := False, response_has_body := False, connection_close := True, cl_state := Client_Free,
                 cl_handler := None, cl_requests_processed := 0 \<rparr> in
      if ring_size (buffer c) = 0
      then
        bind_cxx (ring_resize (buffer c) (word_of_int (io_buffer_size (ce_config E)))) (\<lambda>b.
        bind_cxx (check_length (header_buffer_size (ce_config E))) (\<lambda>_.
          Inr (c\<lparr> buffer := b,
                  request := message_resize 0 (request c) (to_size (header_buffer_size (ce_config E))) (to_size (config.max_headers (ce_config E))),
                  response := message_resize 0 (response c) (to_size (header_buffer_size (ce_config E))) (to_size (config.max_headers (ce_config E))) \<rparr>, w)))
      else Inr (c, w))"

text \<open>The list of requests is not touched by any of the functions for a connection that is given back.\<close>

definition client_connection_free :: "(http_client_connection, 'w) conn_op" where
  "client_connection_free c w = Inr (c\<lparr> cl_state := Client_Free, cl_handler := None \<rparr>, w)"

definition client_connection_close :: "('h, 'w) client_env \<Rightarrow> (http_client_connection, 'w) conn_op" where
  "client_connection_close E c w = (let (k, w) = conn_close (ce_sys E) (cl_conn c) w in Inr (c\<lparr> cl_conn := k \<rparr>, w))"

section \<open>Access to the state\<close>

definition client_conn :: "nat \<Rightarrow> ('h, 'w) client_net \<Rightarrow> http_client_connection conf" where
  "client_conn i s = conf_of (index_cxx (connections_all (cl_pool (net_state s))) i)"

definition with_client :: "nat \<Rightarrow> (http_client_connection, 'w) conn_op \<Rightarrow> ('h, 'w) client_net \<Rightarrow> ('h, 'w) client_net conf" where
  "with_client i f s =
     bind_conf (conf_of (on_connection f i (cl_pool (net_state s)) (cl_world (net_state s)))) (\<lambda>(p, w).
       Inr (s\<lparr> net_state := (net_state s)\<lparr> cl_pool := p, cl_world := w \<rparr> \<rparr>))"

definition set_client :: "nat \<Rightarrow> (http_client_connection \<Rightarrow> http_client_connection) \<Rightarrow> ('h, 'w) client_net \<Rightarrow> ('h, 'w) client_net conf" where
  "set_client i f = with_client i (\<lambda>c w. Inr (f c, w))"

definition client_add_events :: "nat \<Rightarrow> nat \<Rightarrow> ('h, 'w) client_net \<Rightarrow> ('h, 'w) client_net" where
  "client_add_events t i s =
     (if (t, i) \<in> set (cl_polls (net_state s)) then s
      else s\<lparr> net_state := (net_state s)\<lparr> cl_polls := cl_polls (net_state s) @ [(t, i)] \<rparr> \<rparr>)"

definition client_remove_events :: "nat \<Rightarrow> nat \<Rightarrow> ('h, 'w) client_net \<Rightarrow> ('h, 'w) client_net" where
  "client_remove_events t i s = s\<lparr> net_state := (net_state s)\<lparr> cl_polls := remove1 (t, i) (cl_polls (net_state s)) \<rparr> \<rparr>"

text \<open>A virtual function of the handler of a connection; the handler is in the table of the application.\<close>

definition call_client_handler :: "('h, 'w, 'r) client_op \<Rightarrow> nat \<Rightarrow> ('h, 'w) client_net \<Rightarrow> ('r \<times> ('h, 'w) client_net) conf" where
  "call_client_handler f i s =
     bind_conf (client_conn i s) (\<lambda>c.
       case cl_handler c of
         None \<Rightarrow> Inl (Broken NullPointer)
       | Some n \<Rightarrow>
           bind_conf (conf_of (index_cxx (cl_handlers (net_state s)) n)) (\<lambda>h.
           bind_conf (conf_of (f h c (cl_world (net_state s)))) (\<lambda>(r, h, c, w).
           bind_conf (set_client i (\<lambda>_. c)
               (s\<lparr> net_state := (net_state s)\<lparr> cl_handlers := (cl_handlers (net_state s))[n := h], cl_world := w \<rparr> \<rparr>)) (\<lambda>s.
             Inr (r, s)))))"

text \<open>Aborting and closing are the same.\<close>

definition client_close_connection :: "('h, 'w) client_env \<Rightarrow> nat \<Rightarrow> ('h, 'w) client_net \<Rightarrow> ('h, 'w) client_net conf" where
  "client_close_connection E i s =
     bind_conf (conf_of (Protocol.close_connection (client_connection_close E) client_connection_free i (cl_pool (net_state s)) (cl_world (net_state s)))) (\<lambda>(p, w).
       Inr (s\<lparr> net_state := (net_state s)\<lparr> cl_pool := p, cl_world := w \<rparr> \<rparr>))"

definition client_close_polled :: "('h, 'w) client_env \<Rightarrow> occasion \<Rightarrow> nat \<Rightarrow> ('h, 'w) client_net \<Rightarrow> ('h, 'w) client_net conf" where
  "client_close_polled E oc i s = client_close_connection E i (client_remove_events (this_thread oc) i s)"

section \<open>Messages\<close>

definition process_tls_handshake :: "occasion \<Rightarrow> nat \<Rightarrow> ('h, 'w) client_net \<Rightarrow> ('h, 'w) client_net conf" where
  "process_tls_handshake oc i s = set_client i (\<lambda>c. c\<lparr> cl_state := Client_Tls_Handshake \<rparr>) (client_add_events (this_thread oc) i s)"

definition ClientString :: string where "ClientString = ''latypus/0.0.0''"

text \<open>The head of the request, in the buffer of strings of the connection.\<close>

definition prepare_request :: "constants \<Rightarrow> http_client_request \<Rightarrow> http_request \<Rightarrow> http_request cxx" where
  "prepare_request C q r =
     (case (get_version_text C (version_value HTTPVersion11), get_method_text C (method_value (req_method q))) of
        (Some version, Some meth) \<Rightarrow>
          bind_cxx (request_event (request_reset r) (SetHttpVersion version)) (\<lambda>r.
          bind_cxx (request_event r (SetRequestMethod meth)) (\<lambda>r.
          bind_cxx (request_event r (SetRequestUri (path (req_url q)))) (\<lambda>r.
          bind_cxx (request_event r (SetHeaderField ''Host'' (host (req_url q)))) (\<lambda>r.
            request_event r (SetHeaderField ''User-Agent'' ClientString)))))
      | _ \<Rightarrow> Inl Undefined)"

definition write_request_head :: "http_request \<Rightarrow> io_ring_buffer \<Rightarrow> (int \<times> io_ring_buffer) cxx" where
  "write_request_head r b =
     bind_cxx (request_to_buffer r (ring_chars b)) (\<lambda>res.
       case res of
         None \<Rightarrow> Inr (- 1, ring_reset b)
       | Some (out, n) \<Rightarrow> Inr (int n, (ring_reset b)\<lparr> ring := to_bytes out, ring_back := of_nat n \<rparr>))"

definition populate_request_headers :: "('h, 'w) client_env \<Rightarrow> occasion \<Rightarrow> nat \<Rightarrow> ('h, 'w) client_net \<Rightarrow> (int \<times> ('h, 'w) client_net) conf" where
  "populate_request_headers E oc i s =
     bind_conf (call_client_handler (populate_request (ce_class E)) i s) (\<lambda>(ok, s).
     bind_conf (if \<not> ok then client_close_connection E i s else Inr s) (\<lambda>s.
     bind_conf (client_conn i s) (\<lambda>c.
     bind_conf (conf_of (write_request_head (request c) (buffer c))) (\<lambda>(n, b).
     bind_conf (set_client i (\<lambda>c. c\<lparr> buffer := b \<rparr>) s) (\<lambda>s.
       if n < 0
       then bind_conf (client_close_polled E oc i s) (\<lambda>s. Inr (n, s))
       else Inr (n, s))))))"

text \<open>The first request of the list, with the handler that it has.\<close>

definition take_request :: "('h, 'w) client_env \<Rightarrow> occasion \<Rightarrow> nat \<Rightarrow> ('h, 'w) client_net \<Rightarrow> ('h, 'w) client_net conf" where
  "take_request E oc i s =
     bind_conf (client_conn i s) (\<lambda>c.
       case url_requests c of
         [] \<Rightarrow> Inl (Broken Undefined)
       | q # qs \<Rightarrow>
           bind_conf (conf_of (index_cxx (cl_handlers (net_state s)) (req_handler q))) (\<lambda>h.
           bind_conf (conf_of (prepare_request (ce_constants E) q (request c))) (\<lambda>r.
             set_client i (\<lambda>c. c\<lparr> cl_handler := Some (req_handler q), response := response_reset (response c), request := r \<rparr>)
               (s\<lparr> net_state := (net_state s)\<lparr> cl_handlers :=
                    (cl_handlers (net_state s))[req_handler q := init_handler (ce_class E) (current_time oc) h] \<rparr> \<rparr>))))"

text \<open>
  The address of the client is stored through \<^verbatim>\<open>get_local_addr\<close>, which gives the member \<open>peer_addr\<close>; likewise
  the resolver below stores through \<^verbatim>\<open>get_peer_addr\<close> into \<open>local_addr\<close>.
\<close>

definition process_next_request :: "('h, 'w) client_env \<Rightarrow> occasion \<Rightarrow> nat \<Rightarrow> ('h, 'w) client_net \<Rightarrow> ('h, 'w) client_net conf" where
  "process_next_request E oc i s =
     bind_conf (with_client i (\<lambda>c w.
         case sys_getsockname (ce_calls E) (get_poll_fd (cl_conn c)) w of
           None \<Rightarrow> Inr (c, w)
         | Some a \<Rightarrow> Inr (c\<lparr> cl_conn := (cl_conn c)\<lparr> peer_addr := a \<rparr> \<rparr>, w)) s) (\<lambda>s.
     bind_conf (take_request E oc i s) (\<lambda>s.
     bind_conf (populate_request_headers E oc i s) (\<lambda>(n, s).
       if n > 0
       then bind_conf (set_client i (\<lambda>c. c\<lparr> cl_state := Client_Request \<rparr>) s) (\<lambda>s. Inr (client_add_events (this_thread oc) i s))
       else client_close_connection E i s)))"

text \<open>Nothing: the connection stays where it is.\<close>

definition client_keepalive_wait_connection :: "nat \<Rightarrow> ('h, 'w) client_net \<Rightarrow> ('h, 'w) client_net conf" where
  "client_keepalive_wait_connection i s = Inr s"

definition client_handle_message ::
  "occasion \<Rightarrow> (client_callback \<Rightarrow> nat \<Rightarrow> ('h, 'w) client_net \<Rightarrow> ('h, 'w) client_net conf) \<Rightarrow> string \<Rightarrow> protocol_message \<Rightarrow> ('h, 'w) client_net \<Rightarrow>
   ('h, 'w) client_net conf" where
  "client_handle_message oc callback proto msg s =
     (if connection_num msg < 0 then Inl (Broken OutOfBounds)
      else
        let i = nat (connection_num msg) in
        bind_conf (conf_of (index_cxx (reg_table client_actions) (nat (msg_action msg)))) (\<lambda>a.
        bind_conf (set_client i (\<lambda>c. c\<lparr> cl_conn := (cl_conn c)\<lparr> last_activity := current_time oc \<rparr> \<rparr>) s) (\<lambda>s.
          case action_callback a of None \<Rightarrow> Inl (Broken NullPointer) | Some cb \<Rightarrow> callback cb i s)))"

text \<open>
  A message to the thread itself is handled at once, by \<open>callback\<close>. The actions that \<open>connect_host\<close> forwards a
  connection with are not \<open>connect_host\<close>, so that two levels are enough.
\<close>

definition client_forward_connection ::
  "('h, 'w) client_env \<Rightarrow> occasion \<Rightarrow> (client_callback \<Rightarrow> nat \<Rightarrow> ('h, 'w) client_net \<Rightarrow> ('h, 'w) client_net conf) \<Rightarrow> u32 \<Rightarrow> client_callback \<Rightarrow>
   nat \<Rightarrow> ('h, 'w) client_net \<Rightarrow> ('h, 'w) client_net conf" where
  "client_forward_connection E oc callback bits cb i s =
     bind_conf (thread_choose_thread (this_thread oc) bits (cl_threads (net_state s))) (\<lambda>(dest, e).
     let s = s\<lparr> net_state := (net_state s)\<lparr> cl_threads := e \<rparr> \<rparr> in
     bind_conf (client_conn i s) (\<lambda>c.
       case dest of
         Some to_thread \<Rightarrow>
           let msg = \<lparr> msg_action = client_action_of cb, connection_num = conn_id (cl_conn c) \<rparr> in
           send_message (reg_table client_actions) (client_handle_message oc callback) (this_thread oc) to_thread (send_outcome oc to_thread msg) msg s
       | None \<Rightarrow> client_close_connection E i s))"

definition worker_action :: "('h, 'w) client_env \<Rightarrow> occasion \<Rightarrow> client_callback \<Rightarrow> nat \<Rightarrow> ('h, 'w) client_net \<Rightarrow> ('h, 'w) client_net conf" where
  "worker_action E oc cb =
     (case cb of
        Process_Tls_Handshake \<Rightarrow> process_tls_handshake oc
      | Process_Next_Request \<Rightarrow> process_next_request E oc
      | Client_Keepalive_Wait \<Rightarrow> client_keepalive_wait_connection
      | Connect_Host \<Rightarrow> \<lambda>i s. Inl (Broken Undefined))"

definition process_connection :: "('h, 'w) client_env \<Rightarrow> occasion \<Rightarrow> nat \<Rightarrow> ('h, 'w) client_net \<Rightarrow> ('h, 'w) client_net conf" where
  "process_connection E oc = client_forward_connection E oc (worker_action E oc) client_mask_worker Process_Next_Request"

definition process_connection_tls :: "('h, 'w) client_env \<Rightarrow> occasion \<Rightarrow> nat \<Rightarrow> ('h, 'w) client_net \<Rightarrow> ('h, 'w) client_net conf" where
  "process_connection_tls E oc = client_forward_connection E oc (worker_action E oc) client_mask_worker Process_Tls_Handshake"

text \<open>The address that the name stands for is stored even when the search failed.\<close>

definition resolve_host :: "('h, 'w) client_env \<Rightarrow> http_client_request \<Rightarrow> nat \<Rightarrow> ('h, 'w) client_net \<Rightarrow> (bool \<times> ('h, 'w) client_net) conf" where
  "resolve_host E q i s =
     bind_conf (conf_of (resolver_lookup (sys_gethostbyname (ce_calls E)) (host (req_url q)) (port (req_url q)))) (\<lambda>(ok, a).
     bind_conf (set_client i (\<lambda>c. c\<lparr> cl_conn := (cl_conn c)\<lparr> local_addr := a \<rparr> \<rparr>) s) (\<lambda>s. Inr (ok, s)))"

definition open_connection :: "('h, 'w) client_env \<Rightarrow> socket_mode \<Rightarrow> nat \<Rightarrow> ('h, 'w) client_net \<Rightarrow> (bool \<times> ('h, 'w) client_net) conf" where
  "open_connection E mode i s =
     bind_conf (client_conn i s) (\<lambda>c.
     let (ok, k, w) =
       (case mode of
          socket_mode_plain \<Rightarrow> conn_connect_to_host (ce_sys E) (ce_calls E) (get_peer_addr (cl_conn c)) (cl_conn c) (cl_world (net_state s))
        | socket_mode_tls \<Rightarrow>
            conn_connect_to_host_tls (ce_sys E) (ce_calls E) (get_peer_addr (cl_conn c)) (ce_ssl_ctx E) (cl_conn c) (cl_world (net_state s))) in
     bind_conf (set_client i (\<lambda>c. c\<lparr> cl_conn := k \<rparr>) (s\<lparr> net_state := (net_state s)\<lparr> cl_world := w \<rparr> \<rparr>)) (\<lambda>s. Inr (ok, s)))"

definition connect_host :: "('h, 'w) client_env \<Rightarrow> occasion \<Rightarrow> nat \<Rightarrow> ('h, 'w) client_net \<Rightarrow> ('h, 'w) client_net conf" where
  "connect_host E oc i s =
     bind_conf (client_conn i s) (\<lambda>c.
       case url_requests c of
         [] \<Rightarrow> Inl (Broken Undefined)
       | q # qs \<Rightarrow>
           bind_conf (resolve_host E q i s) (\<lambda>(found, s).
             if \<not> found then client_close_connection E i s
             else if scheme (req_url q) = ''https''
             then
               if \<not> ce_ssl_ctx E then Inl Fatal_Exit
               else bind_conf (open_connection E socket_mode_tls i s) (\<lambda>(ok, s).
                 if ok then process_connection_tls E oc i s else client_close_connection E i s)
             else if scheme (req_url q) = ''http''
             then bind_conf (open_connection E socket_mode_plain i s) (\<lambda>(ok, s).
               if ok then process_connection E oc i s else client_close_connection E i s)
             else Inr s))"

definition client_action :: "('h, 'w) client_env \<Rightarrow> occasion \<Rightarrow> client_callback \<Rightarrow> nat \<Rightarrow> ('h, 'w) client_net \<Rightarrow> ('h, 'w) client_net conf" where
  "client_action E oc cb = (case cb of Connect_Host \<Rightarrow> connect_host E oc | _ \<Rightarrow> worker_action E oc cb)"

definition connect_connection :: "('h, 'w) client_env \<Rightarrow> occasion \<Rightarrow> nat \<Rightarrow> ('h, 'w) client_net \<Rightarrow> ('h, 'w) client_net conf" where
  "connect_connection E oc = client_forward_connection E oc (client_action E oc) client_mask_connect Connect_Host"

section \<open>States\<close>

definition client_read_socket :: "('h, 'w) client_env \<Rightarrow> nat \<Rightarrow> ('h, 'w) client_net \<Rightarrow> (io_result \<times> ('h, 'w) client_net) conf" where
  "client_read_socket E i s =
     bind_conf (client_conn i s) (\<lambda>c.
     bind_conf (conf_of (ring_buffer_read (conn_read (ce_sys E) (cl_conn c)) (buffer c) (cl_world (net_state s)))) (\<lambda>(result, b, w).
     bind_conf (set_client i (\<lambda>c. c\<lparr> buffer := b \<rparr>) (s\<lparr> net_state := (net_state s)\<lparr> cl_world := w \<rparr> \<rparr>)) (\<lambda>s. Inr (result, s))))"

definition client_write_socket :: "('h, 'w) client_env \<Rightarrow> nat \<Rightarrow> ('h, 'w) client_net \<Rightarrow> (io_result \<times> ('h, 'w) client_net) conf" where
  "client_write_socket E i s =
     bind_conf (client_conn i s) (\<lambda>c.
     bind_conf (conf_of (ring_buffer_write (conn_write (ce_sys E) (cl_conn c)) (buffer c) (cl_world (net_state s)))) (\<lambda>(result, b, w).
     bind_conf (set_client i (\<lambda>c. c\<lparr> buffer := b \<rparr>) (s\<lparr> net_state := (net_state s)\<lparr> cl_world := w \<rparr> \<rparr>)) (\<lambda>s. Inr (result, s))))"

text \<open>The handshake; 2 and 3 are the results of a library that wants to read or to write.\<close>

definition client_state_tls_handshake :: "('h, 'w) client_env \<Rightarrow> occasion \<Rightarrow> nat \<Rightarrow> ('h, 'w) client_net \<Rightarrow> ('h, 'w) client_net conf" where
  "client_state_tls_handshake E oc i s =
     bind_conf (client_conn i s) (\<lambda>c.
       case sock (cl_conn c) of
         None \<Rightarrow> Inl (Broken NullPointer)
       | Some k \<Rightarrow>
           bind_conf (conf_of (socket_do_handshake (ce_sys E) k (cl_world (net_state s)))) (\<lambda>(ret, w).
           let s = s\<lparr> net_state := (net_state s)\<lparr> cl_world := w \<rparr> \<rparr> in
           if ret = 0 then process_next_request E oc i (client_remove_events (this_thread oc) i s)
           else if ret = 2 \<or> ret = 3 then Inr (client_add_events (this_thread oc) i s)
           else client_close_polled E oc i s))"

definition await_response :: "occasion \<Rightarrow> nat \<Rightarrow> ('h, 'w) client_net \<Rightarrow> ('h, 'w) client_net conf" where
  "await_response oc i s =
     set_client i (\<lambda>c. c\<lparr> cl_state := Client_Server_Response \<rparr>)
       (client_add_events (this_thread oc) i (client_remove_events (this_thread oc) i s))"

definition client_state_client_body :: "('h, 'w) client_env \<Rightarrow> occasion \<Rightarrow> nat \<Rightarrow> ('h, 'w) client_net \<Rightarrow> ('h, 'w) client_net conf" where
  "client_state_client_body E oc i s =
     bind_conf (call_client_handler (write_request_body (ce_class E)) i s) (\<lambda>(result, s).
       if has_error result then client_close_polled E oc i s
       else if io_result.size result = 0 then await_response oc i s
       else Inr s)"

text \<open>The restart of processing in a new state, by \<^verbatim>\<open>handle_connection\<close> with an event without a failure.\<close>

definition restart :: "occasion \<Rightarrow> client_conn_state \<Rightarrow> (nat \<Rightarrow> ('h, 'w) client_net \<Rightarrow> ('h, 'w) client_net conf) \<Rightarrow> nat \<Rightarrow> ('h, 'w) client_net \<Rightarrow> ('h, 'w) client_net conf" where
  "restart oc st state_handler i s =
     bind_conf (set_client i (\<lambda>c. c\<lparr> cl_state := st, cl_conn := (cl_conn c)\<lparr> last_activity := current_time oc \<rparr> \<rparr>) s) (state_handler i)"

definition client_state_client_request :: "('h, 'w) client_env \<Rightarrow> occasion \<Rightarrow> nat \<Rightarrow> ('h, 'w) client_net \<Rightarrow> ('h, 'w) client_net conf" where
  "client_state_client_request E oc i s =
     bind_conf (client_write_socket E i s) (\<lambda>(result, s).
     bind_conf (client_conn i s) (\<lambda>c.
       if has_error result then client_close_polled E oc i s
       else if ring_bytes_readable (buffer c) > 0 then Inr s
       else
         bind_conf (set_client i (\<lambda>c. c\<lparr> buffer := ring_reset (buffer c) \<rparr>) s) (\<lambda>s.
           if request_has_body c then restart oc Client_Body (client_state_client_body E oc) i s
           else await_response oc i s)))"

text \<open>The end of a response: the request is taken off the list, and the next one is sent.\<close>

definition end_client_response :: "('h, 'w) client_env \<Rightarrow> occasion \<Rightarrow> nat \<Rightarrow> ('h, 'w) client_net \<Rightarrow> ('h, 'w) client_net conf" where
  "end_client_response E oc i s =
     bind_conf (call_client_handler (end_client_request (ce_class E)) i s) (\<lambda>(ok, s).
     bind_conf (client_conn i s) (\<lambda>c.
       if \<not> ok \<or> connection_close c then client_close_polled E oc i s
       else
         case url_requests c of
           [] \<Rightarrow> Inl (Broken Undefined)
         | q # qs \<Rightarrow>
             bind_conf (set_client i (\<lambda>c. c\<lparr> cl_handler := None, cl_requests_processed := cl_requests_processed c + 1, url_requests := qs \<rparr>)
               (client_remove_events (this_thread oc) i s)) (\<lambda>s.
               if qs \<noteq> [] then process_connection E oc i s else client_close_connection E i s)))"

definition client_state_server_body :: "('h, 'w) client_env \<Rightarrow> occasion \<Rightarrow> nat \<Rightarrow> ('h, 'w) client_net \<Rightarrow> ('h, 'w) client_net conf" where
  "client_state_server_body E oc i s =
     bind_conf (call_client_handler (read_response_body (ce_class E)) i s) (\<lambda>(result, s).
       if has_error result then client_close_polled E oc i s
       else if io_result.size result = 0 then end_client_response E oc i s
       else Inr s)"

definition parse_response :: "int \<Rightarrow> (http_client_connection, 'w) conn_op" where
  "parse_response n c w =
     bind_cxx (response_parse (ring_chars (buffer c)) (unat (ring_back (buffer c) - word_of_int n)) (nat n) (response c)) (\<lambda>(m, r).
       Inr (c\<lparr> response := r, buffer := (buffer c)\<lparr> ring_front := ring_front (buffer c) + word_of_int n \<rparr> \<rparr>, w))"

text \<open>The part of the body that came with the head is moved to the start of the buffer.\<close>

definition take_response_body :: "http_client_connection \<Rightarrow> http_client_connection cxx" where
  "take_response_body c =
     bind_cxx (case body_start (response c) of
         None \<Rightarrow> Inr []
       | Some (off, n) \<Rightarrow> read_range (ring (buffer c)) off n) (\<lambda>src.
     bind_cxx (ring_set (buffer c) src) (\<lambda>b. Inr (c\<lparr> buffer := b \<rparr>)))"

definition client_state_server_response :: "('h, 'w) client_env \<Rightarrow> occasion \<Rightarrow> nat \<Rightarrow> ('h, 'w) client_net \<Rightarrow> ('h, 'w) client_net conf" where
  "client_state_server_response E oc i s =
     bind_conf (client_conn i s) (\<lambda>c.
       if ring_bytes_writable (buffer c) = 0 then client_close_polled E oc i s
       else
         bind_conf (client_read_socket E i s) (\<lambda>(result, s).
           if has_error result then client_close_polled E oc i s
           else
             bind_conf (with_client i (parse_response (io_result.size result)) s) (\<lambda>s.
             bind_conf (client_conn i s) (\<lambda>c.
               if parser_is_finished (parser (response c))
               then
                 bind_conf (call_client_handler (handle_response (ce_class E)) i s) (\<lambda>(ok, s).
                 bind_conf (client_conn i s) (\<lambda>c.
                   if response_has_body c
                   then
                     bind_conf (with_client i (\<lambda>c w. bind_cxx (take_response_body c) (\<lambda>c. Inr (c, w))) s) (\<lambda>s.
                       restart oc Client_Server_Body (client_state_server_body E oc) i s)
                   else end_client_response E oc i s))
               else if response_has_error (response c) then client_close_polled E oc i s
               else Inr s))))"

text \<open>The thread goes on waiting for the connection.\<close>

definition client_state_waiting :: "('h, 'w) client_env \<Rightarrow> nat \<Rightarrow> ('h, 'w) client_net \<Rightarrow> ('h, 'w) client_net conf" where
  "client_state_waiting E = client_close_connection E"

section \<open>Events\<close>

definition client_call_state :: "('h, 'w) client_env \<Rightarrow> occasion \<Rightarrow> client_conn_state \<Rightarrow> nat \<Rightarrow> ('h, 'w) client_net \<Rightarrow> ('h, 'w) client_net conf" where
  "client_call_state E oc st =
     (case st of
        Client_Free \<Rightarrow> client_close_polled E oc
      | Client_Tls_Handshake \<Rightarrow> client_state_tls_handshake E oc
      | Client_Request \<Rightarrow> client_state_client_request E oc
      | Client_Body \<Rightarrow> client_state_client_body E oc
      | Client_Server_Response \<Rightarrow> client_state_server_response E oc
      | Client_Server_Body \<Rightarrow> client_state_server_body E oc
      | Client_Waiting \<Rightarrow> client_state_waiting E)"

definition client_handle_connection :: "('h, 'w) client_env \<Rightarrow> occasion \<Rightarrow> bool \<Rightarrow> nat \<Rightarrow> ('h, 'w) client_net \<Rightarrow> ('h, 'w) client_net conf" where
  "client_handle_connection E oc failed i s =
     (if failed then client_close_polled E oc i s
      else
        bind_conf (set_client i (\<lambda>c. c\<lparr> cl_conn := (cl_conn c)\<lparr> last_activity := current_time oc \<rparr> \<rparr>) s) (\<lambda>s.
        bind_conf (client_conn i s) (\<lambda>c. client_call_state E oc (cl_state c) i s)))"

definition client_timeout_connection :: "('h, 'w) client_env \<Rightarrow> occasion \<Rightarrow> nat \<Rightarrow> ('h, 'w) client_net \<Rightarrow> ('h, 'w) client_net conf" where
  "client_timeout_connection E oc i s =
     bind_conf (client_conn i s) (\<lambda>c.
     let idle = current_time oc - last_activity (cl_conn c) in
     if cl_state c \<in> {Client_Request, Client_Body, Client_Server_Response, Client_Server_Body}
     then if idle > connection_timeout (ce_config E) then client_close_polled E oc i s else Inr s
     else if cl_state c = Client_Waiting
     then if idle > keepalive_timeout (ce_config E) then client_close_polled E oc i s else Inr s
     else Inr s)"

section \<open>Submitting requests\<close>

definition get_new_connection_for_url :: "('h, 'w) client_env \<Rightarrow> url \<Rightarrow> ('h, 'w) client_net \<Rightarrow> (nat option \<times> ('h, 'w) client_net) conf" where
  "get_new_connection_for_url E u s =
     bind_conf (conf_of (new_connection (client_connection_init E) (cl_pool (net_state s)) (cl_world (net_state s)))) (\<lambda>(r, p, w).
     let v = (net_state s)\<lparr> cl_pool := p, cl_world := w \<rparr> in
     case r of
       None \<Rightarrow> Inr (None, s\<lparr> net_state := v \<rparr>)
     | Some i \<Rightarrow>
         let queue = (case map_of (connections_host_map v) (host u) of None \<Rightarrow> [i] | Some is \<Rightarrow> is @ [i]) in
         bind_conf (set_client i (\<lambda>c. c\<lparr> remote_host := host u \<rparr>)
             (s\<lparr> net_state := v\<lparr> connections_host_map := map_assign (host u) queue (connections_host_map v) \<rparr> \<rparr>)) (\<lambda>s.
           Inr (Some i, s)))"

text \<open>The first connection that was made for the host and has room for a request; the list of connections is rotated.\<close>

fun find_room :: "http_client_connection list \<Rightarrow> nat \<Rightarrow> nat list \<Rightarrow> nat option cxx" where
  "find_room table max_requests [] = Inr None"
| "find_room table max_requests (i # is) =
     bind_cxx (index_cxx table i) (\<lambda>c. if length (url_requests c) < max_requests then Inr (Some i) else find_room table max_requests is)"

definition get_existing_connection_for_url :: "url \<Rightarrow> nat \<Rightarrow> ('h, 'w) client_net \<Rightarrow> (nat option \<times> ('h, 'w) client_net) conf" where
  "get_existing_connection_for_url u max_requests s =
     (case map_of (connections_host_map (net_state s)) (host u) of
        None \<Rightarrow> Inr (None, s)
      | Some queue \<Rightarrow>
          bind_conf (conf_of (find_room (connections_all (cl_pool (net_state s))) max_requests queue)) (\<lambda>found.
            case found of
              None \<Rightarrow> Inr (None, s)
            | Some i \<Rightarrow>
                Inr (Some i,
                  if length queue > 1
                  then s\<lparr> net_state := (net_state s)\<lparr> connections_host_map :=
                         map_assign (host u) (tl queue @ [hd queue]) (connections_host_map (net_state s)) \<rparr> \<rparr>
                  else s)))"

text \<open>
  A new connection is given to a thread that the engine chooses; the connection is forwarded in the name of
  this thread, although it is not the one that runs.
\<close>

definition start_connection :: "('h, 'w) client_env \<Rightarrow> occasion \<Rightarrow> nat \<Rightarrow> ('h, 'w) client_net \<Rightarrow> ('h, 'w) client_net conf" where
  "start_connection E oc i s =
     bind_conf (choose_thread client_mask_connect (cl_threads (net_state s))) (\<lambda>(dest, e).
     let s = s\<lparr> net_state := (net_state s)\<lparr> cl_threads := e \<rparr> \<rparr> in
     case dest of
       None \<Rightarrow> Inl (Broken NullPointer)
     | Some t \<Rightarrow> connect_connection E (oc\<lparr> this_thread := t \<rparr>) i s)"

definition submit_request :: "('h, 'w) client_env \<Rightarrow> occasion \<Rightarrow> http_client_request \<Rightarrow> nat \<Rightarrow> ('h, 'w) client_net \<Rightarrow> (bool \<times> ('h, 'w) client_net) conf" where
  "submit_request E oc q max_requests s =
     (if scheme (req_url q) \<noteq> ''http'' \<and> scheme (req_url q) \<noteq> ''https'' then Inr (False, s)
      else
        bind_conf (if max_requests > 0 then get_existing_connection_for_url (req_url q) max_requests s else Inr (None, s)) (\<lambda>(r, s).
        bind_conf (case r of None \<Rightarrow> Inr (False, s) | Some i \<Rightarrow>
            bind_conf (client_conn i s) (\<lambda>c.
              if url_requests c \<noteq> []
              then bind_conf (set_client i (\<lambda>c. c\<lparr> url_requests := url_requests c @ [q] \<rparr>) s) (\<lambda>s. Inr (True, s))
              else Inr (False, s))) (\<lambda>(queued, s).
          if queued then Inr (True, s)
          else
            bind_conf (get_new_connection_for_url E (req_url q) s) (\<lambda>(r, s).
              case r of
                None \<Rightarrow> Inr (False, s)
              | Some i \<Rightarrow>
                  bind_conf (set_client i (\<lambda>c. c\<lparr> url_requests := url_requests c @ [q] \<rparr>) s) (\<lambda>s.
                  bind_conf (start_connection E oc i s) (\<lambda>s. Inr (True, s)))))))"

end
