(* ===== verification/Http_Client_File.thy ===== *)
theory Http_Client_File
  imports Http_Client "HOL-Library.Sublist"
begin

text \<open>
  \<^verbatim>\<open>src/http_client_handler_file.cc\<close>: the handler that writes the body of a response to a file. The main theorem
  is that a body of the announced length is read to its end, whatever the pieces it comes in, and arrives in
  the file when the file takes what it is given.
\<close>

section \<open>The handler\<close>

record client_file_handler =
  cf_version :: int
  cf_status :: int
  cf_method :: int
  cf_content_length :: int
  cf_total_read :: int
  cf_file :: io_file

text \<open>The call that writes to a file returns a negative number on failure, and \<^verbatim>\<open>errno\<close>; the last value of
  \<^verbatim>\<open>errno\<close> can be read later.\<close>

record 'w client_file_env =
  fe_constants :: constants
  fe_sys :: "'w system"
  fe_write :: "int \<Rightarrow> byte list \<Rightarrow> 'w \<Rightarrow> int \<times> int \<times> 'w"
  fe_errno :: "'w \<Rightarrow> int"

text \<open>\<^verbatim>\<open>strtoll\<close> with base 10 gives the nearest value of the type for a number that is out of range.\<close>

definition strtoll :: "string \<Rightarrow> int" where
  "strtoll str =
     (let t = dropWhile c_isspace (c_str str);
          neg = (t \<noteq> [] \<and> hd t = CHR ''-'');
          ds = (if t \<noteq> [] \<and> (hd t = CHR ''-'' \<or> hd t = CHR ''+'') then tl t else t);
          v = int (digits_value (takeWhile c_isdigit ds))
      in if neg then max (- v) (- (2 ^ 63)) else min v (2 ^ 63 - 1))"

definition client_file_init :: "client_file_handler \<Rightarrow> client_file_handler" where
  "client_file_init h =
     h\<lparr> cf_version := version_value HTTPVersion11, cf_status := status_value HTTPStatusCodeNone, cf_method := method_value HTTPMethodNone,
        cf_content_length := - 1, cf_total_read := 0 \<rparr>"

definition client_file_populate_request :: "'w client_file_env \<Rightarrow> (client_file_handler, 'w, bool) client_op" where
  "client_file_populate_request F h c w =
     bind_cxx (show_c_string (request c) (http_version (request c))) (\<lambda>v.
     bind_cxx (show_c_string (request c) (request_method (request c))) (\<lambda>m.
     let meth = get_method_type (fe_constants F) m;
         h = h\<lparr> cf_version := get_version_type (fe_constants F) v, cf_method := meth \<rparr>;
         c = c\<lparr> request_has_body := (meth = method_value HTTPMethodPOST), response_has_body := (meth \<noteq> method_value HTTPMethodHEAD) \<rparr> in
       Inr (True, h, c, w)))"

definition client_file_write_request_body :: "(client_file_handler, 'w, io_result) client_op" where
  "client_file_write_request_body h c w = Inr (io_size 0, h, c, w)"

definition client_file_handle_response :: "'w client_file_env \<Rightarrow> (client_file_handler, 'w, bool) client_op" where
  "client_file_handle_response F h c w =
     bind_cxx (show_c_string (response c) (http_version (response c))) (\<lambda>v.
     let h = h\<lparr> cf_version := get_version_type (fe_constants F) v, cf_status := status_code (response c) \<rparr> in
     bind_cxx (get_header_string (response c) ''Connection'') (\<lambda>connection_str.
     let c = c\<lparr> connection_close := closes (cf_version h) connection_str \<rparr> in
     bind_cxx (get_header_string (response c) ''Content-Length'') (\<lambda>length_str.
       Inr (True, h\<lparr> cf_content_length := (case length_str of None \<Rightarrow> - 1 | Some str \<Rightarrow> strtoll str), cf_total_read := 0 \<rparr>, c, w))))"

definition file_writer :: "'w client_file_env \<Rightarrow> io_file \<Rightarrow> 'w write_op" where
  "file_writer F f w buf = Inr (file_write (fe_write F) f buf w)"

text \<open>
  The bytes in the buffer are written to the file, when there is one, and count as read; bytes that the
  file did not take are dropped with the buffer.
\<close>

definition store_body :: "'w client_file_env \<Rightarrow> client_file_handler \<Rightarrow> http_client_connection \<Rightarrow> 'w \<Rightarrow> (client_file_handler \<times> http_client_connection \<times> 'w) cxx" where
  "store_body F h c w =
     bind_cxx (if fd (cf_file h) \<ge> 0 then ring_buffer_write (file_writer F (cf_file h)) (buffer c) w else Inr (io_size 0, buffer c, w)) (\<lambda>(result, b, w).
       Inr (h\<lparr> cf_total_read := cf_total_read h + to_ssize (unat (ring_bytes_readable (buffer c))) \<rparr>, c\<lparr> buffer := ring_reset b \<rparr>, w))"

definition bytes_left :: "client_file_handler \<Rightarrow> io_result" where
  "bytes_left h = (if cf_content_length h \<ge> 0 then io_size (cf_content_length h - cf_total_read h) else io_size (- 1))"

definition client_file_read_response_body :: "'w client_file_env \<Rightarrow> (client_file_handler, 'w, io_result) client_op" where
  "client_file_read_response_body F h c w =
     (if ring_bytes_readable (buffer c) > 0
      then bind_cxx (store_body F h c w) (\<lambda>(h, c, w). Inr (bytes_left h, h, c, w))
      else if cf_total_read h = cf_content_length h then Inr (io_size 0, h, c, w)
      else
        bind_cxx (ring_buffer_read (conn_read (fe_sys F) (cl_conn c)) (buffer c) w) (\<lambda>(result, b, w).
        let c = c\<lparr> buffer := b \<rparr> in
        if has_error result then Inr (io_failed (fe_errno F w), h, c, w)
        else if ring_bytes_readable b > 0
        then bind_cxx (store_body F h c w) (\<lambda>(h, c, w). Inr (bytes_left h, h, c, w))
        else Inr (bytes_left h, h, c, w)))"

definition client_file_end_request :: "(client_file_handler, 'w, bool) client_op" where
  "client_file_end_request h c w = Inr (True, h, c, w)"

definition client_file_class :: "'w client_file_env \<Rightarrow> (client_file_handler, 'w) client_handler_class" where
  "client_file_class F =
     \<lparr> init_handler = (\<lambda>now. client_file_init), populate_request = client_file_populate_request F,
       write_request_body = client_file_write_request_body, handle_response = client_file_handle_response F,
       read_response_body = client_file_read_response_body F, end_client_request = client_file_end_request \<rparr>"

section \<open>The buffer while a body is read\<close>

lemma ring_read_fresh:
  assumes "ring_shape m 0 0 r"
  shows "ring_buffer_read read r w = bind_cxx (read w (ring r) (length (ring r))) (\<lambda>(res, bytes, w).
    Inr (res, r\<lparr> ring := bytes, ring_back := word_of_int (io_result.size res) \<rparr>, w))"
proof -
  note d = ring_shapeD [OF assms] and y = ring_bytes [OF assms]
  have small: "length (ring r) < 2 ^ 62"
    using d(2) by simp
  have "unat (of_nat (length (ring r)) :: u64) = length (ring r)"
    by (rule unat_u64 [OF small])
  moreover have "of_nat (length (ring r)) \<noteq> (0 :: u64)"
    using d(1) calculation by (metis unat_0 less_irrefl)
  ultimately show ?thesis
    using d(9) unfolding ring_buffer_read_def Let_def y(3) unfolding y(2) d(11) by simp
qed

lemma ring_write_held:
  assumes "ring_shape m b 0 r" "0 < b"
  shows "ring_buffer_write write r w = bind_cxx (write w (take b (ring r))) (\<lambda>(res, w).
    Inr (res, r\<lparr> ring_front := ring_front r + word_of_int (io_result.size res) \<rparr>, w))"
proof -
  note d = ring_shapeD [OF assms(1)] and y = ring_bytes [OF assms(1)]
  have small: "length (ring r) < 2 ^ 62" "b < 2 ^ 62"
    using d(2,4) by simp_all
  have u: "unat (of_nat (length (ring r)) :: u64) = length (ring r)" "unat (of_nat b :: u64) = b"
    using small unat_u64 by blast+
  have "min (of_nat (length (ring r))) (of_nat b) = (of_nat b :: u64)"
    using d(4) u by (simp add: min_def word_le_nat_alt)
  moreover have "of_nat b \<noteq> (0 :: u64)"
    using assms(2) u(2) by (metis unat_0 less_irrefl)
  ultimately show ?thesis
    using d(4) u(2) unfolding ring_buffer_write_def Let_def y(4) unfolding y(1) d(12) by (simp add: read_range_def)
qed

text \<open>The bytes at the start of a buffer that nothing was taken from since it was reset.\<close>

definition holds :: "byte list \<Rightarrow> io_ring_buffer \<Rightarrow> bool" where
  "holds bs r \<longleftrightarrow> length (ring r) < 2 ^ 47 \<and> ring_shape 0 (length bs) 0 r \<and> take (length bs) (ring r) = bs"

lemma holds_readable:
  assumes "holds bs r"
  shows "unat (ring_bytes_readable r) = length bs" "0 < ring_bytes_readable r \<longleftrightarrow> bs \<noteq> []"
proof -
  have shape: "ring_shape 0 (length bs) 0 r"
    using assms by (simp add: holds_def)
  have "length bs < 2 ^ 62"
    using ring_shapeD(2,4) [OF shape] by simp
  then show readable: "unat (ring_bytes_readable r) = length bs"
    by (simp add: ring_bytes(1) [OF shape] unat_u64)
  show "0 < ring_bytes_readable r \<longleftrightarrow> bs \<noteq> []"
    using readable by (metis length_greater_0_conv word_gt_0 unat_eq_0 neq0_conv)
qed

lemma holds_reset:
  assumes "holds bs r"
  shows "holds [] (ring_reset (r\<lparr> ring_front := x \<rparr>))"
proof -
  have "ring_reset (r\<lparr> ring_front := x \<rparr>) = ring_reset r"
    by (simp add: ring_reset_def ring_size_def)
  then show ?thesis
    using assms ring_reset_shape(1) [of 0 "length bs" 0 r 0] by (simp add: holds_def) (simp add: ring_reset_def)
qed

lemma holds_filled:
  assumes "holds [] r" "length bs \<le> length (ring r)"
  shows "holds bs (r\<lparr> ring := overwrite (ring r) 0 bs, ring_back := of_nat (length bs) \<rparr>)"
  using assms by (auto simp: holds_def ring_shape_def overwrite_def)

section \<open>A body arrives in the file\<close>

text \<open>
  What the socket and the file do: the socket delivers at least a byte as long as there are some, as it does
  for a descriptor that was reported as ready; a write to the file fails or takes the first bytes that it is
  given, and a file with enough room takes all of them.
\<close>

definition socket_delivers :: "'w client_file_env \<Rightarrow> connection \<Rightarrow> ('w \<Rightarrow> byte list) \<Rightarrow> ('w \<Rightarrow> byte list) \<Rightarrow> bool" where
  "socket_delivers F k incoming stored \<longleftrightarrow>
     (\<forall>w buf len. 0 < len \<longrightarrow> len \<le> length buf \<longrightarrow>
        (\<exists>n w'. conn_read (fe_sys F) k w buf len = Inr (io_size (int n), overwrite buf 0 (take n (incoming w)), w') \<and>
           n \<le> len \<and> n \<le> length (incoming w) \<and> (incoming w \<noteq> [] \<longrightarrow> 0 < n) \<and> incoming w' = drop n (incoming w) \<and> stored w' = stored w))"

definition file_writes :: "'w client_file_env \<Rightarrow> int \<Rightarrow> ('w \<Rightarrow> byte list) \<Rightarrow> ('w \<Rightarrow> byte list) \<Rightarrow> bool" where
  "file_writes F desc incoming stored \<longleftrightarrow>
     (\<forall>w buf. \<exists>r e w' k. fe_write F desc buf w = (r, e, w') \<and> (r < 0 \<and> k = 0 \<or> r = int k) \<and> k \<le> length buf \<and>
        stored w' = stored w @ take k buf \<and> incoming w' = incoming w)"

definition file_takes :: "'w client_file_env \<Rightarrow> int \<Rightarrow> ('w \<Rightarrow> byte list) \<Rightarrow> ('w \<Rightarrow> byte list) \<Rightarrow> bool" where
  "file_takes F desc incoming stored \<longleftrightarrow>
     (\<forall>w buf. \<exists>e w'. fe_write F desc buf w = (int (length buf), e, w') \<and> stored w' = stored w @ buf \<and> incoming w' = incoming w)"

text \<open>The calls that the state for the body makes, until the result is an error or that nothing is left.\<close>

fun read_body :: "'w client_file_env \<Rightarrow> nat \<Rightarrow> client_file_handler \<Rightarrow> http_client_connection \<Rightarrow> 'w \<Rightarrow>
    (io_result \<times> client_file_handler \<times> http_client_connection \<times> 'w) option cxx" where
  "read_body F 0 h c w = Inr None"
| "read_body F (Suc fuel) h c w =
     bind_cxx (client_file_read_response_body F h c w) (\<lambda>(result, h, c, w).
       if has_error result \<or> io_result.size result = 0 then Inr (Some (result, h, c, w)) else read_body F fuel h c w)"

lemma holds_ssize:
  assumes "holds bs r"
  shows "to_ssize (unat (ring_bytes_readable r)) = int (length bs)"
proof -
  have "ring_shape 0 (length bs) 0 r"
    using assms by (simp add: holds_def)
  then have "length bs < 2 ^ 63"
    using ring_shapeD(2,4) [of 0 "length bs" 0 r] by simp
  then show ?thesis
    by (simp add: holds_readable [OF assms] to_ssize_def)
qed

lemma store_body_ok:
  assumes "file_writes F (fd (cf_file h)) incoming stored" "0 \<le> fd (cf_file h)" "holds bs (buffer c)" "bs \<noteq> []"
  shows "\<exists>b w' xs. store_body F h c w = Inr (h\<lparr> cf_total_read := cf_total_read h + int (length bs) \<rparr>, c\<lparr> buffer := b \<rparr>, w') \<and>
    holds [] b \<and> stored w' = stored w @ xs \<and> incoming w' = incoming w \<and> subseq xs bs \<and>
    (file_takes F (fd (cf_file h)) incoming stored \<longrightarrow> xs = bs)"
proof -
  obtain r e w' k where w: "fe_write F (fd (cf_file h)) bs w = (r, e, w')" "stored w' = stored w @ take k bs" "incoming w' = incoming w"
      "r < 0 \<and> k = 0 \<or> r = int k" "k \<le> length bs"
    using assms(1) unfolding file_writes_def by blast
  have all: "take k bs = bs" if full: "file_takes F (fd (cf_file h)) incoming stored"
  proof -
    obtain e1 w1 where "fe_write F (fd (cf_file h)) bs w = (int (length bs), e1, w1)"
      using full unfolding file_takes_def by blast
    then show ?thesis
      using w(1,4) by simp
  qed
  have shape: "ring_shape 0 (length bs) 0 (buffer c)" "take (length bs) (ring (buffer c)) = bs"
    using assms(3) by (simp_all add: holds_def)
  have "subseq (take k bs) bs"
    by (intro prefix_imp_subseq take_is_prefix)
  then show ?thesis
    using w assms(2,4) holds_reset [OF assms(3)] holds_ssize [OF assms(3)] all
    by (auto simp: store_body_def ring_write_held [OF shape(1)] shape(2) file_writer_def file_write_def)
qed

lemma read_socket_ok:
  assumes "socket_delivers F k incoming stored" "holds [] r"
  shows "\<exists>n b w'. ring_buffer_read (conn_read (fe_sys F) k) r w = Inr (io_size (int n), b, w') \<and> holds (take n (incoming w)) b \<and>
    n \<le> length (incoming w) \<and> (incoming w \<noteq> [] \<longrightarrow> 0 < n) \<and> incoming w' = drop n (incoming w) \<and> stored w' = stored w"
proof -
  have shape: "ring_shape 0 0 0 r"
    using assms(2) by (simp add: holds_def)
  obtain n w' where n: "conn_read (fe_sys F) k w (ring r) (length (ring r)) = Inr (io_size (int n), overwrite (ring r) 0 (take n (incoming w)), w')"
      "n \<le> length (ring r)" "n \<le> length (incoming w)" "incoming w \<noteq> [] \<longrightarrow> 0 < n" "incoming w' = drop n (incoming w)" "stored w' = stored w"
    using assms(1) ring_shapeD(1) [OF shape] unfolding socket_delivers_def by (metis order_refl)
  then show ?thesis
    using holds_filled [OF assms(2), of "take n (incoming w)"] by (auto simp: ring_read_fresh [OF shape])
qed

lemma read_body_ok:
  assumes "socket_delivers F (cl_conn c) incoming stored" "file_writes F (fd (cf_file h)) incoming stored" "0 \<le> fd (cf_file h)"
    "holds bs (buffer c)" "cf_content_length h = cf_total_read h + int (length bs) + int (length (incoming w))" "0 \<le> cf_total_read h"
    "length bs + length (incoming w) < fuel"
  shows "\<exists>h' c' w' xs. read_body F fuel h c w = Inr (Some (io_size 0, h', c', w')) \<and>
    stored w' = stored w @ xs \<and> subseq xs (bs @ incoming w) \<and> (file_takes F (fd (cf_file h)) incoming stored \<longrightarrow> xs = bs @ incoming w) \<and>
    incoming w' = [] \<and> cf_total_read h' = cf_content_length h \<and> holds [] (buffer c')"
  using assms
proof (induction fuel arbitrary: h c w bs)
  case (Suc fuel)
  let ?full = "file_takes F (fd (cf_file h)) incoming stored"
  have go_on: "\<exists>h' c' w' xs. read_body F (Suc fuel) h c w = Inr (Some (io_size 0, h', c', w')) \<and>
      stored w' = stored w @ xs \<and> subseq xs (bs @ incoming w) \<and> (?full \<longrightarrow> xs = bs @ incoming w) \<and>
      incoming w' = [] \<and> cf_total_read h' = cf_content_length h \<and> holds [] (buffer c')"
    if step: "client_file_read_response_body F h c w = Inr (bytes_left h1, h1, c1, w1)"
      and h1: "h1 = h\<lparr> cf_total_read := cf_total_read h + int (length cs) \<rparr>" and c1: "cl_conn c1 = cl_conn c" "holds [] (buffer c1)"
      and w1: "stored w1 = stored w @ xs" "subseq xs cs" "?full \<longrightarrow> xs = cs" "cs @ incoming w1 = bs @ incoming w"
      and less: "incoming w1 \<noteq> [] \<longrightarrow> length (incoming w1) < fuel" for h1 c1 w1 cs xs
  proof -
    have len: "length cs + length (incoming w1) = length bs + length (incoming w)"
      using arg_cong [OF w1(4), of length] by simp
    then have left: "bytes_left h1 = io_size (int (length (incoming w1)))"
      using Suc.prems(5,6) by (simp add: bytes_left_def h1)
    have total: "cf_content_length h1 = cf_content_length h"
      by (simp add: h1)
    show ?thesis
    proof (cases "incoming w1 = []")
      case True
      then have "read_body F (Suc fuel) h c w = Inr (Some (io_size 0, h1, c1, w1))"
        by (simp add: step left)
      moreover have "cf_total_read h1 = cf_content_length h"
        using True len Suc.prems(5) by (simp add: h1)
      ultimately show ?thesis
        using True w1 c1(2) by auto
    next
      case False
      have "cf_content_length h1 = cf_total_read h1 + int (length ([] :: byte list)) + int (length (incoming w1))" "0 \<le> cf_total_read h1"
        using len Suc.prems(5,6) by (simp_all add: h1)
      then obtain h' c' w' ys where ys: "read_body F fuel h1 c1 w1 = Inr (Some (io_size 0, h', c', w'))" "stored w' = stored w1 @ ys"
          "subseq ys (incoming w1)" "?full \<longrightarrow> ys = incoming w1" "incoming w' = []" "cf_total_read h' = cf_content_length h1" "holds [] (buffer c')"
        using Suc.IH [of c1 h1 "[]" w1] c1 Suc.prems(1-3) False less by (auto simp: h1)
      have "subseq (xs @ ys) (bs @ incoming w)"
        unfolding w1(4) [symmetric] using w1(2) ys(3) by (rule list_emb_append_mono)
      then show ?thesis
        using w1 ys False by (intro exI [of _ h'] exI [of _ c'] exI [of _ w'] exI [of _ "xs @ ys"]) (auto simp: step left total)
    qed
  qed
  show ?case
  proof (cases "bs = []")
    case False
    obtain b w1 xs where s: "store_body F h c w = Inr (h\<lparr> cf_total_read := cf_total_read h + int (length bs) \<rparr>, c\<lparr> buffer := b \<rparr>, w1)"
        "holds [] b" "stored w1 = stored w @ xs" "incoming w1 = incoming w" "subseq xs bs" "?full \<longrightarrow> xs = bs"
      using store_body_ok [OF Suc.prems(2-4) False] by blast
    then show ?thesis
      using False Suc.prems(7) holds_readable(2) [OF Suc.prems(4)]
      by (intro go_on [where ?c1.0 = "c\<lparr> buffer := b \<rparr>" and ?w1.0 = w1 and cs = bs and xs = xs]) (auto simp: client_file_read_response_body_def neq_Nil_conv)
  next
    case True
    show ?thesis
    proof (cases "incoming w = []")
      case nothing: True
      then show ?thesis
        using True Suc.prems(4,5) holds_readable(2) [OF Suc.prems(4)] by (simp add: client_file_read_response_body_def)
    next
      case False
      obtain n b w0 where r: "ring_buffer_read (conn_read (fe_sys F) (cl_conn c)) (buffer c) w = Inr (io_size (int n), b, w0)"
          "holds (take n (incoming w)) b" "n \<le> length (incoming w)" "0 < n" "incoming w0 = drop n (incoming w)" "stored w0 = stored w"
        using read_socket_ok [OF Suc.prems(1), of "buffer c" w] Suc.prems(4) True False by auto
      have some: "take n (incoming w) \<noteq> []" "length (take n (incoming w)) = n"
        using r(3,4) False by simp_all
      obtain b1 w1 xs where s: "store_body F h (c\<lparr> buffer := b \<rparr>) w0 =
            Inr (h\<lparr> cf_total_read := cf_total_read h + int n \<rparr>, c\<lparr> buffer := b1 \<rparr>, w1)"
          "holds [] b1" "stored w1 = stored w @ xs" "incoming w1 = drop n (incoming w)" "subseq xs (take n (incoming w))"
          "?full \<longrightarrow> xs = take n (incoming w)"
        using store_body_ok [OF Suc.prems(2,3) _ some(1), of "c\<lparr> buffer := b \<rparr>" w0] r some(2) by auto
      have "cf_total_read h \<noteq> cf_content_length h"
        using Suc.prems(5) False True by simp
      then show ?thesis
        using True False s r some Suc.prems(7) holds_readable(2) [OF Suc.prems(4)] holds_readable(2) [OF r(2)]
        by (intro go_on [where ?c1.0 = "c\<lparr> buffer := b1 \<rparr>" and ?w1.0 = w1 and cs = "take n (incoming w)" and xs = xs])
          (auto simp: client_file_read_response_body_def Let_def)
    qed
  qed
qed simp

text \<open>The part of the body that came with the head.\<close>

definition body_fragment :: "http_client_connection \<Rightarrow> byte list" where
  "body_fragment c = (case body_start (response c) of None \<Rightarrow> [] | Some (off, n) \<Rightarrow> take n (drop off (ring (buffer c))))"

lemma take_response_body_ok:
  assumes "ring_shape m b f (buffer c)" "length (ring (buffer c)) < 2 ^ 47"
    "\<And>off n. body_start (response c) = Some (off, n) \<Longrightarrow> off + n \<le> length (ring (buffer c))"
  shows "\<exists>r. take_response_body c = Inr (c\<lparr> buffer := r \<rparr>) \<and> holds (body_fragment c) r"
proof -
  let ?bs = "body_fragment c"
  have len: "length ?bs \<le> length (ring (buffer c))"
    by (auto simp: body_fragment_def split: option.splits)
  have "(case body_start (response c) of None \<Rightarrow> Inr [] | Some (off, n) \<Rightarrow> read_range (ring (buffer c)) off n) = Inr ?bs"
    using assms(3) by (auto simp: body_fragment_def read_range_def split: option.splits)
  moreover have "holds ?bs ((buffer c)\<lparr> ring_back := of_nat (length ?bs), ring_front := ring_size (buffer c), ring := overwrite (ring (buffer c)) 0 ?bs \<rparr>)"
    using assms(1,2) len by (auto simp: holds_def ring_shape_def overwrite_def ring_size_def)
  ultimately show ?thesis
    using len by (auto simp: take_response_body_def ring_set_def write_range_def)
qed

lemma strtoll_show_nat: "n < 2 ^ 63 \<Longrightarrow> strtoll (show_nat n) = int n"
proof -
  assume n: "n < 2 ^ 63"
  have digits: "\<forall>c \<in> set (show_nat n). c_isdigit c"
    by (rule show_nat_digits)
  have "c_str (show_nat n) = show_nat n"
    using show_nat_plain(1) [of n] by (simp add: c_str_def takeWhile_eq_all_conv) metis
  moreover have "hd (show_nat n) \<in> set (show_nat n)"
    by simp
  then have "hd (show_nat n) \<noteq> CHR ''-''" "hd (show_nat n) \<noteq> CHR ''+''" "\<not> c_isspace (hd (show_nat n))"
    using digits digit_facts by blast+
  moreover from this(3) have "dropWhile c_isspace (show_nat n) = show_nat n"
    by (cases "show_nat n") simp_all
  moreover have "int n \<le> 2 ^ 63 - 1"
    using n by simp
  ultimately show ?thesis
    by (simp add: strtoll_def Let_def)
qed

text \<open>
  C14. A response whose head announces the length of its body, over a socket that delivers the rest of it in
  any pieces: the handler reports the end when the announced number of bytes was read, after at most one call
  for each byte and one more. What the file then has beside what it had is, in order, the part of the body that came with
  the head and what the socket delivered when every write takes all it is given; when a write fails or is
  short, what it did not take is missing, and the end is reported all the same.
\<close>

theorem body_received:
  assumes "socket_delivers F (cl_conn c) incoming stored" "file_writes F (fd (cf_file h)) incoming stored" "0 \<le> fd (cf_file h)"
    and "ring_shape m b f (buffer c)" "length (ring (buffer c)) < 2 ^ 47"
      "\<forall>off n. body_start (response c) = Some (off, n) \<longrightarrow> off + n \<le> length (ring (buffer c))"
    and "get_header_string (response c) ''Content-Length'' = Inr (Some (show_nat n))" "n < 2 ^ 63"
    and "length (body_fragment c) + length (incoming w) = n" "n < fuel"
    and "client_file_handle_response F h c w = Inr (ok, h1, c1, w1)"
  shows "\<exists>c2 h3 c3 w3 xs. take_response_body c1 = Inr c2 \<and> read_body F fuel h1 c2 w1 = Inr (Some (io_size 0, h3, c3, w3)) \<and>
    incoming w3 = [] \<and> cf_total_read h3 = int n \<and> stored w3 = stored w @ xs \<and> subseq xs (body_fragment c @ incoming w) \<and>
    (file_takes F (fd (cf_file h)) incoming stored \<longrightarrow> xs = body_fragment c @ incoming w)"
proof -
  have h1: "h1 = h1\<lparr> cf_content_length := int n, cf_total_read := 0, cf_file := cf_file h \<rparr>"
      "c1 = c\<lparr> connection_close := connection_close c1 \<rparr>" "w1 = w"
    using assms(11) by (auto simp: client_file_handle_response_def Let_def bind_cxx_Inr_iff assms(7) strtoll_show_nat [OF assms(8)])
  have c1: "buffer c1 = buffer c" "response c1 = response c" "cl_conn c1 = cl_conn c" "body_fragment c1 = body_fragment c"
    by (subst h1(2), simp)+ (subst h1(2), simp add: body_fragment_def split: option.split)
  obtain r where r: "take_response_body c1 = Inr (c1\<lparr> buffer := r \<rparr>)" "holds (body_fragment c) r"
    using take_response_body_ok [of m b f c1] assms(4-6) c1 by auto
  have "cf_content_length h1 = int n" "cf_total_read h1 = 0" "cf_file h1 = cf_file h"
    by (subst h1(1), simp)+
  then obtain h3 c3 w3 xs where "read_body F fuel h1 (c1\<lparr> buffer := r \<rparr>) w = Inr (Some (io_size 0, h3, c3, w3))" "stored w3 = stored w @ xs"
      "subseq xs (body_fragment c @ incoming w)" "file_takes F (fd (cf_file h)) incoming stored \<longrightarrow> xs = body_fragment c @ incoming w"
      "incoming w3 = []" "cf_total_read h3 = int n"
    using read_body_ok [of F "c1\<lparr> buffer := r \<rparr>" incoming stored h1 "body_fragment c" w fuel] assms(1-3,9,10) r(2) c1(3) by auto
  then show ?thesis
    using r(1) h1(3) by blast
qed

text \<open>A body of five bytes, of which one came with the head and the others two at a time.\<close>

definition two_at_a_time :: "(byte list \<times> byte list) client_file_env" where
  "two_at_a_time =
     \<lparr> fe_constants = filled,
       fe_sys = \<lparr> sys_read = (\<lambda>d w buf len. let n = min 2 (min len (length (fst w))) in
             Inr (io_size (int n), overwrite buf 0 (take n (fst w)), (drop n (fst w), snd w))),
         sys_write = (\<lambda>d w b. Inr (io_size (int (length b)), w)), sys_setsockopt = (\<lambda>d opt v w. (True, w)), sys_shutdown = (\<lambda>d w. (True, w)),
         sys_close = (\<lambda>d w. w), ssl_new = (\<lambda>w. (True, w)), ssl_do_handshake = (\<lambda>d w. (0, w)), ssl_read = (\<lambda>d w b n. Inr (io_size 0, b, w)),
         ssl_write = (\<lambda>d w b. Inr (io_size (int (length b)), w)) \<rparr>,
       fe_write = (\<lambda>d buf w. (int (length buf), 0, (fst w, snd w @ buf))), fe_errno = (\<lambda>w. 0) \<rparr>"

definition five_bytes :: http_client_connection where
  "five_bytes =
     \<lparr> buffer = \<lparr> ring = [1, 2, 3, 4], ring_back = 4, ring_front = 8, ring_mask = 3 \<rparr>, request = request (get_exchange sample_response_store),
       response = sample_response_store\<lparr> chars := ''HTTP/1.1'' @ NUL # ''Content-Length'' @ NUL # ''5'' @ [NUL], chars_offset := 26,
         http_version := HBuf 0 8, header_list := [(HBuf 9 14, HBuf 24 1)], header_map := [(HBuf 9 14, HBuf 24 1)], body_start := Some (3, 1) \<rparr>,
       request_has_body = False, response_has_body = True, connection_close = True,
       cl_conn = new_connection_object\<lparr> sock := Some ((new_connected_socket socket_mode_plain)\<lparr> conn_fd := 7 \<rparr>) \<rparr>,
       cl_state = Client_Server_Response, cl_handler = Some 0, remote_host = ''localhost'', url_requests = [], cl_requests_processed = 0 \<rparr>"

definition file_three :: client_file_handler where
  "file_three = client_file_init \<lparr> cf_version = 0, cf_status = 0, cf_method = 0, cf_content_length = 0, cf_total_read = 0, cf_file = \<lparr> fd = 3 \<rparr> \<rparr>"

lemma five_bytes_run:
  "case client_file_handle_response two_at_a_time file_three five_bytes ([5, 6, 7, 8], []) of Inl e \<Rightarrow> False | Inr r \<Rightarrow> True"
  "get_header_string (response five_bytes) ''Content-Length'' = Inr (Some (show_nat 5))"
  "body_fragment five_bytes = [4]" "body_start (response five_bytes) = Some (3, 1)" "length (ring (buffer five_bytes)) = 4"
  by code_simp+

theorem body_received_witness:
  "\<exists>h1 c1 w1 c2 h3 c3 w3. client_file_handle_response two_at_a_time file_three five_bytes ([5, 6, 7, 8], []) = Inr (True, h1, c1, w1) \<and>
     take_response_body c1 = Inr c2 \<and> read_body two_at_a_time 6 h1 c2 w1 = Inr (Some (io_size 0, h3, c3, w3)) \<and> snd w3 = [4, 5, 6, 7, 8]"
proof -
  have "ring_shape 0 4 4 (buffer five_bytes)"
    by (auto simp: ring_shape_def five_bytes_def intro!: exI [of _ 2])
  moreover have "socket_delivers two_at_a_time (cl_conn five_bytes) fst snd" "file_takes two_at_a_time 3 fst snd" "file_writes two_at_a_time 3 fst snd"
    by (auto simp: socket_delivers_def file_takes_def file_writes_def two_at_a_time_def five_bytes_def conn_read_def socket_read_def new_connected_socket_def Let_def
        intro!: exI [of _ "min 2 (min _ (length _))"])
  moreover obtain h1 c1 w1 where "client_file_handle_response two_at_a_time file_three five_bytes ([5, 6, 7, 8], []) = Inr (True, h1, c1, w1)"
    using five_bytes_run(1) by (fastforce simp: client_file_handle_response_def bind_cxx_def Let_def split: sum.splits)
  ultimately show ?thesis
    using body_received [of two_at_a_time five_bytes fst snd file_three 0 4 4 5 "([5, 6, 7, 8], [])" 6 True h1 c1 w1] five_bytes_run(2-5)
    by (simp add: file_three_def client_file_init_def) blast
qed

text \<open>What a short write does not take is counted as read and taken out of the buffer: it is lost.\<close>

lemma short_write_lost:
  assumes "0 \<le> fd (cf_file h)" "holds bs (buffer c)" "bs \<noteq> []" "fe_write F (fd (cf_file h)) bs w = (int k, 0, w')" "k < length bs"
  shows "\<exists>b. store_body F h c w = Inr (h\<lparr> cf_total_read := cf_total_read h + int (length bs) \<rparr>, c\<lparr> buffer := b \<rparr>, w') \<and> holds [] b"
proof -
  have shape: "ring_shape 0 (length bs) 0 (buffer c)" "take (length bs) (ring (buffer c)) = bs"
    using assms(2) by (simp_all add: holds_def)
  show ?thesis
    using assms(1,3-5) holds_reset [OF assms(2)] holds_ssize [OF assms(2)]
    by (auto simp: store_body_def ring_write_held [OF shape(1)] shape(2) file_writer_def file_write_def)
qed

section \<open>Where the end of a body is missed\<close>

text \<open>
  When the server closes the connection before the announced number of bytes is there, or when it sent
  more, or when it announced no length and closes the connection after the body, as HTTP/1.0 servers do,
  the handler never reports the end: each further event leaves everything as it is. The event counts
  as activity, so that the connection is not timed out either.
\<close>

theorem body_cut_off:
  assumes "\<And>buf len. conn_read (fe_sys F) (cl_conn c) w buf len = Inr (io_size 0, buf, w)" "holds [] (buffer c)"
    "cf_total_read h \<noteq> cf_content_length h"
  shows "read_body F fuel h c w = Inr None"
proof -
  have shape: "ring_shape 0 0 0 (buffer c)"
    using assms(2) by (simp add: holds_def)
  have same: "(buffer c)\<lparr> ring_back := 0 \<rparr> = buffer c"
    using ring_shapeD(9) [OF shape] by simp
  have "client_file_read_response_body F h c w = Inr (bytes_left h, h, c, w)"
    using holds_readable(2) [OF assms(2)] assms(3)
    by (simp add: client_file_read_response_body_def ring_read_fresh [OF shape] assms(1) same Let_def)
  moreover have "\<not> has_error (bytes_left h)" "io_result.size (bytes_left h) \<noteq> 0"
    using assms(3) by (auto simp: bytes_left_def)
  ultimately show ?thesis
    by (induction fuel) simp_all
qed

text \<open>
  The error of a read is taken from \<^verbatim>\<open>errno\<close>, which a failure in the TLS library need not set: the failure is
  then reported as the end of the body.
\<close>

lemma failed_read_ends_body:
  assumes "holds [] (buffer c)" "cf_total_read h \<noteq> cf_content_length h" "fe_errno F w = 0" "e \<noteq> 0"
    "conn_read (fe_sys F) (cl_conn c) w (ring (buffer c)) (length (ring (buffer c))) = Inr (io_failed e, ring (buffer c), w)"
  shows "\<exists>c'. client_file_read_response_body F h c w = Inr (io_failed 0, h, c', w)" "\<not> has_error (io_failed 0)"
proof -
  have shape: "ring_shape 0 0 0 (buffer c)"
    using assms(1) by (simp add: holds_def)
  show "\<exists>c'. client_file_read_response_body F h c w = Inr (io_failed 0, h, c', w)" "\<not> has_error (io_failed 0)"
    using assms(2-5) holds_readable(2) [OF assms(1)]
    by (simp_all add: client_file_read_response_body_def ring_read_fresh [OF shape] Let_def)
qed

end
