(* ===== verification/Client_Requests.thy ===== *)
theory Client_Requests
  imports Http_Client_File
begin

text \<open>
  What the client of \<^verbatim>\<open>src/http_client.cc\<close> does with the requests of a connection: the head that it sends, the order
  of the requests, and what becomes of the list when the connection is closed.
\<close>

section \<open>The head of a request\<close>

definition text_is :: "http_request \<Rightarrow> hstring \<Rightarrow> string option \<Rightarrow> bool" where
  "text_is r h t \<longleftrightarrow> (case t of None \<Rightarrow> True | Some s \<Rightarrow> h \<noteq> HNull \<and> text_of (chars r) h = s)"

text \<open>What has been set so far, unless the buffer has overflowed.\<close>

definition head_has :: "string option \<Rightarrow> string option \<Rightarrow> string option \<Rightarrow> (string \<times> string) list \<Rightarrow> http_request \<Rightarrow> bool" where
  "head_has meth uri version hs r \<longleftrightarrow> request_ok r \<and> query_string r = HNull \<and>
     (\<not> overflow r \<longrightarrow> text_is r (request_method r) meth \<and> text_is r (request_uri r) uri \<and> text_is r (http_version r) version \<and> headers r = hs)"

lemma text_is_grows: "grows r r' \<Longrightarrow> hs_ok r h \<Longrightarrow> text_is r h t \<Longrightarrow> text_is r' h t"
  using grows_text by (auto simp: text_is_def split: option.splits)

lemma head_grows:
  assumes "head_has m u v hs r" "store_ok r'" "grows r r'" "message.more r' = message.more r" "http_version r' = http_version r"
    "overflow r \<longrightarrow> overflow r'" "\<not> overflow r' \<longrightarrow> headers r' = hs'"
  shows "head_has m u v hs' r'"
  using assms request_ok_grows [OF _ assms(2-4)] text_is_grows [OF assms(3)]
  by (auto simp: head_has_def request_more [OF assms(4)] request_ok_def store_ok_def)

lemma head_alloc:
  assumes "head_has m u v hs r"
  obtains r' h where "alloc_string r s = Inr (r', h)" "head_has m u v hs r'" "hs_ok r' h" "\<not> overflow r' \<longrightarrow> text_is r' h (Some s)"
proof -
  have "store_ok r"
    using assms by (simp add: head_has_def request_ok_def)
  then obtain r' h where a: "alloc_string r s = Inr (r', h)" "store_ok r'" "grows r r'" "hs_ok r' h" "message.more r' = message.more r"
      "h \<noteq> HNull \<longrightarrow> text_of (chars r') h = s" "headers r' = headers r" "overflow r' \<longleftrightarrow> overflow r \<or> h = HNull" "http_version r' = http_version r"
    using alloc_string_ok by metis
  have "head_has m u v hs r'"
    by (rule head_grows [OF assms a(2,3,5,9)]) (use assms a(7,8) in \<open>auto simp: head_has_def\<close>)
  then show thesis
    using a by (intro that) (auto simp: text_is_def)
qed

lemma request_ok_set [simp]:
  "request_ok r \<Longrightarrow> hs_ok r h \<Longrightarrow> request_ok (r\<lparr> request_method := h \<rparr>)" "request_ok r \<Longrightarrow> hs_ok r h \<Longrightarrow> request_ok (r\<lparr> request_uri := h \<rparr>)"
  "request_ok r \<Longrightarrow> hs_ok r h \<Longrightarrow> request_ok (r\<lparr> http_version := h \<rparr>)"
  by (auto simp: request_ok_def path_ok_def)

lemma text_is_set [simp]:
  "text_is (r\<lparr> request_method := h \<rparr>) = text_is r" "text_is (r\<lparr> request_uri := h \<rparr>) = text_is r" "text_is (r\<lparr> http_version := h \<rparr>) = text_is r"
  by (intro ext; simp add: text_is_def split: option.split)+

lemma head_set:
  assumes "head_has m u v hs r"
  shows "\<exists>r'. request_event r (SetRequestMethod s) = Inr r' \<and> head_has (Some s) u v hs r'"
    "\<exists>r'. request_event r (SetRequestUri s) = Inr r' \<and> head_has m (Some s) v hs r'"
    "\<exists>r'. request_event r (SetHttpVersion s) = Inr r' \<and> head_has m u (Some s) hs r'"
proof -
  obtain r' h where "alloc_string r s = Inr (r', h)" "head_has m u v hs r'" "hs_ok r' h" "\<not> overflow r' \<longrightarrow> text_is r' h (Some s)"
    using head_alloc [OF assms] .
  then show "\<exists>r'. request_event r (SetRequestMethod s) = Inr r' \<and> head_has (Some s) u v hs r'"
    "\<exists>r'. request_event r (SetRequestUri s) = Inr r' \<and> head_has m (Some s) v hs r'"
    "\<exists>r'. request_event r (SetHttpVersion s) = Inr r' \<and> head_has m u (Some s) hs r'"
    by (auto simp: request_event_def head_has_def headers_def)
qed

lemma head_field:
  assumes "head_has m u v hs r" "name \<notin> fst ` set hs"
  shows "\<exists>r'. request_event r (SetHeaderField name s) = Inr r' \<and> head_has m u v (hs @ [(name, s)]) r'"
proof -
  have store: "store_ok r"
    using assms(1) by (simp add: head_has_def request_ok_def)
  obtain r' where r': "set_header_field r name s = Inr (field_fits r name s, r')" "store_ok r'" "grows r r'"
      "headers r' = (if field_fits r name s then add_header (headers r) name s else headers r)" "overflow r' = (overflow r \<or> \<not> field_fits r name s)"
    using set_header_field_ok [OF store] by blast
  have same: "same_rest r r'"
    by (rule set_header_field_frame [OF r'(1)])
  have "head_has m u v (hs @ [(name, s)]) r'"
    by (rule head_grows [OF assms(1) r'(2,3)])
      (use same r'(4,5) assms in \<open>auto simp: same_rest_def head_has_def add_header_def\<close>)
  then show ?thesis
    by (simp add: request_event_def r'(1))
qed

definition request_head :: "string \<Rightarrow> http_client_request \<Rightarrow> string" where
  "request_head meth q =
     meth @ '' '' @ path (req_url q) @ '' HTTP/1.1'' @ CRLF @ ''Host: '' @ host (req_url q) @ CRLF @ ''User-Agent: latypus/0.0.0'' @ CRLF @ CRLF"

lemma prepare_request_ok:
  assumes "get_version_text C 11 = Some ''HTTP/1.1''" "get_method_text C (method_value (req_method q)) = Some meth"
  shows "\<exists>r'. prepare_request C q r = Inr r' \<and>
    head_has (Some meth) (Some (path (req_url q))) (Some ''HTTP/1.1'') [(''Host'', host (req_url q)), (''User-Agent'', ClientString)] r'"
proof -
  have "head_has None None None [] (request_reset r)"
    using request_reset_ok(1) [of r] by (simp add: head_has_def text_is_def) (simp add: request_reset_def message_clear_def headers_def)
  from head_set(3) [OF this, of "''HTTP/1.1''"] obtain r1
    where r1: "request_event (request_reset r) (SetHttpVersion ''HTTP/1.1'') = Inr r1" "head_has None None (Some ''HTTP/1.1'') [] r1" by blast
  from head_set(1) [OF r1(2), of meth] obtain r2
    where r2: "request_event r1 (SetRequestMethod meth) = Inr r2" "head_has (Some meth) None (Some ''HTTP/1.1'') [] r2" by blast
  from head_set(2) [OF r2(2), of "path (req_url q)"] obtain r3
    where r3: "request_event r2 (SetRequestUri (path (req_url q))) = Inr r3" "head_has (Some meth) (Some (path (req_url q))) (Some ''HTTP/1.1'') [] r3" by blast
  from head_field [OF r3(2), of "''Host''" "host (req_url q)"] obtain r4
    where r4: "request_event r3 (SetHeaderField ''Host'' (host (req_url q))) = Inr r4"
      "head_has (Some meth) (Some (path (req_url q))) (Some ''HTTP/1.1'') [(''Host'', host (req_url q))] r4" by auto
  from head_field [OF r4(2), of "''User-Agent''" ClientString] show ?thesis
    using assms r1(1) r2(1) r3(1) r4(1) by (auto simp: prepare_request_def)
qed

text \<open>
  C15. The client sends for a request the line with its method, the path of its URL and the version, the host
  of the URL and its own name, and nothing else: preparing the head always succeeds without an access out of
  bounds, and when the strings have fitted into the buffer of the message and the text into that of the
  connection, that text is what is in the buffer to be sent.
\<close>

theorem request_head_sent:
  assumes "constants_init empty_constants = Inr C" "get_method_text C (method_value (req_method q)) = Some meth"
  shows "\<exists>r'. prepare_request C q r = Inr r' \<and>
    (\<not> overflow r' \<longrightarrow> length (request_head meth q) < length (ring b) \<longrightarrow>
       (\<exists>b'. write_request_head r' b = Inr (int (length (request_head meth q)), b') \<and> ring_back b' = of_nat (length (request_head meth q)) \<and>
          take (length (request_head meth q)) (ring b') = to_bytes (request_head meth q)))"
proof -
  have "C = filled"
    using assms(1) constants_filled by simp
  moreover have "get_version_text filled 11 = Some ''HTTP/1.1''"
    by (simp add: get_version_text_def filled_def map_of_inserts) (simp add: version_entries_def kHTTPVersionTable_def table_simps)
  ultimately obtain r' where r': "prepare_request C q r = Inr r'"
      "head_has (Some meth) (Some (path (req_url q))) (Some ''HTTP/1.1'') [(''Host'', host (req_url q)), (''User-Agent'', ClientString)] r'"
    using prepare_request_ok assms(2) by blast
  show ?thesis
  proof (intro exI [of _ r'] conjI impI r'(1))
    assume no: "\<not> overflow r'" and fits: "length (request_head meth q) < length (ring b)"
    have ok: "request_ok r'" "request_method r' \<noteq> HNull" "request_uri r' \<noteq> HNull" "http_version r' \<noteq> HNull"
      using r'(2) no by (simp_all add: head_has_def text_is_def)
    have t: "request_text r' = request_head meth q"
      using r'(2) no by (simp add: head_has_def text_is_def request_text_def request_head_def header_lines_def ClientString_def)
    show "\<exists>b'. write_request_head r' b = Inr (int (length (request_head meth q)), b') \<and> ring_back b' = of_nat (length (request_head meth q)) \<and>
          take (length (request_head meth q)) (ring b') = to_bytes (request_head meth q)"
      using fits request_to_buffer_ok [OF ok, of "ring_chars b"] t
      by (simp add: write_request_head_def ring_chars_def to_bytes_def take_map overwrite_def)
  qed
qed

definition get_hello :: http_client_request where
  "get_hello = \<lparr> req_method = HTTPMethodGET, req_url = \<lparr> scheme = ''http'', host = ''localhost'', path = ''/hello'', port = 80, valid = True \<rparr>, req_handler = 0 \<rparr>"

lemma get_hello_fits:
  "case prepare_request filled get_hello (blank_request (replicate 80 NUL)) of Inl e \<Rightarrow> False | Inr r \<Rightarrow> \<not> overflow r"
  "get_method_text filled (method_value (req_method get_hello)) = Some ''GET''" "length (request_head ''GET'' get_hello) < 128"
  by code_simp+

theorem request_head_sent_witness:
  "\<exists>r' b'. prepare_request filled get_hello (blank_request (replicate 80 NUL)) = Inr r' \<and>
     write_request_head r' (ring_new 0\<lparr> ring := replicate 128 0 \<rparr>) = Inr (int (length (request_head ''GET'' get_hello)), b') \<and>
     take (length (request_head ''GET'' get_hello)) (ring b') = to_bytes (request_head ''GET'' get_hello)"
  using request_head_sent [OF constants_filled get_hello_fits(2), of "blank_request (replicate 80 NUL)" "ring_new 0\<lparr> ring := replicate 128 0 \<rparr>"]
    get_hello_fits(1,3) by auto

section \<open>The list of requests\<close>

abbreviation client_conns :: "('h, 'w) client_net \<Rightarrow> http_client_connection list" where
  "client_conns s \<equiv> connections_all (cl_pool (net_state s))"

abbreviation client_free :: "('h, 'w) client_net \<Rightarrow> nat list" where
  "client_free s \<equiv> connections_free (cl_pool (net_state s))"

lemma client_conn_ok: "i < length (client_conns s) \<Longrightarrow> client_conn i s = Inr (client_conns s ! i)"
  by (simp add: client_conn_def index_cxx_def)

lemma with_client_ok:
  assumes "i < length (client_conns s)" "f (client_conns s ! i) (cl_world (net_state s)) = Inr (c, w)"
  shows "with_client i f s = Inr (s\<lparr> net_state := (net_state s)\<lparr> cl_pool := (cl_pool (net_state s))\<lparr> connections_all := (client_conns s)[i := c] \<rparr>,
    cl_world := w \<rparr> \<rparr>)"
  using assms by (simp add: with_client_def on_connection_def index_cxx_def)

lemma set_client_ok:
  assumes "i < length (client_conns s)"
  shows "set_client i f s = Inr (s\<lparr> net_state := (net_state s)\<lparr> cl_pool := (cl_pool (net_state s))\<lparr>
    connections_all := (client_conns s)[i := f (client_conns s ! i)] \<rparr> \<rparr> \<rparr>)"
  using with_client_ok [OF assms, of "\<lambda>c w. Inr (f c, w)"] by (simp add: set_client_def)

text \<open>Closing puts the connection into the list of free ones and leaves the requests that it has.\<close>

lemma client_close_ok:
  assumes "i < length (client_conns s)"
  shows "\<exists>s'. client_close_connection E i s = Inr s' \<and> client_free s' = client_free s @ [i] \<and> length (client_conns s') = length (client_conns s) \<and>
    url_requests (client_conns s' ! i) = url_requests (client_conns s ! i) \<and> cl_polls (net_state s') = cl_polls (net_state s) \<and>
    boxes s' = boxes s \<and> connections_host_map (net_state s') = connections_host_map (net_state s)"
  using assms
  by (cases "conn_close (ce_sys E) (cl_conn (client_conns s ! i)) (cl_world (net_state s))")
    (simp add: client_close_connection_def Protocol.close_connection_def free_connection_def on_connection_def index_cxx_def
      client_connection_close_def client_connection_free_def)

lemma remove_events_ok [simp]:
  "client_conns (client_remove_events t i s) = client_conns s" "client_free (client_remove_events t i s) = client_free s"
  "cl_polls (net_state (client_remove_events t i s)) = remove1 (t, i) (cl_polls (net_state s))" "boxes (client_remove_events t i s) = boxes s"
  "cl_handlers (net_state (client_remove_events t i s)) = cl_handlers (net_state s)"
  "connections_host_map (net_state (client_remove_events t i s)) = connections_host_map (net_state s)"
  by (simp_all add: client_remove_events_def)

text \<open>
  C27. When the response to a request has been read and the connection stays open, the request is taken off the
  list, the thread no longer waits for the connection, and the connection goes to a worker with the remaining
  requests in their order, or back to the free connections when there are none. When the
  connection is to be closed, it goes back with all its requests, the one that was answered included.
\<close>

theorem next_request:
  assumes "ce_class E = client_file_class F" "i < length (client_conns s)" "client_conns s ! i = c" "url_requests c = q # qs"
    "cl_handler c = Some n" "n < length (cl_handlers (net_state s))"
  shows "if connection_close c
     then (\<exists>s'. end_client_response E oc i s = Inr s' \<and> client_free s' = client_free s @ [i] \<and> url_requests (client_conns s' ! i) = q # qs)
     else (\<exists>s1. url_requests (client_conns s1 ! i) = qs \<and> cl_handler (client_conns s1 ! i) = None \<and>
       cl_polls (net_state s1) = remove1 (this_thread oc, i) (cl_polls (net_state s)) \<and>
       end_client_response E oc i s = (if qs = [] then client_close_connection E i s1 else process_connection E oc i s1) \<and>
       (qs = [] \<longrightarrow> (\<exists>s'. client_close_connection E i s1 = Inr s' \<and> client_free s' = client_free s @ [i] \<and> url_requests (client_conns s' ! i) = [])))"
proof -
  have end_ok: "call_client_handler (end_client_request (ce_class E)) i s = Inr (True, s)"
    using assms(2,5,6) unfolding assms(3) [symmetric]
    by (simp add: call_client_handler_def client_conn_ok set_client_ok assms(1) client_file_class_def client_file_end_request_def index_cxx_def)
  show ?thesis
  proof (cases "connection_close c")
    case True
    have "end_client_response E oc i s = client_close_connection E i (client_remove_events (this_thread oc) i s)"
      using True assms(2,3) by (simp add: end_client_response_def end_ok client_conn_ok client_close_polled_def)
    then show ?thesis
      using True assms(2-4) client_close_ok [of i "client_remove_events (this_thread oc) i s" E] by auto
  next
    case False
    let ?s0 = "client_remove_events (this_thread oc) i s"
    let ?f = "\<lambda>c. c\<lparr> cl_handler := None, cl_requests_processed := cl_requests_processed c + 1, url_requests := qs \<rparr>"
    obtain s1 where s1: "set_client i ?f ?s0 = Inr s1" "client_conns s1 = (client_conns s)[i := ?f c]" "client_free s1 = client_free s"
        "cl_polls (net_state s1) = remove1 (this_thread oc, i) (cl_polls (net_state s))"
      using set_client_ok [of i ?s0 ?f] assms(2,3) by auto
    have "end_client_response E oc i s = (if qs = [] then client_close_connection E i s1 else process_connection E oc i s1)"
      using False assms(2-4) s1(1) by (simp add: end_client_response_def end_ok client_conn_ok)
    then show ?thesis
      unfolding if_not_P [OF False] using assms(2) s1(2-4) client_close_ok [of i s1 E]
      by (intro exI [of _ s1]) auto
  qed
qed

text \<open>A client with one connection, whose response is to end with the connection.\<close>

definition hello_client :: "(client_file_handler, byte list \<times> byte list) client_env" where
  "hello_client =
     \<lparr> ce_config = new_config, ce_class = client_file_class two_at_a_time, ce_constants = filled, ce_sys = fe_sys two_at_a_time,
       ce_calls = \<lparr> sys_socket = (\<lambda>fam w. (8, w)), sys_connect = (\<lambda>d a w. (True, w)), sys_getsockname = (\<lambda>d w. None),
         sys_gethostbyname = (\<lambda>name. Some (AF_INET, [127, 0, 0, 1])) \<rparr>, ce_ssl_ctx = False \<rparr>"

definition hello_net :: "nat list \<Rightarrow> (client_file_handler, byte list \<times> byte list) client_net" where
  "hello_net free =
     \<lparr> boxes = [\<lparr> notify = [], message_queue = [] \<rparr>],
       net_state = \<lparr> cl_pool = \<lparr> connections_all = [five_bytes\<lparr> url_requests := [get_hello] \<rparr>], connections_free = free \<rparr>,
         connections_host_map = [(''localhost'', [0])], cl_polls = [(0, 0)], cl_threads = start_engine (reg_table client_masks) [7],
         cl_handlers = [file_three], cl_world = ([], []) \<rparr> \<rparr>"

theorem next_request_witness:
  "connection_close (client_conns (hello_net []) ! 0) \<and>
   (\<exists>s'. end_client_response hello_client \<lparr> this_thread = 0, current_time = 0, send_outcome = (\<lambda>_ _. Sent) \<rparr> 0 (hello_net []) = Inr s' \<and> client_free s' = [0] \<and>
     url_requests (client_conns s' ! 0) = [get_hello])"
  using next_request [of hello_client two_at_a_time 0 "hello_net []" "five_bytes\<lparr> url_requests := [get_hello] \<rparr>" get_hello "[]" 0
      "\<lparr> this_thread = 0, current_time = 0, send_outcome = (\<lambda>_ _. Sent) \<rparr>"]
  by (simp add: hello_client_def hello_net_def five_bytes_def)

section \<open>Requests that are left behind\<close>

lemma client_connection_init_requests:
  assumes "ring_size (buffer c) \<noteq> 0"
  shows "\<exists>c' w'. client_connection_init E c w = Inr (c', w') \<and> url_requests c' = url_requests c"
  using assms by (cases "conn_reset (ce_sys E) (cl_conn c) w") (simp add: client_connection_init_def Let_def ring_reset_def ring_size_def)

lemma get_new_connection_ok:
  assumes "client_free s = fs @ [i]" "i < length (client_conns s)" "ring_size (buffer (client_conns s ! i)) \<noteq> 0"
  shows "\<exists>s'. get_new_connection_for_url E u s = Inr (Some i, s') \<and> length (client_conns s') = length (client_conns s) \<and>
    url_requests (client_conns s' ! i) = url_requests (client_conns s ! i)"
proof -
  obtain c w where "client_connection_init E (client_conns s ! i) (cl_world (net_state s)) = Inr (c, w)"
      "url_requests c = url_requests (client_conns s ! i)"
    using client_connection_init_requests [OF assms(3), of E "cl_world (net_state s)"] by blast
  then show ?thesis
    using assms(1,2) by (simp add: get_new_connection_for_url_def new_connection_def on_connection_def index_cxx_def Let_def set_client_ok)
qed

text \<open>
  C35. A connection that was closed with requests in its list is used again with them: a request that is
  submitted later is put behind them, so that the client connects to the host of the old request, sends it
  a second time and gives its response to the old handler.
\<close>

theorem reused_connection_repeats:
  assumes "client_free s = fs @ [i]" "i < length (client_conns s)" "ring_size (buffer (client_conns s ! i)) \<noteq> 0"
    "url_requests (client_conns s ! i) = q # qs" "scheme (req_url q2) = ''http''"
  shows "\<exists>s1. submit_request E oc q2 0 s = bind_conf (start_connection E oc i s1) (\<lambda>s. Inr (True, s)) \<and>
    url_requests (client_conns s1 ! i) = q # qs @ [q2]"
proof -
  obtain s' where s': "get_new_connection_for_url E (req_url q2) s = Inr (Some i, s')" "length (client_conns s') = length (client_conns s)"
      "url_requests (client_conns s' ! i) = q # qs"
    using get_new_connection_ok [OF assms(1-3)] assms(4) by metis
  then show ?thesis
    using assms(2,5) by (simp add: submit_request_def set_client_ok) (rule exI, rule conjI, rule refl, simp)
qed

theorem reused_connection_repeats_witness:
  "\<exists>s1. submit_request hello_client \<lparr> this_thread = 0, current_time = 0, send_outcome = (\<lambda>_ _. Sent) \<rparr> (get_hello\<lparr> req_handler := 1 \<rparr>) 0 (hello_net [0]) =
     bind_conf (start_connection hello_client \<lparr> this_thread = 0, current_time = 0, send_outcome = (\<lambda>_ _. Sent) \<rparr> 0 s1) (\<lambda>s. Inr (True, s)) \<and>
     url_requests (client_conns s1 ! 0) = [get_hello, get_hello\<lparr> req_handler := 1 \<rparr>]"
  using reused_connection_repeats [of "hello_net [0]" "[]" 0 get_hello "[]" "get_hello\<lparr> req_handler := 1 \<rparr>" hello_client]
  by (simp add: hello_net_def five_bytes_def get_hello_def ring_size_def)

text \<open>
  The map of hosts still has the connection as well: a request for the host is put on the list of a free
  connection, and the caller is told that it was submitted, but no thread is told about it.
\<close>

lemma queued_on_free:
  assumes "map_of (connections_host_map (net_state s)) (host (req_url q2)) = Some [i]" "i \<in> set (client_free s)" "i < length (client_conns s)"
    "url_requests (client_conns s ! i) = q # qs" "Suc (length qs) < max_requests" "scheme (req_url q2) = ''http''"
  shows "\<exists>s'. submit_request E oc q2 max_requests s = Inr (True, s') \<and> url_requests (client_conns s' ! i) = q # qs @ [q2] \<and>
    client_free s' = client_free s \<and> cl_polls (net_state s') = cl_polls (net_state s) \<and> boxes s' = boxes s"
  using assms by (simp add: submit_request_def get_existing_connection_for_url_def index_cxx_def client_conn_ok set_client_ok)

text \<open>The address of a host that has only an IPv6 address is looked up as the IPv4 address 0.0.0.0.\<close>

lemma ipv6_host_lost:
  assumes "gethostbyname name = Some (AF_INET6, bytes)" "NUL \<notin> set name" "p \<noteq> 0"
  shows "resolver_lookup gethostbyname name p = Inr (True, \<lparr> family = AF_INET, sin_port = word_of_int p, sin_addr = [0, 0, 0, 0], sin6_flowinfo = 0, sin6_scope_id = 0 \<rparr>)"
proof -
  have "c_str name = name"
    using assms(2) by (simp add: c_str_def takeWhile_eq_all_conv) metis
  then show ?thesis
    using assms(1,3) by (simp add: resolver_lookup_def Let_def)
qed

end
