(* ===== verification/Pollset.thy ===== *)
theory Pollset
  imports Http_Server "HOL-Library.Multiset"
begin

text \<open>
  \<^verbatim>\<open>src/pollset.h\<close>, \<^verbatim>\<open>src/pollset_poll.cc\<close> and \<^verbatim>\<open>src/pollset_epoll.cc\<close>: the objects that a thread waits for. An object is
  known by its address and type; here addresses are the numbers of connections. The first class keeps
  two arrays side by side, the second a table with the descriptors as indices. That both
  classes do to their objects what \<^verbatim>\<open>Http_Server\<close> does to the list of connections of a thread is shown as a
  simulation, over the laws of the locale \<open>pollset_class\<close>, which both classes fulfil. On Linux a thread has
  the second class, elsewhere the first.
\<close>

section \<open>Objects\<close>

record poll_object =
  po_ptr :: nat
  po_fd :: int
  po_type :: nat
  po_mask :: int

definition same_object :: "poll_object \<Rightarrow> poll_object \<Rightarrow> bool" where
  "same_object a b \<longleftrightarrow> po_ptr a = po_ptr b \<and> po_type a = po_type b"

definition no_object :: poll_object where
  "no_object = \<lparr> po_ptr = 0, po_fd = - 1, po_type = 0, po_mask = 0 \<rparr>"

text \<open>Masks are converted to \<^verbatim>\<open>unsigned short\<close>, the events that are asked for to \<^verbatim>\<open>short\<close>.\<close>

definition ushort :: "int \<Rightarrow> int" where
  "ushort x = x mod 2 ^ 16"

definition short :: "int \<Rightarrow> int" where
  "short x = (x + 2 ^ 15) mod 2 ^ 16 - 2 ^ 15"

text \<open>\<^verbatim>\<open>std::find\<close>: the position of the first such object, or the length.\<close>

definition find_object :: "poll_object \<Rightarrow> poll_object list \<Rightarrow> nat" where
  "find_object obj os = length (takeWhile (\<lambda>x. \<not> same_object x obj) os)"

section \<open>The class for poll\<close>

record pollfd =
  pfd_fd :: int
  pfd_events :: int
  pfd_revents :: int

record pollset_poll =
  pollfds :: "pollfd list"
  pollobjects :: "poll_object list"

definition zero_pollfd :: pollfd where
  "zero_pollfd = \<lparr> pfd_fd = 0, pfd_events = 0, pfd_revents = 0 \<rparr>"

definition new_pollset_poll :: pollset_poll where
  "new_pollset_poll = \<lparr> pollfds = [], pollobjects = [] \<rparr>"

definition poll_add_object :: "poll_object \<Rightarrow> int \<Rightarrow> pollset_poll \<Rightarrow> (bool \<times> pollset_poll) cxx" where
  "poll_add_object obj events p =
     (let pi = find_object obj (pollobjects p);
          p = (if pi < length (pollobjects p) then p
               else p\<lparr> pollobjects := pollobjects p @ [obj],
                      pollfds := (take (pi + 1) (pollfds p) @ replicate (pi + 1 - length (pollfds p)) zero_pollfd)[pi := zero_pollfd\<lparr> pfd_fd := po_fd obj \<rparr>] \<rparr>) in
      bind_cxx (index_cxx (pollfds p) pi) (\<lambda>f.
        Inr (True, p\<lparr> pollfds := (pollfds p)[pi := f\<lparr> pfd_events := short events, pfd_revents := 0 \<rparr>] \<rparr>)))"

text \<open>\<^verbatim>\<open>erase\<close> of one element; past the end it is undefined.\<close>

definition erase_at :: "nat \<Rightarrow> 'a list \<Rightarrow> 'a list cxx" where
  "erase_at i xs = (if i < length xs then Inr (take i xs @ drop (i + 1) xs) else Inl Undefined)"

definition poll_remove_object :: "poll_object \<Rightarrow> pollset_poll \<Rightarrow> (bool \<times> pollset_poll) cxx" where
  "poll_remove_object obj p =
     (let pi = find_object obj (pollobjects p) in
      if pi = length (pollobjects p) then Inr (False, p)
      else
        bind_cxx (erase_at pi (pollfds p)) (\<lambda>fds.
        bind_cxx (erase_at pi (pollobjects p)) (\<lambda>objs. Inr (True, p\<lparr> pollfds := fds, pollobjects := objs \<rparr>))))"

text \<open>
  The system call returns whether it failed for another reason than that nothing is ready, and what is ready
  for each descriptor.
\<close>

definition poll_do_poll :: "(pollfd list \<Rightarrow> bool \<times> int list) \<Rightarrow> pollset_poll \<Rightarrow> (poll_object list \<times> pollset_poll) cxx" where
  "poll_do_poll sys_poll p =
     (let (failed, revents) = sys_poll (pollfds p);
          fds = map2 (\<lambda>f r. f\<lparr> pfd_revents := r \<rparr>) (pollfds p) revents;
          p = p\<lparr> pollfds := fds \<rparr> in
      if failed then Inr ([], p)
      else if length fds < length (pollobjects p) then Inl OutOfBounds
      else Inr (map (\<lambda>(obj, f). obj\<lparr> po_mask := ushort (pfd_revents f) \<rparr>) (filter (\<lambda>(obj, f). pfd_revents f \<noteq> 0) (zip (pollobjects p) fds)), p))"

section \<open>The class for epoll\<close>

datatype epoll_op = EPOLL_CTL_ADD | EPOLL_CTL_MOD | EPOLL_CTL_DEL

text \<open>The table has an object for each descriptor that is in the set; \<open>ctl\<close> is the system call, on a world.\<close>

definition epoll_entry :: "int \<Rightarrow> poll_object list \<Rightarrow> poll_object cxx" where
  "epoll_entry desc table = (if desc < 0 then Inl OutOfBounds else index_cxx table (nat desc))"

definition epoll_add_object :: "(epoll_op \<Rightarrow> int \<Rightarrow> int \<Rightarrow> 'w \<Rightarrow> bool \<times> 'w) \<Rightarrow> poll_object \<Rightarrow> int \<Rightarrow> poll_object list \<Rightarrow> 'w \<Rightarrow> (bool \<times> poll_object list \<times> 'w) cxx" where
  "epoll_add_object ctl obj events table w =
     bind_cxx (epoll_entry (po_fd obj) table) (\<lambda>ent.
       let (oper, table) = (if po_fd ent \<noteq> - 1 then (EPOLL_CTL_MOD, table) else (EPOLL_CTL_ADD, table[nat (po_fd obj) := obj]));
           (ok, w) = ctl oper (po_fd obj) events w in
       Inr (ok, table, w))"

definition epoll_remove_object :: "(epoll_op \<Rightarrow> int \<Rightarrow> int \<Rightarrow> 'w \<Rightarrow> bool \<times> 'w) \<Rightarrow> poll_object \<Rightarrow> poll_object list \<Rightarrow> 'w \<Rightarrow> (bool \<times> poll_object list \<times> 'w) cxx" where
  "epoll_remove_object ctl obj table w =
     bind_cxx (epoll_entry (po_fd obj) table) (\<lambda>ent.
       if po_fd ent = - 1 then Inr (False, table, w)
       else
         let (ok, w) = ctl EPOLL_CTL_DEL (po_fd obj) 0 w in
         if ok then Inr (True, table[nat (po_fd obj) := no_object], w) else Inr (False, table, w))"

definition epoll_get_objects :: "poll_object list \<Rightarrow> poll_object list" where
  "epoll_get_objects table = filter (\<lambda>ent. po_fd ent \<noteq> - 1) table"

text \<open>What is ready: descriptors with their events, or a failure (which is never \<^verbatim>\<open>EAGAIN\<close> here).\<close>

fun epoll_do_poll :: "(int \<times> int) list option \<Rightarrow> poll_object list \<Rightarrow> poll_object list cxx" where
  "epoll_do_poll None table = Inr []"
| "epoll_do_poll (Some []) table = Inr []"
| "epoll_do_poll (Some ((desc, ready) # evs)) table =
     bind_cxx (epoll_entry desc table) (\<lambda>ent.
     bind_cxx (epoll_do_poll (Some evs) table) (\<lambda>objs. Inr (ent\<lparr> po_mask := ushort ready \<rparr> # objs)))"

section \<open>The arrays stay side by side\<close>

text \<open>
  An object is known by \<open>object_key\<close>. In the class for poll each entry of the array for the system call has
  the descriptor of the object at the same place, and no object is there twice. \<open>poll_interest\<close> is what the
  two arrays say together: the objects with their descriptors and the events that are asked for.
\<close>

definition object_key :: "poll_object \<Rightarrow> nat \<times> nat" where
  "object_key obj = (po_ptr obj, po_type obj)"

definition poll_ok :: "pollset_poll \<Rightarrow> bool" where
  "poll_ok p \<longleftrightarrow> map pfd_fd (pollfds p) = map po_fd (pollobjects p) \<and> distinct (map object_key (pollobjects p))"

definition poll_interest :: "pollset_poll \<Rightarrow> nat \<times> nat \<rightharpoonup> int \<times> int" where
  "poll_interest p = map_of (zip (map object_key (pollobjects p)) (map (\<lambda>f. (pfd_fd f, pfd_events f)) (pollfds p)))"

text \<open>A change of one place of two arrays that are read as a map.\<close>

lemma map_of_zip_update:
  assumes "length ks = length vs" "distinct ks" "i < length ks"
  shows "map_of (zip ks (vs[i := v])) = (map_of (zip ks vs))(ks ! i \<mapsto> v)"
  using assms
proof (induction ks vs arbitrary: i rule: list_induct2)
  case (Cons k ks u vs)
  then show ?case
    by (cases i) (auto simp: fun_eq_iff nth_mem)
qed simp

lemma map_of_zip_erase:
  assumes "length ks = length vs" "distinct ks" "i < length ks"
  shows "map_of (zip (take i ks @ drop (i + 1) ks) (take i vs @ drop (i + 1) vs)) = (map_of (zip ks vs))(ks ! i := None)"
  using assms
proof (induction ks vs arbitrary: i rule: list_induct2)
  case (Cons k ks u vs)
  show ?case
  proof (cases i)
    case 0
    have "map_of (zip ks vs) k = None"
      using Cons by simp
    with 0 show ?thesis
      by (auto simp: fun_eq_iff)
  next
    case (Suc j)
    with Cons show ?thesis
      by (auto simp: fun_eq_iff nth_mem)
  qed
qed simp
lemma map_of_zip_snoc:
  assumes "length ks = length vs" "k \<notin> set ks"
  shows "map_of (zip (ks @ [k]) (vs @ [v])) = (map_of (zip ks vs))(k \<mapsto> v)"
  using assms by (induction ks vs rule: list_induct2) (auto simp: fun_eq_iff)

lemma same_object_key: "same_object a b \<longleftrightarrow> object_key a = object_key b"
  by (simp add: same_object_def object_key_def)

lemma poll_ok_length: "poll_ok p \<Longrightarrow> length (pollfds p) = length (pollobjects p)"
  unfolding poll_ok_def by (metis length_map)

lemma new_pollset_ok: "poll_ok new_pollset_poll" "poll_interest new_pollset_poll = Map.empty"
  by (simp_all add: poll_ok_def new_pollset_poll_def poll_interest_def)

lemma find_object_found:
  assumes "find_object obj os < length os"
  shows "object_key (os ! find_object obj os) = object_key obj"
  using assms nth_length_takeWhile [of "\<lambda>x. \<not> same_object x obj" os] by (simp add: find_object_def same_object_key)

lemma find_object_le: "find_object obj os \<le> length os"
  by (simp add: find_object_def length_takeWhile_le)

lemma find_object_none: "find_object obj os = length os \<longleftrightarrow> object_key obj \<notin> object_key ` set os"
  by (induction os) (auto simp: find_object_def same_object_key)

lemma find_object_less: "find_object obj os < length os \<longleftrightarrow> object_key obj \<in> object_key ` set os"
  using find_object_none [of obj os] find_object_le [of obj os] by linarith

lemma erase_find:
  assumes "distinct (map object_key os)" "find_object obj os < length os"
  shows "take (find_object obj os) os @ drop (find_object obj os + 1) os = filter (\<lambda>x. object_key x \<noteq> object_key obj) os"
  using assms
proof (induction os)
  case (Cons x os)
  show ?case
  proof (cases "same_object x obj")
    case True
    then have "object_key y \<noteq> object_key obj" if "y \<in> set os" for y
      using Cons.prems(1) imageI [OF that, of object_key] by (auto simp: same_object_key)
    with True show ?thesis
      by (simp add: find_object_def same_object_key)
  next
    case False
    with Cons show ?thesis
      by (simp add: find_object_def same_object_key)
  qed
qed simp

lemma poll_interest_found:
  assumes "poll_ok p" "find_object obj (pollobjects p) < length (pollobjects p)"
  shows "poll_interest p (object_key obj) =
    Some (pfd_fd (pollfds p ! find_object obj (pollobjects p)), pfd_events (pollfds p ! find_object obj (pollobjects p)))"
proof -
  let ?i = "find_object obj (pollobjects p)"
  have "length (pollfds p) = length (pollobjects p)"
    using assms(1) by (rule poll_ok_length)
  then show ?thesis
    using map_of_zip_nth [of "map object_key (pollobjects p)" "map (\<lambda>f. (pfd_fd f, pfd_events f)) (pollfds p)" ?i]
      assms find_object_found [OF assms(2)]
    by (simp add: poll_interest_def poll_ok_def)
qed

lemma poll_interest_none: "poll_ok p \<Longrightarrow> poll_interest p (object_key obj) = None \<longleftrightarrow> object_key obj \<notin> object_key ` set (pollobjects p)"
  by (simp add: poll_interest_def poll_ok_length)

text \<open>
  What is asked for after an object was added: its events, for the descriptor that it was added with first.
\<close>

definition interest_added :: "poll_object \<Rightarrow> int \<Rightarrow> (nat \<times> nat \<rightharpoonup> int \<times> int) \<Rightarrow> nat \<times> nat \<rightharpoonup> int \<times> int" where
  "interest_added obj events m =
     m(object_key obj \<mapsto> (case m (object_key obj) of None \<Rightarrow> (po_fd obj, short events) | Some (desc, old) \<Rightarrow> (desc, short events)))"

lemma poll_add_ok:
  assumes "poll_ok p"
  shows "\<exists>p'. poll_add_object obj events p = Inr (True, p') \<and> poll_ok p' \<and> poll_interest p' = interest_added obj events (poll_interest p) \<and>
    pollobjects p' = (if object_key obj \<in> object_key ` set (pollobjects p) then pollobjects p else pollobjects p @ [obj])"
proof (cases "object_key obj \<in> object_key ` set (pollobjects p)")
  case False
  let ?f = "\<lparr> pfd_fd = po_fd obj, pfd_events = short events, pfd_revents = 0 \<rparr>"
  have "find_object obj (pollobjects p) = length (pollobjects p)"
    using False by (simp add: find_object_none)
  then have "poll_add_object obj events p = Inr (True, p\<lparr> pollobjects := pollobjects p @ [obj], pollfds := pollfds p @ [?f] \<rparr>)"
    using poll_ok_length [OF assms] by (simp add: poll_add_object_def Let_def index_cxx_def zero_pollfd_def list_update_append nth_append)
  moreover have "poll_interest (p\<lparr> pollobjects := pollobjects p @ [obj], pollfds := pollfds p @ [?f] \<rparr>) = interest_added obj events (poll_interest p)"
    using map_of_zip_snoc [of "map object_key (pollobjects p)" "map (\<lambda>f. (pfd_fd f, pfd_events f)) (pollfds p)" "object_key obj"]
      poll_ok_length [OF assms] poll_interest_none [OF assms, of obj] False
    by (simp add: interest_added_def) (simp add: poll_interest_def)
  ultimately show ?thesis
    using assms False by (simp add: poll_ok_def)
next
  case True
  let ?i = "find_object obj (pollobjects p)"
  let ?f = "(pollfds p ! ?i)\<lparr> pfd_events := short events, pfd_revents := 0 \<rparr>"
  have i: "?i < length (pollobjects p)"
    using True by (simp add: find_object_less)
  then have "poll_add_object obj events p = Inr (True, p\<lparr> pollfds := (pollfds p)[?i := ?f] \<rparr>)"
    using poll_ok_length [OF assms] by (simp add: poll_add_object_def Let_def index_cxx_def)
  moreover have "poll_interest (p\<lparr> pollfds := (pollfds p)[?i := ?f] \<rparr>) = interest_added obj events (poll_interest p)"
    using map_of_zip_update [of "map object_key (pollobjects p)" "map (\<lambda>f. (pfd_fd f, pfd_events f)) (pollfds p)" ?i]
      poll_ok_length [OF assms] poll_interest_found [OF assms i] find_object_found [OF i] assms i
    by (simp add: interest_added_def) (simp add: poll_interest_def poll_ok_def map_update)
  moreover have "map pfd_fd ((pollfds p)[?i := ?f]) = map pfd_fd (pollfds p)"
    using i poll_ok_length [OF assms] by (simp add: map_update list_update_same_conv)
  ultimately show ?thesis
    using assms True by (simp add: poll_ok_def)
qed

lemma poll_remove_ok:
  assumes "poll_ok p"
  shows "\<exists>p'. poll_remove_object obj p = Inr (object_key obj \<in> object_key ` set (pollobjects p), p') \<and> poll_ok p' \<and>
    poll_interest p' = (poll_interest p)(object_key obj := None) \<and> pollobjects p' = filter (\<lambda>x. object_key x \<noteq> object_key obj) (pollobjects p)"
proof (cases "object_key obj \<in> object_key ` set (pollobjects p)")
  case False
  then have "filter (\<lambda>x. object_key x \<noteq> object_key obj) (pollobjects p) = pollobjects p"
    by (intro filter_True ballI) (metis imageI)
  moreover have "(poll_interest p)(object_key obj := None) = poll_interest p"
    using False poll_interest_none [OF assms] by (simp add: fun_upd_idem)
  ultimately show ?thesis
    using assms False by (simp add: poll_remove_object_def find_object_none)
next
  case True
  let ?i = "find_object obj (pollobjects p)"
  let ?p = "p\<lparr> pollfds := take ?i (pollfds p) @ drop (?i + 1) (pollfds p), pollobjects := take ?i (pollobjects p) @ drop (?i + 1) (pollobjects p) \<rparr>"
  have i: "?i < length (pollobjects p)" "?i < length (pollfds p)"
    using True poll_ok_length [OF assms] by (simp_all add: find_object_less)
  then have "poll_remove_object obj p = Inr (True, ?p)"
    by (simp add: poll_remove_object_def erase_at_def Let_def)
  moreover have "pollobjects ?p = filter (\<lambda>x. object_key x \<noteq> object_key obj) (pollobjects p)"
    using assms i(1) erase_find [of "pollobjects p" obj] by (simp add: poll_ok_def)
  moreover have "poll_interest ?p = (poll_interest p)(object_key obj := None)"
    using map_of_zip_erase [of "map object_key (pollobjects p)" "map (\<lambda>f. (pfd_fd f, pfd_events f)) (pollfds p)" ?i]
      poll_ok_length [OF assms] find_object_found [OF i(1)] assms i
    by (simp add: poll_interest_def poll_ok_def take_map drop_map)
  moreover have "map pfd_fd (pollfds ?p) = map po_fd (pollobjects ?p)"
    using assms by (simp add: poll_ok_def take_map [symmetric] drop_map [symmetric])
  moreover have "distinct (map object_key (filter Q (pollobjects p)))" for Q
    using assms unfolding poll_ok_def by (blast intro: distinct_map_filter)
  ultimately show ?thesis
    using True unfolding poll_ok_def by (intro exI [of _ ?p]) simp
qed

text \<open>
  What is reported after a call that did not fail are the objects with something ready, in their order and
  with what is ready.
\<close>

lemma poll_reports:
  assumes "poll_ok p" "sys_poll (pollfds p) = (False, rs)" "length rs = length (pollfds p)"
  shows "\<exists>p'. poll_do_poll sys_poll p = Inr (map (\<lambda>(obj, r). obj\<lparr> po_mask := ushort r \<rparr>) (filter (\<lambda>(obj, r). r \<noteq> 0) (zip (pollobjects p) rs)), p') \<and>
    poll_ok p' \<and> poll_interest p' = poll_interest p"
proof -
  have reports: "map (\<lambda>(obj, f). obj\<lparr> po_mask := ushort (pfd_revents f) \<rparr>) (filter (\<lambda>(obj, f). pfd_revents f \<noteq> 0) (zip os (map2 (\<lambda>f r. f\<lparr> pfd_revents := r \<rparr>) fs rs))) =
      map (\<lambda>(obj, r). obj\<lparr> po_mask := ushort r \<rparr>) (filter (\<lambda>(obj, r). r \<noteq> 0) (zip os rs))"
    if "length fs = length os" "length rs = length fs" for os :: "poll_object list" and fs :: "pollfd list" and rs :: "int list"
    using that by (induction os fs arbitrary: rs rule: list_induct2') (auto simp: length_Suc_conv)
  have kept: "map g (map2 (\<lambda>f r. f\<lparr> pfd_revents := r \<rparr>) fs rs) = map g fs"
    if "length rs = length fs" "\<And>f r. g (f\<lparr> pfd_revents := r \<rparr>) = g f" for g :: "pollfd \<Rightarrow> 'b" and fs :: "pollfd list" and rs :: "int list"
    using that by (induction fs arbitrary: rs) (auto simp: length_Suc_conv)
  show ?thesis
    using assms reports [of "pollfds p" "pollobjects p" rs] kept [of rs "pollfds p" pfd_fd] kept [of rs "pollfds p" "\<lambda>f. (pfd_fd f, pfd_events f)"]
      poll_ok_length [OF assms(1)]
    by (simp add: poll_do_poll_def poll_ok_def poll_interest_def Let_def del: map_map)
qed

section \<open>The table for epoll\<close>

text \<open>
  An entry that is used has its own descriptor, and no object is there twice. The table follows the objects as long as the
  descriptor of an object and the object belong together while it is in the set: \<open>epoll_fits\<close>.
\<close>

definition epoll_ok :: "poll_object list \<Rightarrow> bool" where
  "epoll_ok table \<longleftrightarrow> (\<forall>d < length table. po_fd (table ! d) = - 1 \<or> po_fd (table ! d) = int d) \<and> distinct (map object_key (epoll_get_objects table))"

definition epoll_fits :: "poll_object \<Rightarrow> poll_object list \<Rightarrow> bool" where
  "epoll_fits obj table \<longleftrightarrow> 0 \<le> po_fd obj \<and> nat (po_fd obj) < length table \<and>
     (\<forall>x \<in> set (epoll_get_objects table). po_fd x = po_fd obj \<longleftrightarrow> object_key x = object_key obj)"

text \<open>The table around an entry.\<close>

lemma table_split:
  assumes "d < length table"
  shows "epoll_get_objects (table[d := x]) =
      epoll_get_objects (take d table) @ (if po_fd x \<noteq> - 1 then [x] else []) @ epoll_get_objects (drop (d + 1) table)"
    "epoll_get_objects table =
      epoll_get_objects (take d table) @ (if po_fd (table ! d) \<noteq> - 1 then [table ! d] else []) @ epoll_get_objects (drop (d + 1) table)"
proof -
  have "epoll_get_objects table = epoll_get_objects (take d table @ table ! d # drop (Suc d) table)"
    using id_take_nth_drop [OF assms] by (rule arg_cong)
  also have "\<dots> = epoll_get_objects (take d table) @ (if po_fd (table ! d) \<noteq> - 1 then [table ! d] else []) @ epoll_get_objects (drop (d + 1) table)"
    by (simp add: epoll_get_objects_def)
  finally show "epoll_get_objects table =
      epoll_get_objects (take d table) @ (if po_fd (table ! d) \<noteq> - 1 then [table ! d] else []) @ epoll_get_objects (drop (d + 1) table)" .
qed (simp add: epoll_get_objects_def upd_conv_take_nth_drop [OF assms])

text \<open>The entry of a descriptor is used just when the object of the descriptor is in the set.\<close>

lemma epoll_entry_fits:
  assumes "epoll_ok table" "epoll_fits obj table"
  shows "epoll_entry (po_fd obj) table = Inr (table ! nat (po_fd obj))"
    "po_fd (table ! nat (po_fd obj)) \<noteq> - 1 \<longleftrightarrow> object_key obj \<in> object_key ` set (epoll_get_objects table)"
    "po_fd (table ! nat (po_fd obj)) \<noteq> - 1 \<Longrightarrow> object_key (table ! nat (po_fd obj)) = object_key obj"
proof -
  let ?d = "nat (po_fd obj)"
  have d: "0 \<le> po_fd obj" "?d < length table"
    using assms(2) by (simp_all add: epoll_fits_def)
  then show "epoll_entry (po_fd obj) table = Inr (table ! ?d)"
    by (simp add: epoll_entry_def index_cxx_def)
  show key: "object_key (table ! ?d) = object_key obj" if "po_fd (table ! ?d) \<noteq> - 1"
  proof -
    have "table ! ?d \<in> set (epoll_get_objects table)" "po_fd (table ! ?d) = po_fd obj"
      using that d assms(1) by (auto simp: epoll_get_objects_def epoll_ok_def)
    then show ?thesis
      using assms(2) by (simp add: epoll_fits_def)
  qed
  have "po_fd (table ! ?d) \<noteq> - 1" if x: "x \<in> set (epoll_get_objects table)" "object_key x = object_key obj" for x
  proof -
    have "po_fd x = po_fd obj"
      using x assms(2) by (simp add: epoll_fits_def)
    moreover obtain i where "i < length table" "x = table ! i" "po_fd x \<noteq> - 1"
      using x(1) by (auto simp: epoll_get_objects_def in_set_conv_nth)
    ultimately have "int i = po_fd obj"
      using assms(1) unfolding epoll_ok_def by metis
    with \<open>x = table ! i\<close> \<open>po_fd x \<noteq> - 1\<close> show ?thesis
      by (metis nat_int)
  qed
  moreover have "table ! ?d \<in> set (epoll_get_objects table)" if "po_fd (table ! ?d) \<noteq> - 1"
    using that d by (simp add: epoll_get_objects_def)
  ultimately show "po_fd (table ! ?d) \<noteq> - 1 \<longleftrightarrow> object_key obj \<in> object_key ` set (epoll_get_objects table)"
    using key by (metis imageE imageI)
qed

lemma epoll_add_ok:
  assumes "epoll_ok table" "epoll_fits obj table"
  shows "\<exists>ok table' w'. epoll_add_object ctl obj events table w = Inr (ok, table', w') \<and> epoll_ok table' \<and>
    object_key ` set (epoll_get_objects table') = insert (object_key obj) (object_key ` set (epoll_get_objects table))"
proof (cases "po_fd (table ! nat (po_fd obj)) = - 1")
  case True
  let ?t = "table[nat (po_fd obj) := obj]"
  have d: "nat (po_fd obj) < length table" "0 \<le> po_fd obj"
    using assms(2) by (simp_all add: epoll_fits_def)
  have new: "object_key obj \<notin> object_key ` set (epoll_get_objects table)"
    using epoll_entry_fits(2) [OF assms] True by simp
  have "po_fd (?t ! i) = - 1 \<or> po_fd (?t ! i) = int i" if "i < length ?t" for i
    using that assms(1) d by (auto simp: epoll_ok_def nth_list_update)
  moreover have "distinct (map object_key (epoll_get_objects ?t))"
    using assms(1) new d True unfolding epoll_ok_def table_split [OF d(1)] by auto
  moreover have "object_key ` set (epoll_get_objects ?t) = insert (object_key obj) (object_key ` set (epoll_get_objects table))"
    using d True unfolding table_split [OF d(1)] by auto
  ultimately show ?thesis
    using epoll_entry_fits(1) [OF assms] True by (simp add: epoll_add_object_def epoll_ok_def case_prod_beta)
next
  case False
  then show ?thesis
    using epoll_entry_fits [OF assms] assms(1) by (simp add: epoll_add_object_def case_prod_beta insert_absorb)
qed

lemma epoll_remove_ok:
  assumes "epoll_ok table" "epoll_fits obj table"
  shows "\<exists>ok table' w'. epoll_remove_object ctl obj table w = Inr (ok, table', w') \<and> epoll_ok table' \<and>
    (ok \<longleftrightarrow> object_key obj \<in> object_key ` set (epoll_get_objects table) \<and> fst (ctl EPOLL_CTL_DEL (po_fd obj) 0 w)) \<and>
    object_key ` set (epoll_get_objects table') = object_key ` set (epoll_get_objects table) - (if ok then {object_key obj} else {})"
proof (cases "po_fd (table ! nat (po_fd obj)) \<noteq> - 1 \<and> fst (ctl EPOLL_CTL_DEL (po_fd obj) 0 w)")
  case True
  let ?t = "table[nat (po_fd obj) := no_object]"
  have d: "nat (po_fd obj) < length table" "0 \<le> po_fd obj"
    using assms(2) by (simp_all add: epoll_fits_def)
  have old: "object_key obj \<in> object_key ` set (epoll_get_objects table)" "object_key (table ! nat (po_fd obj)) = object_key obj"
    using epoll_entry_fits(2,3) [OF assms] True by simp_all
  have none: "po_fd no_object = - 1"
    by (simp add: no_object_def)
  have "po_fd (?t ! i) = - 1 \<or> po_fd (?t ! i) = int i" if "i < length ?t" for i
    using that assms(1) d none by (simp add: epoll_ok_def nth_list_update)
  moreover have "distinct (map object_key (epoll_get_objects ?t))"
    using assms(1) True none unfolding epoll_ok_def table_split [OF d(1)] by simp
  moreover have "object_key ` set (epoll_get_objects ?t) = object_key ` set (epoll_get_objects table) - {object_key obj}"
    using assms(1) True none old(2) unfolding epoll_ok_def table_split [OF d(1)] by auto
  ultimately show ?thesis
    using epoll_entry_fits(1) [OF assms] True old by (auto simp: epoll_remove_object_def epoll_ok_def case_prod_beta Let_def)
next
  case False
  then show ?thesis
    using epoll_entry_fits(1,2) [OF assms] assms(1) by (auto simp: epoll_remove_object_def case_prod_beta Let_def)
qed

text \<open>
  An object that is added with the descriptor of one that is still in the table is not stored: the events of
  the descriptor go to the old object.
\<close>

lemma epoll_add_stale:
  assumes "0 \<le> po_fd obj" "nat (po_fd obj) < length table" "po_fd (table ! nat (po_fd obj)) \<noteq> - 1" "ctl EPOLL_CTL_MOD (po_fd obj) events w = (ok, w1)"
  shows "epoll_add_object ctl obj events table w = Inr (ok, table, w1)"
    "epoll_do_poll (Some [(po_fd obj, ready)]) table = Inr [(table ! nat (po_fd obj))\<lparr> po_mask := ushort ready \<rparr>]"
  using assms by (simp_all add: epoll_add_object_def epoll_entry_def index_cxx_def)

section \<open>The list of connections of a thread\<close>

text \<open>The connections that a thread waits for, in the model of the server and in a pollset.\<close>

definition thread_polls :: "nat \<Rightarrow> ('h, 'w) net \<Rightarrow> nat list" where
  "thread_polls t s = map snd (filter (\<lambda>(u, i). u = t) (polls (net_state s)))"

definition object_conns :: "nat \<Rightarrow> poll_object list \<Rightarrow> nat list" where
  "object_conns ty os = map po_ptr (filter (\<lambda>x. po_type x = ty) os)"

lemma thread_polls_remove: "thread_polls t (remove_events t i s) = remove1 i (thread_polls t s)"
proof -
  have "map snd (filter (\<lambda>(u, i). u = t) (remove1 (t, i) xs)) = remove1 i (map snd (filter (\<lambda>(u, i). u = t) xs))" for xs :: "(nat \<times> nat) list"
    by (induction xs) auto
  then show ?thesis
    by (simp add: thread_polls_def remove_events_def)
qed

lemma thread_polls_add: "thread_polls t (add_events t i s) = (if i \<in> set (thread_polls t s) then thread_polls t s else thread_polls t s @ [i])"
  by (force simp: thread_polls_def add_events_def)

lemma object_conns_distinct: "distinct (map object_key os) \<Longrightarrow> distinct (object_conns ty os)"
  by (induction os) (auto simp: object_conns_def object_key_def image_iff)

lemma object_key_type: "po_type obj = ty \<Longrightarrow> object_key obj = (po_ptr obj, ty)"
  by (simp add: object_key_def)

lemma object_conns_member: "i \<in> set (object_conns ty os) \<longleftrightarrow> (i, ty) \<in> object_key ` set os"
  by (auto simp: object_conns_def object_key_def image_iff)

lemma object_conns_removed:
  assumes "distinct (map object_key os)" "po_type obj = ty"
  shows "object_conns ty (filter (\<lambda>x. object_key x \<noteq> object_key obj) os) = remove1 (po_ptr obj) (object_conns ty os)"
proof -
  have "object_conns ty (filter (\<lambda>x. object_key x \<noteq> object_key obj) os) = filter (\<lambda>i. po_ptr obj \<noteq> i) (object_conns ty os)"
    using assms(2) by (induction os) (auto simp: object_conns_def object_key_def)
  then show ?thesis
    using object_conns_distinct [OF assms(1), of ty] by (simp add: distinct_remove1_removeAll removeAll_filter_not_eq)
qed

text \<open>
  What a thread relies on in a class of pollsets: an object that fits the set is there after it was added,
  and is gone when it was removed; nothing else changes.
\<close>

locale pollset_class =
  fixes inv :: "'p \<Rightarrow> bool"
    and fits :: "poll_object \<Rightarrow> 'p \<Rightarrow> bool"
    and get_objects :: "'p \<Rightarrow> poll_object list"
    and add_object :: "poll_object \<Rightarrow> int \<Rightarrow> 'p \<Rightarrow> (bool \<times> 'p) cxx"
    and remove_object :: "poll_object \<Rightarrow> 'p \<Rightarrow> (bool \<times> 'p) cxx"
  assumes objects_distinct: "inv p \<Longrightarrow> distinct (map object_key (get_objects p))"
    and object_added: "inv p \<Longrightarrow> fits obj p \<Longrightarrow>
      \<exists>r p'. add_object obj events p = Inr (r, p') \<and> inv p' \<and>
        object_key ` set (get_objects p') = insert (object_key obj) (object_key ` set (get_objects p))"
    and object_removed: "inv p \<Longrightarrow> fits obj p \<Longrightarrow>
      \<exists>r p'. remove_object obj p = Inr (r, p') \<and> inv p' \<and>
        object_key ` set (get_objects p') = object_key ` set (get_objects p) - (if r then {object_key obj} else {})"
begin

definition waits_for :: "nat \<Rightarrow> nat \<Rightarrow> ('h, 'w) net \<Rightarrow> 'p \<Rightarrow> bool" where
  "waits_for ty t s p \<longleftrightarrow> mset (object_conns ty (get_objects p)) = mset (thread_polls t s)"

lemma waits_forI:
  assumes "inv p" "distinct (thread_polls t s)" "\<And>i. (i, ty) \<in> object_key ` set (get_objects p) \<longleftrightarrow> i \<in> set (thread_polls t s)"
  shows "waits_for ty t s p"
proof -
  have "set (object_conns ty (get_objects p)) = set (thread_polls t s)"
    using assms(3) by (auto simp: object_conns_member)
  then show ?thesis
    using set_eq_iff_mset_eq_distinct object_conns_distinct [OF objects_distinct [OF assms(1)]] assms(2) unfolding waits_for_def by blast
qed

lemma waits_forD:
  assumes "inv p" "waits_for ty t s p"
  shows "distinct (thread_polls t s)" "(i, ty) \<in> object_key ` set (get_objects p) \<longleftrightarrow> i \<in> set (thread_polls t s)"
  using assms object_conns_distinct [OF objects_distinct [OF assms(1)], of ty] mset_eq_imp_distinct_iff mset_eq_setD
  unfolding waits_for_def object_conns_member [symmetric] by blast+

lemma add_waits:
  assumes "inv p" "fits obj p" "waits_for ty t s p" "po_type obj = ty"
  shows "\<exists>r p'. add_object obj events p = Inr (r, p') \<and> inv p' \<and> waits_for ty t (add_events t (po_ptr obj) s) p'"
proof -
  obtain r p' where p': "add_object obj events p = Inr (r, p')" "inv p'"
      "object_key ` set (get_objects p') = insert (object_key obj) (object_key ` set (get_objects p))"
    using object_added [OF assms(1,2)] by blast
  have "waits_for ty t (add_events t (po_ptr obj) s) p'"
    using waits_forD [OF assms(1,3)] by (intro waits_forI) (auto simp: p' thread_polls_add object_key_type [OF assms(4)])
  with p' show ?thesis
    by blast
qed

lemma remove_waits:
  assumes "inv p" "fits obj p" "waits_for ty t s p" "po_type obj = ty"
  shows "\<exists>r p'. remove_object obj p = Inr (r, p') \<and> inv p' \<and> waits_for ty t (if r then remove_events t (po_ptr obj) s else s) p'"
proof -
  obtain r p' where p': "remove_object obj p = Inr (r, p')" "inv p'"
      "object_key ` set (get_objects p') = object_key ` set (get_objects p) - (if r then {object_key obj} else {})"
    using object_removed [OF assms(1,2)] by blast
  have "waits_for ty t (if r then remove_events t (po_ptr obj) s else s) p'"
    using waits_forD [OF assms(1,3)] by (intro waits_forI) (auto simp: p' thread_polls_remove object_key_type [OF assms(4)])
  with p' show ?thesis
    by blast
qed

end

interpretation polls: pollset_class poll_ok "\<lambda>obj p. True" pollobjects poll_add_object poll_remove_object
proof (unfold_locales, goal_cases)
  case (1 p)
  then show ?case
    by (simp add: poll_ok_def)
next
  case (2 p obj events)
  obtain p' where p': "poll_add_object obj events p = Inr (True, p')" "poll_ok p'"
      "pollobjects p' = (if object_key obj \<in> object_key ` set (pollobjects p) then pollobjects p else pollobjects p @ [obj])"
    using poll_add_ok [OF 2(1)] by blast
  then have "object_key ` set (pollobjects p') = insert (object_key obj) (object_key ` set (pollobjects p))"
    by (simp add: insert_absorb)
  with p'(1,2) show ?case
    by blast
next
  case (3 p obj)
  obtain p' where p': "poll_remove_object obj p = Inr (object_key obj \<in> object_key ` set (pollobjects p), p')" "poll_ok p'"
      "pollobjects p' = filter (\<lambda>x. object_key x \<noteq> object_key obj) (pollobjects p)"
    using poll_remove_ok [OF 3(1)] by blast
  then have "object_key ` set (pollobjects p') = object_key ` set (pollobjects p) - {object_key obj}"
    by auto
  with p'(1,2) show ?case
    by (intro exI conjI) auto
qed

interpretation epolls: pollset_class "\<lambda>(table, w). epoll_ok table" "\<lambda>obj (table, w). epoll_fits obj table" "\<lambda>(table, w). epoll_get_objects table"
  "\<lambda>obj events (table, w). epoll_add_object ctl obj events table w" "\<lambda>obj (table, w). epoll_remove_object ctl obj table w" for ctl
proof (unfold_locales, goal_cases)
  case (1 p)
  then show ?case
    by (auto simp: epoll_ok_def)
next
  case (2 p obj events)
  obtain table w where "p = (table, w)"
    by fastforce
  with 2 show ?case
    using epoll_add_ok [of table obj ctl events w] by simp
next
  case (3 p obj)
  obtain table w where p: "p = (table, w)"
    by fastforce
  with 3 obtain ok table' w' where "epoll_remove_object ctl obj table w = Inr (ok, table', w')" "epoll_ok table'"
      "object_key ` set (epoll_get_objects table') = object_key ` set (epoll_get_objects table) - (if ok then {object_key obj} else {})"
    using epoll_remove_ok [of table obj ctl w] by auto
  then show ?case
    unfolding p by (intro exI [of _ ok] exI [of _ "(table', w')"]) simp
qed

text \<open>
  C16. A thread's pollset with connections of one type in it and the list of connections that the model of
  the server has for the thread stay the same, whether a connection that is added or removed is there or
  not. The class for poll: its arrays keep the descriptors of the objects at the objects' places, the
  objects stay in the order of the list, what is asked for changes for the added or removed object alone,
  and removing says whether the object was there. The class for epoll, where an object and its descriptor
  have to belong together while it is in the set: its table has the same connections, also when the system
  call fails as one is added; one that is removed stays when the system call fails.
\<close>

theorem pollset_simulates:
  assumes "po_type obj = ty"
  shows "(poll_ok p \<and> object_conns ty (pollobjects p) = thread_polls t s \<longrightarrow>
      (\<exists>p'. poll_add_object obj events p = Inr (True, p') \<and> poll_ok p' \<and> poll_interest p' = interest_added obj events (poll_interest p) \<and>
        object_conns ty (pollobjects p') = thread_polls t (add_events t (po_ptr obj) s)) \<and>
      (\<exists>p'. poll_remove_object obj p = Inr (po_ptr obj \<in> set (thread_polls t s), p') \<and> poll_ok p' \<and>
        poll_interest p' = (poll_interest p)(object_key obj := None) \<and>
        object_conns ty (pollobjects p') = thread_polls t (remove_events t (po_ptr obj) s))) \<and>
    (epoll_ok table \<and> epoll_fits obj table \<and> mset (object_conns ty (epoll_get_objects table)) = mset (thread_polls t s) \<longrightarrow>
      (\<exists>ok table' w'. epoll_add_object ctl obj events table w = Inr (ok, table', w') \<and> epoll_ok table' \<and>
        mset (object_conns ty (epoll_get_objects table')) = mset (thread_polls t (add_events t (po_ptr obj) s))) \<and>
      (\<exists>ok table' w'. epoll_remove_object ctl obj table w = Inr (ok, table', w') \<and> epoll_ok table' \<and>
        (ok \<longleftrightarrow> po_ptr obj \<in> set (thread_polls t s) \<and> fst (ctl EPOLL_CTL_DEL (po_fd obj) 0 w)) \<and>
        mset (object_conns ty (epoll_get_objects table')) = mset (thread_polls t (if ok then remove_events t (po_ptr obj) s else s))))"
proof (intro conjI impI; elim conjE)
  assume p: "poll_ok p" "object_conns ty (pollobjects p) = thread_polls t s"
  have mem: "object_key obj \<in> object_key ` set (pollobjects p) \<longleftrightarrow> po_ptr obj \<in> set (thread_polls t s)"
    unfolding p(2) [symmetric] object_conns_member using assms by (simp add: object_key_def)
  show "\<exists>p'. poll_add_object obj events p = Inr (True, p') \<and> poll_ok p' \<and> poll_interest p' = interest_added obj events (poll_interest p) \<and>
      object_conns ty (pollobjects p') = thread_polls t (add_events t (po_ptr obj) s)"
    using poll_add_ok [OF p(1), of obj events] p(2) assms
    by (auto simp: mem thread_polls_add object_conns_def)
  have "distinct (map object_key (pollobjects p))"
    using p(1) by (simp add: poll_ok_def)
  from object_conns_removed [OF this assms] show "\<exists>p'. poll_remove_object obj p = Inr (po_ptr obj \<in> set (thread_polls t s), p') \<and> poll_ok p' \<and>
      poll_interest p' = (poll_interest p)(object_key obj := None) \<and> object_conns ty (pollobjects p') = thread_polls t (remove_events t (po_ptr obj) s)"
    using poll_remove_ok [OF p(1), of obj] p(2) by (auto simp: mem thread_polls_remove)
next
  assume e: "epoll_ok table" "epoll_fits obj table" "mset (object_conns ty (epoll_get_objects table)) = mset (thread_polls t s)"
  then have w: "epolls.waits_for ty t s (table, w)"
    by (simp add: epolls.waits_for_def)
  show "\<exists>ok table' w'. epoll_add_object ctl obj events table w = Inr (ok, table', w') \<and> epoll_ok table' \<and>
      mset (object_conns ty (epoll_get_objects table')) = mset (thread_polls t (add_events t (po_ptr obj) s))"
    using epolls.add_waits [of "(table, w)" obj ty t s ctl events] e w assms by (auto simp: epolls.waits_for_def)
  have "object_key obj \<in> object_key ` set (epoll_get_objects table) \<longleftrightarrow> po_ptr obj \<in> set (thread_polls t s)"
    using epolls.waits_forD(2) [of "(table, w)" ty t s "po_ptr obj"] e w assms by (simp add: object_key_def)
  then show "\<exists>ok table' w'. epoll_remove_object ctl obj table w = Inr (ok, table', w') \<and> epoll_ok table' \<and>
      (ok \<longleftrightarrow> po_ptr obj \<in> set (thread_polls t s) \<and> fst (ctl EPOLL_CTL_DEL (po_fd obj) 0 w)) \<and>
      mset (object_conns ty (epoll_get_objects table')) = mset (thread_polls t (if ok then remove_events t (po_ptr obj) s else s))"
    using epolls.remove_waits [of "(table, w)" obj ty t s ctl] epoll_remove_ok [OF e(1,2), of ctl w] e w assms by (auto simp: epolls.waits_for_def)
qed

definition sample_object :: "nat \<Rightarrow> int \<Rightarrow> nat \<Rightarrow> poll_object" where
  "sample_object ptr desc ty = \<lparr> po_ptr = ptr, po_fd = desc, po_type = ty, po_mask = 0 \<rparr>"

definition sample_pollfd :: "int \<Rightarrow> int \<Rightarrow> pollfd" where
  "sample_pollfd desc events = \<lparr> pfd_fd = desc, pfd_events = events, pfd_revents = 0 \<rparr>"

text \<open>A thread that waits for the connections 0 and 1: connection 1 is removed from the arrays, and from the table by a call that works.\<close>

theorem pollset_simulates_witness:
  "(\<exists>p'. poll_remove_object (sample_object 1 2 3)
       \<lparr> pollfds = [sample_pollfd 4 1, sample_pollfd 3 1, sample_pollfd 2 5], pollobjects = [sample_object 0 4 3, sample_object 1 3 0, sample_object 1 2 3] \<rparr> =
       Inr (True, p') \<and> map pfd_fd (pollfds p') = map po_fd (pollobjects p') \<and> poll_interest p' (0, 3) = Some (4, 1) \<and>
     poll_interest p' (1, 3) = None \<and> object_conns 3 (pollobjects p') = [0]) \<and>
   (\<exists>table' w'. epoll_remove_object (\<lambda>oper desc events w. (True, w)) (sample_object 1 2 3)
       [no_object, no_object, sample_object 1 2 3, sample_object 1 3 0, sample_object 0 4 3] () = Inr (True, table', w') \<and>
     mset (object_conns 3 (epoll_get_objects table')) = {#0#})"
proof -
  let ?p = "\<lparr> pollfds = [sample_pollfd 4 1, sample_pollfd 3 1, sample_pollfd 2 5], pollobjects = [sample_object 0 4 3, sample_object 1 3 0, sample_object 1 2 3] \<rparr>"
  let ?e = "[no_object, no_object, sample_object 1 2 3, sample_object 1 3 0, sample_object 0 4 3]"
  let ?s = "\<lparr> boxes = [], net_state = \<lparr> pool = \<lparr> connections_all = [], connections_free = [] \<rparr>, stats = zero_stats, polls = [(2, 0), (1, 1), (2, 1)],
      threads = new_engine, access_log_lines = [], world = () \<rparr> \<rparr> :: (unit, unit) net"
  let ?ctl = "\<lambda>(oper :: epoll_op) (desc :: int) (events :: int) (w :: unit). (True, w)"
  have s: "thread_polls 2 ?s = [0, 1]" "thread_polls 2 (remove_events 2 1 ?s) = [0]"
    by (simp_all add: thread_polls_def remove_events_def)
  have p: "poll_ok ?p" "object_conns 3 (pollobjects ?p) = [0, 1]" "poll_interest ?p (0, 3) = Some (4, 1)"
    by (simp_all add: poll_ok_def object_conns_def object_key_def sample_object_def sample_pollfd_def poll_interest_def)
  have "\<forall>d < 5. po_fd (?e ! d) = - 1 \<or> po_fd (?e ! d) = int d"
    by (simp add: All_less_Suc numeral_eq_Suc no_object_def sample_object_def)
  then have e: "epoll_ok ?e" "epoll_fits (sample_object 1 2 3) ?e" "mset (object_conns 3 (epoll_get_objects ?e)) = mset [0, 1]"
    by (simp_all add: epoll_ok_def epoll_fits_def object_conns_def object_key_def sample_object_def no_object_def epoll_get_objects_def)
  have o: "po_type (sample_object 1 2 3) = 3" "po_ptr (sample_object 1 2 3) = 1" "object_key (sample_object 1 2 3) = (1, 3)"
    by (simp_all add: sample_object_def object_key_def)
  note sim = pollset_simulates [OF o(1), of ?p 2 ?s 0 ?e ?ctl "()", unfolded o s]
  obtain p' where "poll_remove_object (sample_object 1 2 3) ?p = Inr (True, p')" "poll_ok p'" "poll_interest p' = (poll_interest ?p)((1, 3) := None)"
      "object_conns 3 (pollobjects p') = [0]"
    using sim p(1,2) by auto
  moreover obtain table' w' where "epoll_remove_object ?ctl (sample_object 1 2 3) ?e () = Inr (True, table', w')"
      "mset (object_conns 3 (epoll_get_objects table')) = mset [0]"
    using sim e s(2) by auto
  ultimately show ?thesis
    using p(3) by (auto simp: poll_ok_def)
qed

end
