(* ===== verification/Spec2Isabelle.thy ===== *)
theory Spec2Isabelle
  imports Bits Hex Base64 Trie Http_Common Url Queue_Atomic Io_Ring Http_Message Http_Date Http_Constants Config Http_Location Server_Runs Client_Requests Log_Thread Pollset
begin

text \<open>
  \<^bold>\<open>Latypus: an HTTP server and client in C++.\<close>

  The program reads a configuration file, starts threads with roles, and passes connections between the
  threads in messages. A connection is accepted by a listener, its request head is read and parsed by a
  router, its request is answered by a handler in a worker, and between requests it waits in a keepalive
  thread. Below this are the classes of messages, buffers, sockets and addresses, and the small libraries
  for text, bits and queues. The paths in these theories are relative to the directory \<^verbatim>\<open>src\<close> of the
  repository.

  \<^bold>\<open>How C++ is modelled.\<close> (\<^verbatim>\<open>Latypus_Prelude\<close>, \<^verbatim>\<open>Cxx_Text\<close>) Integers with a width are words where
  wrap-around matters and \<open>int\<close> or \<open>nat\<close> where the source stays in range. An operation that may access
  memory out of bounds, follow a null pointer, fail an assertion or have no defined result returns
  \<open>'a cxx\<close>, a sum with the error on the left, so that every such access is a branch of the model and
  "does not happen" is a theorem. Functions that may also stop the program with a message return
  \<open>'a conf\<close> (\<^verbatim>\<open>Config_Parser\<close>), whose errors are those and \<^verbatim>\<open>log_fatal_exit\<close>. C strings are lists of
  characters with what follows the terminator cut off by \<open>c_str\<close>; buffers that pointers point into are
  lists with offsets. System calls, the TLS library, the functions of an application and the clock are
  parameters; what is needed of them are the assumptions of locales or hypotheses of theorems, and each
  such theorem has an instance in which they hold. Loops are recursive functions with a termination
  proof; the generated parsers have a fuel that is shown to be enough. The loops of \<^verbatim>\<open>base64.cc\<close>, whose 32-bit counters may
  wrap before the end, have one step more than the input has bytes as fuel, and running out of it is the value \<open>None\<close>: shown not
  to happen below the bound, and to happen for an input of \<open>2 ^ 32\<close> bytes with room for the output.

  \<^bold>\<open>The libraries.\<close>
  \<^item> \<^verbatim>\<open>Bits\<close> (\<^verbatim>\<open>bits.h\<close>): overflow tests, bit counts and rounding, shown exact; the GCC variants agree with
    the portable ones.
  \<^item> \<^verbatim>\<open>Hex\<close>, \<^verbatim>\<open>Base64\<close> (\<^verbatim>\<open>hex.cc\<close>, \<^verbatim>\<open>base64.cc\<close>): encoders and decoders with the bounds of their buffers, and
    their round trips.
  \<^item> \<^verbatim>\<open>Url\<close> (\<^verbatim>\<open>url.cc\<close>): parsing and printing of URLs with a round trip.
  \<^item> \<^verbatim>\<open>Trie\<close> (\<^verbatim>\<open>trie.h\<close>): the trie of location prefixes; it implements the locale of maps with a search for the
    longest prefix.
  \<^item> \<^verbatim>\<open>Queue_Atomic\<close> (\<^verbatim>\<open>queue_atomic.h\<close>): the lock-free queue, as operations of one thread, which refine a
    bounded list, and as steps of threads that may be interleaved in any order: with one producer and one
    consumer it is a queue, with two consumers it is not.
  \<^item> \<^verbatim>\<open>Io_Buffer\<close>, \<^verbatim>\<open>Io_Ring\<close> (\<^verbatim>\<open>io.h\<close>, \<^verbatim>\<open>io.cc\<close>): results, files, the linear buffer, the buffered reader and writer,
    and the ring buffer, with what they keep of the bytes; the buffered reader delivers one bufferful. The locales are those of readers and writers.
  \<^item> \<^verbatim>\<open>Http_Common\<close> (\<^verbatim>\<open>http_common.cc\<close>): the order of header names and \<^verbatim>\<open>sanitize_path\<close>, which leaves no way out of a
    directory; a dot as the last component stays.
  \<^item> \<^verbatim>\<open>Http_Constants\<close> (\<^verbatim>\<open>http_constants.cc\<close>): the tables of names, their initialisation and lookups.

  \<^bold>\<open>The generated parsers.\<close> \<^verbatim>\<open>Ragel\<close> has the search in the tables of a machine that Ragel generated and what
  makes the tables safe, a condition that the simplifier checks on the tables of a machine. \<^verbatim>\<open>Http_Parser\<close>
  (\<^verbatim>\<open>http_parser.cc\<close>), \<^verbatim>\<open>Http_Date\<close> (\<^verbatim>\<open>http_date.cc\<close>) and \<^verbatim>\<open>Config_Parser\<close> (\<^verbatim>\<open>config_parser.cc\<close>) have the tables and the
  loops of the three machines. The loop takes at most a fixed number of steps per character, which is the
  fuel. For the parser of heads, a table of what each state knows about the marks of the parser is checked
  against all transitions: every callback gets a part of the text, and parsing in pieces is parsing at once.

  \<^bold>\<open>Messages and configuration.\<close>
  \<^item> \<^verbatim>\<open>Http_Message\<close> (\<^verbatim>\<open>http_request.cc\<close>, \<^verbatim>\<open>http_response.cc\<close>): the store of strings in a header buffer, header fields
    in order with a map of names, joining of repeated fields, and the printers. The invariant is kept by
    every callback of the parser, and the fields refine an association list.
  \<^item> \<^verbatim>\<open>Socket_Addr\<close> (\<^verbatim>\<open>socket.cc\<close>): addresses and their text.
  \<^item> \<^verbatim>\<open>Config\<close> (\<^verbatim>\<open>config.cc\<close> and the configuration in \<^verbatim>\<open>http_server.cc\<close>): the directives and blocks with their tests,
    and what an accepted file has made of the configuration.

  \<^bold>\<open>Threads and connections.\<close>
  \<^item> \<^verbatim>\<open>Protocol\<close> (\<^verbatim>\<open>protocol.cc\<close>, \<^verbatim>\<open>protocol_thread.cc\<close>, \<^verbatim>\<open>protocol_engine.cc\<close>, \<^verbatim>\<open>protocol_connection.h\<close>): the registries of roles,
    actions and states, the text of roles, the choice of a thread in turn, the mailboxes and the table of
    connections.
  \<^item> \<^verbatim>\<open>Connection\<close> (\<^verbatim>\<open>connection.cc\<close>, \<^verbatim>\<open>socket_tcp.cc\<close>, \<^verbatim>\<open>socket_tls.cc\<close>): a connection with its socket and descriptor.

  \<^bold>\<open>The server.\<close>
  \<^item> \<^verbatim>\<open>Http_Location\<close>: the defaults, \<^verbatim>\<open>engine_init\<close> with its tables and log threads, and how a request is translated to
    a path.
  \<^item> \<^verbatim>\<open>Http_Server\<close>: the states of a connection, the messages, the events and the statistics, one definition
    for each function of \<^verbatim>\<open>http_server.cc\<close>; a class of handlers is a record of its virtual functions. A run
    is a list of events with the thread that gets them, in any order.
  \<^item> \<^verbatim>\<open>Server_Ownership\<close>, \<^verbatim>\<open>Server_Steps\<close>: the locale \<open>http_server_parts\<close> says what is needed of handlers,
    configuration and system, and under it every event moves a connection from one place to another.
  \<^item> \<^verbatim>\<open>Http_Handlers\<close> (\<^verbatim>\<open>http_server_handler_file.cc\<close>, \<^verbatim>\<open>_func.cc\<close>, \<^verbatim>\<open>_stats.cc\<close>): the three classes of handlers, with what the
    handler for files answers.
  \<^item> \<^verbatim>\<open>Response_Size\<close>, \<^verbatim>\<open>Server_Runs\<close>: the head of a response of these handlers fits into the buffer, so that
    the locale holds for them, and the runs of the server keep one owner for each connection.

  \<^bold>\<open>The client.\<close>
  \<^item> \<^verbatim>\<open>Http_Client\<close> (\<^verbatim>\<open>http_client.cc\<close>, \<^verbatim>\<open>resolver.cc\<close>): submitting requests, the connections of a host, connecting, and
    the states, messages and events of a connection with its list of requests.
  \<^item> \<^verbatim>\<open>Http_Client_File\<close> (\<^verbatim>\<open>http_client_handler_file.cc\<close>): the handler that writes a body to a file; a body of the
    announced length is read to its end and arrives completely and in order when the file takes every write
    whole; the theory also shows what a short write loses and where the end is missed.
  \<^item> \<^verbatim>\<open>Client_Requests\<close>: the head that is sent, the order of the requests of a connection, and what becomes of
    requests that are left behind.

  \<^bold>\<open>Logging and waiting.\<close>
  \<^item> \<^verbatim>\<open>Log_Thread\<close> (\<^verbatim>\<open>log_thread.cc\<close>): the buffers that go round between two atomic queues, refining a list of
    lines that wait.
  \<^item> \<^verbatim>\<open>Pollset\<close> (\<^verbatim>\<open>pollset_poll.cc\<close>, \<^verbatim>\<open>pollset_epoll.cc\<close>): the sets of objects that threads wait for; both classes
    fulfil the locale \<open>pollset_class\<close> and simulate the list that the model of the server has.

  \<^bold>\<open>Bounds.\<close> The buffers have the sizes of the configuration. That heads of responses fit is shown for the
  default sizes and for handlers whose texts are those of the program. The ring buffer of a connection has
  a size below \<open>2 ^ 62\<close>, times are from 1970 to 9999 where a date is printed, and the queue has a size that
  is a power of two up to \<open>2 ^ 47\<close> and offsets that have not wrapped at \<open>2 ^ 48\<close>. The round trip of \<^verbatim>\<open>Base64\<close> is
  for texts below \<open>2 ^ 31\<close> characters, since its counters have 32 bits. \<^verbatim>\<open>Log_Thread\<close> is about calls that do not overlap in
  time. The masks of roles are in one table, those of the client before those of the server. Sizes of the
  configuration are converted to \<^verbatim>\<open>size_t\<close>, so that a negative one stops the start of the server. A function that an application binds
  to a location reads the connection and does not change it.

  \<^bold>\<open>Not modelled.\<close> What only calls the system or a library: signals, starting and joining threads, TLS
  contexts and sessions (\<^verbatim>\<open>http_tls_shared.cc\<close>), the poll set for kqueue, network devices, processor and
  operating-system information, seeds, the output of \<^verbatim>\<open>log.cc\<close>, and the sockets for datagrams and between processes, whose
  sends and receives are parameters of \<^verbatim>\<open>Protocol\<close>. Debug output has no effect on the state and is left out.
  The masks of interest of a pollset are left out of the server and the client: a thread may be told of any event on a connection it waits
  for. The database classes are not connected to the server; their parser of SQL is generated code of nine
  thousand lines of jumps without tables.
\<close>

end
